(* ===== verification/Orbital_Prelude.thy ===== *)
theory Orbital_Prelude
  imports Main "HOL-Library.AList" "HOL-Library.Multiset"
begin

text \<open>
  Shared vocabulary of the development: the parts of the TypeScript standard library that the
  components use (\<open>Map\<close>, \<open>Array.prototype.slice\<close>, \<open>Number.isSafeInteger\<close>, template strings over
  integers, \<open>String.prototype.includes\<close>, \<open>toLowerCase\<close>, \<open>trim\<close>), results of fallible code, and the
  generic lemmas the component theories rely on.

  A TypeScript \<open>Map\<close> iterates in insertion order, and \<open>set\<close> on a present key keeps the position
  of that key. \<^const>\<open>AList.update\<close> has exactly this behaviour, so a \<open>Map\<close> is an association list
  with distinct keys, \<open>get\<close> is \<^const>\<open>map_of\<close> and \<open>delete\<close> is \<^const>\<open>AList.delete\<close>.
\<close>

named_theorems js_map_simps \<open>lookup after an update or a deletion of a Map\<close>
named_theorems step_defs \<open>definitions that unfold one operation of a component\<close>

section \<open>Maps\<close>

type_synonym ('k, 'v) js_map = "('k \<times> 'v) list"

abbreviation map_get :: "('k, 'v) js_map \<Rightarrow> 'k \<Rightarrow> 'v option" where
  "map_get m k \<equiv> map_of m k"

abbreviation map_set :: "'k \<Rightarrow> 'v \<Rightarrow> ('k, 'v) js_map \<Rightarrow> ('k, 'v) js_map" where
  "map_set k v m \<equiv> AList.update k v m"

abbreviation map_del :: "'k \<Rightarrow> ('k, 'v) js_map \<Rightarrow> ('k, 'v) js_map" where
  "map_del k m \<equiv> AList.delete k m"

definition map_wf :: "('k, 'v) js_map \<Rightarrow> bool" where
  "map_wf m \<longleftrightarrow> distinct (map fst m)"

lemma map_wf_Nil [simp]: "map_wf []"
  by (simp add: map_wf_def)

lemma map_wf_set [simp]: "map_wf m \<Longrightarrow> map_wf (map_set k v m)"
  by (simp add: map_wf_def distinct_update)

lemma map_wf_del [simp]: "map_wf m \<Longrightarrow> map_wf (map_del k m)"
  by (simp add: map_wf_def distinct_delete)

lemma map_get_set [js_map_simps, simp]:
  "map_get (map_set k v m) k' = (if k' = k then Some v else map_get m k')"
  by (simp add: update_conv')

lemma map_get_del [js_map_simps, simp]:
  "map_get (map_del k m) k' = (if k' = k then None else map_get m k')"
  by (simp add: delete_conv')

lemma map_get_in_set: "map_wf m \<Longrightarrow> map_get m k = Some v \<longleftrightarrow> (k, v) \<in> set m"
  by (simp add: map_wf_def)

lemma map_get_mem: "map_get m k = Some v \<Longrightarrow> (k, v) \<in> set m"
  by (rule map_of_SomeD)

lemma keys_set: "fst ` set (map_set k v m) = insert k (fst ` set m)"
  using dom_update [of k v m] by (simp add: dom_map_of_conv_image_fst)

lemma set_map_del: "set (map_del k m) = {p \<in> set m. fst p \<noteq> k}"
  by (auto simp: AList.delete_eq)

lemma keys_del: "fst ` set (map_del k m) = fst ` set m - {k}"
  by (auto simp: set_map_del)

lemma length_map_set:
  "map_wf m \<Longrightarrow> length (map_set k v m) = (if map_get m k = None then Suc (length m) else length m)"
  by (induction m) (auto simp: map_wf_def map_of_eq_None_iff image_iff)

lemma set_map_set:
  "map_wf m \<Longrightarrow> set (map_set k v m) = insert (k, v) {p \<in> set m. fst p \<noteq> k}"
proof (induction m)
  case (Cons p m)
  then have "p \<notin> set m" and "k = fst p \<Longrightarrow> \<forall>q \<in> set m. fst q \<noteq> k"
    by (auto simp: map_wf_def image_iff)
  with Cons show ?case by (auto simp: map_wf_def)
qed simp

section \<open>Results of fallible code\<close>

text \<open>\<open>Inl e\<close> is a thrown error, \<open>Inr a\<close> a normal return.\<close>

type_synonym ('e, 'a) result = "'e + 'a"

fun bind_result :: "('e, 'a) result \<Rightarrow> ('a \<Rightarrow> ('e, 'b) result) \<Rightarrow> ('e, 'b) result" where
  "bind_result (Inl e) f = Inl e"
| "bind_result (Inr a) f = f a"

lemma bind_result_Inr [simp]:
  "bind_result r f = Inr b \<longleftrightarrow> (\<exists>a. r = Inr a \<and> f a = Inr b)"
  by (cases r) auto

lemma bind_result_Inl:
  "bind_result r f = Inl e \<longleftrightarrow> r = Inl e \<or> (\<exists>a. r = Inr a \<and> f a = Inl e)"
  by (cases r) auto

text \<open>A guard: throw \<open>e\<close> unless the condition holds.\<close>

definition ensure :: "bool \<Rightarrow> 'e \<Rightarrow> ('e, unit) result" where
  "ensure b e = (if b then Inr () else Inl e)"

lemma ensure_Inr [simp]: "ensure b e = Inr u \<longleftrightarrow> b"
  by (simp add: ensure_def)

lemma ensure_Inl [simp]: "ensure b e = Inl e' \<longleftrightarrow> \<not> b \<and> e' = e"
  by (auto simp: ensure_def)

lemma ensure_True [simp]: "ensure True e = Inr ()"
  by (simp add: ensure_def)

lemma ensure_False [simp]: "ensure False e = Inl e"
  by (simp add: ensure_def)

section \<open>Numbers\<close>

text \<open>
  Ledger sequence numbers, window indices and epoch milliseconds are integer-valued numbers and
  are modelled as \<^typ>\<open>int\<close>. \<open>Number.isSafeInteger\<close> accepts exactly the integers whose magnitude is
  at most \<open>2^53 - 1\<close>.
\<close>

definition isSafeInteger :: "int \<Rightarrow> bool" where
  "isSafeInteger v \<longleftrightarrow> \<bar>v\<bar> \<le> 9007199254740991"

section \<open>Strings\<close>

text \<open>Decimal notation of an integer, as a template string \<open>`${n}`\<close> prints it.\<close>

definition digit_char :: "nat \<Rightarrow> char" where
  "digit_char d = char_of (48 + d)"

fun show_nat :: "nat \<Rightarrow> string" where
  "show_nat n = (if n < 10 then [digit_char n] else show_nat (n div 10) @ [digit_char (n mod 10)])"

declare show_nat.simps [simp del]

definition show_int :: "int \<Rightarrow> string" where
  "show_int z = (if z < 0 then CHR ''-'' # show_nat (nat (- z)) else show_nat (nat z))"

fun read_nat :: "string \<Rightarrow> nat \<Rightarrow> nat" where
  "read_nat [] acc = acc"
| "read_nat (c # cs) acc = read_nat cs (10 * acc + (of_char c - 48))"

definition is_digit :: "char \<Rightarrow> bool" where
  "is_digit c \<longleftrightarrow> 48 \<le> (of_char c :: nat) \<and> (of_char c :: nat) \<le> 57"

lemma read_nat_append: "read_nat (xs @ ys) acc = read_nat ys (read_nat xs acc)"
  by (induction xs arbitrary: acc) auto

lemma of_char_digit_char: "d < 10 \<Longrightarrow> (of_char (digit_char d) :: nat) = 48 + d"
  by (simp add: digit_char_def)

lemma is_digit_digit_char: "d < 10 \<Longrightarrow> is_digit (digit_char d)"
  by (simp add: is_digit_def of_char_digit_char)

lemma show_nat_digits: "c \<in> set (show_nat n) \<Longrightarrow> is_digit c"
proof (induction n rule: show_nat.induct)
  case (1 n)
  then show ?case
    by (auto simp: show_nat.simps [of n] is_digit_digit_char split: if_splits)
qed

lemma show_nat_nonempty: "show_nat n \<noteq> []"
  by (simp add: show_nat.simps [of n])

lemma read_show_nat: "read_nat (show_nat n) 0 = n"
proof (induction n rule: show_nat.induct)
  case (1 n)
  show ?case
  proof (cases "n < 10")
    case True
    then show ?thesis by (simp add: show_nat.simps [of n] of_char_digit_char)
  next
    case False
    with 1 have "read_nat (show_nat (n div 10)) 0 = n div 10" by simp
    with False show ?thesis
      by (simp add: show_nat.simps [of n] read_nat_append of_char_digit_char)
  qed
qed

lemma show_nat_inject: "show_nat m = show_nat n \<Longrightarrow> m = n"
  by (metis read_show_nat)

lemma minus_not_digit: "\<not> is_digit (CHR ''-'')"
  by (simp add: is_digit_def)

lemma colon_not_digit: "\<not> is_digit (CHR '':'')"
  by (simp add: is_digit_def)

lemma show_nat_hd: "show_nat m \<noteq> CHR ''-'' # s"
  using show_nat_digits [of "CHR ''-''" m] minus_not_digit by auto

lemma show_int_inject: "show_int y = show_int z \<Longrightarrow> y = z"
  using show_nat_hd show_nat_hd [symmetric]
  by (auto simp: show_int_def dest: show_nat_inject split: if_splits)

lemma show_int_no_colon: "CHR '':'' \<notin> set (show_int z)"
  using show_nat_digits colon_not_digit by (auto simp: show_int_def)

text \<open>A string split at its last colon: the part after it has no colon.\<close>

lemma split_last_colon:
  assumes "a @ CHR '':'' # s = b @ CHR '':'' # t"
    and "CHR '':'' \<notin> set s" and "CHR '':'' \<notin> set t"
  shows "a = b \<and> s = t"
  using assms by (induction a arbitrary: b) (auto simp: Cons_eq_append_conv append_eq_Cons_conv)

text \<open>\<open>hay.includes(needle)\<close>, the case conversions (of ASCII letters) and \<open>trim\<close>.\<close>

definition is_prefix :: "string \<Rightarrow> string \<Rightarrow> bool" where
  "is_prefix p s \<longleftrightarrow> take (length p) s = p"

fun str_includes :: "string \<Rightarrow> string \<Rightarrow> bool" where
  "str_includes [] needle \<longleftrightarrow> needle = []"
| "str_includes (c # cs) needle \<longleftrightarrow> is_prefix needle (c # cs) \<or> str_includes cs needle"

definition lower_char :: "char \<Rightarrow> char" where
  "lower_char c = (let n = (of_char c :: nat) in if 65 \<le> n \<and> n \<le> 90 then char_of (n + 32) else c)"

definition toLowerCase :: "string \<Rightarrow> string" where
  "toLowerCase s = map lower_char s"

definition upper_char :: "char \<Rightarrow> char" where
  "upper_char c = (let n = (of_char c :: nat) in if 97 \<le> n \<and> n \<le> 122 then char_of (n - 32) else c)"

definition toUpperCase :: "string \<Rightarrow> string" where
  "toUpperCase s = map upper_char s"

definition is_space :: "char \<Rightarrow> bool" where
  "is_space c \<longleftrightarrow> (of_char c :: nat) \<in> {9, 10, 11, 12, 13, 32, 160}"

definition trim :: "string \<Rightarrow> string" where
  "trim s = rev (dropWhile is_space (rev (dropWhile is_space s)))"

lemma is_prefix_iff: "is_prefix p s \<longleftrightarrow> (\<exists>ss. s = p @ ss)"
  by (metis append_eq_conv_conj append_take_drop_id is_prefix_def)

lemma str_includes_iff: "str_includes hay needle \<longleftrightarrow> (\<exists>ps ss. hay = ps @ needle @ ss)"
proof (induction hay)
  case (Cons c cs)
  have "(\<exists>ps ss. c # cs = ps @ needle @ ss) \<longleftrightarrow>
      (\<exists>ss. c # cs = needle @ ss) \<or> (\<exists>ps ss. cs = ps @ needle @ ss)"
    by (metis append_Cons append_Nil list.inject neq_Nil_conv)
  with Cons show ?case by (simp add: is_prefix_iff)
qed auto

lemma str_includes_trans: "str_includes hay mid \<Longrightarrow> str_includes mid needle \<Longrightarrow> str_includes hay needle"
  unfolding str_includes_iff by (metis append.assoc)

lemma str_includes_append: "str_includes a n \<Longrightarrow> str_includes (a @ b) n"
  unfolding str_includes_iff by (metis append.assoc)

lemma str_includes_append2: "str_includes b n \<Longrightarrow> str_includes (a @ b) n"
  unfolding str_includes_iff by (metis append.assoc)

text \<open>A \<open>Set\<close> of the elements of a list, in insertion order of their first occurrence.\<close>

fun uniq :: "'a list \<Rightarrow> 'a list" where
  "uniq [] = []"
| "uniq (x # xs) = x # filter (\<lambda>y. y \<noteq> x) (uniq xs)"

lemma set_uniq [simp]: "set (uniq xs) = set xs"
  by (induction xs) auto

lemma distinct_uniq [simp]: "distinct (uniq xs)"
  by (induction xs) auto

lemma uniq_eq_Nil [simp]: "uniq xs = [] \<longleftrightarrow> xs = []"
  by (cases xs) auto

lemma uniq_distinct: "distinct xs \<Longrightarrow> uniq xs = xs"
  by (induction xs) (auto simp: filter_id_conv)

lemma uniq_snoc: "uniq (xs @ [x]) = (if x \<in> set xs then uniq xs else uniq xs @ [x])"
  by (induction xs) auto

text \<open>\<open>Array.prototype.slice(-n)\<close>: the last \<open>n\<close> elements; \<open>slice(0)\<close> is the whole array.\<close>

definition slice_last :: "nat \<Rightarrow> 'a list \<Rightarrow> 'a list" where
  "slice_last n xs = (if n = 0 then xs else drop (length xs - n) xs)"

lemma length_slice_last: "0 < n \<Longrightarrow> length (slice_last n xs) = min n (length xs)"
  by (simp add: slice_last_def)

section \<open>Stable sorting\<close>

text \<open>\<open>Array.prototype.sort\<close> is stable; with a numeric comparator on a key it is \<^const>\<open>sort_key\<close>.\<close>

lemma sort_key_cong_groups:
  assumes "mset xs = mset ys"
    and "\<And>k. filter (\<lambda>e. f e = k) xs = filter (\<lambda>e. f e = k) ys"
  shows "sort_key f xs = sort_key f ys"
proof (rule properties_for_sort_key)
  show "mset (sort_key f ys) = mset xs" using assms(1) by simp
  show "filter (\<lambda>x. f k = f x) (sort_key f ys) = filter (\<lambda>x. f k = f x) xs" for k
    using assms(2) [of "f k"] sort_key_stable [of f "f k" ys] by (simp add: eq_commute)
qed simp

lemma sorted_split:
  fixes c :: "'b :: linorder"
  shows "sorted (map f xs) \<Longrightarrow> xs = filter (\<lambda>x. f x \<le> c) xs @ filter (\<lambda>x. c < f x) xs"
proof (induction xs)
  case (Cons x xs)
  show ?case
  proof (cases "f x \<le> c")
    case True
    with Cons show ?thesis by auto
  next
    case False
    with Cons.prems have "\<forall>y \<in> set xs. c < f y" by fastforce
    then have "filter (\<lambda>y. f y \<le> c) xs = []" "filter (\<lambda>y. c < f y) xs = xs"
      by (auto simp: filter_empty_conv filter_id_conv)
    with False show ?thesis by simp
  qed
qed simp

lemma sort_key_split:
  "sort_key f zs = filter (\<lambda>x. f x \<le> c) (sort_key f zs) @ filter (\<lambda>x. c < f x) (sort_key f zs)"
  by (rule sorted_split) simp

lemma sort_key_snoc:
  "sort_key f (zs @ [y]) =
     filter (\<lambda>x. f x \<le> f y) (sort_key f zs) @ y # filter (\<lambda>x. f y < f x) (sort_key f zs)"
    (is "_ = ?ys")
proof (rule properties_for_sort_key)
  have "mset (filter (\<lambda>x. f x \<le> f y) (sort_key f zs)) + mset (filter (\<lambda>x. f y < f x) (sort_key f zs)) = mset zs"
    using arg_cong [OF sort_key_split [of f zs "f y"], of mset] by simp
  then show "mset ?ys = mset (zs @ [y])" by simp
  show "filter (\<lambda>x. f k = f x) ?ys = filter (\<lambda>x. f k = f x) (zs @ [y])" for k
  proof -
    have zs: "filter (\<lambda>x. f k = f x) (sort_key f zs) = filter (\<lambda>x. f k = f x) zs"
      using sort_key_stable [of f "f k" zs] by (simp add: eq_commute)
    have "filter (\<lambda>x. f k = f x \<and> f x \<le> f y) (sort_key f zs) =
        (if f k \<le> f y then filter (\<lambda>x. f k = f x) (sort_key f zs) else [])"
      "filter (\<lambda>x. f k = f x \<and> f y < f x) (sort_key f zs) =
        (if f k \<le> f y then [] else filter (\<lambda>x. f k = f x) (sort_key f zs))"
      by (auto simp: filter_empty_conv intro: filter_cong)
    with zs show ?thesis by (auto simp: conj_commute)
  qed
  show "sorted (map f ?ys)"
    by (auto simp: sorted_append sorted_filter)
qed

text \<open>The operator \<open>??\<close> on a value that may be missing.\<close>

definition or_default :: "'a option \<Rightarrow> 'a \<Rightarrow> 'a" where
  "or_default v d = (case v of Some x \<Rightarrow> x | None \<Rightarrow> d)"

lemma or_default_simps [simp]: "or_default (Some x) d = x" "or_default None d = d"
  by (simp_all add: or_default_def)

section \<open>Grouping\<close>

text \<open>A \<open>Map\<close> of arrays built by pushing every element under its key, and its contents: the keys in order of first occurrence.\<close>

definition push_to :: "('a \<Rightarrow> 'k) \<Rightarrow> 'a \<Rightarrow> ('k, 'a list) js_map \<Rightarrow> ('k, 'a list) js_map" where
  "push_to key x m = map_set (key x) ((case map_get m (key x) of Some xs \<Rightarrow> xs | None \<Rightarrow> []) @ [x]) m"

definition grouped :: "('a \<Rightarrow> 'k) \<Rightarrow> 'a list \<Rightarrow> ('k, 'a list) js_map" where
  "grouped key xs = map (\<lambda>k. (k, filter (\<lambda>x. key x = k) xs)) (uniq (map key xs))"

lemma map_get_tabulate: "map_get (map (\<lambda>k. (k, f k)) ks) j = (if j \<in> set ks then Some (f j) else None)"
  by (induction ks) auto

lemma fold_push_to:
  fixes key :: "'a \<Rightarrow> 'k"
  shows "fold (push_to key) xs [] = grouped key xs"
proof (induction xs rule: rev_induct)
  case (snoc x xs)
  let ?f = "\<lambda>k. filter (\<lambda>x. key x = k) xs" and ?ks = "uniq (map key xs)"
  have upd: "map_set j (f j @ [x]) (map (\<lambda>k. (k, f k)) ks) = map (\<lambda>k. (k, f k @ (if k = j then [x] else []))) ks"
    if "j \<in> set ks" "distinct ks" for j ks and f :: "'k \<Rightarrow> 'a list"
    using that by (induction ks) (auto intro!: map_cong)
  have new: "map_set j v m = m @ [(j, v)]" if "j \<notin> fst ` set m" for j v and m :: "('k, 'a list) js_map"
    using that by (induction m) auto
  show ?case
  proof (cases "key x \<in> set ?ks")
    case True
    have "fold (push_to key) (xs @ [x]) [] = map_set (key x) (?f (key x) @ [x]) (map (\<lambda>k. (k, ?f k)) ?ks)"
      using True by (simp add: snoc) (simp add: push_to_def grouped_def map_get_tabulate)
    also have "\<dots> = map (\<lambda>k. (k, ?f k @ (if k = key x then [x] else []))) ?ks" by (rule upd [OF True]) simp
    also have "\<dots> = grouped key (xs @ [x])" using True by (auto simp: grouped_def uniq_snoc)
    finally show ?thesis .
  next
    case False
    have "fold (push_to key) (xs @ [x]) [] = map (\<lambda>k. (k, ?f k)) ?ks @ [(key x, [x])]"
      using False by (simp add: snoc) (simp add: push_to_def grouped_def map_get_tabulate new image_image)
    also have "\<dots> = grouped key (xs @ [x])"
    proof -
      have "filter (\<lambda>y. key y = key x) xs = []" using False by (simp add: filter_empty_conv) (metis image_eqI)
      with False show ?thesis by (auto simp: grouped_def uniq_snoc)
    qed
    finally show ?thesis .
  qed
qed (simp add: grouped_def)

section \<open>Selecting an element\<close>

text \<open>A loop that keeps the best element so far among those that qualify; \<open>lt\<close> is the comparison of its inner test.\<close>

definition pick :: "('a \<Rightarrow> bool) \<Rightarrow> ('a \<Rightarrow> 'a \<Rightarrow> bool) \<Rightarrow> 'a \<Rightarrow> 'a option \<Rightarrow> 'a option" where
  "pick P lt x best =
     (if \<not> P x then best else case best of None \<Rightarrow> Some x | Some b \<Rightarrow> if lt x b then Some x else Some b)"

lemma fold_pick_None: "fold (pick P lt) xs best = None \<longleftrightarrow> best = None \<and> (\<forall>x \<in> set xs. \<not> P x)"
  by (induction xs arbitrary: best) (auto simp: pick_def split: option.splits)

lemma fold_pick_Some:
  assumes weak: "\<And>a b c. \<not> lt a b \<Longrightarrow> \<not> lt b c \<Longrightarrow> \<not> lt a c" and asym: "\<And>a b. lt a b \<Longrightarrow> \<not> lt b a"
    and "fold (pick P lt) xs best = Some m"
  shows "(best = Some m \<or> m \<in> set xs \<and> P m) \<and> (\<forall>x \<in> set xs. P x \<longrightarrow> \<not> lt x m) \<and> (\<forall>b. best = Some b \<longrightarrow> \<not> lt b m)"
  using assms(3)
proof (induction xs arbitrary: best)
  case Nil
  then show ?case using asym by auto
next
  case (Cons x xs)
  show ?case
  proof (cases "P x")
    case False
    then have "pick P lt x best = best" by (simp add: pick_def)
    with False Cons show ?thesis by auto
  next
    case True
    obtain b where b: "pick P lt x best = Some b" and near: "b = x \<or> best = Some b" "\<not> lt x b" "\<And>c. best = Some c \<Longrightarrow> \<not> lt c b"
      using True asym by (cases best; cases "lt x (the best)") (auto simp: pick_def)
    have fold: "fold (pick P lt) xs (Some b) = Some m" using Cons.prems b by simp
    from Cons.IH [OF fold] have ih: "b = m \<or> m \<in> set xs \<and> P m" "\<forall>x \<in> set xs. P x \<longrightarrow> \<not> lt x m" "\<not> lt b m" by simp_all
    have "\<not> lt x m" by (rule weak [OF near(2) ih(3)])
    moreover have "\<forall>c. best = Some c \<longrightarrow> \<not> lt c m" using weak [OF near(3) ih(3)] by blast
    ultimately show ?thesis using ih(1,2) near(1) True by auto
  qed
qed

section \<open>Untyped values\<close>

text \<open>
  A value of type \<open>unknown\<close>, as validators receive it. A missing property and the value
  \<open>undefined\<close> are both \<open>JUndefined\<close>.
\<close>

datatype js_value =
    JUndefined
  | JNull
  | JBool bool
  | JNum int
  | JStr string
  | JArr "js_value list"
  | JObj "(string \<times> js_value) list"

fun js_field :: "string \<Rightarrow> js_value \<Rightarrow> js_value" where
  "js_field k (JObj fs) = (case map_of fs k of Some v \<Rightarrow> v | None \<Rightarrow> JUndefined)"
| "js_field k _ = JUndefined"

fun js_typeof_object :: "js_value \<Rightarrow> bool" where
  "js_typeof_object (JObj _) = True"
| "js_typeof_object (JArr _) = True"
| "js_typeof_object JNull = True"
| "js_typeof_object _ = False"

text \<open>Errors collected by a loop over an array, one group per index.\<close>

definition collect :: "(nat \<Rightarrow> 'a \<Rightarrow> 'e list) \<Rightarrow> 'a list \<Rightarrow> 'e list" where
  "collect f xs = concat (map (\<lambda>(i, x). f i x) (enumerate 0 xs))"

lemma collect_Nil_iff: "collect f xs = [] \<longleftrightarrow> (\<forall>i < length xs. f i (xs ! i) = [])"
proof -
  have "collect f xs = [] \<longleftrightarrow> (\<forall>p \<in> set (enumerate 0 xs). f (fst p) (snd p) = [])"
    by (auto simp: collect_def split_beta)
  also have "\<dots> \<longleftrightarrow> (\<forall>i < length xs. f i (xs ! i) = [])"
    by (simp add: all_set_conv_all_nth nth_enumerate_eq)
  finally show ?thesis .
qed

lemma collect_Nil_all:
  "(\<And>i x. f i x = [] \<longleftrightarrow> P x) \<Longrightarrow> collect f xs = [] \<longleftrightarrow> (\<forall>x \<in> set xs. P x)"
  by (simp add: collect_Nil_iff all_set_conv_all_nth)

end
