(* ===== verification/Fire_Claims.thy ===== *)
theory Fire_Claims
  imports Orbital_Prelude
begin

text \<open>
  Fire claims of the worker runtime: \<^verbatim>\<open>packages/worker-core/src/idempotency.ts\<close> (\<open>FireKey\<close>, the
  \<open>ClaimStore\<close> interface, \<open>InMemoryClaimStore\<close>, \<open>IdempotencyManager\<close>) and the narrower
  \<open>FireClaimStore\<close> port of \<^verbatim>\<open>triggers/eventTrigger.ts\<close> with its two implementations.

  The interfaces are the locales \<open>claim_store\<close> and \<open>fire_claim_store\<close>. \<open>claim_store\<close> is interpreted
  on the model of \<open>InMemoryClaimStore\<close>, \<open>fire_claim_store\<close> on \<open>InMemoryFireClaimStore\<close> and, through a
  sublocale, on the adapter \<open>ClaimStoreFireClaims\<close>. \<open>PostgresClaimStore\<close> sends SQL to a database
  server and is not modelled. \<open>Date.now()\<close> is the argument \<open>now\<close>.
\<close>

section \<open>Keys and records\<close>

record fire_key =
  fk_workerId :: string
  fk_windowStartLedger :: int

definition fireKeyToString :: "fire_key \<Rightarrow> string" where
  "fireKeyToString k = fk_workerId k @ CHR '':'' # show_int (fk_windowStartLedger k)"

record claim_record =
  cr_owner :: string
  cr_expiresAt :: int

type_synonym claim_map = "(string, claim_record) js_map"

section \<open>InMemoryClaimStore\<close>

definition mem_claim :: "int \<Rightarrow> string \<Rightarrow> string \<Rightarrow> int \<Rightarrow> claim_map \<Rightarrow> bool \<times> claim_map" where
  "mem_claim now key ow ttlMs m =
     (case map_get m key of
        Some existing \<Rightarrow>
          (if cr_expiresAt existing \<le> now
           then (True, map_set key \<lparr>cr_owner = ow, cr_expiresAt = now + ttlMs\<rparr> m)
           else (False, m))
      | None \<Rightarrow> (True, map_set key \<lparr>cr_owner = ow, cr_expiresAt = now + ttlMs\<rparr> m))"

definition mem_get :: "int \<Rightarrow> string \<Rightarrow> claim_map \<Rightarrow> claim_record option" where
  "mem_get now key m =
     (case map_get m key of
        None \<Rightarrow> None
      | Some r \<Rightarrow> (if cr_expiresAt r \<le> now then None else Some r))"

definition mem_release :: "string \<Rightarrow> string option \<Rightarrow> claim_map \<Rightarrow> claim_map" where
  "mem_release key ow m =
     (case map_get m key of
        None \<Rightarrow> m
      | Some existing \<Rightarrow>
          (if ow = None \<or> ow = Some (cr_owner existing) then map_del key m else m))"

section \<open>IdempotencyManager\<close>

definition DEFAULT_CLAIM_TTL_MS :: int where
  "DEFAULT_CLAIM_TTL_MS = 5 * 60000"

text \<open>The constructor's guard on \<open>claimTtlMs\<close>.\<close>

definition newIdempotencyManager :: "int \<Rightarrow> (string, int) result" where
  "newIdempotencyManager claimTtlMs =
     (if claimTtlMs \<le> 0 then Inl (''claimTtlMs must be positive, got '' @ show_int claimTtlMs)
      else Inr claimTtlMs)"

text \<open>
  One call of \<open>claimThenSubmit\<close> that runs without interleaving. The store's operations are
  arguments, \<open>chainCheck\<close> is the chain query of the constructor and \<open>submitFn\<close> the outcome of the
  caller's submission, which may throw.
\<close>

definition claimThenSubmit ::
  "(int \<Rightarrow> string \<Rightarrow> string \<Rightarrow> int \<Rightarrow> 's \<Rightarrow> bool \<times> 's) \<Rightarrow> (string \<Rightarrow> string option \<Rightarrow> 's \<Rightarrow> 's) \<Rightarrow>
   int \<Rightarrow> (int \<Rightarrow> bool) \<Rightarrow> int \<Rightarrow> fire_key \<Rightarrow> string \<Rightarrow> ('e, unit) result \<Rightarrow> 's \<Rightarrow> ('e, bool) result \<times> 's"
where
  "claimThenSubmit claim release claimTtlMs chainCheck now key ownerId submitFn s =
     (let ks = fireKeyToString key;
          (claimed, s1) = claim now ks ownerId claimTtlMs s
      in if \<not> claimed then (Inr False, s1)
         else if chainCheck (fk_windowStartLedger key) then (Inr False, release ks (Some ownerId) s1)
         else (case submitFn of Inl e \<Rightarrow> (Inl e, s1) | Inr _ \<Rightarrow> (Inr True, s1)))"

text \<open>
  Concurrent calls: the operator processes (named by their owner ids) each run \<open>claimThenSubmit\<close>
  for any number of keys, and every \<open>await\<close> is a point where another process may run. A process is
  idle for a key, waiting for \<open>chainCheck\<close> or about to call \<open>submitFn\<close>; in the last two stages the
  expiry of the claim it took is remembered. The log lists the calls of \<open>submitFn\<close>, newest first:
  owner, key, time of the call, expiry of the claim under which it was made. A process may crash
  at any point and start over.
\<close>

datatype stage = Idle | Checking int | Submitting int

type_synonym submit_entry = "string \<times> fire_key \<times> int \<times> int"

record 's claim_sys =
  sys_now :: int
  sys_store :: 's
  sys_stage :: "string \<Rightarrow> fire_key \<Rightarrow> stage"
  sys_log :: "submit_entry list"

definition set_stage :: "string \<Rightarrow> fire_key \<Rightarrow> stage \<Rightarrow> 's claim_sys \<Rightarrow> 's claim_sys" where
  "set_stage p k st s = s\<lparr>sys_stage := (sys_stage s)(p := (sys_stage s p)(k := st))\<rparr>"

inductive idem_step ::
  "(int \<Rightarrow> string \<Rightarrow> string \<Rightarrow> int \<Rightarrow> 's \<Rightarrow> bool \<times> 's) \<Rightarrow> (string \<Rightarrow> string option \<Rightarrow> 's \<Rightarrow> 's) \<Rightarrow>
   int \<Rightarrow> 's claim_sys \<Rightarrow> 's claim_sys \<Rightarrow> bool"
  for claim :: "int \<Rightarrow> string \<Rightarrow> string \<Rightarrow> int \<Rightarrow> 's \<Rightarrow> bool \<times> 's"
  and release :: "string \<Rightarrow> string option \<Rightarrow> 's \<Rightarrow> 's"
  and ttl :: int
where
  tick: "sys_now s \<le> t \<Longrightarrow> idem_step claim release ttl s (s\<lparr>sys_now := t\<rparr>)"
| won: "sys_stage s p k = Idle \<Longrightarrow>
    claim (sys_now s) (fireKeyToString k) p ttl (sys_store s) = (True, st) \<Longrightarrow>
    idem_step claim release ttl s
      (set_stage p k (Checking (sys_now s + ttl)) (s\<lparr>sys_store := st\<rparr>))"
| lost: "sys_stage s p k = Idle \<Longrightarrow>
    claim (sys_now s) (fireKeyToString k) p ttl (sys_store s) = (False, st) \<Longrightarrow>
    idem_step claim release ttl s (s\<lparr>sys_store := st\<rparr>)"
| executed: "sys_stage s p k = Checking e \<Longrightarrow>
    idem_step claim release ttl s
      (set_stage p k Idle (s\<lparr>sys_store := release (fireKeyToString k) (Some p) (sys_store s)\<rparr>))"
| clear: "sys_stage s p k = Checking e \<Longrightarrow>
    idem_step claim release ttl s (set_stage p k (Submitting e) s)"
| submit: "sys_stage s p k = Submitting e \<Longrightarrow>
    idem_step claim release ttl s
      (set_stage p k Idle (s\<lparr>sys_log := (p, k, sys_now s, e) # sys_log s\<rparr>))"
| crash: "idem_step claim release ttl s (set_stage p k Idle s)"

inductive idem_reachable ::
  "(int \<Rightarrow> string \<Rightarrow> string \<Rightarrow> int \<Rightarrow> 's \<Rightarrow> bool \<times> 's) \<Rightarrow> (string \<Rightarrow> string option \<Rightarrow> 's \<Rightarrow> 's) \<Rightarrow>
   int \<Rightarrow> 's \<Rightarrow> 's claim_sys \<Rightarrow> bool"
  for claim :: "int \<Rightarrow> string \<Rightarrow> string \<Rightarrow> int \<Rightarrow> 's \<Rightarrow> bool \<times> 's"
  and release :: "string \<Rightarrow> string option \<Rightarrow> 's \<Rightarrow> 's"
  and ttl :: int and init :: 's
where
  start: "idem_reachable claim release ttl init
    \<lparr>sys_now = t, sys_store = init, sys_stage = (\<lambda>_ _. Idle), sys_log = []\<rparr>"
| step: "idem_reachable claim release ttl init s \<Longrightarrow> idem_step claim release ttl s s' \<Longrightarrow>
    idem_reachable claim release ttl init s'"

text \<open>A submission is timely when it was made before its claim expired. Two timely submissions of
  one key: the later one was made after the claim of the earlier one had expired.\<close>

definition separated :: "submit_entry \<Rightarrow> submit_entry \<Rightarrow> bool" where
  "separated later earlier =
     (case (later, earlier) of ((p2, k2, t2, e2), (p1, k1, t1, e1)) \<Rightarrow>
        k1 = k2 \<and> t1 < e1 \<and> t2 < e2 \<longrightarrow> e1 \<le> t2)"

section \<open>FireClaimStore and its implementations\<close>

text \<open>\<open>InMemoryFireClaimStore\<close> keeps a \<open>Set\<close> of window ids.\<close>

definition fire_claim :: "string \<Rightarrow> string set \<Rightarrow> bool \<times> string set" where
  "fire_claim windowId claimed =
     (if windowId \<in> claimed then (False, claimed) else (True, insert windowId claimed))"

definition fire_isClaimed :: "string \<Rightarrow> string set \<Rightarrow> bool" where
  "fire_isClaimed windowId claimed \<longleftrightarrow> windowId \<in> claimed"

text \<open>\<open>ClaimStoreFireClaims\<close> adapts a \<open>ClaimStore\<close>; its constructor rejects a non-positive TTL and
  an empty owner.\<close>

definition newClaimStoreFireClaims :: "string \<Rightarrow> int \<Rightarrow> (string, string \<times> int) result" where
  "newClaimStoreFireClaims ownerId claimTtlMs =
     (if claimTtlMs \<le> 0 then Inl (''claimTtlMs must be positive, got '' @ show_int claimTtlMs)
      else if ownerId = [] then Inl ''ownerId is required: an unowned claim cannot be released''
      else Inr (ownerId, claimTtlMs))"

definition adapter_claim ::
  "(int \<Rightarrow> string \<Rightarrow> string \<Rightarrow> int \<Rightarrow> 's \<Rightarrow> bool \<times> 's) \<Rightarrow> int \<Rightarrow> string \<Rightarrow> int \<Rightarrow> string \<Rightarrow> 's \<Rightarrow> bool \<times> 's"
where
  "adapter_claim claim now ownerId claimTtlMs windowId s = claim now windowId ownerId claimTtlMs s"

definition adapter_isClaimed ::
  "(int \<Rightarrow> string \<Rightarrow> 's \<Rightarrow> claim_record option) \<Rightarrow> int \<Rightarrow> string \<Rightarrow> 's \<Rightarrow> bool"
where
  "adapter_isClaimed get now windowId s \<longleftrightarrow> get now windowId s \<noteq> None"

section \<open>The ClaimStore interface\<close>

locale claim_store =
  fixes claim :: "int \<Rightarrow> string \<Rightarrow> string \<Rightarrow> int \<Rightarrow> 's \<Rightarrow> bool \<times> 's"
    and get :: "int \<Rightarrow> string \<Rightarrow> 's \<Rightarrow> claim_record option"
    and release :: "string \<Rightarrow> string option \<Rightarrow> 's \<Rightarrow> 's"
  assumes claim_wins: "fst (claim now k p ttl s) \<longleftrightarrow> get now k s = None"
    and get_won: "get now k s = None \<Longrightarrow> get t k (snd (claim now k p ttl s)) =
      (if t < now + ttl then Some \<lparr>cr_owner = p, cr_expiresAt = now + ttl\<rparr> else None)"
    and get_lost: "get now k s \<noteq> None \<Longrightarrow> get t k' (snd (claim now k p ttl s)) = get t k' s"
    and get_other: "k' \<noteq> k \<Longrightarrow> get t k' (snd (claim now k p ttl s)) = get t k' s"
    and get_later: "get now k s = Some r \<Longrightarrow> now \<le> t \<Longrightarrow>
      get t k s = (if t < cr_expiresAt r then Some r else None)"
    and get_release: "get t k' (release k w s) =
      (case get t k' s of None \<Rightarrow> None
       | Some r \<Rightarrow> if k' = k \<and> (w = None \<or> w = Some (cr_owner r)) then None else Some r)"
begin

lemma get_claim_live:
  assumes "get now k s = Some r" and "now < cr_expiresAt r"
  shows "get now k (snd (claim now k' p ttl s)) = Some r"
  using assms get_lost [of now k' s now k p ttl] get_other [of k k' now now p ttl s]
  by (cases "k' = k") auto

lemma claim_twice:
  assumes "get now k s = None" and "now \<le> t" and "t < now + ttl"
  shows "\<not> fst (claim t k q ttl' (snd (claim now k p ttl s)))"
  using assms by (simp add: claim_wins get_won)

lemma claimThenSubmit_submits:
  "fst (claimThenSubmit claim release ttl chk now key p sub s) = Inr True \<longleftrightarrow>
     get now (fireKeyToString key) s = None \<and> \<not> chk (fk_windowStartLedger key) \<and> (\<exists>u. sub = Inr u)"
  using claim_wins [of now "fireKeyToString key" p ttl s]
  by (auto simp: claimThenSubmit_def Let_def split: prod.splits sum.splits)

lemma claimThenSubmit_holds:
  assumes "fst (claimThenSubmit claim release ttl chk now key p sub s) = Inr True"
  shows "get t (fireKeyToString key) (snd (claimThenSubmit claim release ttl chk now key p sub s)) =
    (if t < now + ttl then Some \<lparr>cr_owner = p, cr_expiresAt = now + ttl\<rparr> else None)"
proof -
  have "get now (fireKeyToString key) s = None"
    using assms by (simp add: claimThenSubmit_submits)
  from get_won [OF this, of t p ttl] assms show ?thesis
    by (auto simp: claimThenSubmit_def Let_def split: prod.splits sum.splits if_splits)
qed

end

section \<open>Interleaved attempts\<close>

lemma fireKeyToString_eqD:
  assumes "fireKeyToString j = fireKeyToString k"
  shows "j = k"
proof -
  have "fk_workerId j = fk_workerId k \<and>
      show_int (fk_windowStartLedger j) = show_int (fk_windowStartLedger k)"
    by (rule split_last_colon [OF assms [unfolded fireKeyToString_def] show_int_no_colon show_int_no_colon])
  then show ?thesis using show_int_inject by auto
qed

lemma fireKeyToString_eq [simp]: "fireKeyToString j = fireKeyToString k \<longleftrightarrow> j = k"
  using fireKeyToString_eqD by blast

definition holds_claim :: "stage \<Rightarrow> int \<Rightarrow> bool" where
  "holds_claim st e \<longleftrightarrow> st = Checking e \<or> st = Submitting e"

lemma holds_claim_simps [simp]:
  "\<not> holds_claim Idle e" "holds_claim (Checking e') e \<longleftrightarrow> e' = e" "holds_claim (Submitting e') e \<longleftrightarrow> e' = e"
  by (auto simp: holds_claim_def)

text \<open>The invariant: an unexpired claim taken by a process is what the store reports, whether the
  process is still working on it or has submitted under it, and the log is separated.\<close>

definition live_claims :: "(int \<Rightarrow> string \<Rightarrow> 's \<Rightarrow> claim_record option) \<Rightarrow> 's claim_sys \<Rightarrow> bool" where
  "live_claims get s \<longleftrightarrow>
     (\<forall>p k e. holds_claim (sys_stage s p k) e \<and> sys_now s < e \<longrightarrow>
        get (sys_now s) (fireKeyToString k) (sys_store s) = Some \<lparr>cr_owner = p, cr_expiresAt = e\<rparr>)"

definition live_submits :: "(int \<Rightarrow> string \<Rightarrow> 's \<Rightarrow> claim_record option) \<Rightarrow> 's claim_sys \<Rightarrow> bool" where
  "live_submits get s \<longleftrightarrow>
     (\<forall>p k t e. (p, k, t, e) \<in> set (sys_log s) \<and> t < e \<and> sys_now s < e \<longrightarrow>
        get (sys_now s) (fireKeyToString k) (sys_store s) = Some \<lparr>cr_owner = p, cr_expiresAt = e\<rparr> \<and>
        sys_stage s p k = Idle)"

definition idem_inv :: "(int \<Rightarrow> string \<Rightarrow> 's \<Rightarrow> claim_record option) \<Rightarrow> 's claim_sys \<Rightarrow> bool" where
  "idem_inv get s \<longleftrightarrow> live_claims get s \<and> live_submits get s \<and> sorted_wrt separated (sys_log s)"

lemma set_stage_simps [simp]:
  "sys_now (set_stage p k st s) = sys_now s"
  "sys_store (set_stage p k st s) = sys_store s"
  "sys_log (set_stage p k st s) = sys_log s"
  "sys_stage (set_stage p k st s) q j = (if q = p \<and> j = k then st else sys_stage s q j)"
  by (auto simp: set_stage_def)

lemma live_claimsD:
  "live_claims get s \<Longrightarrow> holds_claim (sys_stage s p k) e \<Longrightarrow> sys_now s < e \<Longrightarrow>
   get (sys_now s) (fireKeyToString k) (sys_store s) = Some \<lparr>cr_owner = p, cr_expiresAt = e\<rparr>"
  by (auto simp: live_claims_def)

lemma live_submitsD:
  "live_submits get s \<Longrightarrow> (p, k, t, e) \<in> set (sys_log s) \<Longrightarrow> t < e \<Longrightarrow> sys_now s < e \<Longrightarrow>
   get (sys_now s) (fireKeyToString k) (sys_store s) = Some \<lparr>cr_owner = p, cr_expiresAt = e\<rparr> \<and>
   sys_stage s p k = Idle"
  by (auto simp: live_submits_def)

context claim_store begin

lemma get_still_live:
  "get now k s = Some \<lparr>cr_owner = p, cr_expiresAt = e\<rparr> \<Longrightarrow> now \<le> t \<Longrightarrow> t < e \<Longrightarrow>
   get t k s = Some \<lparr>cr_owner = p, cr_expiresAt = e\<rparr>"
  by (simp add: get_later)

lemma claim_stepE:
  assumes "claim now k p ttl s = (b, st)"
  obtains (won) "b" "get now k s = None" "st = snd (claim now k p ttl s)"
    | (lost) "\<not> b" "get now k s \<noteq> None" "\<And>t j. get t j st = get t j s"
  using assms claim_wins [of now k p ttl s] get_lost [of now k s _ _ p ttl] by (cases b) auto

lemma idem_step_live_claims:
  assumes "idem_step claim release ttl s s'" and "live_claims get s" and "live_submits get s"
  shows "live_claims get s'"
  using assms
proof (induction rule: idem_step.induct)
  case (tick s t)
  have "get t (fireKeyToString k) (sys_store s) = Some \<lparr>cr_owner = p, cr_expiresAt = e\<rparr>"
    if "holds_claim (sys_stage s p k) e" "t < e" for p k e
    by (rule get_still_live [OF live_claimsD [OF tick.prems(1) that(1)]]) (use tick.hyps that in auto)
  then show ?case by (simp add: live_claims_def)
next
  case (won s p k st)
  from won(2) have free: "get (sys_now s) (fireKeyToString k) (sys_store s) = None"
    and st: "st = snd (claim (sys_now s) (fireKeyToString k) p ttl (sys_store s))"
    by (auto elim: claim_stepE)
  have "get (sys_now s) (fireKeyToString j) st = Some \<lparr>cr_owner = q, cr_expiresAt = e\<rparr>"
    if "holds_claim (sys_stage s q j) e" "sys_now s < e" "(q, j) \<noteq> (p, k)" for q j e
    using live_claimsD [OF won.prems(1) that(1,2)] free st get_other by (cases "j = k") auto
  with free st show ?case by (auto simp: live_claims_def get_won)
next
  case (lost s p k st)
  from lost(2) show ?case
    by (rule claim_stepE) (use lost.prems in \<open>auto simp: live_claims_def\<close>)
next
  case (executed s p k e)
  then show ?case by (auto simp: live_claims_def get_release)
qed (auto simp: live_claims_def)

lemma idem_step_live_submits:
  assumes "idem_step claim release ttl s s'" and "live_claims get s" and "live_submits get s"
  shows "live_submits get s'"
  using assms
proof (induction rule: idem_step.induct)
  case (tick s t)
  have "get t (fireKeyToString k) (sys_store s) = Some \<lparr>cr_owner = p, cr_expiresAt = e\<rparr> \<and>
      sys_stage s p k = Idle"
    if "(p, k, t', e) \<in> set (sys_log s)" "t' < e" "t < e" for p k t' e
  proof -
    have "sys_now s < e" using tick.hyps that(3) by simp
    from live_submitsD [OF tick.prems(2) that(1,2) this] show ?thesis
      using get_still_live tick.hyps that(3) by blast
  qed
  then show ?case by (auto simp: live_submits_def)
next
  case (won s p k st)
  from won(2) have free: "get (sys_now s) (fireKeyToString k) (sys_store s) = None"
    and st: "st = snd (claim (sys_now s) (fireKeyToString k) p ttl (sys_store s))"
    by (auto elim: claim_stepE)
  have "j \<noteq> k" if "(q, j, t, e) \<in> set (sys_log s)" "t < e" "sys_now s < e" for q j t e
    using live_submitsD [OF won.prems(2) that] free by auto
  with won.prems(2) st show ?case by (fastforce simp: live_submits_def get_other)
next
  case (lost s p k st)
  from lost(2) show ?case
    by (rule claim_stepE) (use lost.prems in \<open>auto simp: live_submits_def\<close>)
next
  case (executed s p k e)
  have "j \<noteq> k \<or> q \<noteq> p" if "(q, j, t, e') \<in> set (sys_log s)" "t < e'" "sys_now s < e'" for q j t e'
    using live_submitsD [OF executed.prems(2) that] executed.hyps by auto
  with executed.prems(2) show ?case by (fastforce simp: live_submits_def get_release)
next
  case (clear s p k e)
  then show ?case by (fastforce simp: live_submits_def)
next
  case (submit s p k e)
  then show ?case
    using live_claimsD [OF submit.prems(1), of p k e] by (fastforce simp: live_submits_def)
next
  case (crash s p k)
  then show ?case by (fastforce simp: live_submits_def)
qed

lemma idem_step_separated:
  assumes "idem_step claim release ttl s s'" and "idem_inv get s"
  shows "sorted_wrt separated (sys_log s')"
  using assms
proof (cases rule: idem_step.cases)
  case (submit p k e)
  have "separated (p, k, sys_now s, e) entry" if "entry \<in> set (sys_log s)" for entry
  proof -
    obtain p1 k1 t1 e1 where entry: "entry = (p1, k1, t1, e1)" by (cases entry)
    have "e1 \<le> sys_now s" if "k1 = k" "t1 < e1" "sys_now s < e"
    proof (rule ccontr)
      assume "\<not> e1 \<le> sys_now s"
      then show False
        using live_submitsD [of get s p1 k1 t1 e1] live_claimsD [of get s p k e] submit assms(2) that
          \<open>entry \<in> set (sys_log s)\<close> entry
        by (auto simp: idem_inv_def)
    qed
    then show ?thesis by (auto simp: separated_def entry)
  qed
  with submit assms(2) show ?thesis by (auto simp: idem_inv_def)
qed (use assms(2) in \<open>auto simp: idem_inv_def\<close>)

lemma idem_step_inv: "idem_step claim release ttl s s' \<Longrightarrow> idem_inv get s \<Longrightarrow> idem_inv get s'"
  using idem_step_live_claims idem_step_live_submits idem_step_separated by (auto simp: idem_inv_def)

text \<open>Progress: an idle process can carry an unclaimed key through to its submission.\<close>

lemma idem_attempt:
  assumes "idem_reachable claim release ttl init s" and "sys_stage s = (\<lambda>_ _. Idle)"
    and free: "get (sys_now s) (fireKeyToString k) (sys_store s) = None"
  obtains s' where "idem_reachable claim release ttl init s'" "sys_stage s' = (\<lambda>_ _. Idle)"
    "sys_log s' = (p, k, sys_now s, sys_now s + ttl) # sys_log s" "sys_now s' = sys_now s"
    "sys_store s' = snd (claim (sys_now s) (fireKeyToString k) p ttl (sys_store s))"
proof -
  let ?st = "snd (claim (sys_now s) (fireKeyToString k) p ttl (sys_store s))"
  let ?e = "sys_now s + ttl"
  let ?s1 = "set_stage p k (Checking ?e) (s\<lparr>sys_store := ?st\<rparr>)"
  let ?s2 = "set_stage p k (Submitting ?e) ?s1"
  let ?s3 = "set_stage p k Idle (?s2\<lparr>sys_log := (p, k, sys_now ?s2, ?e) # sys_log ?s2\<rparr>)"
  have "claim (sys_now s) (fireKeyToString k) p ttl (sys_store s) = (True, ?st)"
    using claim_wins [of "sys_now s" "fireKeyToString k" p ttl "sys_store s"] free
    by (simp add: prod_eq_iff)
  with assms have "idem_reachable claim release ttl init ?s1"
    by (auto intro!: idem_reachable.step [OF assms(1)] idem_step.won)
  then have "idem_reachable claim release ttl init ?s2"
    by (rule idem_reachable.step) (rule idem_step.clear, simp)
  then have "idem_reachable claim release ttl init ?s3"
    by (rule idem_reachable.step) (rule idem_step.submit, simp)
  then show thesis
    by (rule that) (auto simp: assms fun_eq_iff)
qed

lemma idem_reachable_inv: "idem_reachable claim release ttl init s \<Longrightarrow> idem_inv get s"
  by (induction rule: idem_reachable.induct)
    (auto simp: idem_inv_def live_claims_def live_submits_def intro: idem_step_inv
      dest: idem_step_live_claims idem_step_live_submits idem_step_separated)

end

interpretation mem: claim_store mem_claim mem_get mem_release
proof
  fix now t ttl :: int and k k' p :: string and s :: claim_map and r w
  show "fst (mem_claim now k p ttl s) \<longleftrightarrow> mem_get now k s = None"
    by (auto simp: mem_claim_def mem_get_def split: option.splits)
  show "mem_get now k s = None \<Longrightarrow> mem_get t k (snd (mem_claim now k p ttl s)) =
      (if t < now + ttl then Some \<lparr>cr_owner = p, cr_expiresAt = now + ttl\<rparr> else None)"
    by (auto simp: mem_claim_def mem_get_def split: option.splits if_splits)
  show "mem_get now k s \<noteq> None \<Longrightarrow> mem_get t k' (snd (mem_claim now k p ttl s)) = mem_get t k' s"
    by (auto simp: mem_claim_def mem_get_def split: option.splits if_splits)
  show "k' \<noteq> k \<Longrightarrow> mem_get t k' (snd (mem_claim now k p ttl s)) = mem_get t k' s"
    by (auto simp: mem_claim_def mem_get_def split: option.splits if_splits)
  show "mem_get now k s = Some r \<Longrightarrow> now \<le> t \<Longrightarrow>
      mem_get t k s = (if t < cr_expiresAt r then Some r else None)"
    by (auto simp: mem_get_def split: option.splits if_splits)
  show "mem_get t k' (mem_release k w s) = (case mem_get t k' s of None \<Rightarrow> None
       | Some r \<Rightarrow> if k' = k \<and> (w = None \<or> w = Some (cr_owner r)) then None else Some r)"
    by (auto simp: mem_release_def mem_get_def split: option.splits)
qed

section \<open>The FireClaimStore interface\<close>

locale fire_claim_store =
  fixes claim :: "string \<Rightarrow> 's \<Rightarrow> bool \<times> 's"
    and isClaimed :: "string \<Rightarrow> 's \<Rightarrow> bool"
  assumes claim_wins: "fst (claim w s) \<longleftrightarrow> \<not> isClaimed w s"
    and isClaimed_after: "isClaimed w' (snd (claim w s)) \<longleftrightarrow> w' = w \<or> isClaimed w' s"
begin

lemma claim_once: "\<not> fst (claim w (snd (claim w s)))"
  by (simp add: claim_wins isClaimed_after)

end

interpretation fires: fire_claim_store fire_claim fire_isClaimed
  by unfold_locales (auto simp: fire_claim_def fire_isClaimed_def)

text \<open>The adapter turns a \<open>ClaimStore\<close> with a positive TTL into a \<open>FireClaimStore\<close>, at every instant.\<close>

locale claim_adapter = claim_store +
  fixes now :: int and ownerId :: string and claimTtlMs :: int
  assumes ttl_pos: "0 < claimTtlMs"

sublocale claim_adapter \<subseteq> adapter: fire_claim_store
  "adapter_claim claim now ownerId claimTtlMs" "adapter_isClaimed get now"
proof
  fix w w' :: string and s
  show "fst (adapter_claim claim now ownerId claimTtlMs w s) \<longleftrightarrow> \<not> adapter_isClaimed get now w s"
    by (simp add: adapter_claim_def adapter_isClaimed_def claim_wins)
  show "adapter_isClaimed get now w' (snd (adapter_claim claim now ownerId claimTtlMs w s)) \<longleftrightarrow>
      w' = w \<or> adapter_isClaimed get now w' s"
    using ttl_pos get_won [of now w s now ownerId claimTtlMs]
      get_lost [of now w s now w' ownerId claimTtlMs] get_other [of w' w now now ownerId claimTtlMs s]
    by (cases "w' = w"; cases "get now w s = None") (auto simp: adapter_claim_def adapter_isClaimed_def)
qed

interpretation mem_adapter: claim_adapter mem_claim mem_get mem_release now ownerId DEFAULT_CLAIM_TTL_MS
  for now ownerId
  by unfold_locales (simp add: DEFAULT_CLAIM_TTL_MS_def)

section \<open>Properties\<close>

text \<open>C2: whatever the interleaving of operator processes, crashes and restarts included, two
  submissions of the same fire key that were each made while their own claim was unexpired are
  separated in time: the later one is made only after the claim of the earlier one has expired.
  Within the TTL of a claim the work of a window is submitted at most once.\<close>

theorem no_double_submit:
  assumes "idem_reachable mem_claim mem_release ttl [] s"
  shows "sorted_wrt separated (sys_log s)"
  using mem.idem_reachable_inv [OF assms] by (simp add: idem_inv_def)

lemma two_submits_reachable:
  obtains s where "idem_reachable mem_claim mem_release 10 [] s"
    "sys_log s = [(''b'', \<lparr>fk_workerId = ''w'', fk_windowStartLedger = 7\<rparr>, 10, 20),
                  (''a'', \<lparr>fk_workerId = ''w'', fk_windowStartLedger = 7\<rparr>, 0, 10)]"
proof -
  let ?k = "\<lparr>fk_workerId = ''w'', fk_windowStartLedger = 7\<rparr>"
  let ?s0 = "\<lparr>sys_now = 0, sys_store = [], sys_stage = (\<lambda>_ _. Idle), sys_log = []\<rparr> :: claim_map claim_sys"
  have "idem_reachable mem_claim mem_release 10 [] ?s0" by (rule idem_reachable.start)
  then obtain s1 where s1: "idem_reachable mem_claim mem_release 10 [] s1"
      "sys_stage s1 = (\<lambda>_ _. Idle)" "sys_log s1 = [(''a'', ?k, 0, 10)]" "sys_now s1 = 0"
      "sys_store s1 = snd (mem_claim 0 (fireKeyToString ?k) ''a'' 10 [])"
    by (rule mem.idem_attempt [where k = ?k and p = "''a''"]) (auto simp: mem_get_def)
  have "idem_reachable mem_claim mem_release 10 [] (s1\<lparr>sys_now := 10\<rparr>)"
    using s1 by (intro idem_reachable.step [OF s1(1)] idem_step.tick) simp
  then obtain s2 where "idem_reachable mem_claim mem_release 10 [] s2"
      "sys_log s2 = [(''b'', ?k, 10, 20), (''a'', ?k, 0, 10)]"
    by (rule mem.idem_attempt [where k = ?k and p = "''b''"])
      (auto simp: s1 mem_claim_def mem_get_def)
  then show thesis by (rule that)
qed

theorem no_double_submit_witness:
  "\<exists>s. idem_reachable mem_claim mem_release 10 [] s \<and> length (sys_log s) = 2 \<and>
     sorted_wrt separated (sys_log s)"
proof -
  obtain s where "idem_reachable mem_claim mem_release 10 [] s" and "length (sys_log s) = 2"
    by (rule two_submits_reachable) auto
  with no_double_submit [of 10 s] show ?thesis by blast
qed

text \<open>one call of \<open>claimThenSubmit\<close> on the in-memory store, on every branch. With an unexpired
  claim in the store nothing happens; if the chain already executed the window, nothing is
  submitted and the claim is freed again; otherwise the outcome of \<open>submitFn\<close> is returned (an
  exception passes through) and the claim is held by the caller until its TTL has passed.\<close>

theorem claimThenSubmit_branches:
  fixes m :: claim_map
  shows "let ks = fireKeyToString key;
             r = claimThenSubmit mem_claim mem_release ttl chk now key p sub m
    in if mem_get now ks m \<noteq> None then r = (Inr False, m)
       else if chk (fk_windowStartLedger key) then fst r = Inr False \<and> mem_get t ks (snd r) = None
       else fst r = (case sub of Inl e \<Rightarrow> Inl e | Inr _ \<Rightarrow> Inr True) \<and>
         mem_get t ks (snd r) =
           (if t < now + ttl then Some \<lparr>cr_owner = p, cr_expiresAt = now + ttl\<rparr> else None)"
  by (auto simp: claimThenSubmit_def Let_def mem_claim_def mem_get_def mem_release_def
      split: option.splits sum.splits)

text \<open>the canonical string of a fire key identifies the key: two fire keys with the same
  string are the same worker and the same window.\<close>

theorem fireKeyToString_injective: "inj fireKeyToString"
  by (simp add: inj_def)

end
