(* ===== verification/Contract_Filters.thy ===== *)
theory Contract_Filters
  imports Orbital_Prelude
begin

text \<open>
  Validation of contract subscription filters, \<^verbatim>\<open>packages/pulse-core/src/contractFilters.ts\<close>.
  \<open>validateContractFilters\<close> receives an untyped value and returns \<open>null\<close> or the list of messages;
  the messages are the constructors of \<open>filter_error\<close>, with the indices they print.
\<close>

datatype filter_error =
    FiltersNotArray
  | TooManyFilters nat
  | FilterNotObject nat
  | BadFilterType nat
  | ContractIdsNotArray nat
  | TooManyContractIds nat nat
  | ContractIdNotString nat nat
  | TopicFiltersNotArray nat
  | TopicFilterBadEntry nat nat
  | TopicFilterBadScval nat nat string
  | TopicsNotArray nat
  | TopicNotSegmentArray nat nat
  | SegmentNotString nat nat nat
  | SegmentBadScval nat nat nat string

definition VALID_FILTER_TYPES :: "string list" where
  "VALID_FILTER_TYPES =
     [''contract.invoked'', ''contract.emitted'', ''system'', ''contract'', ''diagnostic'']"

definition is_base64_char :: "char \<Rightarrow> bool" where
  "is_base64_char c \<longleftrightarrow> (let n = (of_char c :: nat) in
     65 \<le> n \<and> n \<le> 90 \<or> 97 \<le> n \<and> n \<le> 122 \<or> 48 \<le> n \<and> n \<le> 57 \<or> c = CHR ''+'' \<or> c = CHR ''/'')"

text \<open>The regular expression \<^verbatim>\<open>/^[A-Za-z0-9+/]*={0,2}$/\<close>.\<close>

definition matches_base64 :: "string \<Rightarrow> bool" where
  "matches_base64 str \<longleftrightarrow> (let pad = dropWhile is_base64_char str in
     length pad \<le> 2 \<and> list_all (\<lambda>c. c = CHR ''='') pad)"

definition isValidBase64XdrScval :: "string \<Rightarrow> bool" where
  "isValidBase64XdrScval str =
     (if str = [] then False
      else if \<not> matches_base64 str then False
      else list_all (\<lambda>c. c = CHR ''='') (dropWhile (\<lambda>c. c \<noteq> CHR ''='') str))"

definition type_errors :: "nat \<Rightarrow> js_value \<Rightarrow> filter_error list" where
  "type_errors i t =
     (case t of
        JUndefined \<Rightarrow> []
      | JStr s \<Rightarrow> (if s \<in> set VALID_FILTER_TYPES then [] else [BadFilterType i])
      | _ \<Rightarrow> [BadFilterType i])"

definition contractId_errors :: "nat \<Rightarrow> nat \<Rightarrow> js_value \<Rightarrow> filter_error list" where
  "contractId_errors i j c = (case c of JStr _ \<Rightarrow> [] | _ \<Rightarrow> [ContractIdNotString i j])"

definition contractIds_errors :: "nat \<Rightarrow> js_value \<Rightarrow> filter_error list" where
  "contractIds_errors i v =
     (case v of
        JUndefined \<Rightarrow> []
      | JArr ids \<Rightarrow>
          (if length ids > 5 then [TooManyContractIds i (length ids)] else []) @
          collect (contractId_errors i) ids
      | _ \<Rightarrow> [ContractIdsNotArray i])"

definition topicFilter_errors :: "nat \<Rightarrow> nat \<Rightarrow> js_value \<Rightarrow> filter_error list" where
  "topicFilter_errors i j t =
     (case t of
        JNull \<Rightarrow> []
      | JStr s \<Rightarrow> (if s \<noteq> ''*'' \<and> s \<noteq> ''**'' \<and> \<not> isValidBase64XdrScval s
                   then [TopicFilterBadScval i j s] else [])
      | _ \<Rightarrow> [TopicFilterBadEntry i j])"

definition topicFilters_errors :: "nat \<Rightarrow> js_value \<Rightarrow> filter_error list" where
  "topicFilters_errors i v =
     (case v of
        JUndefined \<Rightarrow> []
      | JArr ts \<Rightarrow> collect (topicFilter_errors i) ts
      | _ \<Rightarrow> [TopicFiltersNotArray i])"

definition segment_errors :: "nat \<Rightarrow> nat \<Rightarrow> nat \<Rightarrow> js_value \<Rightarrow> filter_error list" where
  "segment_errors i j k seg =
     (case seg of
        JStr s \<Rightarrow> (if s \<noteq> ''*'' \<and> s \<noteq> ''**'' \<and> \<not> isValidBase64XdrScval s
                   then [SegmentBadScval i j k s] else [])
      | _ \<Rightarrow> [SegmentNotString i j k])"

definition pattern_errors :: "nat \<Rightarrow> nat \<Rightarrow> js_value \<Rightarrow> filter_error list" where
  "pattern_errors i j p =
     (case p of
        JArr segs \<Rightarrow> collect (segment_errors i j) segs
      | _ \<Rightarrow> [TopicNotSegmentArray i j])"

definition topics_errors :: "nat \<Rightarrow> js_value \<Rightarrow> filter_error list" where
  "topics_errors i v =
     (case v of
        JUndefined \<Rightarrow> []
      | JArr ps \<Rightarrow> collect (pattern_errors i) ps
      | _ \<Rightarrow> [TopicsNotArray i])"

definition filter_errors :: "nat \<Rightarrow> js_value \<Rightarrow> filter_error list" where
  "filter_errors i f =
     (if \<not> js_typeof_object f \<or> f = JNull then [FilterNotObject i]
      else type_errors i (js_field ''type'' f) @
        contractIds_errors i (js_field ''contractIds'' f) @
        topicFilters_errors i (js_field ''topicFilters'' f) @
        topics_errors i (js_field ''topics'' f))"

definition validateContractFilters :: "js_value \<Rightarrow> filter_error list option" where
  "validateContractFilters v =
     (case v of
        JArr fs \<Rightarrow>
          (let errors = (if length fs > 5 then [TooManyFilters (length fs)] else []) @
                 collect filter_errors fs
           in if errors = [] then None else Some errors)
      | _ \<Rightarrow> Some [FiltersNotArray])"

section \<open>What is accepted\<close>

definition topic_segment_ok :: "js_value \<Rightarrow> bool" where
  "topic_segment_ok seg \<longleftrightarrow> (\<exists>s. seg = JStr s \<and> (s \<in> {''*'', ''**''} \<or> isValidBase64XdrScval s))"

definition filter_ok :: "js_value \<Rightarrow> bool" where
  "filter_ok f \<longleftrightarrow>
     js_typeof_object f \<and> f \<noteq> JNull \<and>
     (js_field ''type'' f = JUndefined \<or> (\<exists>t \<in> set VALID_FILTER_TYPES. js_field ''type'' f = JStr t)) \<and>
     (js_field ''contractIds'' f = JUndefined \<or>
       (\<exists>ids. js_field ''contractIds'' f = JArr (map JStr ids) \<and> length ids \<le> 5)) \<and>
     (js_field ''topicFilters'' f = JUndefined \<or>
       (\<exists>ts. js_field ''topicFilters'' f = JArr ts \<and> (\<forall>t \<in> set ts. t = JNull \<or> topic_segment_ok t))) \<and>
     (js_field ''topics'' f = JUndefined \<or>
       (\<exists>ps. js_field ''topics'' f = JArr ps \<and>
         (\<forall>p \<in> set ps. \<exists>segs. p = JArr segs \<and> (\<forall>s \<in> set segs. topic_segment_ok s))))"

lemma type_errors_Nil:
  "type_errors i t = [] \<longleftrightarrow> t = JUndefined \<or> (\<exists>s \<in> set VALID_FILTER_TYPES. t = JStr s)"
  by (auto simp: type_errors_def split: js_value.splits)

lemma contractId_errors_Nil: "contractId_errors i j c = [] \<longleftrightarrow> (\<exists>s. c = JStr s)"
  by (cases c) (auto simp: contractId_errors_def)

lemma contractIds_errors_Nil:
  "contractIds_errors i v = [] \<longleftrightarrow>
     v = JUndefined \<or> (\<exists>ids. v = JArr (map JStr ids) \<and> length ids \<le> 5)"
proof (cases v)
  case (JArr ids)
  have "(\<forall>x \<in> set ids. \<exists>s. x = JStr s) \<longleftrightarrow> (\<exists>ss. ids = map JStr ss)"
    using ex_map_conv [of ids JStr] by auto
  with JArr show ?thesis
    by (auto simp: contractIds_errors_def collect_Nil_all [OF contractId_errors_Nil])
qed (auto simp: contractIds_errors_def)

lemma segment_errors_Nil: "segment_errors i j k seg = [] \<longleftrightarrow> topic_segment_ok seg"
  by (cases seg) (auto simp: segment_errors_def topic_segment_ok_def)

lemma topicFilter_errors_Nil: "topicFilter_errors i j t = [] \<longleftrightarrow> t = JNull \<or> topic_segment_ok t"
  by (cases t) (auto simp: topicFilter_errors_def topic_segment_ok_def)

lemma pattern_errors_Nil:
  "pattern_errors i j p = [] \<longleftrightarrow> (\<exists>segs. p = JArr segs \<and> (\<forall>s \<in> set segs. topic_segment_ok s))"
  by (cases p) (auto simp: pattern_errors_def collect_Nil_all [OF segment_errors_Nil])

lemma topicFilters_errors_Nil:
  "topicFilters_errors i v = [] \<longleftrightarrow>
     v = JUndefined \<or> (\<exists>ts. v = JArr ts \<and> (\<forall>t \<in> set ts. t = JNull \<or> topic_segment_ok t))"
  by (cases v) (auto simp: topicFilters_errors_def collect_Nil_all [OF topicFilter_errors_Nil])

lemma topics_errors_Nil:
  "topics_errors i v = [] \<longleftrightarrow>
     v = JUndefined \<or> (\<exists>ps. v = JArr ps \<and>
       (\<forall>p \<in> set ps. \<exists>segs. p = JArr segs \<and> (\<forall>s \<in> set segs. topic_segment_ok s)))"
  by (cases v) (auto simp: topics_errors_def collect_Nil_all [OF pattern_errors_Nil])

lemma filter_errors_Nil: "filter_errors i f = [] \<longleftrightarrow> filter_ok f"
  by (simp add: filter_errors_def filter_ok_def type_errors_Nil contractIds_errors_Nil
      topicFilters_errors_Nil topics_errors_Nil)

lemma validateContractFilters_None:
  "validateContractFilters v = None \<longleftrightarrow>
     (\<exists>fs. v = JArr fs \<and> length fs \<le> 5 \<and> (\<forall>f \<in> set fs. filter_ok f))"
  by (cases v) (auto simp: validateContractFilters_def Let_def collect_Nil_all [OF filter_errors_Nil])

end
