(* ===== verification/Event_Trigger.thy ===== *)
theory Event_Trigger
  imports Fire_Claims Contract_Filters
begin

text \<open>
  The event-based trigger class of the worker runtime: declarative conditions
  (\<^verbatim>\<open>packages/worker-core/src/triggers/predicate.ts\<close>), the planner that turns normalized events into
  fire windows and the claiming of planned windows (\<^verbatim>\<open>triggers/eventTrigger.ts\<close>), with
  \<open>isEventType\<close> of \<^verbatim>\<open>packages/pulse-core/src/eventTypeGuard.ts\<close>.

  A \<open>NormalizedEvent\<close> is the record of the properties these modules read; a property the event's
  type does not have is \<open>None\<close>. Messages are constructors of \<open>compile_error\<close> and \<open>register_error\<close>.
\<close>

section \<open>Conditions\<close>

record norm_event =
  ev_type :: string
  ev_eventId :: "string option"
  ev_txHash :: "string option"
  ev_ledger :: "int option"
  ev_from :: "string option"
  ev_to :: "string option"
  ev_account :: "string option"
  ev_contractId :: "string option"
  ev_sourceAccount :: "string option"
  ev_destination :: "string option"
  ev_trustor :: "string option"
  ev_topics :: "string list"
  ev_function :: "string option"
  ev_inSuccessfulContractCall :: "bool option"

definition isEventType :: "norm_event \<Rightarrow> string list \<Rightarrow> bool" where
  "isEventType event types \<longleftrightarrow> ev_type event \<in> set types"

record contract_filter =
  cf_type :: "string option"
  cf_contractIds :: "string list option"
  cf_topics :: "string list list option"

record condition_spec =
  spec_eventTypes :: "string list"
  spec_contract :: "contract_filter option"
  spec_addresses :: "string list option"
  spec_requireSuccessfulContractCall :: "bool option"

definition TRADE_SIGNAL_EVENT_TYPES :: "string list" where
  "TRADE_SIGNAL_EVENT_TYPES =
     [''offer.created'', ''offer.updated'', ''offer.deleted'', ''lp.deposited'', ''lp.withdrawn'']"

definition KNOWN_EVENT_TYPES :: "string list" where
  "KNOWN_EVENT_TYPES =
     [''payment.received'', ''payment.sent'', ''payment.self'', ''account.created'', ''account.merged'',
      ''account.options_changed'', ''account.bump_sequence'', ''trustline.added'', ''trustline.removed'',
      ''trustline.updated'', ''trustline.authorized'', ''trustline.deauthorized'', ''offer.created'',
      ''offer.updated'', ''offer.deleted'', ''data.set'', ''data.cleared'', ''claimable.created'',
      ''claimable.claimed'', ''lp.deposited'', ''lp.withdrawn'', ''asset.clawback'', ''fee.incurred'',
      ''contract.invoked'', ''contract.emitted'']"

definition CONTRACT_EVENT_TYPES :: "string list" where
  "CONTRACT_EVENT_TYPES = [''contract.invoked'', ''contract.emitted'']"

definition nonempty_field :: "string option \<Rightarrow> string list" where
  "nonempty_field v = (case v of Some a \<Rightarrow> if a \<noteq> [] then [a] else [] | None \<Rightarrow> [])"

definition addressesOf :: "norm_event \<Rightarrow> string list" where
  "addressesOf event = concat (map nonempty_field
     [ev_from event, ev_to event, ev_account event, ev_contractId event, ev_sourceAccount event,
      ev_destination event, ev_trustor event])"

definition segment_matches :: "string list \<Rightarrow> nat \<Rightarrow> string \<Rightarrow> bool" where
  "segment_matches topics index segment \<longleftrightarrow>
     segment = ''*'' \<or> (index < length topics \<and> topics ! index = segment)"

definition topic_set_matches :: "string list \<Rightarrow> string list \<Rightarrow> bool" where
  "topic_set_matches topics wanted \<longleftrightarrow>
     list_all (\<lambda>(index, segment). segment_matches topics index segment) (enumerate 0 wanted)"

definition matchesContractFilter :: "norm_event \<Rightarrow> contract_filter \<Rightarrow> bool" where
  "matchesContractFilter event flt =
     (if \<not> isEventType event [''contract.invoked'', ''contract.emitted''] then False
      else if (case cf_contractIds flt of
                 Some ids \<Rightarrow> ids \<noteq> [] \<and> \<not> (\<exists>c \<in> set ids. ev_contractId event = Some c)
               | None \<Rightarrow> False) then False
      else (case cf_topics flt of
              Some topics \<Rightarrow>
                (if topics = [] then True
                 else if \<not> isEventType event [''contract.emitted''] then False
                 else list_ex (topic_set_matches (ev_topics event)) topics)
            | None \<Rightarrow> True))"

datatype compile_error =
    NoEventTypes
  | UnknownEventType string
  | TradeSignal "string list"
  | FilterProblem filter_error
  | ContractFilterNeverMatches
  | EmptyAddresses

text \<open>The untyped value that \<open>validateContractFilters\<close> sees for a typed filter.\<close>

definition opt_field :: "string \<Rightarrow> ('a \<Rightarrow> js_value) \<Rightarrow> 'a option \<Rightarrow> (string \<times> js_value) list" where
  "opt_field k f v = (case v of Some x \<Rightarrow> [(k, f x)] | None \<Rightarrow> [])"

definition filter_value :: "contract_filter \<Rightarrow> js_value" where
  "filter_value flt = JObj
     (opt_field ''type'' JStr (cf_type flt) @
      opt_field ''contractIds'' (\<lambda>ids. JArr (map JStr ids)) (cf_contractIds flt) @
      opt_field ''topics'' (\<lambda>ps. JArr (map (\<lambda>segs. JArr (map JStr segs)) ps)) (cf_topics flt))"

definition eventTypes_errors :: "string list \<Rightarrow> compile_error list" where
  "eventTypes_errors types =
     (if types = [] then [NoEventTypes]
      else map UnknownEventType (filter (\<lambda>t. t \<notin> set KNOWN_EVENT_TYPES) types) @
        (let tradeSignals = filter (\<lambda>t. t \<in> set TRADE_SIGNAL_EVENT_TYPES) types
         in if tradeSignals \<noteq> [] then [TradeSignal tradeSignals] else []))"

definition contract_errors :: "condition_spec \<Rightarrow> compile_error list" where
  "contract_errors spec =
     (case spec_contract spec of
        None \<Rightarrow> []
      | Some flt \<Rightarrow>
          (case validateContractFilters (JArr [filter_value flt]) of
             None \<Rightarrow> [] | Some es \<Rightarrow> map FilterProblem es) @
          (if list_ex (\<lambda>t. t \<in> set CONTRACT_EVENT_TYPES) (spec_eventTypes spec) then []
           else [ContractFilterNeverMatches]))"

definition compile_errors :: "condition_spec \<Rightarrow> compile_error list" where
  "compile_errors spec =
     eventTypes_errors (spec_eventTypes spec) @ contract_errors spec @
     (if spec_addresses spec = Some [] then [EmptyAddresses] else [])"

definition condition_predicate :: "condition_spec \<Rightarrow> norm_event \<Rightarrow> bool" where
  "condition_predicate spec event =
     (let requireSuccess = (case spec_requireSuccessfulContractCall spec of Some b \<Rightarrow> b | None \<Rightarrow> True)
      in if \<not> isEventType event (spec_eventTypes spec) then False
         else if requireSuccess \<and> ev_type event \<in> set CONTRACT_EVENT_TYPES \<and>
           ev_inSuccessfulContractCall event = Some False then False
         else if (case spec_contract spec of
                    Some flt \<Rightarrow> \<not> matchesContractFilter event flt | None \<Rightarrow> False) then False
         else if (case spec_addresses spec of
                    Some wanted \<Rightarrow> \<not> list_ex (\<lambda>a. a \<in> set wanted) (addressesOf event) | None \<Rightarrow> False)
         then False
         else True)"

definition compileEventCondition ::
  "condition_spec \<Rightarrow> (compile_error list, norm_event \<Rightarrow> bool) result"
where
  "compileEventCondition spec =
     (if compile_errors spec \<noteq> [] then Inl (compile_errors spec) else Inr (condition_predicate spec))"

section \<open>The planner\<close>

record trigger_definition =
  def_workerId :: string
  def_condition :: condition_spec
  def_latencyBoundLedgers :: int
  def_activationLedger :: int

record fire_decision =
  fd_windowId :: string
  fd_workerId :: string
  fd_conditionEventId :: string
  fd_conditionLedger :: int
  fd_deadlineLedger :: int

datatype skip_reason =
  Duplicate | WindowAlreadyOpen | BeforeActivation | MissingLedger | MissingEventId

record skipped_event =
  sk_reason :: skip_reason
  sk_conditionEventId :: "string option"
  sk_conditionLedger :: "int option"

record plan_result =
  pr_decisions :: "fire_decision list"
  pr_skipped :: "skipped_event list"

definition ledgerOf :: "norm_event \<Rightarrow> int option" where
  "ledgerOf event = ev_ledger event"

definition eventIdentity :: "norm_event \<Rightarrow> string option" where
  "eventIdentity event =
     (case ev_eventId event of
        Some i \<Rightarrow> if i \<noteq> [] then Some i else
          (case (ev_txHash event, ev_ledger event) of
             (Some h, Some l) \<Rightarrow> if h \<noteq> [] then Some (h @ CHR '':'' # show_int l) else None
           | _ \<Rightarrow> None)
      | None \<Rightarrow>
          (case (ev_txHash event, ev_ledger event) of
             (Some h, Some l) \<Rightarrow> if h \<noteq> [] then Some (h @ CHR '':'' # show_int l) else None
           | _ \<Rightarrow> None))"

definition ledger_key :: "norm_event \<Rightarrow> int" where
  "ledger_key event = (case ledgerOf event of Some l \<Rightarrow> l | None \<Rightarrow> 0)"

text \<open>The variables of the loop of \<open>plan\<close>.\<close>

record plan_state =
  ps_decisions :: "fire_decision list"
  ps_skipped :: "skipped_event list"
  ps_seen :: "string set"
  ps_openUntil :: "int option"

definition skip :: "skip_reason \<Rightarrow> string option \<Rightarrow> int option \<Rightarrow> plan_state \<Rightarrow> plan_state" where
  "skip r i l st = st\<lparr>ps_skipped := ps_skipped st @
     [\<lparr>sk_reason = r, sk_conditionEventId = i, sk_conditionLedger = l\<rparr>]\<rparr>"

definition plan_step :: "trigger_definition \<Rightarrow> (norm_event \<Rightarrow> bool) \<Rightarrow> norm_event \<Rightarrow> plan_state \<Rightarrow> plan_state"
where
  "plan_step d pred event st =
     (if \<not> pred event then st
      else case ledgerOf event of
        None \<Rightarrow> skip MissingLedger (eventIdentity event) None st
      | Some ledger \<Rightarrow>
          (case eventIdentity event of
             None \<Rightarrow> skip MissingEventId None (Some ledger) st
           | Some ident \<Rightarrow>
               if ledger < def_activationLedger d then skip BeforeActivation (Some ident) (Some ledger) st
               else if ident \<in> ps_seen st then skip Duplicate (Some ident) (Some ledger) st
               else
                 let st1 = st\<lparr>ps_seen := insert ident (ps_seen st)\<rparr> in
                 if (case ps_openUntil st1 of Some u \<Rightarrow> ledger \<le> u | None \<Rightarrow> False)
                 then skip WindowAlreadyOpen (Some ident) (Some ledger) st1
                 else
                   let deadline = ledger + def_latencyBoundLedgers d in
                   st1\<lparr>ps_openUntil := Some deadline,
                     ps_decisions := ps_decisions st1 @
                       [\<lparr>fd_windowId = def_workerId d @ CHR '':'' # ident, fd_workerId = def_workerId d,
                         fd_conditionEventId = ident, fd_conditionLedger = ledger,
                         fd_deadlineLedger = deadline\<rparr>]\<rparr>))"

definition plan_init :: plan_state where
  "plan_init = \<lparr>ps_decisions = [], ps_skipped = [], ps_seen = {}, ps_openUntil = None\<rparr>"

definition plan_loop :: "trigger_definition \<Rightarrow> (norm_event \<Rightarrow> bool) \<Rightarrow> norm_event list \<Rightarrow> plan_state \<Rightarrow> plan_state"
where
  "plan_loop d pred events st = fold (plan_step d pred) events st"

definition plan :: "trigger_definition \<Rightarrow> (norm_event \<Rightarrow> bool) \<Rightarrow> norm_event list \<Rightarrow> plan_result" where
  "plan d pred events =
     (let st = plan_loop d pred (sort_key ledger_key events) plan_init
      in \<lparr>pr_decisions = ps_decisions st, pr_skipped = ps_skipped st\<rparr>)"

section \<open>Claiming and registration\<close>

fun claimDecisions ::
  "(string \<Rightarrow> 's \<Rightarrow> bool \<times> 's) \<Rightarrow> fire_decision list \<Rightarrow> 's \<Rightarrow> fire_decision list \<times> 's"
where
  "claimDecisions claim [] s = ([], s)"
| "claimDecisions claim (d # ds) s =
     (let (ok, s1) = claim (fd_windowId d) s; (won, s2) = claimDecisions claim ds s1
      in (if ok then d # won else won, s2))"

datatype register_error =
  WorkerIdRequired | BadLatencyBound | BadActivationLedger | ConditionProblem compile_error

definition register_errors :: "trigger_definition \<Rightarrow> register_error list" where
  "register_errors d =
     (if def_workerId d = [] \<or> trim (def_workerId d) = [] then [WorkerIdRequired] else []) @
     (if def_latencyBoundLedgers d \<le> 0 then [BadLatencyBound] else []) @
     (if def_activationLedger d < 0 then [BadActivationLedger] else []) @
     (case compileEventCondition (def_condition d) of
        Inl es \<Rightarrow> map ConditionProblem es | Inr _ \<Rightarrow> [])"

definition registerEventTrigger ::
  "trigger_definition \<Rightarrow> (register_error list, trigger_definition \<times> (norm_event \<Rightarrow> bool)) result"
where
  "registerEventTrigger d =
     (case compileEventCondition (def_condition d) of
        Inl _ \<Rightarrow> Inl (register_errors d)
      | Inr predicate \<Rightarrow>
          (if register_errors d \<noteq> [] then Inl (register_errors d) else Inr (d, predicate)))"

section \<open>The loop of the planner\<close>

lemma skip_simps [simp]:
  "ps_decisions (skip r i l st) = ps_decisions st" "ps_seen (skip r i l st) = ps_seen st"
  "ps_openUntil (skip r i l st) = ps_openUntil st"
  "length (ps_skipped (skip r i l st)) = Suc (length (ps_skipped st))"
  by (simp_all add: skip_def)

text \<open>An event is eligible when it can open a window unless its identity was seen before.\<close>

definition eligible :: "trigger_definition \<Rightarrow> (norm_event \<Rightarrow> bool) \<Rightarrow> norm_event \<Rightarrow> bool" where
  "eligible d pred e \<longleftrightarrow> pred e \<and>
     (\<exists>l i. ledgerOf e = Some l \<and> eventIdentity e = Some i \<and> def_activationLedger d \<le> l)"

definition opened :: "trigger_definition \<Rightarrow> norm_event \<Rightarrow> fire_decision" where
  "opened d e =
     \<lparr>fd_windowId = def_workerId d @ CHR '':'' # the (eventIdentity e), fd_workerId = def_workerId d,
       fd_conditionEventId = the (eventIdentity e), fd_conditionLedger = the (ledgerOf e),
       fd_deadlineLedger = the (ledgerOf e) + def_latencyBoundLedgers d\<rparr>"

definition window_open :: "plan_state \<Rightarrow> norm_event \<Rightarrow> bool" where
  "window_open st e \<longleftrightarrow> (\<exists>u. ps_openUntil st = Some u \<and> the (ledgerOf e) \<le> u)"

text \<open>What one iteration does to the planned windows, the seen identities and the open window.\<close>

lemma plan_step_core:
  "ps_seen (plan_step d pred e st) =
     (if eligible d pred e then insert (the (eventIdentity e)) (ps_seen st) else ps_seen st)"
  "ps_decisions (plan_step d pred e st) =
     (if eligible d pred e \<and> the (eventIdentity e) \<notin> ps_seen st \<and> \<not> window_open st e
      then ps_decisions st @ [opened d e] else ps_decisions st)"
  "ps_openUntil (plan_step d pred e st) =
     (if eligible d pred e \<and> the (eventIdentity e) \<notin> ps_seen st \<and> \<not> window_open st e
      then Some (fd_deadlineLedger (opened d e)) else ps_openUntil st)"
  by (auto simp: plan_step_def eligible_def opened_def window_open_def Let_def split: option.splits)

lemma plan_step_count:
  "length (ps_decisions (plan_step d pred e st)) + length (ps_skipped (plan_step d pred e st)) =
     length (ps_decisions st) + length (ps_skipped st) + (if pred e then 1 else 0)"
  by (auto simp: plan_step_def Let_def split: option.splits)

lemma plan_loop_simps [simp]:
  "plan_loop d pred [] st = st"
  "plan_loop d pred (e # es) st = plan_loop d pred es (plan_step d pred e st)"
  "plan_loop d pred (xs @ ys) st = plan_loop d pred ys (plan_loop d pred xs st)"
  by (simp_all add: plan_loop_def)

text \<open>The loop invariant: one window at a time, one window per identity.\<close>

definition plan_inv :: "trigger_definition \<Rightarrow> plan_state \<Rightarrow> bool" where
  "plan_inv d st \<longleftrightarrow>
     sorted_wrt (\<lambda>a b. fd_deadlineLedger a < fd_conditionLedger b) (ps_decisions st) \<and>
     ps_openUntil st =
       (if ps_decisions st = [] then None else Some (fd_deadlineLedger (last (ps_decisions st)))) \<and>
     distinct (map fd_conditionEventId (ps_decisions st)) \<and>
     fd_conditionEventId ` set (ps_decisions st) \<subseteq> ps_seen st \<and>
     (\<forall>f \<in> set (ps_decisions st). \<exists>e. f = opened d e \<and> def_activationLedger d \<le> fd_conditionLedger f)"

lemma opened_simps [simp]:
  "fd_conditionEventId (opened d e) = the (eventIdentity e)"
  "fd_conditionLedger (opened d e) = the (ledgerOf e)"
  "fd_deadlineLedger (opened d e) = the (ledgerOf e) + def_latencyBoundLedgers d"
  "fd_windowId (opened d e) = def_workerId d @ CHR '':'' # the (eventIdentity e)"
  "fd_workerId (opened d e) = def_workerId d"
  by (simp_all add: opened_def)

lemma plan_inv_init: "plan_inv d plan_init"
  by (simp add: plan_inv_def plan_init_def)

lemma sorted_wrt_last_bound:
  assumes "sorted_wrt (\<lambda>a b. f a < (g b :: int)) xs" and "\<And>x. x \<in> set xs \<Longrightarrow> g x \<le> f x"
    and "x \<in> set xs"
  shows "f x \<le> f (last xs)"
  using assms
proof (induction xs)
  case (Cons y ys)
  show ?case
  proof (cases "x = y \<and> ys \<noteq> []")
    case True
    then have "f y < g (last ys)" using Cons.prems(1) by simp
    also have "g (last ys) \<le> f (last ys)" using True Cons.prems(2) by simp
    finally show ?thesis using True by simp
  next
    case False
    with Cons show ?thesis by auto
  qed
qed simp

lemma plan_inv_step:
  assumes "plan_inv d st" and "0 \<le> def_latencyBoundLedgers d"
  shows "plan_inv d (plan_step d pred e st)"
proof (cases "eligible d pred e \<and> the (eventIdentity e) \<notin> ps_seen st \<and> \<not> window_open st e")
  case True
  have last: "fd_deadlineLedger f \<le> fd_deadlineLedger (last (ps_decisions st))"
    if "f \<in> set (ps_decisions st)" for f
    using assms that by (intro sorted_wrt_last_bound [where g = fd_conditionLedger]) (auto simp: plan_inv_def)
  have "fd_deadlineLedger f < the (ledgerOf e)" if "f \<in> set (ps_decisions st)" for f
    using last [OF that] that True assms(1) by (auto simp: plan_inv_def window_open_def split: if_splits)
  moreover have "def_activationLedger d \<le> the (ledgerOf e)"
    using True by (auto simp: eligible_def)
  ultimately show ?thesis
    using True assms(1) by (auto simp: plan_inv_def plan_step_core sorted_wrt_append)
next
  case False
  then have "ps_decisions (plan_step d pred e st) = ps_decisions st"
    and "ps_openUntil (plan_step d pred e st) = ps_openUntil st"
    by (auto simp: plan_step_core)
  moreover have "ps_seen st \<subseteq> ps_seen (plan_step d pred e st)"
    by (auto simp: plan_step_core)
  ultimately show ?thesis using assms(1) by (auto simp: plan_inv_def)
qed

lemma plan_inv_loop:
  "plan_inv d st \<Longrightarrow> 0 \<le> def_latencyBoundLedgers d \<Longrightarrow> plan_inv d (plan_loop d pred es st)"
  by (induction es arbitrary: st) (auto simp: plan_inv_step)

lemma plan_loop_count:
  "length (ps_decisions (plan_loop d pred es st)) + length (ps_skipped (plan_loop d pred es st)) =
     length (ps_decisions st) + length (ps_skipped st) + length (filter pred es)"
  by (induction es arbitrary: st) (auto simp: plan_step_count)

section \<open>Delivery order and re-delivery\<close>

text \<open>The parts of the loop state that decide which windows open.\<close>

definition same_core :: "plan_state \<Rightarrow> plan_state \<Rightarrow> bool" where
  "same_core s t \<longleftrightarrow>
     ps_decisions s = ps_decisions t \<and> ps_seen s = ps_seen t \<and> ps_openUntil s = ps_openUntil t"

lemma plan_step_same_core: "same_core s t \<Longrightarrow> same_core (plan_step d pred e s) (plan_step d pred e t)"
  by (auto simp: same_core_def plan_step_core window_open_def)

lemma plan_loop_same_core: "same_core s t \<Longrightarrow> same_core (plan_loop d pred es s) (plan_loop d pred es t)"
  by (induction es arbitrary: s t) (auto simp: plan_step_same_core)

lemma plan_loop_seen:
  "ps_seen (plan_loop d pred es st) =
     ps_seen st \<union> {the (eventIdentity e) | e. e \<in> set es \<and> eligible d pred e}"
  by (induction es arbitrary: st) (auto simp: plan_step_core)

lemma plan_step_repeated:
  assumes "e \<in> set es"
  shows "same_core (plan_step d pred e (plan_loop d pred es st)) (plan_loop d pred es st)"
  using assms by (auto simp: same_core_def plan_step_core plan_loop_seen)

lemma plan_redelivered_one:
  assumes "y \<in> set zs"
  shows "same_core (plan_loop d pred (sort_key ledger_key (zs @ [y])) st)
    (plan_loop d pred (sort_key ledger_key zs) st)"
proof -
  let ?lo = "filter (\<lambda>x. ledger_key x \<le> ledger_key y) (sort_key ledger_key zs)"
  let ?hi = "filter (\<lambda>x. ledger_key y < ledger_key x) (sort_key ledger_key zs)"
  have zs: "sort_key ledger_key zs = ?lo @ ?hi" by (rule sort_key_split)
  have "y \<in> set ?lo" using assms by simp
  then have "same_core (plan_loop d pred ?hi (plan_step d pred y (plan_loop d pred ?lo st)))
      (plan_loop d pred ?hi (plan_loop d pred ?lo st))"
    by (intro plan_loop_same_core plan_step_repeated)
  then show ?thesis by (subst zs) (simp add: sort_key_snoc)
qed

lemma plan_redelivered:
  "set ys \<subseteq> set xs \<Longrightarrow>
   same_core (plan_loop d pred (sort_key ledger_key (xs @ ys)) st)
     (plan_loop d pred (sort_key ledger_key xs) st)"
proof (induction ys rule: rev_induct)
  case (snoc y ys)
  then have "same_core (plan_loop d pred (sort_key ledger_key ((xs @ ys) @ [y])) st)
      (plan_loop d pred (sort_key ledger_key (xs @ ys)) st)"
    by (intro plan_redelivered_one) auto
  with snoc show ?case by (auto simp: same_core_def)
qed (simp add: same_core_def)

section \<open>Claiming planned windows\<close>

context fire_claim_store begin

lemma claimDecisions_Cons:
  "fst (claimDecisions claim (d # ds) s) =
     (if isClaimed (fd_windowId d) s then [] else [d]) @
     fst (claimDecisions claim ds (snd (claim (fd_windowId d) s)))"
  "snd (claimDecisions claim (d # ds) s) = snd (claimDecisions claim ds (snd (claim (fd_windowId d) s)))"
  using claim_wins [of "fd_windowId d" s] by (auto simp: Let_def split_beta)

declare claimDecisions.simps(2) [simp del]

lemma claimDecisions_isClaimed:
  "isClaimed w (snd (claimDecisions claim ds s)) \<longleftrightarrow> w \<in> fd_windowId ` set ds \<or> isClaimed w s"
  by (induction ds arbitrary: s) (auto simp: claimDecisions_Cons isClaimed_after)

lemma claimDecisions_covers:
  "fd_windowId ` set (fst (claimDecisions claim ds s)) =
     fd_windowId ` set ds - {w. isClaimed w s}"
  by (induction ds arbitrary: s) (auto simp: claimDecisions_Cons isClaimed_after image_Un)

lemma claimDecisions_subset: "set (fst (claimDecisions claim ds s)) \<subseteq> set ds"
  by (induction ds arbitrary: s) (auto simp: claimDecisions_Cons)

lemma claimDecisions_distinct:
  "distinct (map fd_windowId (fst (claimDecisions claim ds s)))"
  by (induction ds arbitrary: s)
    (auto simp: claimDecisions_Cons claimDecisions_covers isClaimed_after)

text \<open>Two parties that plan windows and claim them through one store never win the same window.\<close>

lemma claimDecisions_exclusive:
  "fd_windowId ` set (fst (claimDecisions claim ds s)) \<inter>
     fd_windowId ` set (fst (claimDecisions claim ds' (snd (claimDecisions claim ds s)))) = {}"
  by (auto simp: claimDecisions_covers claimDecisions_isClaimed)

end

section \<open>Properties\<close>

text \<open>C33: the windows a plan opens never overlap: each one's condition lies strictly after the
  deadline of every earlier one, all lie at or after the activation ledger, every deadline is the
  condition ledger plus the declared latency bound, and no two windows share a window id. The
  hypothesis is the bound that \<open>registerEventTrigger\<close> enforces.\<close>

theorem plan_windows_disjoint:
  assumes "0 < def_latencyBoundLedgers d"
  shows "sorted_wrt (\<lambda>a b. fd_deadlineLedger a < fd_conditionLedger b) (pr_decisions (plan d pred events)) \<and>
    (\<forall>f \<in> set (pr_decisions (plan d pred events)).
       def_activationLedger d \<le> fd_conditionLedger f \<and>
       fd_deadlineLedger f = fd_conditionLedger f + def_latencyBoundLedgers d) \<and>
    distinct (map fd_windowId (pr_decisions (plan d pred events)))"
proof -
  let ?st = "plan_loop d pred (sort_key ledger_key events) plan_init"
  have inv: "plan_inv d ?st" using plan_inv_loop [OF plan_inv_init] assms by simp
  then have ids: "\<forall>f \<in> set (ps_decisions ?st).
      fd_windowId f = def_workerId d @ CHR '':'' # fd_conditionEventId f"
    by (auto simp: plan_inv_def)
  have "distinct (map fd_windowId (ps_decisions ?st))"
    using inv ids by (auto simp: plan_inv_def distinct_map inj_on_def)
  with inv show ?thesis by (auto simp: plan_def Let_def plan_inv_def)
qed

definition sample_event :: "string \<Rightarrow> string \<Rightarrow> int \<Rightarrow> norm_event" where
  "sample_event ty i l = \<lparr>ev_type = ty, ev_eventId = Some i, ev_txHash = None, ev_ledger = Some l,
     ev_from = None, ev_to = None, ev_account = None, ev_contractId = None, ev_sourceAccount = None,
     ev_destination = None, ev_trustor = None, ev_topics = [], ev_function = None,
     ev_inSuccessfulContractCall = None\<rparr>"

definition sample_condition :: condition_spec where
  "sample_condition = \<lparr>spec_eventTypes = [''payment.received''], spec_contract = None,
     spec_addresses = None, spec_requireSuccessfulContractCall = None\<rparr>"

definition sample_trigger :: trigger_definition where
  "sample_trigger = \<lparr>def_workerId = ''w'', def_condition = sample_condition,
     def_latencyBoundLedgers = 5, def_activationLedger = 10\<rparr>"

lemmas sample_defs = sample_event_def sample_condition_def sample_trigger_def

theorem plan_windows_disjoint_witness:
  "0 < def_latencyBoundLedgers sample_trigger \<and>
   sorted_wrt (\<lambda>a b. fd_deadlineLedger a < fd_conditionLedger b)
     (pr_decisions (plan sample_trigger (\<lambda>_. True)
       [sample_event ''payment.received'' ''x'' 20, sample_event ''payment.received'' ''y'' 12])) \<and>
   distinct (map fd_windowId (pr_decisions (plan sample_trigger (\<lambda>_. True)
       [sample_event ''payment.received'' ''x'' 20, sample_event ''payment.received'' ''y'' 12])))"
proof -
  have h: "0 < def_latencyBoundLedgers sample_trigger" by (simp add: sample_defs)
  show ?thesis using h plan_windows_disjoint [OF h] by blast
qed

text \<open>fire once under re-delivery: appending events that were already delivered (in any order,
  any number of times) leaves the planned windows unchanged.\<close>

theorem plan_redelivery:
  assumes "set redelivered \<subseteq> set events"
  shows "pr_decisions (plan d pred (events @ redelivered)) = pr_decisions (plan d pred events)"
  using plan_redelivered [OF assms, of d pred plan_init] by (simp add: plan_def Let_def same_core_def)

theorem plan_redelivery_witness:
  "pr_decisions (plan sample_trigger (\<lambda>_. True)
     ([sample_event ''payment.received'' ''x'' 20, sample_event ''payment.received'' ''y'' 12] @
      [sample_event ''payment.received'' ''y'' 12])) =
   pr_decisions (plan sample_trigger (\<lambda>_. True)
     [sample_event ''payment.received'' ''x'' 20, sample_event ''payment.received'' ''y'' 12])"
  by (rule plan_redelivery) simp

text \<open>the plan does not depend on the order of delivery across ledgers: two deliveries of the
  same events that agree on the order within each ledger give the same decisions and the same
  skipped events.\<close>

theorem plan_delivery_order:
  assumes "mset events = mset events'"
    and "\<And>l. filter (\<lambda>e. ledger_key e = l) events = filter (\<lambda>e. ledger_key e = l) events'"
  shows "plan d pred events = plan d pred events'"
  using sort_key_cong_groups [OF assms] by (simp add: plan_def)

theorem plan_delivery_order_witness:
  "plan sample_trigger (\<lambda>_. True)
     [sample_event ''payment.received'' ''x'' 20, sample_event ''payment.received'' ''y'' 12] =
   plan sample_trigger (\<lambda>_. True)
     [sample_event ''payment.received'' ''y'' 12, sample_event ''payment.received'' ''x'' 20]"
  by (rule plan_delivery_order) (auto simp: sample_defs ledger_key_def ledgerOf_def)

text \<open>within one ledger the order of delivery does decide which event opens the window and so
  the window id, although the planner's comment says the answer must not depend on the order in
  which a source happened to deliver.\<close>

theorem plan_same_ledger_order_matters:
  "\<exists>events events'. mset events = mset events' \<and>
     map fd_windowId (pr_decisions (plan sample_trigger (\<lambda>_. True) events)) \<noteq>
     map fd_windowId (pr_decisions (plan sample_trigger (\<lambda>_. True) events'))"
proof (intro exI conjI)
  let ?x = "sample_event ''payment.received'' ''x'' 20" and ?y = "sample_event ''payment.received'' ''y'' 20"
  show "mset [?x, ?y] = mset [?y, ?x]" by simp
  show "map fd_windowId (pr_decisions (plan sample_trigger (\<lambda>_. True) [?x, ?y])) \<noteq>
      map fd_windowId (pr_decisions (plan sample_trigger (\<lambda>_. True) [?y, ?x]))"
    by (simp add: plan_def plan_loop_def plan_init_def plan_step_def sample_defs ledger_key_def
        ledgerOf_def eventIdentity_def Let_def skip_def)
qed

text \<open>every event that satisfies the condition is accounted for, as a decision or as a skip.\<close>

theorem plan_accounts_for_matches:
  "length (pr_decisions (plan d pred events)) + length (pr_skipped (plan d pred events)) =
     length (filter pred events)"
proof -
  have "length (filter pred (sort_key ledger_key events)) = length (filter pred events)"
    by (metis filter_sort length_sort)
  then show ?thesis
    using plan_loop_count [of d pred "sort_key ledger_key events" plan_init]
    by (simp add: plan_def Let_def plan_init_def)
qed

text \<open>two parties that claim windows through the same in-memory store, one after the other,
  win disjoint sets of windows, together exactly the unclaimed windows either of them planned.\<close>

theorem claimDecisions_no_double_win:
  "let (won1, s1) = claimDecisions fire_claim ds s; (won2, s2) = claimDecisions fire_claim ds' s1
   in fd_windowId ` set won1 \<inter> fd_windowId ` set won2 = {} \<and>
      fd_windowId ` set won1 \<union> fd_windowId ` set won2 = fd_windowId ` (set ds \<union> set ds') - s \<and>
      s2 = s \<union> fd_windowId ` (set ds \<union> set ds')"
proof -
  have "w \<in> snd (claimDecisions fire_claim ds s) \<longleftrightarrow> w \<in> fd_windowId ` set ds \<or> w \<in> s" for w ds s
    using fires.claimDecisions_isClaimed [of w ds s] by (simp add: fire_isClaimed_def)
  then have s1: "snd (claimDecisions fire_claim ds s) = fd_windowId ` set ds \<union> s" for ds s
    by blast
  show ?thesis
    using fires.claimDecisions_covers [of ds s]
      fires.claimDecisions_covers [of ds' "snd (claimDecisions fire_claim ds s)"]
    by (auto simp: split_beta s1 fire_isClaimed_def)
qed

text \<open>the registration gate. A trigger is registered only when its worker id is not blank,
  its latency bound is positive, its activation ledger is not negative and its condition compiles;
  a condition that compiles names only known event types, none of them a trade signal, and the
  registered predicate accepts only events of a named type.\<close>

theorem registerEventTrigger_gate:
  assumes "registerEventTrigger d = Inr (d', pred)"
  shows "d' = d \<and> trim (def_workerId d) \<noteq> [] \<and> 0 < def_latencyBoundLedgers d \<and>
    0 \<le> def_activationLedger d \<and>
    set (spec_eventTypes (def_condition d)) \<subseteq> set KNOWN_EVENT_TYPES - set TRADE_SIGNAL_EVENT_TYPES \<and>
    spec_eventTypes (def_condition d) \<noteq> [] \<and>
    (\<forall>e. pred e \<longrightarrow> ev_type e \<in> set (spec_eventTypes (def_condition d)))"
proof -
  from assms have compiled: "compileEventCondition (def_condition d) = Inr pred" and "d' = d"
    and errs: "register_errors d = []"
    by (auto simp: registerEventTrigger_def split: sum.splits if_splits)
  from compiled have cond: "eventTypes_errors (spec_eventTypes (def_condition d)) = []"
    and p: "pred = condition_predicate (def_condition d)"
    by (auto simp: compileEventCondition_def compile_errors_def split: if_splits)
  from cond have "set (spec_eventTypes (def_condition d)) \<subseteq> set KNOWN_EVENT_TYPES - set TRADE_SIGNAL_EVENT_TYPES"
    and "spec_eventTypes (def_condition d) \<noteq> []"
    by (auto simp: eventTypes_errors_def Let_def filter_empty_conv split: if_splits)
  moreover have "trim (def_workerId d) \<noteq> []" "0 < def_latencyBoundLedgers d" "0 \<le> def_activationLedger d"
    using errs by (auto simp: register_errors_def split: if_splits)
  moreover have "pred e \<longrightarrow> ev_type e \<in> set (spec_eventTypes (def_condition d))" for e
    by (simp add: p condition_predicate_def isEventType_def Let_def)
  ultimately show ?thesis using \<open>d' = d\<close> by simp
qed

theorem registerEventTrigger_gate_witness:
  "registerEventTrigger sample_trigger = Inr (sample_trigger, condition_predicate sample_condition) \<and>
   trim (def_workerId sample_trigger) \<noteq> [] \<and>
   condition_predicate sample_condition (sample_event ''payment.received'' ''x'' 20)"
proof -
  have h: "registerEventTrigger sample_trigger = Inr (sample_trigger, condition_predicate sample_condition)"
    by (simp add: registerEventTrigger_def register_errors_def compileEventCondition_def compile_errors_def
        eventTypes_errors_def contract_errors_def sample_defs KNOWN_EVENT_TYPES_def TRADE_SIGNAL_EVENT_TYPES_def
        trim_def is_space_def)
  have "condition_predicate sample_condition (sample_event ''payment.received'' ''x'' 20)"
    by (simp add: condition_predicate_def isEventType_def sample_defs CONTRACT_EVENT_TYPES_def)
  with h registerEventTrigger_gate [OF h] show ?thesis by simp
qed

end
