(* ===== verification/Tiers.thy ===== *)
theory Tiers
  imports Orbital_Prelude
begin

text \<open>
  Backstop latency tiers, \<^verbatim>\<open>packages/worker-core/src/backstop/tiers.ts\<close>: the decision record that
  enables the latency-sensitive tier, the tier table derived from it, and the guarantee arithmetic.
  The table takes the decision record as an argument; \<open>TIERS\<close> is its instance at the shipped default.
\<close>

section \<open>The enable decision\<close>

record cost_measurement =
  cm_measuredAt :: string
  cm_sampleCount :: int
  cm_medianLatencyMs :: int
  cm_p99LatencyMs :: int
  cm_source :: string

text \<open>The literal \<open>reversible: true\<close> carries no information and is left out.\<close>

record tier_enable_decision =
  te_enabled :: bool
  te_decidedBy :: string
  te_decidedAt :: string
  te_rationale :: string
  te_costMeasurement :: "cost_measurement option"
  te_reviewUrl :: "string option"

datatype tier_error = TierEnableWithoutMeasurementError

definition LATENCY_SENSITIVE_TIER_DEFAULT :: tier_enable_decision where
  "LATENCY_SENSITIVE_TIER_DEFAULT =
     \<lparr>te_enabled = False, te_decidedBy = ''unset'', te_decidedAt = ''1970-01-01T00:00:00.000Z'',
      te_rationale = ''Default: disabled. No cost measurement exists yet (21.2 unimplemented), and the '' @
        ''infrastructure this tier depends on '' @
        ''is not merged. 21.3 tier configuration - this file's tier table - has landed. '' @
        ''See #1071, #1070, #1063.'',
      te_costMeasurement = None, te_reviewUrl = None\<rparr>"

definition assertTierEnableDecisionIsValid :: "tier_enable_decision \<Rightarrow> (tier_error, unit) result" where
  "assertTierEnableDecisionIsValid decision =
     (if te_enabled decision \<and> te_costMeasurement decision = None
      then Inl TierEnableWithoutMeasurementError else Inr ())"

section \<open>The tier table\<close>

datatype tier_id = TimeInsensitive | LatencySensitive

record guarantee_bounds =
  gb_latencyBoundMs :: int
  gb_gracePeriodMs :: int
  gb_subscriptionActive :: bool
  gb_triggerPermissionless :: bool
  gb_fundsInPlace :: bool
  gb_maxFeeMultiplier :: int

record tier_definition =
  td_id :: tier_id
  td_displayName :: string
  td_description :: string
  td_bounds :: guarantee_bounds
  td_pricePerWindowStroops :: int
  td_registrable :: bool
  td_enabledBy :: string

definition MINUTE :: int where "MINUTE = 60000"

definition HOUR :: int where "HOUR = 60 * MINUTE"

definition latencySensitiveIsRegistrable :: "tier_enable_decision \<Rightarrow> (tier_error, bool) result" where
  "latencySensitiveIsRegistrable decision =
     bind_result (assertTierEnableDecisionIsValid decision) (\<lambda>_. Inr (te_enabled decision))"

text \<open>The table under a decision record; an invalid record stops the module from loading.\<close>

definition tiers_under :: "tier_enable_decision \<Rightarrow> (tier_error, tier_id \<Rightarrow> tier_definition) result" where
  "tiers_under decision =
     bind_result (latencySensitiveIsRegistrable decision) (\<lambda>latencySensitive. Inr (\<lambda>tid. case tid of
       TimeInsensitive \<Rightarrow>
         \<lparr>td_id = TimeInsensitive, td_displayName = ''Time-insensitive'',
          td_description = ''Payroll and periodic settlement, where a fallback firing an hour late is a non-event. '' @
            ''The cheap tier, and the only one W3 ships.'',
          td_bounds = \<lparr>gb_latencyBoundMs = 6 * HOUR, gb_gracePeriodMs = 1 * HOUR, gb_subscriptionActive = True,
            gb_triggerPermissionless = True, gb_fundsInPlace = True, gb_maxFeeMultiplier = 10\<rparr>,
          td_pricePerWindowStroops = 10000000, td_registrable = True, td_enabledBy = ''21.3''\<rparr>
     | LatencySensitive \<Rightarrow>
         \<lparr>td_id = LatencySensitive, td_displayName = ''Latency-sensitive'',
          td_description = ''Triggers whose value decays in minutes. Defined so the abstraction holds it, and '' @
            ''disabled until the infrastructure exists to keep the promise.'',
          td_bounds = \<lparr>gb_latencyBoundMs = 2 * MINUTE, gb_gracePeriodMs = 30000, gb_subscriptionActive = True,
            gb_triggerPermissionless = True, gb_fundsInPlace = True, gb_maxFeeMultiplier = 100\<rparr>,
          td_pricePerWindowStroops = 500000000, td_registrable = latencySensitive, td_enabledBy = ''22.4''\<rparr>))"

definition TIERS :: "tier_id \<Rightarrow> tier_definition" where
  "TIERS = projr (tiers_under LATENCY_SENSITIVE_TIER_DEFAULT)"

definition registrableTiers :: "(tier_id \<Rightarrow> tier_definition) \<Rightarrow> tier_id list" where
  "registrableTiers tiers = filter (\<lambda>tid. td_registrable (tiers tid)) [TimeInsensitive, LatencySensitive]"

definition tierDefinition :: "tier_id \<Rightarrow> tier_definition" where
  "tierDefinition tid = TIERS tid"

definition withinGuarantee :: "tier_id \<Rightarrow> int \<Rightarrow> int \<Rightarrow> bool" where
  "withinGuarantee tid dueAt firedAt \<longleftrightarrow>
     firedAt - dueAt \<le> gb_latencyBoundMs (td_bounds (TIERS tid)) + gb_gracePeriodMs (td_bounds (TIERS tid))"

definition guaranteeDeadline :: "tier_id \<Rightarrow> int \<Rightarrow> int" where
  "guaranteeDeadline tid dueAt =
     dueAt + gb_latencyBoundMs (td_bounds (TIERS tid)) + gb_gracePeriodMs (td_bounds (TIERS tid))"

lemma tiers_load: "tiers_under LATENCY_SENSITIVE_TIER_DEFAULT = Inr TIERS"
  by (simp add: TIERS_def tiers_under_def latencySensitiveIsRegistrable_def assertTierEnableDecisionIsValid_def
      LATENCY_SENSITIVE_TIER_DEFAULT_def)

lemma registrable_TIERS: "registrableTiers TIERS = [TimeInsensitive]"
  by (simp add: registrableTiers_def TIERS_def tiers_under_def latencySensitiveIsRegistrable_def
      assertTierEnableDecisionIsValid_def LATENCY_SENSITIVE_TIER_DEFAULT_def)

text \<open>
  one switch gates the expensive tier. Under any decision record that lets the table load,
  the latency-sensitive tier is registrable exactly when the record enables it, which then carries
  a cost measurement; the shipped table sells the time-insensitive tier only.
\<close>

theorem latency_sensitive_needs_measurement:
  assumes "tiers_under decision = Inr tiers"
  shows "(LatencySensitive \<in> set (registrableTiers tiers) \<longleftrightarrow> te_enabled decision) \<and>
    (LatencySensitive \<in> set (registrableTiers tiers) \<longrightarrow> te_costMeasurement decision \<noteq> None) \<and>
    registrableTiers TIERS = [TimeInsensitive]"
  using assms by (auto simp: registrable_TIERS) (auto simp: registrableTiers_def tiers_under_def
      latencySensitiveIsRegistrable_def assertTierEnableDecisionIsValid_def split: if_splits)

theorem latency_sensitive_needs_measurement_witness:
  "LatencySensitive \<notin> set (registrableTiers TIERS)"
  using latency_sensitive_needs_measurement [OF tiers_load] by (simp add: LATENCY_SENSITIVE_TIER_DEFAULT_def)

end
