(* ===== verification/Backstop_Watcher.thy ===== *)
theory Backstop_Watcher
  imports Event_Trigger Tiers
begin

text \<open>
  The backstop watcher, \<^verbatim>\<open>packages/worker-core/src/backstop/\<close>: window verdicts (\<^verbatim>\<open>windowVerdict.ts\<close>),
  intervention records (\<^verbatim>\<open>intervention.ts\<close>) and the watcher itself (\<^verbatim>\<open>BackstopWatcher.ts\<close>). The
  claim store is the interface \<open>fire_claim_store\<close> that the primary uses; the verdict source, the
  submitter and the notifier are arguments. What a call does to the outside is an effect trace.
\<close>

section \<open>Verdicts and interventions\<close>

datatype window_outcome = NotDue | Fired | Late | Missed | Unverifiable | Pending

datatype window_outcome_reason =
    RejectedEarlyCall | PreconditionSatisfied | ReasonBeforeActivation | ConditionRecurredInWindow
  | ReasonMissingLedger | DecodeUnavailable | SpecNotLedgerVersioned | NoAttestation | AttestationInvalid

record window_verdict =
  wv_windowId :: string
  wv_workerId :: string
  wv_verdict :: window_outcome
  wv_conditionLedger :: int
  wv_deadlineLedger :: int
  wv_firedLedger :: "int option"
  wv_latencyLedgers :: "int option"
  wv_reason :: "window_outcome_reason option"

definition isFailure :: "window_outcome \<Rightarrow> bool" where
  "isFailure v \<longleftrightarrow> v = Missed"

definition isExcludedFromScoring :: "window_outcome \<Rightarrow> bool" where
  "isExcludedFromScoring v \<longleftrightarrow> v = Unverifiable \<or> v = Pending"

datatype intervention_cause = PrimaryMissed

record intervention =
  iv_windowId :: string
  iv_workerId :: string
  iv_subscriptionId :: string
  iv_cause :: intervention_cause
  iv_verdict :: window_verdict
  iv_decidedAtLedger :: int
  iv_primaryDeadlineLedger :: int
  iv_graceLedgers :: int

section \<open>Registration\<close>

record watched_subscription =
  ws_subscriptionId :: string
  ws_workerId :: string
  ws_tier :: tier_id
  ws_graceLedgers :: int

datatype backstop_register_error =
  SubscriptionIdRequired | WorkerIdRequired | LATENCY_SENSITIVE_REJECTION | GraceLedgersInvalid

definition registerBackstop ::
  "watched_subscription \<Rightarrow> (backstop_register_error list, watched_subscription) result" where
  "registerBackstop subscription =
     (let errors =
        (if trim (ws_subscriptionId subscription) = [] then [SubscriptionIdRequired] else []) @
        (if trim (ws_workerId subscription) = [] then [WorkerIdRequired] else []) @
        (if ws_tier subscription = LatencySensitive then [LATENCY_SENSITIVE_REJECTION] else []) @
        (if ws_graceLedgers subscription < 0 then [GraceLedgersInvalid] else [])
      in if errors \<noteq> [] then Inl errors else Inr subscription)"

section \<open>The watcher\<close>

datatype backstop_outcome =
    Waiting string int
  | NoIntervention string window_verdict
  | PrimaryWon string
  | Intervened string intervention
  | SubmissionFailed string string

record backstop_stats =
  st_windowsWatched :: nat
  st_windowsWaiting :: nat
  st_windowsNoIntervention :: nat
  st_windowsPrimaryWon :: nat
  st_interventions :: nat
  st_submissionFailures :: nat

text \<open>The calls that leave the watcher: a submission (with its error, if it threw), a record of the
  audit trail, a notification.\<close>

datatype backstop_effect =
  Submit fire_decision "string option" | RecordIntervention intervention | Notify intervention

text \<open>The dependencies as one evaluation meets them: \<open>wd_submit d = Some e\<close> when the submission throws;
  \<open>wd_notifier\<close> is whether one is configured (an error it throws is caught and dropped).\<close>

record watcher_deps =
  wd_verdictFor :: "string \<Rightarrow> int \<Rightarrow> window_verdict option"
  wd_submit :: "fire_decision \<Rightarrow> string option"
  wd_notifier :: bool

record 's watcher =
  bw_stats :: backstop_stats
  bw_claims :: 's
  bw_trace :: "backstop_effect list"

definition initial_stats :: backstop_stats where
  "initial_stats = \<lparr>st_windowsWatched = 0, st_windowsWaiting = 0, st_windowsNoIntervention = 0,
     st_windowsPrimaryWon = 0, st_interventions = 0, st_submissionFailures = 0\<rparr>"

definition bump :: "(backstop_stats \<Rightarrow> backstop_stats) \<Rightarrow> 's watcher \<Rightarrow> 's watcher" where
  "bump f st = st\<lparr>bw_stats := f (bw_stats st)\<rparr>"

definition emit :: "backstop_effect list \<Rightarrow> 's watcher \<Rightarrow> 's watcher" where
  "emit es st = st\<lparr>bw_trace := bw_trace st @ es\<rparr>"

definition unverifiable_verdict :: "fire_decision \<Rightarrow> window_verdict" where
  "unverifiable_verdict decision =
     \<lparr>wv_windowId = fd_windowId decision, wv_workerId = fd_workerId decision, wv_verdict = Unverifiable,
      wv_conditionLedger = fd_conditionLedger decision, wv_deadlineLedger = fd_deadlineLedger decision,
      wv_firedLedger = None, wv_latencyLedgers = None, wv_reason = None\<rparr>"

definition evaluate ::
  "(string \<Rightarrow> 's \<Rightarrow> bool \<times> 's) \<Rightarrow> watcher_deps \<Rightarrow> watched_subscription \<Rightarrow> fire_decision \<Rightarrow> int \<Rightarrow>
   's watcher \<Rightarrow> backstop_outcome \<times> 's watcher"
where
  "evaluate claim deps subscription decision currentLedger st =
     (let st = bump (\<lambda>c. c\<lparr>st_windowsWatched := st_windowsWatched c + 1\<rparr>) st;
          firesAtLedger = fd_deadlineLedger decision + ws_graceLedgers subscription
      in if currentLedger \<le> firesAtLedger
         then (Waiting (fd_windowId decision) firesAtLedger,
               bump (\<lambda>c. c\<lparr>st_windowsWaiting := st_windowsWaiting c + 1\<rparr>) st)
         else case wd_verdictFor deps (fd_windowId decision) currentLedger of
           None \<Rightarrow> (NoIntervention (fd_windowId decision) (unverifiable_verdict decision),
               bump (\<lambda>c. c\<lparr>st_windowsNoIntervention := st_windowsNoIntervention c + 1\<rparr>) st)
         | Some verdict \<Rightarrow>
             if wv_verdict verdict \<noteq> Missed
             then (NoIntervention (fd_windowId decision) verdict,
               bump (\<lambda>c. c\<lparr>st_windowsNoIntervention := st_windowsNoIntervention c + 1\<rparr>) st)
             else let (won, claims) = claim (fd_windowId decision) (bw_claims st);
                      st = st\<lparr>bw_claims := claims\<rparr>
               in if \<not> won
                  then (PrimaryWon (fd_windowId decision),
                    bump (\<lambda>c. c\<lparr>st_windowsPrimaryWon := st_windowsPrimaryWon c + 1\<rparr>) st)
                  else let intervention =
                      \<lparr>iv_windowId = fd_windowId decision, iv_workerId = fd_workerId decision,
                       iv_subscriptionId = ws_subscriptionId subscription, iv_cause = PrimaryMissed,
                       iv_verdict = verdict, iv_decidedAtLedger = currentLedger,
                       iv_primaryDeadlineLedger = fd_deadlineLedger decision,
                       iv_graceLedgers = ws_graceLedgers subscription\<rparr>;
                      outcome = wd_submit deps decision;
                      st = emit [Submit decision outcome] st
                    in case outcome of
                      Some e \<Rightarrow>
                        (SubmissionFailed (fd_windowId decision) e,
                         emit [RecordIntervention intervention]
                           (bump (\<lambda>c. c\<lparr>st_submissionFailures := st_submissionFailures c + 1\<rparr>) st))
                    | None \<Rightarrow>
                        (Intervened (fd_windowId decision) intervention,
                         emit (if wd_notifier deps then [Notify intervention] else [])
                           (bump (\<lambda>c. c\<lparr>st_interventions := st_interventions c + 1\<rparr>)
                             (emit [RecordIntervention intervention] st))))"

fun evaluateAll ::
  "(string \<Rightarrow> 's \<Rightarrow> bool \<times> 's) \<Rightarrow> watcher_deps \<Rightarrow> watched_subscription \<Rightarrow> fire_decision list \<Rightarrow> int \<Rightarrow>
   's watcher \<Rightarrow> backstop_outcome list \<times> 's watcher"
where
  "evaluateAll claim deps subscription [] currentLedger st = ([], st)"
| "evaluateAll claim deps subscription (d # ds) currentLedger st =
     (let (out, st) = evaluate claim deps subscription d currentLedger st;
          (outs, st) = evaluateAll claim deps subscription ds currentLedger st
      in (out # outs, st))"

section \<open>One evaluation\<close>

definition stats_sum :: "backstop_stats \<Rightarrow> nat" where
  "stats_sum c = st_windowsWaiting c + st_windowsNoIntervention c + st_windowsPrimaryWon c +
     st_interventions c + st_submissionFailures c"

lemma watcher_sel [simp]:
  "bw_claims (bump f st) = bw_claims st" "bw_trace (bump f st) = bw_trace st" "bw_stats (bump f st) = f (bw_stats st)"
  "bw_claims (emit es st) = bw_claims st" "bw_trace (emit es st) = bw_trace st @ es" "bw_stats (emit es st) = bw_stats st"
  by (simp_all add: bump_def emit_def)

lemma evaluate_stats:
  assumes "evaluate claim deps sub d l st = (out, st')"
    and "stats_sum (bw_stats st) = st_windowsWatched (bw_stats st)"
  shows "stats_sum (bw_stats st') = st_windowsWatched (bw_stats st')"
  using assms by (auto simp: evaluate_def stats_sum_def Let_def split_beta split: if_splits option.splits)

lemma evaluateAll_stats:
  "stats_sum (bw_stats st) = st_windowsWatched (bw_stats st) \<Longrightarrow>
   stats_sum (bw_stats (snd (evaluateAll claim deps sub ds l st))) =
     st_windowsWatched (bw_stats (snd (evaluateAll claim deps sub ds l st)))"
proof (induction ds arbitrary: st)
  case (Cons d ds)
  obtain out st' where ev: "evaluate claim deps sub d l st = (out, st')" by fastforce
  with Cons evaluate_stats [OF ev] show ?case by (simp add: split_beta)
qed simp


definition intervention_of :: "watched_subscription \<Rightarrow> fire_decision \<Rightarrow> window_verdict \<Rightarrow> int \<Rightarrow> intervention" where
  "intervention_of sub d v l =
     \<lparr>iv_windowId = fd_windowId d, iv_workerId = fd_workerId d, iv_subscriptionId = ws_subscriptionId sub,
      iv_cause = PrimaryMissed, iv_verdict = v, iv_decidedAtLedger = l,
      iv_primaryDeadlineLedger = fd_deadlineLedger d, iv_graceLedgers = ws_graceLedgers sub\<rparr>"

text \<open>An established miss: the deadline and the grace have passed and verification says so.\<close>

definition established_miss :: "watcher_deps \<Rightarrow> watched_subscription \<Rightarrow> fire_decision \<Rightarrow> int \<Rightarrow> window_verdict \<Rightarrow> bool" where
  "established_miss deps sub d l v \<longleftrightarrow> fd_deadlineLedger d + ws_graceLedgers sub < l \<and>
     wd_verdictFor deps (fd_windowId d) l = Some v \<and> wv_verdict v = Missed"

lemma evaluate_quiet:
  assumes "\<nexists>v. established_miss deps sub d l v"
  shows "bw_trace (snd (evaluate claim deps sub d l st)) = bw_trace st \<and>
    bw_claims (snd (evaluate claim deps sub d l st)) = bw_claims st"
  using assms by (auto simp: evaluate_def established_miss_def Let_def split: option.split)

lemma evaluate_miss:
  assumes "established_miss deps sub d l v"
  shows "bw_claims (snd (evaluate claim deps sub d l st)) = snd (claim (fd_windowId d) (bw_claims st)) \<and>
    (if fst (claim (fd_windowId d) (bw_claims st)) then
       let i = intervention_of sub d v l in
       (case wd_submit deps d of
          Some e \<Rightarrow> fst (evaluate claim deps sub d l st) = SubmissionFailed (fd_windowId d) e \<and>
            bw_trace (snd (evaluate claim deps sub d l st)) =
              bw_trace st @ [Submit d (Some e), RecordIntervention i]
        | None \<Rightarrow> fst (evaluate claim deps sub d l st) = Intervened (fd_windowId d) i \<and>
            bw_trace (snd (evaluate claim deps sub d l st)) =
              bw_trace st @ [Submit d None, RecordIntervention i] @ (if wd_notifier deps then [Notify i] else []))
     else fst (evaluate claim deps sub d l st) = PrimaryWon (fd_windowId d) \<and>
       bw_trace (snd (evaluate claim deps sub d l st)) = bw_trace st)"
  using assms by (auto simp: evaluate_def established_miss_def intervention_of_def Let_def split_beta split: option.split)

section \<open>The race with the primary\<close>

fun submits_of :: "backstop_effect list \<Rightarrow> string list" where
  "submits_of [] = []"
| "submits_of (Submit d r # es) = fd_windowId d # submits_of es"
| "submits_of (_ # es) = submits_of es"

text \<open>
  Primaries and watchers on one claim store: the store and the windows submitted so far. A primary
  claims a window and submits when it wins (\<open>claimDecisions\<close>); a watcher, with any counters, verdict
  source and subscription, evaluates a window.
\<close>

inductive race_step :: "(string \<Rightarrow> 's \<Rightarrow> bool \<times> 's) \<Rightarrow> 's \<times> string list \<Rightarrow> 's \<times> string list \<Rightarrow> bool"
  for claim
where
  primary: "claimDecisions claim ds c = (won, c') \<Longrightarrow>
    race_step claim (c, subs) (c', subs @ map fd_windowId won)"
| backstop: "evaluate claim deps sub d l \<lparr>bw_stats = stats, bw_claims = c, bw_trace = []\<rparr> = (out, st') \<Longrightarrow>
    race_step claim (c, subs) (bw_claims st', subs @ submits_of (bw_trace st'))"

inductive race_reach :: "(string \<Rightarrow> 's \<Rightarrow> bool \<times> 's) \<Rightarrow> 's \<Rightarrow> 's \<times> string list \<Rightarrow> bool"
  for claim c0
where
  start: "race_reach claim c0 (c0, [])"
| more: "race_reach claim c0 s \<Longrightarrow> race_step claim s s' \<Longrightarrow> race_reach claim c0 s'"

context fire_claim_store
begin

lemma evaluate_submits:
  assumes "evaluate claim deps sub d l \<lparr>bw_stats = stats, bw_claims = c, bw_trace = []\<rparr> = (out, st')"
  shows "(submits_of (bw_trace st') = [] \<or> (submits_of (bw_trace st') = [fd_windowId d] \<and>
      \<not> isClaimed (fd_windowId d) c \<and> isClaimed (fd_windowId d) (bw_claims st'))) \<and>
    (\<forall>w. isClaimed w c \<longrightarrow> isClaimed w (bw_claims st'))"
proof (cases "\<exists>v. established_miss deps sub d l v")
  case False
  with evaluate_quiet [OF False, of claim "\<lparr>bw_stats = stats, bw_claims = c, bw_trace = []\<rparr>"] assms
  show ?thesis by simp
next
  case True
  then obtain v where v: "established_miss deps sub d l v" by blast
  from evaluate_miss [OF v, of claim "\<lparr>bw_stats = stats, bw_claims = c, bw_trace = []\<rparr>"] assms
  show ?thesis by (auto simp: claim_wins isClaimed_after Let_def split: if_splits option.splits)
qed

lemma race_step_inv:
  assumes "race_step claim x x'" and "distinct (snd x) \<and> (\<forall>w \<in> set (snd x). isClaimed w (fst x))"
  shows "distinct (snd x') \<and> (\<forall>w \<in> set (snd x'). isClaimed w (fst x'))"
  using assms(1)
proof (cases rule: race_step.cases)
  case (primary ds c won c' subs)
  have w: "won = fst (claimDecisions claim ds c)" and c': "c' = snd (claimDecisions claim ds c)"
    using primary by auto
  have "fd_windowId ` set won = fd_windowId ` set ds - {w. isClaimed w c}"
    unfolding w by (rule claimDecisions_covers)
  moreover have "distinct (map fd_windowId won)" unfolding w by (rule claimDecisions_distinct)
  moreover have "isClaimed v c' \<longleftrightarrow> v \<in> fd_windowId ` set ds \<or> isClaimed v c" for v
    unfolding c' by (rule claimDecisions_isClaimed)
  ultimately show ?thesis using assms(2) primary by auto
next
  case (backstop deps sub d l stats c out st' subs)
  with evaluate_submits [OF backstop(3)] assms(2) show ?thesis by auto
qed

lemma race_reach_inv:
  "race_reach claim c0 x \<Longrightarrow> distinct (snd x) \<and> (\<forall>w \<in> set (snd x). isClaimed w (fst x))"
proof (induction rule: race_reach.induct)
  case (more x x')
  then show ?case using race_step_inv by blast
qed simp

end

section \<open>Properties\<close>

text \<open>
  C1: no double fire. However primaries and backstop watchers interleave on one claim store,
  whatever the verdicts, subscriptions and submission failures, every window is submitted at most
  once in total.
\<close>

theorem no_double_fire:
  assumes "race_reach fire_claim c0 (c, submitted)"
  shows "distinct submitted"
  using fires.race_reach_inv [OF assms] by simp

definition example_decision :: fire_decision where
  "example_decision = \<lparr>fd_windowId = ''w'', fd_workerId = ''k'', fd_conditionEventId = ''e'',
     fd_conditionLedger = 10, fd_deadlineLedger = 20\<rparr>"

definition example_watched :: watched_subscription where
  "example_watched = \<lparr>ws_subscriptionId = ''s'', ws_workerId = ''k'', ws_tier = TimeInsensitive, ws_graceLedgers = 5\<rparr>"

definition example_deps :: watcher_deps where
  "example_deps = \<lparr>wd_verdictFor = (\<lambda>w l. Some \<lparr>wv_windowId = w, wv_workerId = ''k'', wv_verdict = Missed,
     wv_conditionLedger = 10, wv_deadlineLedger = 20, wv_firedLedger = None, wv_latencyLedgers = None,
     wv_reason = None\<rparr>), wd_submit = (\<lambda>_. None), wd_notifier = True\<rparr>"

lemmas example_watcher_defs = example_decision_def example_watched_def example_deps_def

theorem no_double_fire_witness: "distinct [''w'']"
proof -
  let ?st = "\<lparr>bw_stats = initial_stats, bw_claims = {}, bw_trace = []\<rparr>"
  have "race_step fire_claim ({}, [])
      (bw_claims (snd (evaluate fire_claim example_deps example_watched example_decision 26 ?st)),
       [] @ submits_of (bw_trace (snd (evaluate fire_claim example_deps example_watched example_decision 26 ?st))))"
    by (rule race_step.backstop) (rule prod.collapse [symmetric])
  then have "race_reach fire_claim {} ({''w''}, [''w''])"
    using race_reach.more [OF race_reach.start]
    by (simp add: evaluate_def example_watcher_defs fire_claim_def Let_def)
  then show ?thesis by (rule no_double_fire)
qed

text \<open>
  C14: the watcher acts only on an established miss, and accounts for every act. Before the
  deadline plus grace, or without a \<open>missed\<close> verdict, it neither claims nor submits. On a miss it
  submits exactly when it wins the claim, records the intervention with its verdict even when the
  submission throws, and notifies only after the record, only on success.
\<close>

theorem watcher_acts_only_on_miss:
  "((\<nexists>v. established_miss deps sub d l v) \<longrightarrow>
     bw_trace (snd (evaluate claim deps sub d l st)) = bw_trace st \<and>
     bw_claims (snd (evaluate claim deps sub d l st)) = bw_claims st) \<and>
   (\<forall>v. established_miss deps sub d l v \<longrightarrow>
     bw_claims (snd (evaluate claim deps sub d l st)) = snd (claim (fd_windowId d) (bw_claims st)) \<and>
     bw_trace (snd (evaluate claim deps sub d l st)) = bw_trace st @
       (if fst (claim (fd_windowId d) (bw_claims st)) then
          [Submit d (wd_submit deps d), RecordIntervention (intervention_of sub d v l)] @
          (if wd_submit deps d = None \<and> wd_notifier deps then [Notify (intervention_of sub d v l)] else [])
        else []))"
  using evaluate_quiet [of deps sub d l claim st] evaluate_miss [of deps sub d l _ claim st]
  by (cases "wd_submit deps d") (auto simp: Let_def split: if_splits)

theorem watcher_acts_only_on_miss_witness:
  "bw_trace (snd (evaluate fire_claim example_deps example_watched example_decision 25
     \<lparr>bw_stats = initial_stats, bw_claims = {}, bw_trace = []\<rparr>)) = []"
  using watcher_acts_only_on_miss [of example_deps example_watched example_decision 25 fire_claim
      "\<lparr>bw_stats = initial_stats, bw_claims = {}, bw_trace = []\<rparr>"]
  by (auto simp: established_miss_def example_watcher_defs)

text \<open>
  the readiness counters add up: after any batches of evaluations every watched window is
  counted in exactly one of the five outcome counters.
\<close>

theorem stats_account_for_windows:
  "bw_stats st = initial_stats \<Longrightarrow>
   stats_sum (bw_stats (snd (evaluateAll claim deps sub ds l st))) = length ds \<and>
   st_windowsWatched (bw_stats (snd (evaluateAll claim deps sub ds l st))) = length ds"
proof -
  have watched: "st_windowsWatched (bw_stats (snd (evaluateAll claim deps sub ds l st))) =
      st_windowsWatched (bw_stats st) + length ds" for st
  proof (induction ds arbitrary: st)
    case (Cons d ds)
    have "st_windowsWatched (bw_stats (snd (evaluate claim deps sub d l st))) = st_windowsWatched (bw_stats st) + 1"
      by (simp add: evaluate_def Let_def split_beta split: option.split)
    with Cons show ?case by (simp add: split_beta)
  qed simp
  assume "bw_stats st = initial_stats"
  with watched [of st] evaluateAll_stats [of st claim deps sub ds l] show ?thesis
    by (simp add: initial_stats_def stats_sum_def)
qed

theorem stats_account_for_windows_witness:
  "stats_sum (bw_stats (snd (evaluateAll fire_claim example_deps example_watched [example_decision, example_decision] 26
     \<lparr>bw_stats = initial_stats, bw_claims = {}, bw_trace = []\<rparr>))) = 2"
  using stats_account_for_windows [of "\<lparr>bw_stats = initial_stats, bw_claims = {}, bw_trace = []\<rparr>" fire_claim example_deps
      example_watched "[example_decision, example_decision]" 26] by simp

end
