(* ===== verification/Coverage.thy ===== *)
theory Coverage
  imports Orbital_Prelude
begin

text \<open>
  The append-only coverage record of backstop subscriptions,
  \<^verbatim>\<open>packages/worker-core/src/subscription/coverage.ts\<close>: coverage windows, the in-memory ledger and the
  two audit queries. The \<open>CoverageLedger\<close> interface is the locale \<open>coverage_ledger\<close>; its clients
  \<open>wasCovered\<close> and \<open>coverageForWindow\<close> take the operations they call as arguments, as the code does.
\<close>

section \<open>Windows\<close>

datatype coverage_reason = ReasonActive | ReasonGrace | ReasonLapsed | ReasonCancelled

definition COVERED_REASONS :: "coverage_reason set" where
  "COVERED_REASONS = {ReasonActive, ReasonGrace}"

definition isCoveredReason :: "coverage_reason \<Rightarrow> bool" where
  "isCoveredReason r \<longleftrightarrow> r \<in> COVERED_REASONS"

record coverage_window =
  cw_subscriptionId :: string
  cw_startLedger :: int
  cw_endLedger :: int
  cw_covered :: bool
  cw_reason :: coverage_reason

datatype coverage_error =
  LEDGER_OUT_OF_RANGE | EMPTY_WINDOW | OVERLAPPING_WINDOW | INCONSISTENT_REASON

definition assertLedger :: "int \<Rightarrow> (coverage_error, unit) result" where
  "assertLedger value = ensure (isSafeInteger value \<and> 0 \<le> value) LEDGER_OUT_OF_RANGE"

definition assertValidCoverageWindow :: "coverage_window \<Rightarrow> (coverage_error, unit) result" where
  "assertValidCoverageWindow w =
     bind_result (assertLedger (cw_startLedger w)) (\<lambda>_.
     bind_result (assertLedger (cw_endLedger w)) (\<lambda>_.
       if cw_endLedger w \<le> cw_startLedger w then Inl EMPTY_WINDOW
       else let shouldBeCovered = cw_reason w \<in> COVERED_REASONS in
         if cw_covered w \<noteq> shouldBeCovered then Inl INCONSISTENT_REASON else Inr ()))"

section \<open>InMemoryCoverageLedger\<close>

type_synonym coverage_map = "(string, coverage_window list) js_map"

definition overlaps :: "coverage_window \<Rightarrow> coverage_window \<Rightarrow> bool" where
  "overlaps window w \<longleftrightarrow> cw_startLedger window < cw_endLedger w \<and> cw_startLedger w < cw_endLedger window"

definition stored_windows :: "string \<Rightarrow> coverage_map \<Rightarrow> coverage_window list" where
  "stored_windows sid m = (case map_get m sid of Some ws \<Rightarrow> ws | None \<Rightarrow> [])"

definition mem_append :: "coverage_window \<Rightarrow> coverage_map \<Rightarrow> (coverage_error, coverage_map) result" where
  "mem_append window m =
     bind_result (assertValidCoverageWindow window) (\<lambda>_.
       let existing = stored_windows (cw_subscriptionId window) m in
       if list_ex (overlaps window) existing then Inl OVERLAPPING_WINDOW
       else Inr (map_set (cw_subscriptionId window) (sort_key cw_startLedger (existing @ [window])) m))"

definition mem_findAt :: "string \<Rightarrow> int \<Rightarrow> coverage_map \<Rightarrow> (coverage_error, coverage_window option) result"
where
  "mem_findAt sid ledger m =
     bind_result (assertLedger ledger) (\<lambda>_.
       Inr (find (\<lambda>w. cw_startLedger w \<le> ledger \<and> ledger < cw_endLedger w) (stored_windows sid m)))"

definition mem_history :: "string \<Rightarrow> coverage_map \<Rightarrow> coverage_window list" where
  "mem_history sid m = stored_windows sid m"

section \<open>Audit queries\<close>

definition wasCovered ::
  "(string \<Rightarrow> int \<Rightarrow> 's \<Rightarrow> (coverage_error, coverage_window option) result) \<Rightarrow> 's \<Rightarrow> string \<Rightarrow> int \<Rightarrow>
   (coverage_error, bool option) result"
where
  "wasCovered findAt ledger sid atLedger =
     bind_result (findAt sid atLedger ledger) (\<lambda>w. Inr (map_option cw_covered w))"

datatype window_coverage = Covered | Uncovered | Partial | Unknown

text \<open>The cursor loop: \<open>None\<close> when a window starts beyond the cursor.\<close>

fun cursor_loop :: "int \<Rightarrow> coverage_window list \<Rightarrow> int option" where
  "cursor_loop cursor [] = Some cursor"
| "cursor_loop cursor (w # ws) =
     (if cw_startLedger w > cursor then None else cursor_loop (max cursor (cw_endLedger w)) ws)"

definition coverageForWindow ::
  "(string \<Rightarrow> 's \<Rightarrow> coverage_window list) \<Rightarrow> 's \<Rightarrow> string \<Rightarrow> int \<Rightarrow> int \<Rightarrow>
   (coverage_error, window_coverage) result"
where
  "coverageForWindow history ledger sid startLedger endLedger =
     bind_result (assertLedger startLedger) (\<lambda>_.
     bind_result (assertLedger endLedger) (\<lambda>_.
       if endLedger \<le> startLedger then Inl EMPTY_WINDOW
       else let overlapping = filter (\<lambda>w. startLedger < cw_endLedger w \<and> cw_startLedger w < endLedger)
                  (history sid ledger)
         in if overlapping = [] then Inr Unknown
            else case cursor_loop startLedger overlapping of
              None \<Rightarrow> Inr Unknown
            | Some cursor \<Rightarrow>
                (if cursor < endLedger then Inr Unknown
                 else let covered = length (filter cw_covered overlapping) in
                   if covered = length overlapping then Inr Covered
                   else if covered = 0 then Inr Uncovered
                   else Inr Partial)))"

section \<open>Windows as intervals\<close>

definition in_window :: "int \<Rightarrow> coverage_window \<Rightarrow> bool" where
  "in_window l w \<longleftrightarrow> cw_startLedger w \<le> l \<and> l < cw_endLedger w"

definition window_ok :: "coverage_window \<Rightarrow> bool" where
  "window_ok w \<longleftrightarrow> 0 \<le> cw_startLedger w \<and> cw_startLedger w < cw_endLedger w \<and>
     cw_endLedger w \<le> 9007199254740991 \<and> cw_covered w = isCoveredReason (cw_reason w)"

text \<open>What a well-formed history of one subscription is: valid windows in ledger order, no two
  sharing a ledger.\<close>

definition history_ok :: "string \<Rightarrow> coverage_window list \<Rightarrow> bool" where
  "history_ok sid ws \<longleftrightarrow>
     (\<forall>w \<in> set ws. window_ok w \<and> cw_subscriptionId w = sid) \<and>
     sorted_wrt (\<lambda>v w. cw_endLedger v \<le> cw_startLedger w) ws"

lemma assertValidCoverageWindow_Inr: "assertValidCoverageWindow w = Inr u \<longleftrightarrow> window_ok w"
  by (auto simp: assertValidCoverageWindow_def assertLedger_def window_ok_def isSafeInteger_def
      isCoveredReason_def Let_def)

lemma not_overlaps_iff:
  "window_ok v \<Longrightarrow> window_ok w \<Longrightarrow>
   \<not> overlaps v w \<longleftrightarrow> cw_endLedger v \<le> cw_startLedger w \<or> cw_endLedger w \<le> cw_startLedger v"
  by (auto simp: overlaps_def window_ok_def)

lemma history_ok_sorted: "history_ok sid ws \<Longrightarrow> sorted (map cw_startLedger ws)"
proof (induction ws)
  case (Cons w ws)
  then have "sorted (map cw_startLedger ws)" by (auto simp: history_ok_def)
  moreover have "cw_startLedger w \<le> cw_startLedger v" if "v \<in> set ws" for v
    using Cons.prems that by (fastforce simp: history_ok_def window_ok_def)
  ultimately show ?case by auto
qed simp

lemma history_ok_insert:
  assumes ok: "history_ok sid ws" and w: "window_ok w" "cw_subscriptionId w = sid"
    and free: "\<not> list_ex (overlaps w) ws"
  shows "history_ok sid (sort_key cw_startLedger (ws @ [w]))"
  using ok free
proof -
  let ?lo = "filter (\<lambda>v. cw_startLedger v \<le> cw_startLedger w) ws"
  let ?hi = "filter (\<lambda>v. cw_startLedger w < cw_startLedger v) ws"
  have apart: "cw_endLedger w \<le> cw_startLedger v \<or> cw_endLedger v \<le> cw_startLedger w"
    if "v \<in> set ws" for v
    using free ok w that not_overlaps_iff [of w v] by (auto simp: list_ex_iff history_ok_def)
  have lo: "\<forall>v \<in> set ?lo. cw_endLedger v \<le> cw_startLedger w"
    using apart w ok by (fastforce simp: window_ok_def history_ok_def)
  have hi: "\<forall>v \<in> set ?hi. cw_endLedger w \<le> cw_startLedger v"
    using apart w ok by (fastforce simp: window_ok_def history_ok_def)
  have "sorted_wrt (\<lambda>v w. cw_endLedger v \<le> cw_startLedger w) (?lo @ w # ?hi)"
    using ok lo hi w by (fastforce simp: history_ok_def sorted_wrt_append sorted_wrt_filter window_ok_def)
  moreover have "sort_key cw_startLedger (ws @ [w]) = ?lo @ w # ?hi"
    using sort_key_snoc [of cw_startLedger ws w] history_ok_sorted [OF ok] by (simp add: sorted_sort_id sort_key_id_if_sorted)
  ultimately show ?thesis using ok w by (auto simp: history_ok_def)
qed


section \<open>The cursor loop\<close>

lemma cursor_loop_spanned:
  "cursor_loop c ws = Some d \<Longrightarrow> c \<le> d \<and> (\<forall>l. c \<le> l \<and> l < d \<longrightarrow> (\<exists>w \<in> set ws. in_window l w))"
proof (induction ws arbitrary: c)
  case (Cons w ws)
  then have w: "cw_startLedger w \<le> c" and rest: "cursor_loop (max c (cw_endLedger w)) ws = Some d"
    by (auto split: if_splits)
  have "\<exists>v \<in> set (w # ws). in_window l v" if l: "c \<le> l" "l < d" for l
  proof (cases "l < cw_endLedger w")
    case True
    with w l show ?thesis by (auto simp: in_window_def)
  next
    case False
    with l have "max c (cw_endLedger w) \<le> l" by simp
    with Cons.IH [OF rest] l show ?thesis by auto
  qed
  with Cons.IH [OF rest] show ?case by auto
qed auto

lemma cursor_loop_complete:
  assumes "sorted (map cw_startLedger ws)" and "\<forall>w \<in> set ws. cw_startLedger w < b"
    and "\<forall>l. c \<le> l \<and> l < b \<longrightarrow> (\<exists>w \<in> set ws. in_window l w)"
  shows "\<exists>d. cursor_loop c ws = Some d \<and> b \<le> d"
  using assms
proof (induction ws arbitrary: c)
  case (Cons w ws)
  have w: "cw_startLedger w \<le> c"
  proof (cases "c < b")
    case True
    with Cons.prems(3) obtain v where "v \<in> set (w # ws)" "in_window c v" by blast
    with Cons.prems(1) show ?thesis by (auto simp: in_window_def)
  next
    case False
    with Cons.prems(2) show ?thesis by auto
  qed
  have "\<forall>l. max c (cw_endLedger w) \<le> l \<and> l < b \<longrightarrow> (\<exists>v \<in> set ws. in_window l v)"
    using Cons.prems(3) by (auto simp: in_window_def)
  with Cons.IH Cons.prems w show ?case by auto
qed force

lemma length_filter_all: "length (filter P xs) = length xs \<longleftrightarrow> (\<forall>x \<in> set xs. P x)"
  by (metis filter_id_conv filter_True length_filter_less less_irrefl)

lemma history_ok_unique:
  assumes ok: "history_ok sid ws" and vw: "v \<in> set ws" "w \<in> set ws" and l: "in_window l v" "in_window l w"
  shows "v = w"
proof -
  obtain i j where ij: "i < length ws" "v = ws ! i" "j < length ws" "w = ws ! j"
    using vw by (auto simp: in_set_conv_nth)
  have "\<not> i < j" "\<not> j < i"
    using ok ij l by (fastforce simp: history_ok_def sorted_wrt_iff_nth_less in_window_def)+
  with ij show ?thesis by (metis nat_neq_iff)
qed

lemma history_ok_find:
  assumes "history_ok sid ws" and "w \<in> set ws" and "in_window l w"
  shows "find (in_window l) ws = Some w"
proof (cases "find (in_window l) ws")
  case None
  with assms show ?thesis by (simp add: find_None_iff)
next
  case (Some v)
  then have "v \<in> set ws" "in_window l v" by (auto simp: find_Some_iff)
  with assms Some show ?thesis using history_ok_unique by blast
qed

section \<open>The CoverageLedger interface\<close>

text \<open>
  \<open>append\<close> records a window exactly when it is valid and overlaps no stored one, and changes the
  history of its own subscription only, by that window; \<open>findAt\<close> is a lookup in the history.
\<close>

locale coverage_ledger =
  fixes append :: "coverage_window \<Rightarrow> 's \<Rightarrow> (coverage_error, 's) result"
    and findAt :: "string \<Rightarrow> int \<Rightarrow> 's \<Rightarrow> (coverage_error, coverage_window option) result"
    and history :: "string \<Rightarrow> 's \<Rightarrow> coverage_window list"
    and invar :: "'s \<Rightarrow> bool"
  assumes history_law: "invar s \<Longrightarrow> history_ok sid (history sid s)"
    and findAt_law: "findAt sid l s =
      (if isSafeInteger l \<and> 0 \<le> l then Inr (find (in_window l) (history sid s)) else Inl LEDGER_OUT_OF_RANGE)"
    and append_law: "(\<exists>s'. append w s = Inr s') \<longleftrightarrow>
      window_ok w \<and> (\<forall>v \<in> set (history (cw_subscriptionId w) s). \<not> overlaps w v)"
    and append_history: "append w s = Inr s' \<Longrightarrow>
      set (history sid s') = (if sid = cw_subscriptionId w then {w} else {}) \<union> set (history sid s)"
    and append_invar: "invar s \<Longrightarrow> append w s = Inr s' \<Longrightarrow> invar s'"
begin

text \<open>A recorded answer is never edited: it survives every later append.\<close>

lemma findAt_stable:
  assumes "invar s" and "append w s = Inr s'" and "findAt sid l s = Inr (Some v)"
  shows "findAt sid l s' = Inr (Some v)"
proof -
  have v: "v \<in> set (history sid s)" "in_window l v" and l: "isSafeInteger l" "0 \<le> l"
    using assms(3) by (auto simp: findAt_law find_Some_iff split: if_splits)
  then have "v \<in> set (history sid s')" using append_history [OF assms(2)] by auto
  with history_ok_find [OF history_law [OF append_invar [OF assms(1,2)]]] v l show ?thesis
    by (simp add: findAt_law)
qed

lemma findAt_appended:
  assumes "invar s" and "append w s = Inr s'" and "in_window l w"
  shows "findAt (cw_subscriptionId w) l s' = Inr (Some w)"
proof -
  have w: "window_ok w" using append_law [of w s] assms(2) by blast
  have "w \<in> set (history (cw_subscriptionId w) s')" using append_history [OF assms(2)] by auto
  from history_ok_find [OF history_law [OF append_invar [OF assms(1,2)]] this assms(3)] w assms(3)
  show ?thesis by (auto simp: findAt_law window_ok_def in_window_def isSafeInteger_def)
qed

lemma findAt_other:
  assumes "append w s = Inr s'" and "invar s" and "\<not> (sid = cw_subscriptionId w \<and> in_window l w)"
    and "findAt sid l s = Inr None"
  shows "findAt sid l s' = Inr None"
  using assms append_history [OF assms(1), of sid]
  by (auto simp: findAt_law find_None_iff split: if_splits)

text \<open>The answer for one ledger, as the audit of a stretch of ledgers reads it.\<close>

lemma wasCovered_law:
  "isSafeInteger l \<Longrightarrow> 0 \<le> l \<Longrightarrow>
   wasCovered findAt s sid l = Inr (map_option cw_covered (find (in_window l) (history sid s)))"
  by (simp add: wasCovered_def findAt_law)

end

text \<open>What the audit of a window promises, from the answers for its single ledgers.\<close>

definition coverage_spec :: "(int \<Rightarrow> bool option) \<Rightarrow> int \<Rightarrow> int \<Rightarrow> window_coverage" where
  "coverage_spec ans a b =
     (if \<exists>l \<in> {a..<b}. ans l = None then Unknown
      else if \<forall>l \<in> {a..<b}. ans l = Some True then Covered
      else if \<forall>l \<in> {a..<b}. ans l = Some False then Uncovered
      else Partial)"

lemma coverage_spec_cong:
  assumes "\<And>l. l \<in> {a..<b} \<Longrightarrow> f l = g l"
  shows "coverage_spec f a b = coverage_spec g a b"
proof -
  have "(\<forall>l \<in> {a..<b}. f l = x) \<longleftrightarrow> (\<forall>l \<in> {a..<b}. g l = x)"
    "(\<exists>l \<in> {a..<b}. f l = x) \<longleftrightarrow> (\<exists>l \<in> {a..<b}. g l = x)" for x
    using assms by auto
  then show ?thesis by (simp only: coverage_spec_def)
qed

definition overlapping :: "int \<Rightarrow> int \<Rightarrow> coverage_window list \<Rightarrow> coverage_window list" where
  "overlapping a b ws = filter (\<lambda>w. a < cw_endLedger w \<and> cw_startLedger w < b) ws"

lemma overlapping_sorted: "history_ok sid ws \<Longrightarrow> sorted (map cw_startLedger (overlapping a b ws))"
  unfolding overlapping_def by (rule sorted_filter) (rule history_ok_sorted)

lemma overlapping_point:
  assumes "history_ok sid ws" and "a < b" and "w \<in> set (overlapping a b ws)"
  shows "\<exists>l \<in> {a..<b}. in_window l w"
  using assms by (intro bexI [of _ "max a (cw_startLedger w)"])
    (auto simp: overlapping_def in_window_def history_ok_def window_ok_def)

lemma find_overlapping:
  "l \<in> {a..<b} \<Longrightarrow> find (in_window l) ws = Some w \<Longrightarrow> w \<in> set (overlapping a b ws)"
  by (auto simp: overlapping_def find_Some_iff in_window_def)

lemma cursor_loop_iff:
  assumes ok: "history_ok sid ws" and ab: "a < b"
  shows "(\<exists>d. cursor_loop a (overlapping a b ws) = Some d \<and> b \<le> d) \<longleftrightarrow>
    (\<forall>l \<in> {a..<b}. find (in_window l) ws \<noteq> None)" (is "?L = ?R")
proof
  assume ?L
  then obtain d where "cursor_loop a (overlapping a b ws) = Some d" "b \<le> d" by blast
  with cursor_loop_spanned have "\<forall>l \<in> {a..<b}. \<exists>w \<in> set (overlapping a b ws). in_window l w" by fastforce
  then show ?R by (auto simp: find_None_iff overlapping_def simp del: not_None_eq)
next
  assume ?R
  have "\<exists>w \<in> set (overlapping a b ws). in_window l w" if l: "l \<in> {a..<b}" for l
  proof -
    obtain w where w: "find (in_window l) ws = Some w" using \<open>?R\<close> l by blast
    then have "in_window l w" by (auto simp: find_Some_iff)
    with find_overlapping [OF l w] show ?thesis by blast
  qed
  then have "\<forall>l. a \<le> l \<and> l < b \<longrightarrow> (\<exists>w \<in> set (overlapping a b ws). in_window l w)" by simp
  moreover have "\<forall>w \<in> set (overlapping a b ws). cw_startLedger w < b" by (simp add: overlapping_def)
  ultimately show ?L using cursor_loop_complete overlapping_sorted [OF ok] by blast
qed

lemma overlapping_all:
  assumes ok: "history_ok sid ws" and ab: "a < b" and full: "\<forall>l \<in> {a..<b}. find (in_window l) ws \<noteq> None"
  shows "(\<forall>w \<in> set (overlapping a b ws). cw_covered w = c) \<longleftrightarrow>
    (\<forall>l \<in> {a..<b}. map_option cw_covered (find (in_window l) ws) = Some c)" (is "?L = ?R")
proof
  assume ?L with full find_overlapping show ?R by fastforce
next
  assume r: ?R
  show ?L
  proof
    fix w assume w: "w \<in> set (overlapping a b ws)"
    obtain l where l: "l \<in> {a..<b}" "in_window l w" using overlapping_point [OF ok ab w] by blast
    have "find (in_window l) ws = Some w"
      using history_ok_find [OF ok _ l(2)] w by (simp add: overlapping_def)
    with r l show "cw_covered w = c" by force
  qed
qed

lemma coverageForWindow_history:
  assumes ok: "history_ok sid (history sid s)" and r: "0 \<le> a" "a < b" "b \<le> 9007199254740991"
  shows "coverageForWindow history s sid a b =
    Inr (coverage_spec (\<lambda>l. map_option cw_covered (find (in_window l) (history sid s))) a b)"
proof -
  let ?ws = "history sid s"
  let ?ov = "overlapping a b ?ws"
  define ans where "ans = (\<lambda>l. map_option cw_covered (find (in_window l) ?ws))"
  have unfold: "coverageForWindow history s sid a b =
      (if ?ov = [] then Inr Unknown else case cursor_loop a ?ov of None \<Rightarrow> Inr Unknown
       | Some d \<Rightarrow> if d < b then Inr Unknown
           else if length (filter cw_covered ?ov) = length ?ov then Inr Covered
           else if length (filter cw_covered ?ov) = 0 then Inr Uncovered else Inr Partial)"
    using r by (simp add: coverageForWindow_def assertLedger_def isSafeInteger_def overlapping_def Let_def
        cong: if_cong option.case_cong)
  show ?thesis
  proof (cases "\<forall>l \<in> {a..<b}. find (in_window l) ?ws \<noteq> None")
    case True
    then obtain d where d: "cursor_loop a ?ov = Some d" "b \<le> d" using cursor_loop_iff [OF ok r(2)] by blast
    have "?ov \<noteq> []" using d r by auto
    moreover have "length (filter cw_covered ?ov) = length ?ov \<longleftrightarrow> (\<forall>l \<in> {a..<b}. ans l = Some True)"
      using overlapping_all [OF ok r(2) True, of True] by (simp add: length_filter_all ans_def)
    moreover have "length (filter cw_covered ?ov) = 0 \<longleftrightarrow> (\<forall>l \<in> {a..<b}. ans l = Some False)"
      using overlapping_all [OF ok r(2) True, of False] by (simp add: filter_empty_conv ans_def)
    moreover have "\<not> (\<exists>l \<in> {a..<b}. ans l = None)" using True by (simp add: ans_def)
    ultimately show ?thesis using d unfolding unfold ans_def [symmetric] coverage_spec_def
      by (auto simp del: length_0_conv length_greater_0_conv)
  next
    case False
    then have "\<not> (\<exists>d. cursor_loop a ?ov = Some d \<and> b \<le> d)" using cursor_loop_iff [OF ok r(2)] by blast
    moreover have "\<exists>l \<in> {a..<b}. ans l = None" using False by (simp add: ans_def)
    ultimately show ?thesis unfolding unfold ans_def [symmetric] coverage_spec_def
      by (auto split: option.split)
  qed
qed


section \<open>The in-memory ledger provides the interface\<close>

definition coverage_map_ok :: "coverage_map \<Rightarrow> bool" where
  "coverage_map_ok m \<longleftrightarrow> (\<forall>(sid, ws) \<in> set m. history_ok sid ws) \<and> map_wf m"

lemma coverage_map_ok_Nil [simp]: "coverage_map_ok []"
  by (simp add: coverage_map_ok_def)

lemma stored_windows_ok: "coverage_map_ok m \<Longrightarrow> history_ok sid (stored_windows sid m)"
  by (auto simp: stored_windows_def coverage_map_ok_def history_ok_def dest!: map_of_SomeD
      split: option.split)

lemma mem_append_Inr:
  "mem_append w m = Inr m' \<longleftrightarrow> window_ok w \<and>
     \<not> list_ex (overlaps w) (stored_windows (cw_subscriptionId w) m) \<and>
     m' = map_set (cw_subscriptionId w)
       (sort_key cw_startLedger (stored_windows (cw_subscriptionId w) m @ [w])) m"
  by (auto simp: mem_append_def assertValidCoverageWindow_Inr Let_def)

lemma stored_windows_set:
  "stored_windows sid (map_set k ws m) = (if sid = k then ws else stored_windows sid m)"
  by (simp add: stored_windows_def)

interpretation mem_ledger: coverage_ledger mem_append mem_findAt mem_history coverage_map_ok
proof unfold_locales
  fix s :: coverage_map and sid
  assume "coverage_map_ok s"
  then show "history_ok sid (mem_history sid s)" by (simp add: mem_history_def stored_windows_ok)
next
  fix sid l and s :: coverage_map
  show "mem_findAt sid l s = (if isSafeInteger l \<and> 0 \<le> l
      then Inr (find (in_window l) (mem_history sid s)) else Inl LEDGER_OUT_OF_RANGE)"
    by (simp add: mem_findAt_def assertLedger_def ensure_def mem_history_def in_window_def [abs_def])
next
  fix w and s :: coverage_map
  show "(\<exists>s'. mem_append w s = Inr s') \<longleftrightarrow>
      window_ok w \<and> (\<forall>v \<in> set (mem_history (cw_subscriptionId w) s). \<not> overlaps w v)"
    by (auto simp: mem_append_Inr list_ex_iff mem_history_def)
next
  fix w sid and s s' :: coverage_map
  assume "mem_append w s = Inr s'"
  then show "set (mem_history sid s') =
      (if sid = cw_subscriptionId w then {w} else {}) \<union> set (mem_history sid s)"
    by (auto simp: mem_append_Inr mem_history_def stored_windows_set)
next
  fix w and s s' :: coverage_map
  assume ok: "coverage_map_ok s" and "mem_append w s = Inr s'"
  then show "coverage_map_ok s'"
    using history_ok_insert [OF stored_windows_ok [OF ok, of "cw_subscriptionId w"]]
    by (auto simp: mem_append_Inr coverage_map_ok_def set_map_set)
qed

section \<open>Properties\<close>

text \<open>
  C13: the audit of a stretch of ledgers agrees with the audit of its single ledgers. On every
  well-formed in-memory ledger and every valid range, \<open>coverageForWindow\<close> answers \<open>unknown\<close> exactly
  when some ledger of the range has no record, \<open>covered\<close> (\<open>uncovered\<close>) when \<open>wasCovered\<close> says so for
  every ledger of it, and \<open>partial\<close> otherwise; in particular an unrecorded stretch is never
  reported as covered.
\<close>

theorem coverageForWindow_refines_wasCovered:
  assumes "coverage_map_ok m" and "0 \<le> a" and "a < b" and "b \<le> 9007199254740991"
    and "\<And>l. l \<in> {a..<b} \<Longrightarrow> wasCovered mem_findAt m sid l = Inr (ans l)"
  shows "coverageForWindow mem_history m sid a b = Inr (coverage_spec ans a b)"
proof -
  have ans: "map_option cw_covered (find (in_window l) (mem_history sid m)) = ans l" if "l \<in> {a..<b}" for l
    using assms(5) [OF that] mem_ledger.wasCovered_law [of l m sid] assms(2-4) that
    by (simp add: isSafeInteger_def)
  have "coverage_spec (\<lambda>l. map_option cw_covered (find (in_window l) (mem_history sid m))) a b =
      coverage_spec ans a b"
    by (rule coverage_spec_cong) (rule ans)
  with coverageForWindow_history [where history = mem_history, OF mem_ledger.history_law [OF assms(1)] assms(2-4)]
  show ?thesis by metis
qed

theorem coverageForWindow_refines_wasCovered_witness:
  "coverageForWindow mem_history
     [(''s'', [\<lparr>cw_subscriptionId = ''s'', cw_startLedger = 1, cw_endLedger = 2, cw_covered = True,
                cw_reason = ReasonActive\<rparr>,
              \<lparr>cw_subscriptionId = ''s'', cw_startLedger = 2, cw_endLedger = 3, cw_covered = False,
                cw_reason = ReasonLapsed\<rparr>])] ''s'' 1 3 =
   Inr (coverage_spec (\<lambda>l. Some (l < 2)) 1 3)"
  by (rule coverageForWindow_refines_wasCovered)
    (auto simp: coverage_map_ok_def map_wf_def history_ok_def window_ok_def isCoveredReason_def
      COVERED_REASONS_def wasCovered_def mem_findAt_def assertLedger_def isSafeInteger_def stored_windows_def)

text \<open>
  the ledger is append-only. A successful \<open>append\<close> keeps the record well-formed, answers
  every ledger of the new window with that window, keeps every answer recorded before, for every
  subscription, and leaves every other unrecorded ledger unrecorded.
\<close>

theorem mem_append_append_only:
  assumes "coverage_map_ok m" and "mem_append w m = Inr m'"
  shows "coverage_map_ok m' \<and>
    (\<forall>l. in_window l w \<longrightarrow> mem_findAt (cw_subscriptionId w) l m' = Inr (Some w)) \<and>
    (\<forall>sid l v. mem_findAt sid l m = Inr (Some v) \<longrightarrow> mem_findAt sid l m' = Inr (Some v)) \<and>
    (\<forall>sid l. mem_findAt sid l m = Inr None \<longrightarrow> \<not> (sid = cw_subscriptionId w \<and> in_window l w) \<longrightarrow>
      mem_findAt sid l m' = Inr None)"
  using assms mem_ledger.append_invar mem_ledger.findAt_appended mem_ledger.findAt_stable
    mem_ledger.findAt_other by blast

theorem mem_append_append_only_witness:
  "mem_findAt ''s'' 1
     [(''s'', [\<lparr>cw_subscriptionId = ''s'', cw_startLedger = 1, cw_endLedger = 2, cw_covered = True,
                cw_reason = ReasonActive\<rparr>])] =
   Inr (Some \<lparr>cw_subscriptionId = ''s'', cw_startLedger = 1, cw_endLedger = 2, cw_covered = True,
                cw_reason = ReasonActive\<rparr>)"
proof -
  let ?w = "\<lparr>cw_subscriptionId = ''s'', cw_startLedger = 1, cw_endLedger = 2, cw_covered = True,
    cw_reason = ReasonActive\<rparr>"
  have "mem_append ?w [] = Inr [(''s'', [?w])]"
    by (simp add: mem_append_Inr window_ok_def isCoveredReason_def COVERED_REASONS_def stored_windows_def)
  from mem_append_append_only [OF coverage_map_ok_Nil this] show ?thesis by (simp add: in_window_def)
qed

end
