(* ===== verification/Subscription_Lifecycle.thy ===== *)
theory Subscription_Lifecycle
  imports Coverage
begin

text \<open>
  The lifecycle of one backstop subscription,
  \<^verbatim>\<open>packages/worker-core/src/subscription/lifecycle.ts\<close>, with the billing hooks of
  \<^verbatim>\<open>billing.ts\<close>. An operation returns the new object together with its result, so that an error
  thrown half-way (by the coverage ledger, or by a hook after the state has moved) keeps the
  effects it had. The coverage ledger's \<open>append\<close> and the hooks are arguments of the operations.
\<close>

section \<open>States and transitions\<close>

datatype subscription_state = StActive | StExpiring | StLapsed | StCancelled

definition LEGAL_TRANSITIONS :: "subscription_state \<Rightarrow> subscription_state list" where
  "LEGAL_TRANSITIONS s = (case s of
     StActive \<Rightarrow> [StExpiring, StCancelled]
   | StExpiring \<Rightarrow> [StActive, StLapsed]
   | StLapsed \<Rightarrow> [StActive]
   | StCancelled \<Rightarrow> [StActive])"

definition COVERED_STATES :: "subscription_state set" where
  "COVERED_STATES = {StActive, StExpiring}"

definition REASON_BY_STATE :: "subscription_state \<Rightarrow> coverage_reason" where
  "REASON_BY_STATE s = (case s of
     StActive \<Rightarrow> ReasonActive | StExpiring \<Rightarrow> ReasonGrace | StLapsed \<Rightarrow> ReasonLapsed
   | StCancelled \<Rightarrow> ReasonCancelled)"

definition isCoveredState :: "subscription_state \<Rightarrow> bool" where
  "isCoveredState s \<longleftrightarrow> s \<in> COVERED_STATES"

definition isLegalTransition :: "subscription_state \<Rightarrow> subscription_state \<Rightarrow> bool" where
  "isLegalTransition from to \<longleftrightarrow> to \<in> set (LEGAL_TRANSITIONS from)"

datatype lifecycle_error_code =
    ILLEGAL_TRANSITION | LEDGER_NOT_ADVANCING | LC_LEDGER_OUT_OF_RANGE | INVALID_WINDOW_SIZE
  | INSUFFICIENT_LAPSE_NOTICE | PREMATURE_LAPSE | MISSING_FIELD

text \<open>What an operation can throw: an error of its own, one of the coverage ledger, one of a hook.\<close>

datatype lifecycle_error =
  LifecycleError lifecycle_error_code | CoverageLedgerError coverage_error | HookError

section \<open>Billing hooks\<close>

record subscription_event =
  ev_subscriptionId :: string
  ev_tier :: string
  ev_atLedger :: int
  ev_window :: "coverage_window option"

text \<open>One call of a hook; \<open>OnExpiring\<close> carries the announced lapse ledger beside the event.\<close>

datatype billing_call =
    OnActivated subscription_event
  | OnRenewed subscription_event
  | OnExpiring subscription_event int
  | OnLapsed subscription_event
  | OnCancelled subscription_event

text \<open>A hook implementation: its new state, and whether it threw.\<close>

type_synonym 'h billing_hooks = "billing_call \<Rightarrow> 'h \<Rightarrow> 'h \<times> bool"

definition NOOP_BILLING_HOOKS :: "'h billing_hooks" where
  "NOOP_BILLING_HOOKS call h = (h, False)"

definition RecordingBillingHooks :: "billing_call list billing_hooks" where
  "RecordingBillingHooks call recorded = (recorded @ [call], False)"

section \<open>BackstopSubscription\<close>

record ('s, 'h) backstop =
  bs_subscriptionId :: string
  bs_tier :: string
  bs_windowLedgers :: int
  bs_coverage :: 's
  bs_hooks :: 'h
  bs_currentState :: subscription_state
  bs_openedAt :: int
  bs_announcedLapseLedger :: "int option"

type_synonym ('s, 'h, 'a) lc_result = "('s, 'h) backstop \<times> (lifecycle_error, 'a) result"

text \<open>Sequencing of fallible steps on the object: an error stops, and keeps the object as it is.\<close>

definition lc_bind :: "('s, 'h, 'a) lc_result \<Rightarrow> ('a \<Rightarrow> ('s, 'h) backstop \<Rightarrow> ('s, 'h, 'b) lc_result) \<Rightarrow>
    ('s, 'h, 'b) lc_result" where
  "lc_bind r f = (case r of (b, Inl e) \<Rightarrow> (b, Inl e) | (b, Inr a) \<Rightarrow> f a b)"

definition assertLedger_lc :: "int \<Rightarrow> ('s, 'h) backstop \<Rightarrow> ('s, 'h, unit) lc_result" where
  "assertLedger_lc value b =
     (b, ensure (isSafeInteger value \<and> 0 \<le> value) (LifecycleError LC_LEDGER_OUT_OF_RANGE))"

definition event_lc :: "int \<Rightarrow> coverage_window option \<Rightarrow> ('s, 'h) backstop \<Rightarrow> subscription_event" where
  "event_lc atLedger window b =
     \<lparr>ev_subscriptionId = bs_subscriptionId b, ev_tier = bs_tier b, ev_atLedger = atLedger, ev_window = window\<rparr>"

definition fire :: "'h billing_hooks \<Rightarrow> billing_call \<Rightarrow> ('s, 'h) backstop \<Rightarrow> ('s, 'h, unit) lc_result" where
  "fire hooks call b =
     (let (h, threw) = hooks call (bs_hooks b) in
      (b\<lparr>bs_hooks := h\<rparr>, if threw then Inl HookError else Inr ()))"

type_synonym 's coverage_append = "coverage_window \<Rightarrow> 's \<Rightarrow> (coverage_error, 's) result"

definition open_window :: "int \<Rightarrow> ('s, 'h) backstop \<Rightarrow> coverage_window" where
  "open_window atLedger b =
     \<lparr>cw_subscriptionId = bs_subscriptionId b, cw_startLedger = bs_openedAt b, cw_endLedger = atLedger,
      cw_covered = isCoveredState (bs_currentState b), cw_reason = REASON_BY_STATE (bs_currentState b)\<rparr>"

definition writeOpenWindow ::
  "'s coverage_append \<Rightarrow> int \<Rightarrow> ('s, 'h) backstop \<Rightarrow> ('s, 'h, coverage_window) lc_result" where
  "writeOpenWindow appendw atLedger b =
     lc_bind (assertLedger_lc atLedger b) (\<lambda>_ b.
       if atLedger \<le> bs_openedAt b then (b, Inl (LifecycleError LEDGER_NOT_ADVANCING))
       else let window = open_window atLedger b in
         case appendw window (bs_coverage b) of
           Inl e \<Rightarrow> (b, Inl (CoverageLedgerError e))
         | Inr s \<Rightarrow> (b\<lparr>bs_coverage := s, bs_openedAt := atLedger\<rparr>, Inr window))"

definition transition ::
  "'s coverage_append \<Rightarrow> subscription_state \<Rightarrow> int \<Rightarrow> ('s, 'h) backstop \<Rightarrow> ('s, 'h, coverage_window) lc_result"
where
  "transition appendw to atLedger b =
     (if \<not> isLegalTransition (bs_currentState b) to then (b, Inl (LifecycleError ILLEGAL_TRANSITION))
      else lc_bind (writeOpenWindow appendw atLedger b) (\<lambda>window b.
        (b\<lparr>bs_currentState := to\<rparr>, Inr window)))"

definition sealTo ::
  "'s coverage_append \<Rightarrow> int \<Rightarrow> ('s, 'h) backstop \<Rightarrow> ('s, 'h, coverage_window) lc_result" where
  "sealTo appendw atLedger b = writeOpenWindow appendw atLedger b"

text \<open>The configuration of \<open>activate\<close>; the coverage ledger and the hooks come as they are then.\<close>

record backstop_config =
  bc_subscriptionId :: string
  bc_tier :: string
  bc_windowLedgers :: int

definition activate ::
  "'h billing_hooks \<Rightarrow> backstop_config \<Rightarrow> int \<Rightarrow> 's \<Rightarrow> 'h \<Rightarrow>
   (lifecycle_error, ('s, 'h) backstop) result"
where
  "activate hooks config atLedger s h =
     bind_result (ensure (bc_subscriptionId config \<noteq> []) (LifecycleError MISSING_FIELD)) (\<lambda>_.
     bind_result (ensure (bc_tier config \<noteq> []) (LifecycleError MISSING_FIELD)) (\<lambda>_.
     bind_result (ensure (isSafeInteger (bc_windowLedgers config) \<and> 1 \<le> bc_windowLedgers config)
       (LifecycleError INVALID_WINDOW_SIZE)) (\<lambda>_.
     bind_result (ensure (isSafeInteger atLedger \<and> 0 \<le> atLedger) (LifecycleError LC_LEDGER_OUT_OF_RANGE)) (\<lambda>_.
       let subscription =
         \<lparr>bs_subscriptionId = bc_subscriptionId config, bs_tier = bc_tier config,
          bs_windowLedgers = bc_windowLedgers config, bs_coverage = s, bs_hooks = h,
          bs_currentState = StActive, bs_openedAt = atLedger, bs_announcedLapseLedger = None\<rparr>
       in case fire hooks (OnActivated (event_lc atLedger None subscription)) subscription of
            (b, Inl e) \<Rightarrow> Inl e
          | (b, Inr _) \<Rightarrow> Inr b))))"

definition renew ::
  "'s coverage_append \<Rightarrow> 'h billing_hooks \<Rightarrow> int \<Rightarrow> ('s, 'h) backstop \<Rightarrow> ('s, 'h, unit) lc_result" where
  "renew appendw hooks atLedger b =
     lc_bind (transition appendw StActive atLedger b) (\<lambda>window b.
       let b = b\<lparr>bs_announcedLapseLedger := None\<rparr> in
       fire hooks (OnRenewed (event_lc atLedger (Some window) b)) b)"

definition beginExpiring ::
  "'s coverage_append \<Rightarrow> 'h billing_hooks \<Rightarrow> int \<Rightarrow> int \<Rightarrow> ('s, 'h) backstop \<Rightarrow> ('s, 'h, unit) lc_result"
where
  "beginExpiring appendw hooks atLedger lapsesAtLedger b =
     lc_bind (assertLedger_lc atLedger b) (\<lambda>_ b.
     lc_bind (assertLedger_lc lapsesAtLedger b) (\<lambda>_ b.
       if lapsesAtLedger - atLedger < bs_windowLedgers b
       then (b, Inl (LifecycleError INSUFFICIENT_LAPSE_NOTICE))
       else lc_bind (transition appendw StExpiring atLedger b) (\<lambda>window b.
         let b = b\<lparr>bs_announcedLapseLedger := Some lapsesAtLedger\<rparr> in
         fire hooks (OnExpiring (event_lc atLedger (Some window) b) lapsesAtLedger) b)))"

definition lapse ::
  "'s coverage_append \<Rightarrow> 'h billing_hooks \<Rightarrow> int \<Rightarrow> ('s, 'h) backstop \<Rightarrow> ('s, 'h, unit) lc_result" where
  "lapse appendw hooks atLedger b =
     lc_bind (assertLedger_lc atLedger b) (\<lambda>_ b.
       if (case bs_announcedLapseLedger b of Some l \<Rightarrow> atLedger < l | None \<Rightarrow> False)
       then (b, Inl (LifecycleError PREMATURE_LAPSE))
       else lc_bind (transition appendw StLapsed atLedger b) (\<lambda>window b.
         let b = b\<lparr>bs_announcedLapseLedger := None\<rparr> in
         fire hooks (OnLapsed (event_lc atLedger (Some window) b)) b))"

definition cancel ::
  "'s coverage_append \<Rightarrow> 'h billing_hooks \<Rightarrow> int \<Rightarrow> ('s, 'h) backstop \<Rightarrow> ('s, 'h, unit) lc_result" where
  "cancel appendw hooks atLedger b =
     lc_bind (transition appendw StCancelled atLedger b) (\<lambda>window b.
       let b = b\<lparr>bs_announcedLapseLedger := None\<rparr> in
       fire hooks (OnCancelled (event_lc atLedger (Some window) b)) b)"

definition reactivate ::
  "'s coverage_append \<Rightarrow> 'h billing_hooks \<Rightarrow> int \<Rightarrow> ('s, 'h) backstop \<Rightarrow> ('s, 'h, unit) lc_result" where
  "reactivate appendw hooks atLedger b =
     lc_bind (transition appendw StActive atLedger b) (\<lambda>window b.
       fire hooks (OnActivated (event_lc atLedger (Some window) b)) b)"

section \<open>Runs of a subscription\<close>

datatype lc_op = Renew int | BeginExpiring int int | Lapse int | Cancel int | Reactivate int | SealTo int

definition forget :: "('s, 'h, 'a) lc_result \<Rightarrow> ('s, 'h) backstop" where
  "forget r = fst r"

fun lc_run :: "'s coverage_append \<Rightarrow> 'h billing_hooks \<Rightarrow> lc_op \<Rightarrow> ('s, 'h) backstop \<Rightarrow> ('s, 'h) backstop"
where
  "lc_run appendw hooks (Renew l) b = forget (renew appendw hooks l b)"
| "lc_run appendw hooks (BeginExpiring l l') b = forget (beginExpiring appendw hooks l l' b)"
| "lc_run appendw hooks (Lapse l) b = forget (lapse appendw hooks l b)"
| "lc_run appendw hooks (Cancel l) b = forget (cancel appendw hooks l b)"
| "lc_run appendw hooks (Reactivate l) b = forget (reactivate appendw hooks l b)"
| "lc_run appendw hooks (SealTo l) b = forget (sealTo appendw l b)"

text \<open>
  One step of the world around the object: an operation, whatever its outcome, or another
  subscription that appends its own window to the same ledger.
\<close>

inductive lc_step :: "'s coverage_append \<Rightarrow> 'h billing_hooks \<Rightarrow> ('s, 'h) backstop \<Rightarrow> ('s, 'h) backstop \<Rightarrow> bool"
  for appendw hooks
where
  own: "lc_step appendw hooks b (lc_run appendw hooks op b)"
| other: "cw_subscriptionId w \<noteq> bs_subscriptionId b \<Longrightarrow> appendw w (bs_coverage b) = Inr s \<Longrightarrow>
    lc_step appendw hooks b (b\<lparr>bs_coverage := s\<rparr>)"

inductive lc_reachable ::
  "'s coverage_append \<Rightarrow> 'h billing_hooks \<Rightarrow> ('s, 'h) backstop \<Rightarrow> ('s, 'h) backstop \<Rightarrow> bool"
  for appendw hooks b0
where
  start: "lc_reachable appendw hooks b0 b0"
| more: "lc_reachable appendw hooks b0 b \<Longrightarrow> lc_step appendw hooks b b' \<Longrightarrow> lc_reachable appendw hooks b0 b'"

inductive_cases lc_stepE: "lc_step appendw hooks b b'"


lemma lc_reachable_trans:
  assumes "lc_reachable appendw hooks b0 b" and "lc_reachable appendw hooks b b'"
  shows "lc_reachable appendw hooks b0 b'"
  using assms(2,1) by induction (auto intro: lc_reachable.more)

lemma lc_reachable_run:
  "lc_reachable appendw hooks b0 b \<Longrightarrow> lc_reachable appendw hooks b0 (lc_run appendw hooks op b)"
  by (blast intro: lc_reachable.more lc_step.own)

section \<open>What one operation changes\<close>

lemma lc_bind_simps [simp]:
  "lc_bind (b, Inl e) f = (b, Inl e)" "lc_bind (b, Inr a) f = f a b"
  by (simp_all add: lc_bind_def)

lemma forget_fire: "\<exists>h. forget (fire hooks call b) = b\<lparr>bs_hooks := h\<rparr>"
  by (auto simp: forget_def fire_def split: prod.split)

text \<open>Closing the open stretch: the object afterwards, on success.\<close>

definition closed :: "'s \<Rightarrow> int \<Rightarrow> subscription_state \<Rightarrow> ('s, 'h) backstop \<Rightarrow> ('s, 'h) backstop" where
  "closed s l to b = b\<lparr>bs_coverage := s, bs_openedAt := l, bs_currentState := to\<rparr>"

definition closes :: "'s coverage_append \<Rightarrow> int \<Rightarrow> 's \<Rightarrow> ('s, 'h) backstop \<Rightarrow> bool" where
  "closes appendw l s b \<longleftrightarrow> isSafeInteger l \<and> 0 \<le> l \<and> bs_openedAt b < l \<and>
     appendw (open_window l b) (bs_coverage b) = Inr s"

lemma writeOpenWindow_cases:
  obtains (err) e where "writeOpenWindow appendw l b = (b, Inl e)"
  | (ok) s where "closes appendw l s b"
      "writeOpenWindow appendw l b = (closed s l (bs_currentState b) b, Inr (open_window l b))"
  unfolding writeOpenWindow_def assertLedger_lc_def closes_def closed_def
  by (cases "isSafeInteger l \<and> 0 \<le> l"; cases "l \<le> bs_openedAt b";
      cases "appendw (open_window l b) (bs_coverage b)") (auto simp: Let_def)

lemma transition_cases:
  obtains (err) e where "transition appendw to l b = (b, Inl e)"
  | (ok) s where "isLegalTransition (bs_currentState b) to" "closes appendw l s b"
      "transition appendw to l b = (closed s l to b, Inr (open_window l b))"
proof (cases rule: writeOpenWindow_cases [of appendw l b])
  case (err e)
  then show ?thesis
    using that(1) by (cases "isLegalTransition (bs_currentState b) to") (auto simp: transition_def)
next
  case (ok s)
  then show ?thesis
    using that by (cases "isLegalTransition (bs_currentState b) to") (auto simp: transition_def closed_def)
qed

lemma closed_sel [simp]:
  "bs_coverage (closed s l to b) = s" "bs_openedAt (closed s l to b) = l"
  "bs_currentState (closed s l to b) = to" "bs_subscriptionId (closed s l to b) = bs_subscriptionId b"
  "bs_windowLedgers (closed s l to b) = bs_windowLedgers b" "bs_hooks (closed s l to b) = bs_hooks b"
  "bs_announcedLapseLedger (closed s l to b) = bs_announcedLapseLedger b" "bs_tier (closed s l to b) = bs_tier b"
  by (simp_all add: closed_def)

text \<open>Closing the open stretch with a state change, an announcement and a hook call.\<close>

definition moves ::
  "'s coverage_append \<Rightarrow> 'h billing_hooks \<Rightarrow> int \<Rightarrow> subscription_state \<Rightarrow> int option \<Rightarrow>
   (subscription_event \<Rightarrow> billing_call) \<Rightarrow> ('s, 'h) backstop \<Rightarrow> ('s, 'h) backstop \<Rightarrow> bool"
where
  "moves appendw hooks l to ann call b b' \<longleftrightarrow>
     isLegalTransition (bs_currentState b) to \<and>
     (\<exists>s. closes appendw l s b \<and>
       b' = forget (fire hooks (call (event_lc l (Some (open_window l b)) b))
         ((closed s l to b)\<lparr>bs_announcedLapseLedger := ann\<rparr>)))"

lemma event_lc_closed [simp]:
  "event_lc l w (closed s l' to b) = event_lc l w b"
  "event_lc l w (b\<lparr>bs_announcedLapseLedger := ann\<rparr>) = event_lc l w b"
  by (simp_all add: event_lc_def)

lemma closed_keeps_announcement:
  "(closed s l to b)\<lparr>bs_announcedLapseLedger := bs_announcedLapseLedger b\<rparr> = closed s l to b"
  by (simp add: closed_def)

lemma forget_renew:
  "forget (renew appendw hooks l b) = b \<or>
   moves appendw hooks l StActive None OnRenewed b (forget (renew appendw hooks l b))"
  by (cases rule: transition_cases [of appendw StActive l b]) (auto simp: renew_def forget_def moves_def)

lemma forget_reactivate:
  "forget (reactivate appendw hooks l b) = b \<or>
   moves appendw hooks l StActive (bs_announcedLapseLedger b) OnActivated b (forget (reactivate appendw hooks l b))"
  by (cases rule: transition_cases [of appendw StActive l b])
    (auto simp: reactivate_def forget_def moves_def closed_keeps_announcement)

lemma forget_cancel:
  "forget (cancel appendw hooks l b) = b \<or>
   moves appendw hooks l StCancelled None OnCancelled b (forget (cancel appendw hooks l b))"
  by (cases rule: transition_cases [of appendw StCancelled l b]) (auto simp: cancel_def forget_def moves_def)

lemma forget_beginExpiring:
  "forget (beginExpiring appendw hooks l l' b) = b \<or>
   bs_windowLedgers b \<le> l' - l \<and>
   moves appendw hooks l StExpiring (Some l') (\<lambda>e. OnExpiring e l') b (forget (beginExpiring appendw hooks l l' b))"
  by (cases rule: transition_cases [of appendw StExpiring l b];
      cases "isSafeInteger l \<and> 0 \<le> l"; cases "isSafeInteger l' \<and> 0 \<le> l'")
    (auto simp: beginExpiring_def assertLedger_lc_def forget_def moves_def)

lemma forget_lapse:
  "forget (lapse appendw hooks l b) = b \<or>
   (\<forall>a. bs_announcedLapseLedger b = Some a \<longrightarrow> a \<le> l) \<and>
   moves appendw hooks l StLapsed None OnLapsed b (forget (lapse appendw hooks l b))"
  by (cases rule: transition_cases [of appendw StLapsed l b]; cases "isSafeInteger l \<and> 0 \<le> l")
    (auto simp: lapse_def assertLedger_lc_def forget_def moves_def split: option.split)

lemma forget_sealTo:
  "forget (sealTo appendw l b) = b \<or>
   (\<exists>s. closes appendw l s b \<and> forget (sealTo appendw l b) = closed s l (bs_currentState b) b)"
  by (cases rule: writeOpenWindow_cases [of appendw l b]) (auto simp: sealTo_def forget_def)

lemmas forget_ops = forget_renew forget_beginExpiring forget_lapse forget_cancel forget_reactivate
  forget_sealTo

text \<open>
  An operation either leaves the object as it was, or closes the open stretch and moves to a
  state the table allows (or stays, when it seals).
\<close>

lemma moves_closed:
  assumes "moves appendw hooks l to ann call b b'"
  shows "\<exists>s h. closes appendw l s b \<and> isLegalTransition (bs_currentState b) to \<and>
    b' = (closed s l to b)\<lparr>bs_announcedLapseLedger := ann, bs_hooks := h\<rparr>"
  using assms forget_fire unfolding moves_def by metis

lemma lc_run_effect:
  "lc_run appendw hooks op b = b \<or>
   (\<exists>s l to ann h. closes appendw l s b \<and>
      (to = bs_currentState b \<or> isLegalTransition (bs_currentState b) to) \<and>
      lc_run appendw hooks op b = (closed s l to b)\<lparr>bs_announcedLapseLedger := ann, bs_hooks := h\<rparr>)"
proof (cases op)
  case (SealTo l)
  have "closed s l (bs_currentState b) b =
      (closed s l (bs_currentState b) b)\<lparr>bs_announcedLapseLedger := bs_announcedLapseLedger b, bs_hooks := bs_hooks b\<rparr>"
    for s by (simp add: closed_def)
  with SealTo forget_sealTo [of appendw l b] show ?thesis by (metis lc_run.simps(6))
qed (use forget_ops moves_closed in \<open>metis lc_run.simps\<close>)+


lemma lc_run_openedAt: "bs_openedAt b \<le> bs_openedAt (lc_run appendw hooks op b)"
  using lc_run_effect [of appendw hooks op b] by (auto simp: closes_def)

lemma lc_run_subscriptionId [simp]: "bs_subscriptionId (lc_run appendw hooks op b) = bs_subscriptionId b"
  using lc_run_effect [of appendw hooks op b] by auto

lemma lc_step_mono:
  "lc_step appendw hooks b b' \<Longrightarrow> bs_openedAt b \<le> bs_openedAt b' \<and> bs_subscriptionId b' = bs_subscriptionId b"
  by (erule lc_stepE) (simp_all add: lc_run_openedAt)

lemma open_window_sel [simp]:
  "cw_subscriptionId (open_window l b) = bs_subscriptionId b"
  "cw_covered (open_window l b) = isCoveredState (bs_currentState b)"
  "in_window l' (open_window l b) \<longleftrightarrow> bs_openedAt b \<le> l' \<and> l' < l"
  "cw_endLedger (open_window l b) = l" "cw_startLedger (open_window l b) = bs_openedAt b"
  by (auto simp: open_window_def in_window_def)

lemma open_window_ok: "0 \<le> bs_openedAt b \<Longrightarrow> isSafeInteger l \<Longrightarrow> bs_openedAt b < l \<Longrightarrow> window_ok (open_window l b)"
  by (cases "bs_currentState b") (auto simp: window_ok_def open_window_def isCoveredState_def COVERED_STATES_def
      isCoveredReason_def COVERED_REASONS_def REASON_BY_STATE_def isSafeInteger_def)

text \<open>Nothing of this subscription is recorded beyond the open stretch: the ledger accepts its
  next window.\<close>

definition nothing_ahead :: "(string \<Rightarrow> 's \<Rightarrow> coverage_window list) \<Rightarrow> ('s, 'h) backstop \<Rightarrow> bool" where
  "nothing_ahead history b \<longleftrightarrow> 0 \<le> bs_openedAt b \<and>
     (\<forall>v \<in> set (history (bs_subscriptionId b) (bs_coverage b)). cw_endLedger v \<le> bs_openedAt b)"

section \<open>The subscription over any coverage ledger\<close>

context coverage_ledger
begin

lemma step_ledger:
  assumes "lc_step append hooks b b'"
  obtains "bs_coverage b' = bs_coverage b"
  | w where "append w (bs_coverage b) = Inr (bs_coverage b')"
  using assms
proof (cases rule: lc_step.cases)
  case (own op)
  with lc_run_effect [of append hooks op b] that show ?thesis by (auto simp: closes_def)
next
  case (other w s)
  with that show ?thesis by auto
qed

lemma step_invar: "lc_step append hooks b b' \<Longrightarrow> invar (bs_coverage b) \<Longrightarrow> invar (bs_coverage b')"
  by (erule step_ledger) (auto dest: append_invar)

lemma reachable_invar:
  "lc_reachable append hooks b0 b \<Longrightarrow> invar (bs_coverage b0) \<Longrightarrow> invar (bs_coverage b)"
  by (induction rule: lc_reachable.induct) (auto dest: step_invar)

lemma step_findAt:
  "lc_step append hooks b b' \<Longrightarrow> invar (bs_coverage b) \<Longrightarrow> findAt sid l (bs_coverage b) = Inr (Some v) \<Longrightarrow>
   findAt sid l (bs_coverage b') = Inr (Some v)"
  by (erule step_ledger) (auto dest: findAt_stable)

lemma reachable_findAt:
  "lc_reachable append hooks b0 b \<Longrightarrow> invar (bs_coverage b0) \<Longrightarrow>
   findAt sid l (bs_coverage b0) = Inr (Some v) \<Longrightarrow> findAt sid l (bs_coverage b) = Inr (Some v)"
  by (induction rule: lc_reachable.induct) (auto dest: step_findAt reachable_invar)

lemma run_records:
  assumes inv: "invar (bs_coverage b)" and l: "bs_openedAt b \<le> l" "l < bs_openedAt (lc_run append hooks op b)"
  shows "\<exists>v. findAt (bs_subscriptionId b) l (bs_coverage (lc_run append hooks op b)) = Inr (Some v) \<and>
    cw_covered v = isCoveredState (bs_currentState b)"
proof -
  obtain s to k where k: "closes append k s b" "bs_coverage (lc_run append hooks op b) = s"
      "bs_openedAt (lc_run append hooks op b) = k"
    using lc_run_effect [of append hooks op b] l by force
  then have "findAt (cw_subscriptionId (open_window k b)) l s = Inr (Some (open_window k b))"
    using inv l by (intro findAt_appended [OF inv]) (auto simp: closes_def)
  with k show ?thesis by auto
qed

lemma step_records:
  assumes "lc_step append hooks b b'" and "invar (bs_coverage b)" and "bs_openedAt b \<le> l" "l < bs_openedAt b'"
  shows "\<exists>v. findAt (bs_subscriptionId b) l (bs_coverage b') = Inr (Some v)"
  using assms run_records [of b l hooks] by (auto elim!: lc_stepE)

text \<open>Every ledger from the first one to the open stretch has a record.\<close>

lemma reachable_contiguous:
  assumes "lc_reachable append hooks b0 b" and "invar (bs_coverage b0)"
  shows "bs_subscriptionId b = bs_subscriptionId b0 \<and> bs_openedAt b0 \<le> bs_openedAt b \<and>
    (\<forall>l. bs_openedAt b0 \<le> l \<and> l < bs_openedAt b \<longrightarrow>
      (\<exists>v. findAt (bs_subscriptionId b0) l (bs_coverage b) = Inr (Some v)))"
  using assms
proof (induction rule: lc_reachable.induct)
  case (more b b')
  have inv: "invar (bs_coverage b)" using reachable_invar more.hyps(1) more.prems by blast
  have "\<exists>v. findAt (bs_subscriptionId b0) l (bs_coverage b') = Inr (Some v)"
    if l: "bs_openedAt b0 \<le> l" "l < bs_openedAt b'" for l
  proof (cases "l < bs_openedAt b")
    case True
    with more l show ?thesis using step_findAt [OF more.hyps(2) inv] by blast
  next
    case False
    with more l show ?thesis using step_records [OF more.hyps(2) inv, of l] by auto
  qed
  with more lc_step_mono [OF more.hyps(2)] show ?case by auto
qed auto

lemma step_nothing_ahead:
  assumes "lc_step append hooks b b'" and "nothing_ahead history b"
  shows "nothing_ahead history b'"
  using assms(1)
proof (cases rule: lc_step.cases)
  case (own op)
  show ?thesis
  proof (cases "b' = b")
    case False
    with own obtain s l to ann h where c: "closes append l s b"
        "b' = (closed s l to b)\<lparr>bs_announcedLapseLedger := ann, bs_hooks := h\<rparr>"
      using lc_run_effect [of append hooks op b] by metis
    then have "append (open_window l b) (bs_coverage b) = Inr s" "bs_openedAt b < l" by (auto simp: closes_def)
    with c assms(2) append_history [of "open_window l b" "bs_coverage b" s "bs_subscriptionId b"]
    show ?thesis by (auto simp: nothing_ahead_def)
  qed (use assms in simp)
next
  case (other w s)
  with assms(2) append_history [of w "bs_coverage b" s "bs_subscriptionId b"] show ?thesis
    by (auto simp: nothing_ahead_def)
qed

lemma reachable_nothing_ahead:
  "lc_reachable append hooks b0 b \<Longrightarrow> nothing_ahead history b0 \<Longrightarrow> nothing_ahead history b"
  by (induction rule: lc_reachable.induct) (auto dest: step_nothing_ahead)

lemma append_accepted:
  assumes "nothing_ahead history b" and "isSafeInteger l" and "bs_openedAt b < l"
  shows "\<exists>s. append (open_window l b) (bs_coverage b) = Inr s"
proof -
  have "window_ok (open_window l b)" using assms open_window_ok by (auto simp: nothing_ahead_def)
  moreover have "\<not> overlaps (open_window l b) v"
    if "v \<in> set (history (cw_subscriptionId (open_window l b)) (bs_coverage b))" for v
    using assms(1) that by (auto simp: nothing_ahead_def overlaps_def)
  ultimately show ?thesis using append_law [of "open_window l b" "bs_coverage b"] by blast
qed

end


section \<open>Notice before the lapse\<close>

text \<open>Every \<open>onLapsed\<close> of a log directly follows an \<open>onExpiring\<close> that was delivered at least \<open>w\<close>
  ledgers before the lapse it announced, and the lapse is not earlier than announced.\<close>

definition lapse_noticed :: "int \<Rightarrow> billing_call list \<Rightarrow> bool" where
  "lapse_noticed w calls \<longleftrightarrow>
     (\<forall>i e. i < length calls \<and> calls ! i = OnLapsed e \<longrightarrow>
       (\<exists>n a. 0 < i \<and> calls ! (i - 1) = OnExpiring n a \<and> w \<le> a - ev_atLedger n \<and> a \<le> ev_atLedger e))"

definition notice_given :: "('s, billing_call list) backstop \<Rightarrow> bool" where
  "notice_given b \<longleftrightarrow> (\<exists>a n pre. bs_announcedLapseLedger b = Some a \<and> bs_hooks b = pre @ [OnExpiring n a] \<and>
     bs_windowLedgers b \<le> a - ev_atLedger n)"

definition notice_inv :: "('s, billing_call list) backstop \<Rightarrow> bool" where
  "notice_inv b \<longleftrightarrow> lapse_noticed (bs_windowLedgers b) (bs_hooks b) \<and>
     (bs_currentState b = StExpiring \<longrightarrow> notice_given b)"

lemma lapse_noticed_snoc:
  "lapse_noticed w (calls @ [c]) \<longleftrightarrow> lapse_noticed w calls \<and>
     (\<forall>e. c = OnLapsed e \<longrightarrow> (\<exists>pre n a. calls = pre @ [OnExpiring n a] \<and>
        w \<le> a - ev_atLedger n \<and> a \<le> ev_atLedger e))" (is "?L \<longleftrightarrow> ?A \<and> ?B")
proof -
  have last: "(\<exists>n a. 0 < length calls \<and> (calls @ [c]) ! (length calls - 1) = OnExpiring n a \<and> Q n a) \<longleftrightarrow>
      (\<exists>pre n a. calls = pre @ [OnExpiring n a] \<and> Q n a)" for Q
    by (cases calls rule: rev_cases) (auto simp: nth_append)
  have "?L \<longleftrightarrow> ?A \<and> (\<forall>e. c = OnLapsed e \<longrightarrow> (\<exists>n a. 0 < length calls \<and>
      (calls @ [c]) ! (length calls - 1) = OnExpiring n a \<and> w \<le> a - ev_atLedger n \<and> a \<le> ev_atLedger e))"
    unfolding lapse_noticed_def by (auto simp: nth_append less_Suc_eq split: if_splits)
  then show ?thesis unfolding last .
qed

lemma fire_Recording [simp]:
  "forget (fire RecordingBillingHooks c b) = b\<lparr>bs_hooks := bs_hooks b @ [c]\<rparr>"
  by (simp add: forget_def fire_def RecordingBillingHooks_def)

lemma moves_Recording:
  "moves appendw RecordingBillingHooks l to ann call b b' \<Longrightarrow>
   bs_currentState b' = to \<and> bs_announcedLapseLedger b' = ann \<and> bs_windowLedgers b' = bs_windowLedgers b \<and>
   bs_hooks b' = bs_hooks b @ [call (event_lc l (Some (open_window l b)) b)] \<and>
   isLegalTransition (bs_currentState b) to"
  by (auto simp: moves_def)

lemma legal_to_lapsed: "isLegalTransition s StLapsed \<longleftrightarrow> s = StExpiring"
  by (cases s) (auto simp: isLegalTransition_def LEGAL_TRANSITIONS_def)

lemma legal_to_expiring: "isLegalTransition s StExpiring \<longleftrightarrow> s = StActive"
  by (cases s) (auto simp: isLegalTransition_def LEGAL_TRANSITIONS_def)

lemma notice_inv_quiet:
  assumes "moves appendw RecordingBillingHooks l to ann call b b'" and "notice_inv b"
    and "to \<noteq> StExpiring" and "\<And>e e'. call e \<noteq> OnLapsed e'"
  shows "notice_inv b'"
  using moves_Recording [OF assms(1)] assms(2-) by (auto simp: notice_inv_def lapse_noticed_snoc)

lemma notice_inv_beginExpiring:
  assumes "moves appendw RecordingBillingHooks l StExpiring (Some l') (\<lambda>e. OnExpiring e l') b b'"
    and "notice_inv b" and "bs_windowLedgers b \<le> l' - l"
  shows "notice_inv b'"
  using moves_Recording [OF assms(1)] assms(2,3)
  by (auto simp: notice_inv_def notice_given_def lapse_noticed_snoc event_lc_def)

lemma notice_inv_lapse:
  assumes "moves appendw RecordingBillingHooks l StLapsed None OnLapsed b b'"
    and "notice_inv b" and "\<forall>a. bs_announcedLapseLedger b = Some a \<longrightarrow> a \<le> l"
  shows "notice_inv b'"
  using moves_Recording [OF assms(1)] assms(2,3)
  by (auto simp: notice_inv_def notice_given_def lapse_noticed_snoc legal_to_lapsed event_lc_def)

lemma notice_inv_seal: "notice_inv (closed s l (bs_currentState b) b) \<longleftrightarrow> notice_inv b"
  by (simp add: notice_inv_def notice_given_def)

lemma notice_inv_run: "notice_inv b \<Longrightarrow> notice_inv (lc_run appendw RecordingBillingHooks op b)"
proof (cases op)
  case (Renew l)
  assume "notice_inv b"
  with forget_renew [of appendw RecordingBillingHooks l b] Renew show ?thesis
    by (auto dest: notice_inv_quiet)
next
  case (BeginExpiring l l')
  assume "notice_inv b"
  with forget_beginExpiring [of appendw RecordingBillingHooks l l' b] BeginExpiring show ?thesis
    by (auto dest: notice_inv_beginExpiring)
next
  case (Lapse l)
  assume "notice_inv b"
  with forget_lapse [of appendw RecordingBillingHooks l b] Lapse show ?thesis
    by (auto dest: notice_inv_lapse)
next
  case (Cancel l)
  assume "notice_inv b"
  with forget_cancel [of appendw RecordingBillingHooks l b] Cancel show ?thesis
    by (auto dest: notice_inv_quiet)
next
  case (Reactivate l)
  assume "notice_inv b"
  with forget_reactivate [of appendw RecordingBillingHooks l b] Reactivate show ?thesis
    by (auto dest: notice_inv_quiet)
next
  case (SealTo l)
  assume "notice_inv b"
  with forget_sealTo [of appendw l b] SealTo show ?thesis by (auto simp: notice_inv_seal)
qed

lemma notice_inv_reachable:
  "lc_reachable appendw RecordingBillingHooks b0 b \<Longrightarrow> notice_inv b0 \<Longrightarrow>
   notice_inv b \<and> bs_windowLedgers b = bs_windowLedgers b0"
proof (induction rule: lc_reachable.induct)
  case (more b b')
  then have b: "notice_inv b" "bs_windowLedgers b = bs_windowLedgers b0" by auto
  from more.hyps(2) show ?case
  proof (cases rule: lc_step.cases)
    case (own op)
    with b notice_inv_run [of b appendw op] lc_run_effect [of appendw RecordingBillingHooks op b]
    show ?thesis by auto
  next
    case (other w s)
    with b show ?thesis by (auto simp: notice_inv_def notice_given_def)
  qed
qed simp

lemma activate_Inr:
  "activate hooks config l s h = Inr b \<longleftrightarrow>
     bc_subscriptionId config \<noteq> [] \<and> bc_tier config \<noteq> [] \<and> isSafeInteger (bc_windowLedgers config) \<and>
     1 \<le> bc_windowLedgers config \<and> isSafeInteger l \<and> 0 \<le> l \<and>
     \<not> snd (hooks (OnActivated \<lparr>ev_subscriptionId = bc_subscriptionId config, ev_tier = bc_tier config,
        ev_atLedger = l, ev_window = None\<rparr>) h) \<and>
     b = \<lparr>bs_subscriptionId = bc_subscriptionId config, bs_tier = bc_tier config,
          bs_windowLedgers = bc_windowLedgers config, bs_coverage = s,
          bs_hooks = fst (hooks (OnActivated \<lparr>ev_subscriptionId = bc_subscriptionId config,
            ev_tier = bc_tier config, ev_atLedger = l, ev_window = None\<rparr>) h),
          bs_currentState = StActive, bs_openedAt = l, bs_announcedLapseLedger = None\<rparr>"
  by (auto simp: activate_def fire_def event_lc_def split_beta split: if_splits)


section \<open>Hooks and the state\<close>

definition without_hooks :: "('s, 'h) backstop \<Rightarrow> ('s, unit) backstop" where
  "without_hooks b =
     \<lparr>bs_subscriptionId = bs_subscriptionId b, bs_tier = bs_tier b, bs_windowLedgers = bs_windowLedgers b,
      bs_coverage = bs_coverage b, bs_hooks = (), bs_currentState = bs_currentState b,
      bs_openedAt = bs_openedAt b, bs_announcedLapseLedger = bs_announcedLapseLedger b\<rparr>"

lemma without_hooks_sel [simp]:
  "bs_subscriptionId (without_hooks b) = bs_subscriptionId b" "bs_windowLedgers (without_hooks b) = bs_windowLedgers b"
  "bs_coverage (without_hooks b) = bs_coverage b" "bs_currentState (without_hooks b) = bs_currentState b"
  "bs_openedAt (without_hooks b) = bs_openedAt b" "bs_tier (without_hooks b) = bs_tier b"
  "bs_announcedLapseLedger (without_hooks b) = bs_announcedLapseLedger b"
  by (simp_all add: without_hooks_def)

lemma without_hooks_fire [simp]: "without_hooks (fst (fire hooks c b)) = without_hooks b"
  by (simp add: fire_def without_hooks_def split_beta)

lemma without_hooks_update [simp]:
  "without_hooks (b\<lparr>bs_announcedLapseLedger := a\<rparr>) = (without_hooks b)\<lparr>bs_announcedLapseLedger := a\<rparr>"
  "without_hooks (b\<lparr>bs_currentState := t\<rparr>) = (without_hooks b)\<lparr>bs_currentState := t\<rparr>"
  "without_hooks (b\<lparr>bs_coverage := s\<rparr>) = (without_hooks b)\<lparr>bs_coverage := s\<rparr>"
  "without_hooks (b\<lparr>bs_openedAt := l\<rparr>) = (without_hooks b)\<lparr>bs_openedAt := l\<rparr>"
  by (simp_all add: without_hooks_def)

lemma writeOpenWindow_without:
  "writeOpenWindow appendw l (without_hooks b) =
     (without_hooks (fst (writeOpenWindow appendw l b)), snd (writeOpenWindow appendw l b))"
  by (auto simp: writeOpenWindow_def assertLedger_lc_def ensure_def open_window_def Let_def split: sum.split)

lemma transition_without:
  "transition appendw to l (without_hooks b) =
     (without_hooks (fst (transition appendw to l b)), snd (transition appendw to l b))"
  by (cases "writeOpenWindow appendw l b")
    (auto simp: transition_def writeOpenWindow_without lc_bind_def split: sum.split)

lemma lc_run_without:
  "without_hooks (lc_run appendw hooks op b) = lc_run appendw NOOP_BILLING_HOOKS op (without_hooks b)"
proof -
  have noop: "fst (fire NOOP_BILLING_HOOKS c x) = x" for c and x :: "('a, unit) backstop"
    by (simp add: fire_def NOOP_BILLING_HOOKS_def)
  show ?thesis
    by (cases op; cases "transition appendw StActive (case op of Renew l \<Rightarrow> l | Reactivate l \<Rightarrow> l) b";
        cases "transition appendw StExpiring (case op of BeginExpiring l _ \<Rightarrow> l) b";
        cases "transition appendw StLapsed (case op of Lapse l \<Rightarrow> l) b";
        cases "transition appendw StCancelled (case op of Cancel l \<Rightarrow> l) b")
      (auto simp: forget_def renew_def beginExpiring_def lapse_def cancel_def reactivate_def sealTo_def
        assertLedger_lc_def ensure_def lc_bind_def Let_def transition_without writeOpenWindow_without noop
        split: sum.split option.split)
qed

section \<open>Properties\<close>

text \<open>
  C11: coverage boundaries are auditable, retroactively. Whatever happens later to a subscription
  (further operations, successful or refused, hook failures, appends of other subscriptions), each
  ledger of the stretch an operation closed is answered from the stored record with the coverage of
  the state the subscription was in during that stretch.
\<close>

theorem audit_answers_state_at_the_time:
  assumes "coverage_map_ok (bs_coverage b)" and "lc_reachable mem_append hooks (lc_run mem_append hooks op b) b'"
    and "bs_openedAt b \<le> l" and "l < bs_openedAt (lc_run mem_append hooks op b)"
  shows "wasCovered mem_findAt (bs_coverage b') (bs_subscriptionId b) l =
    Inr (Some (isCoveredState (bs_currentState b)))"
proof -
  have ok: "coverage_map_ok (bs_coverage (lc_run mem_append hooks op b))"
    using mem_ledger.step_invar [OF lc_step.own] assms(1) by blast
  obtain v where "mem_findAt (bs_subscriptionId b) l (bs_coverage (lc_run mem_append hooks op b)) = Inr (Some v)"
      "cw_covered v = isCoveredState (bs_currentState b)"
    using mem_ledger.run_records [OF assms(1,3,4)] by blast
  with mem_ledger.reachable_findAt [OF assms(2) ok] show ?thesis by (simp add: wasCovered_def)
qed

definition example_sub :: "(coverage_map, billing_call list) backstop" where
  "example_sub = \<lparr>bs_subscriptionId = ''s'', bs_tier = ''t'', bs_windowLedgers = 10, bs_coverage = [],
     bs_hooks = [], bs_currentState = StActive, bs_openedAt = 100, bs_announcedLapseLedger = None\<rparr>"

lemma example_sub_expiring:
  "lc_run mem_append RecordingBillingHooks (BeginExpiring 120 130) example_sub =
     example_sub\<lparr>bs_coverage := [(''s'', [\<lparr>cw_subscriptionId = ''s'', cw_startLedger = 100, cw_endLedger = 120,
        cw_covered = True, cw_reason = ReasonActive\<rparr>])],
      bs_hooks := [OnExpiring \<lparr>ev_subscriptionId = ''s'', ev_tier = ''t'', ev_atLedger = 120,
        ev_window = Some \<lparr>cw_subscriptionId = ''s'', cw_startLedger = 100, cw_endLedger = 120,
        cw_covered = True, cw_reason = ReasonActive\<rparr>\<rparr> 130],
      bs_currentState := StExpiring, bs_openedAt := 120, bs_announcedLapseLedger := Some 130\<rparr>"
  by code_simp

theorem audit_answers_state_at_the_time_witness:
  "wasCovered mem_findAt
     (bs_coverage (lc_run mem_append RecordingBillingHooks (BeginExpiring 120 130) example_sub)) ''s'' 110 =
   Inr (Some True)"
  using audit_answers_state_at_the_time [of example_sub RecordingBillingHooks "BeginExpiring 120 130"
      "lc_run mem_append RecordingBillingHooks (BeginExpiring 120 130) example_sub" 110, OF _ lc_reachable.start]
  unfolding example_sub_expiring
  by (simp add: example_sub_def isCoveredState_def COVERED_STATES_def)

text \<open>
  C12: the record is complete up to the open stretch. From activation on, whatever operations run
  and whatever other subscriptions append, the audit of any window inside the ledgers from the
  activation to the open ledger never answers \<open>unknown\<close>.
\<close>

theorem audit_complete_to_open_ledger:
  assumes "coverage_map_ok s" and "activate hooks config at s h = Inr b0"
    and "lc_reachable mem_append hooks b0 b"
    and "at \<le> x" and "x < y" and "y \<le> bs_openedAt b" and "y \<le> 9007199254740991"
  shows "\<exists>c. coverageForWindow mem_history (bs_coverage b) (bc_subscriptionId config) x y = Inr c \<and> c \<noteq> Unknown"
proof -
  have b0: "bs_coverage b0 = s" "bs_openedAt b0 = at" "bs_subscriptionId b0 = bc_subscriptionId config" "0 \<le> at"
    using assms(2) by (auto simp: activate_Inr)
  have ok: "coverage_map_ok (bs_coverage b)"
    using mem_ledger.reachable_invar [OF assms(3)] assms(1) b0 by simp
  have rec: "\<exists>v. mem_findAt (bc_subscriptionId config) l (bs_coverage b) = Inr (Some v)" if "l \<in> {x..<y}" for l
    using mem_ledger.reachable_contiguous [OF assms(3)] assms(1,4-6) b0 that by auto
  have "map_option cw_covered (find (in_window l) (mem_history (bc_subscriptionId config) (bs_coverage b))) \<noteq> None"
    if "l \<in> {x..<y}" for l
    using rec [OF that] mem_ledger.findAt_law [of "bc_subscriptionId config" l "bs_coverage b"]
    by (auto split: if_splits)
  then have "coverage_spec (\<lambda>l. map_option cw_covered
      (find (in_window l) (mem_history (bc_subscriptionId config) (bs_coverage b)))) x y \<noteq> Unknown"
    unfolding coverage_spec_def by auto
  moreover have "0 \<le> x" using assms(4) b0 by simp
  ultimately show ?thesis
    using coverageForWindow_history [where history = mem_history, OF mem_ledger.history_law [OF ok]] assms(5,7)
    by blast
qed

theorem audit_complete_to_open_ledger_witness:
  "\<exists>c. coverageForWindow mem_history
     (bs_coverage (lc_run mem_append RecordingBillingHooks (SealTo 120) example_sub)) ''s'' 100 120 = Inr c \<and>
     c \<noteq> Unknown"
proof -
  let ?c = "\<lparr>bc_subscriptionId = ''s'', bc_tier = ''t'', bc_windowLedgers = 10\<rparr>"
  have "activate NOOP_BILLING_HOOKS ?c 100 [] [] = Inr example_sub"
    by (simp add: activate_Inr isSafeInteger_def NOOP_BILLING_HOOKS_def example_sub_def)
  from audit_complete_to_open_ledger [OF coverage_map_ok_Nil this
      lc_reachable_run [OF lc_reachable.start, where op = "SealTo 120"], of 100 120]
  have "bs_openedAt (lc_run mem_append NOOP_BILLING_HOOKS (SealTo 120) example_sub) = 120 \<Longrightarrow>
    \<exists>c. coverageForWindow mem_history (bs_coverage (lc_run mem_append NOOP_BILLING_HOOKS (SealTo 120) example_sub))
      ''s'' 100 120 = Inr c \<and> c \<noteq> Unknown" by simp
  moreover have "lc_run mem_append NOOP_BILLING_HOOKS (SealTo 120) example_sub =
      lc_run mem_append RecordingBillingHooks (SealTo 120) example_sub" by simp
  moreover have "bs_openedAt (lc_run mem_append NOOP_BILLING_HOOKS (SealTo 120) example_sub) = 120" by code_simp
  ultimately show ?thesis by simp
qed

text \<open>
  C10: notify before the lapse, never after. In every run of an activated subscription, on any
  coverage ledger, the hook call directly before each \<open>onLapsed\<close> is an \<open>onExpiring\<close> that was
  delivered at least one full window before the lapse ledger it announced, and the lapse happens
  no earlier than that ledger.
\<close>

theorem lapse_only_after_notice:
  assumes "activate RecordingBillingHooks config at s [] = Inr b0"
    and "lc_reachable appendw RecordingBillingHooks b0 b"
  shows "lapse_noticed (bc_windowLedgers config) (bs_hooks b)"
proof -
  have b0: "bs_hooks b0 = [OnActivated \<lparr>ev_subscriptionId = bc_subscriptionId config, ev_tier = bc_tier config,
      ev_atLedger = at, ev_window = None\<rparr>]" "bs_currentState b0 = StActive"
      "bs_windowLedgers b0 = bc_windowLedgers config"
    using assms(1) by (auto simp: activate_Inr RecordingBillingHooks_def)
  then have "notice_inv b0" by (auto simp: notice_inv_def lapse_noticed_def)
  with notice_inv_reachable [OF assms(2)] b0 show ?thesis by (auto simp: notice_inv_def)
qed

theorem lapse_only_after_notice_witness:
  "lapse_noticed 10 (bs_hooks (lc_run mem_append RecordingBillingHooks (Lapse 130)
     (lc_run mem_append RecordingBillingHooks (BeginExpiring 120 130)
       (example_sub\<lparr>bs_hooks := [OnActivated \<lparr>ev_subscriptionId = ''s'', ev_tier = ''t'', ev_atLedger = 100,
          ev_window = None\<rparr>]\<rparr>))))"
proof -
  let ?c = "\<lparr>bc_subscriptionId = ''s'', bc_tier = ''t'', bc_windowLedgers = 10\<rparr>"
  let ?b = "example_sub\<lparr>bs_hooks := [OnActivated \<lparr>ev_subscriptionId = ''s'', ev_tier = ''t'',
    ev_atLedger = 100, ev_window = None\<rparr>]\<rparr>"
  have "activate RecordingBillingHooks ?c 100 [] [] = Inr ?b"
    by (simp add: activate_Inr isSafeInteger_def RecordingBillingHooks_def example_sub_def)
  from lapse_only_after_notice [OF this lc_reachable_run [OF lc_reachable_run [OF lc_reachable.start]]]
  show ?thesis by (simp only: backstop_config.simps)
qed

text \<open>
  a hook that throws cannot leave a subscriber un-covered. The state, the open ledger, the
  announced lapse and the coverage record after any sequence of operations are those of the run
  with the no-op hooks, whatever the hooks do.
\<close>

theorem hooks_cannot_change_coverage:
  "without_hooks (fold (lc_run appendw hooks) ops b) =
   fold (lc_run appendw NOOP_BILLING_HOOKS) ops (without_hooks b)"
  by (induction ops arbitrary: b) (simp_all add: lc_run_without)

text \<open>
  the coverage ledger never refuses a subscription's own window. From activation on an
  in-memory ledger that records nothing of this subscription past the activation ledger, sealing
  the open stretch at any later (safe) ledger always succeeds, and every transition the table
  allows goes through when the ledger advances.
\<close>

theorem ledger_never_refuses:
  assumes "activate hooks config at s h = Inr b0"
    and "\<forall>v \<in> set (mem_history (bc_subscriptionId config) s). cw_endLedger v \<le> at"
    and "lc_reachable mem_append hooks b0 b"
    and "isSafeInteger l" and "bs_openedAt b < l"
  shows "(\<exists>b' w. sealTo mem_append l b = (b', Inr w) \<and> bs_openedAt b' = l) \<and>
    (\<forall>to. isLegalTransition (bs_currentState b) to \<longrightarrow>
      (\<exists>b' w. transition mem_append to l b = (b', Inr w) \<and> bs_currentState b' = to \<and> bs_openedAt b' = l))"
proof -
  have "nothing_ahead mem_history b0" using assms(1,2) by (auto simp: nothing_ahead_def activate_Inr)
  then have ahead: "nothing_ahead mem_history b" using mem_ledger.reachable_nothing_ahead assms(3) by blast
  then obtain s' where s': "mem_append (open_window l b) (bs_coverage b) = Inr s'"
    using mem_ledger.append_accepted assms(4,5) by blast
  have "0 \<le> l" using ahead assms(5) by (simp add: nothing_ahead_def)
  with s' assms(4,5) have "writeOpenWindow mem_append l b = (closed s' l (bs_currentState b) b, Inr (open_window l b))"
    by (simp add: writeOpenWindow_def assertLedger_lc_def closed_def Let_def)
  then show ?thesis by (auto simp: sealTo_def transition_def)
qed

theorem ledger_never_refuses_witness:
  "\<exists>b' w. sealTo mem_append 130 (lc_run mem_append RecordingBillingHooks (BeginExpiring 120 130)
     (example_sub\<lparr>bs_hooks := [OnActivated \<lparr>ev_subscriptionId = ''s'', ev_tier = ''t'', ev_atLedger = 100,
          ev_window = None\<rparr>]\<rparr>)) = (b', Inr w) \<and> bs_openedAt b' = 130"
proof -
  let ?c = "\<lparr>bc_subscriptionId = ''s'', bc_tier = ''t'', bc_windowLedgers = 10\<rparr>"
  let ?b = "example_sub\<lparr>bs_hooks := [OnActivated \<lparr>ev_subscriptionId = ''s'', ev_tier = ''t'',
    ev_atLedger = 100, ev_window = None\<rparr>]\<rparr>"
  have act: "activate RecordingBillingHooks ?c 100 [] [] = Inr ?b"
    by (simp add: activate_Inr isSafeInteger_def RecordingBillingHooks_def example_sub_def)
  have none: "\<forall>v \<in> set (mem_history (bc_subscriptionId ?c) []). cw_endLedger v \<le> 100"
    by (simp add: mem_history_def stored_windows_def)
  have "bs_openedAt (lc_run mem_append RecordingBillingHooks (BeginExpiring 120 130) ?b) < 130" by code_simp
  moreover have "isSafeInteger 130" by (simp add: isSafeInteger_def)
  ultimately show ?thesis
    using ledger_never_refuses [OF act none lc_reachable_run [OF lc_reachable.start],
        of 130 "BeginExpiring 120 130"] by (simp only: simp_thms)
qed

text \<open>
  the announcement is not withdrawn by \<open>reactivate\<close>. The comments say that \<open>lapsesAtLedger\<close>
  is null unless the subscription is \<open>expiring\<close>, and that \<open>reactivate\<close> serves \<open>lapsed\<close> and
  \<open>cancelled\<close> subscriptions; an \<open>expiring\<close> subscription whose \<open>reactivate\<close> succeeds is \<open>active\<close> and
  still carries the announced lapse ledger.
\<close>

theorem reactivate_keeps_announcement:
  assumes "bs_currentState b = StExpiring" and "bs_announcedLapseLedger b = Some a"
    and "reactivate appendw hooks l b = (b', Inr u)"
  shows "bs_currentState b' = StActive \<and> bs_announcedLapseLedger b' = Some a"
  using assms by (cases rule: transition_cases [of appendw StActive l b])
    (auto simp: reactivate_def fire_def split_beta)

theorem reactivate_keeps_announcement_witness:
  "bs_currentState (fst (reactivate mem_append RecordingBillingHooks 125
     (lc_run mem_append RecordingBillingHooks (BeginExpiring 120 130) example_sub))) = StActive \<and>
   bs_announcedLapseLedger (fst (reactivate mem_append RecordingBillingHooks 125
     (lc_run mem_append RecordingBillingHooks (BeginExpiring 120 130) example_sub))) = Some 130"
  (is "bs_currentState (fst ?r) = _ \<and> _")
proof (rule reactivate_keeps_announcement)
  show "bs_currentState (lc_run mem_append RecordingBillingHooks (BeginExpiring 120 130) example_sub) = StExpiring"
    "bs_announcedLapseLedger (lc_run mem_append RecordingBillingHooks (BeginExpiring 120 130) example_sub) = Some 130"
    unfolding example_sub_expiring by simp_all
  have "snd ?r = Inr ()" by code_simp
  then show "?r = (fst ?r, Inr ())" by (metis prod.collapse)
qed

end
