(* ===== verification/Subscription_Service.thy ===== *)
theory Subscription_Service
  imports Tiers
begin

text \<open>
  The subscription service, \<^verbatim>\<open>packages/worker-core/src/subscription/\<close>: the record and its audit trail
  (\<^verbatim>\<open>types.ts\<close>), the errors (\<^verbatim>\<open>errors.ts\<close>), the store (\<^verbatim>\<open>store.ts\<close>) and the operations
  (\<^verbatim>\<open>SubscriptionService.ts\<close>). The store is the locale \<open>subscription_store\<close>; the URL validator, the
  clock, the id generator and the window index are the injectable seams of the service's options,
  and arrive as arguments: \<open>validate\<close> (\<open>None\<close> accepts the target) and an \<open>env\<close> of one call. The tier
  table is an argument as well; the code runs on \<open>TIERS\<close>.
\<close>

section \<open>Records\<close>

datatype subscription_status = SubActive | SubPaused | SubCancelled

datatype subscription_action = ActCreate | ActPause | ActResume | ActCancel | ActChangeTier

record audit_entry =
  ae_action :: subscription_action
  ae_version :: int
  ae_tier :: tier_id
  ae_at :: int
  ae_from :: "subscription_status option"
  ae_to :: subscription_status
  ae_window :: int
  ae_reason :: "string option"

record subscription_record =
  sr_id :: string
  sr_version :: int
  sr_subscriber :: string
  sr_offering :: string
  sr_webhookTarget :: string
  sr_tier :: tier_id
  sr_status :: subscription_status
  sr_createdAt :: int
  sr_updatedAt :: int
  sr_cancelEffectiveWindow :: "int option"
  sr_audit :: "audit_entry list"

datatype subscription_error =
    INVALID_WEBHOOK_TARGET string
  | NOT_FOUND string
  | ALREADY_CANCELLED string
  | INVALID_TRANSITION subscription_action
  | TIER_NOT_REGISTRABLE tier_id
  | INVALID_FIELD string

section \<open>MemorySubscriptionStore\<close>

type_synonym subscription_map = "(string, subscription_record) js_map"

definition store_get :: "string \<Rightarrow> subscription_map \<Rightarrow> subscription_record option" where
  "store_get sid m = map_get m sid"

definition store_put :: "subscription_record \<Rightarrow> subscription_map \<Rightarrow> subscription_map" where
  "store_put r m = map_set (sr_id r) r m"

definition store_list :: "string \<Rightarrow> subscription_map \<Rightarrow> subscription_record list" where
  "store_list subscriber m =
     sort_key (\<lambda>r. - sr_createdAt r) (filter (\<lambda>r. sr_subscriber r = subscriber) (map snd m))"

section \<open>SubscriptionService\<close>

text \<open>The clock, a new id and the current window, as one call reads them.\<close>

record service_env =
  se_now :: int
  se_newId :: string
  se_window :: int

record create_input =
  ci_subscriber :: string
  ci_offering :: string
  ci_webhookTarget :: string
  ci_tier :: tier_id

definition assertRegistrable :: "(tier_id \<Rightarrow> tier_definition) \<Rightarrow> tier_id \<Rightarrow> (subscription_error, unit) result" where
  "assertRegistrable tiers tier =
     (if tier \<in> set (registrableTiers tiers) then Inr () else Inl (TIER_NOT_REGISTRABLE tier))"

definition requireNonEmpty :: "string \<Rightarrow> string \<Rightarrow> (subscription_error, string) result" where
  "requireNonEmpty value field =
     (let trimmed = trim value in if trimmed = [] then Inl (INVALID_FIELD field) else Inr trimmed)"

definition entry_svc ::
  "service_env \<Rightarrow> subscription_action \<Rightarrow> subscription_status option \<Rightarrow> subscription_status \<Rightarrow> int \<Rightarrow> int \<Rightarrow>
   tier_id \<Rightarrow> string option \<Rightarrow> audit_entry"
where
  "entry_svc env action from to at version tier reason =
     \<lparr>ae_action = action, ae_version = version, ae_tier = tier, ae_at = at, ae_from = from, ae_to = to,
      ae_window = se_window env,
      ae_reason = (case reason of Some r \<Rightarrow> (if r = [] then None else Some r) | None \<Rightarrow> None)\<rparr>"

definition get_svc ::
  "(string \<Rightarrow> 's \<Rightarrow> subscription_record option) \<Rightarrow> string \<Rightarrow> 's \<Rightarrow> (subscription_error, subscription_record) result"
where
  "get_svc get sid s = (case get sid s of None \<Rightarrow> Inl (NOT_FOUND sid) | Some r \<Rightarrow> Inr r)"

definition create_svc ::
  "(tier_id \<Rightarrow> tier_definition) \<Rightarrow> 
   (subscription_record \<Rightarrow> 's \<Rightarrow> 's) \<Rightarrow> (string \<Rightarrow> string option) \<Rightarrow> service_env \<Rightarrow> create_input \<Rightarrow> 's \<Rightarrow>
   (subscription_error, subscription_record \<times> 's) result"
where
  "create_svc tiers put validate env input s =
     bind_result (requireNonEmpty (ci_subscriber input) ''subscriber'') (\<lambda>subscriber.
     bind_result (requireNonEmpty (ci_offering input) ''offering'') (\<lambda>offering.
     bind_result (requireNonEmpty (ci_webhookTarget input) ''webhookTarget'') (\<lambda>webhookTarget.
     bind_result (assertRegistrable tiers (ci_tier input)) (\<lambda>_.
       case validate webhookTarget of
         Some rejection \<Rightarrow> Inl (INVALID_WEBHOOK_TARGET rejection)
       | None \<Rightarrow>
           let at = se_now env;
               record = \<lparr>sr_id = se_newId env, sr_version = 1, sr_subscriber = subscriber,
                 sr_offering = offering, sr_webhookTarget = webhookTarget, sr_tier = ci_tier input,
                 sr_status = SubActive, sr_createdAt = at, sr_updatedAt = at,
                 sr_cancelEffectiveWindow = None,
                 sr_audit = [entry_svc env ActCreate None SubActive at 1 (ci_tier input) None]\<rparr>
           in Inr (record, put record s)))))"

definition transition_svc ::
  "(string \<Rightarrow> 's \<Rightarrow> subscription_record option) \<Rightarrow> (subscription_record \<Rightarrow> 's \<Rightarrow> 's) \<Rightarrow> service_env \<Rightarrow> string \<Rightarrow>
   subscription_action \<Rightarrow> subscription_status \<Rightarrow> subscription_status list \<Rightarrow> string option \<Rightarrow> 's \<Rightarrow>
   (subscription_error, subscription_record \<times> 's) result"
where
  "transition_svc get put env sid action to allowedFrom reason s =
     bind_result (get_svc get sid s) (\<lambda>current.
       if sr_status current = SubCancelled then Inl (ALREADY_CANCELLED sid)
       else if sr_status current \<notin> set allowedFrom then Inl (INVALID_TRANSITION action)
       else let at = se_now env;
           updated = current\<lparr>sr_status := to, sr_updatedAt := at,
             sr_cancelEffectiveWindow :=
               (if to = SubCancelled then Some (se_window env + 1) else sr_cancelEffectiveWindow current),
             sr_audit := sr_audit current @
               [entry_svc env action (Some (sr_status current)) to at (sr_version current) (sr_tier current) reason]\<rparr>
         in Inr (updated, put updated s))"

definition pause_svc where
  "pause_svc get put env sid reason s = transition_svc get put env sid ActPause SubPaused [SubActive] reason s"

definition resume_svc where
  "resume_svc get put env sid reason s = transition_svc get put env sid ActResume SubActive [SubPaused] reason s"

definition cancel_svc where
  "cancel_svc get put env sid reason s =
     transition_svc get put env sid ActCancel SubCancelled [SubActive, SubPaused] reason s"

definition changeTier_svc ::
  "(tier_id \<Rightarrow> tier_definition) \<Rightarrow> 
   (string \<Rightarrow> 's \<Rightarrow> subscription_record option) \<Rightarrow> (subscription_record \<Rightarrow> 's \<Rightarrow> 's) \<Rightarrow> service_env \<Rightarrow> string \<Rightarrow>
   tier_id \<Rightarrow> string option \<Rightarrow> 's \<Rightarrow> (subscription_error, subscription_record \<times> 's) result"
where
  "changeTier_svc tiers get put env sid tier reason s =
     bind_result (get_svc get sid s) (\<lambda>current.
       if sr_status current = SubCancelled then Inl (ALREADY_CANCELLED sid)
       else bind_result (assertRegistrable tiers tier) (\<lambda>_.
         if tier = sr_tier current then Inl (INVALID_TRANSITION ActChangeTier)
         else let at = se_now env;
             version = sr_version current + 1;
             updated = current\<lparr>sr_tier := tier, sr_version := version, sr_updatedAt := at,
               sr_audit := sr_audit current @
                 [entry_svc env ActChangeTier (Some (sr_status current)) (sr_status current) at version tier reason]\<rparr>
           in Inr (updated, put updated s)))"

definition listBySubscriber_svc ::
  "(string \<Rightarrow> 's \<Rightarrow> subscription_record list) \<Rightarrow> string \<Rightarrow> 's \<Rightarrow> (subscription_error, subscription_record list) result"
where
  "listBySubscriber_svc list_by subscriber s =
     bind_result (requireNonEmpty subscriber ''subscriber'') (\<lambda>t. Inr (list_by t s))"

section \<open>Runs of the service\<close>

datatype service_call =
    CreateSub create_input
  | PauseSub string "string option"
  | ResumeSub string "string option"
  | CancelSub string "string option"
  | ChangeTier string tier_id "string option"

fun service_run ::
  "(tier_id \<Rightarrow> tier_definition) \<Rightarrow> 
   (string \<Rightarrow> 's \<Rightarrow> subscription_record option) \<Rightarrow> (subscription_record \<Rightarrow> 's \<Rightarrow> 's) \<Rightarrow> (string \<Rightarrow> string option) \<Rightarrow>
   service_env \<Rightarrow> service_call \<Rightarrow> 's \<Rightarrow> (subscription_error, subscription_record \<times> 's) result"
where
  "service_run tiers get put validate env (CreateSub i) s = create_svc tiers put validate env i s"
| "service_run tiers get put validate env (PauseSub sid r) s = pause_svc get put env sid r s"
| "service_run tiers get put validate env (ResumeSub sid r) s = resume_svc get put env sid r s"
| "service_run tiers get put validate env (CancelSub sid r) s = cancel_svc get put env sid r s"
| "service_run tiers get put validate env (ChangeTier sid t r) s = changeTier_svc tiers get put env sid t r s"

text \<open>A successful call; the id generator never returns an id that is in use (it is
  \<open>crypto.randomUUID\<close> by default).\<close>

inductive service_step ::
  "(tier_id \<Rightarrow> tier_definition) \<Rightarrow> 
   (string \<Rightarrow> 's \<Rightarrow> subscription_record option) \<Rightarrow> (subscription_record \<Rightarrow> 's \<Rightarrow> 's) \<Rightarrow> (string \<Rightarrow> string option) \<Rightarrow>
   's \<Rightarrow> 's \<Rightarrow> bool"
  for tiers get put validate
where
  "service_run tiers get put validate env call s = Inr (r, s') \<Longrightarrow>
   (\<And>i. call = CreateSub i \<Longrightarrow> get (se_newId env) s = None) \<Longrightarrow>
   service_step tiers get put validate s s'"

inductive service_reach ::
  "(tier_id \<Rightarrow> tier_definition) \<Rightarrow> 
   (string \<Rightarrow> 's \<Rightarrow> subscription_record option) \<Rightarrow> (subscription_record \<Rightarrow> 's \<Rightarrow> 's) \<Rightarrow> (string \<Rightarrow> string option) \<Rightarrow>
   's \<Rightarrow> 's \<Rightarrow> bool"
  for tiers get put validate s0
where
  start: "service_reach tiers get put validate s0 s0"
| more: "service_reach tiers get put validate s0 s \<Longrightarrow> service_step tiers get put validate s s' \<Longrightarrow>
    service_reach tiers get put validate s0 s'"

inductive_cases service_stepE: "service_step tiers get put validate s s'"


section \<open>What one call writes\<close>

text \<open>A record that continues another one by one audit entry.\<close>

definition continues :: "(tier_id \<Rightarrow> tier_definition) \<Rightarrow> subscription_record \<Rightarrow> audit_entry \<Rightarrow> subscription_record \<Rightarrow> bool"
where
  "continues tiers cur e r \<longleftrightarrow>
     sr_status cur \<noteq> SubCancelled \<and> sr_audit r = sr_audit cur @ [e] \<and>
     sr_id r = sr_id cur \<and> sr_subscriber r = sr_subscriber cur \<and> sr_offering r = sr_offering cur \<and>
     sr_webhookTarget r = sr_webhookTarget cur \<and> sr_createdAt r = sr_createdAt cur \<and>
     ae_from e = Some (sr_status cur) \<and> ae_to e = sr_status r \<and> ae_version e = sr_version r \<and>
     ae_tier e = sr_tier r \<and> ae_at e = sr_updatedAt r \<and>
     sr_cancelEffectiveWindow r =
       (if sr_status r = SubCancelled then Some (ae_window e + 1) else sr_cancelEffectiveWindow cur) \<and>
     (if ae_action e = ActChangeTier
      then sr_status r = sr_status cur \<and> sr_version r = sr_version cur + 1 \<and> sr_tier r \<noteq> sr_tier cur \<and>
        sr_tier r \<in> set (registrableTiers tiers)
      else sr_version r = sr_version cur \<and> sr_tier r = sr_tier cur \<and>
        (ae_action e, sr_status cur, sr_status r) \<in>
          {(ActPause, SubActive, SubPaused), (ActResume, SubPaused, SubActive),
           (ActCancel, SubActive, SubCancelled), (ActCancel, SubPaused, SubCancelled)})"

definition created :: "(tier_id \<Rightarrow> tier_definition) \<Rightarrow> (string \<Rightarrow> string option) \<Rightarrow> string \<Rightarrow> subscription_record \<Rightarrow> bool"
where
  "created tiers validate sid r \<longleftrightarrow> sr_id r = sid \<and> sr_status r = SubActive \<and> sr_version r = 1 \<and>
     sr_cancelEffectiveWindow r = None \<and> sr_tier r \<in> set (registrableTiers tiers) \<and>
     validate (sr_webhookTarget r) = None \<and> sr_subscriber r \<noteq> [] \<and> sr_offering r \<noteq> [] \<and> sr_webhookTarget r \<noteq> [] \<and>
     (\<exists>e. sr_audit r = [e] \<and> ae_action e = ActCreate \<and> ae_from e = None \<and> ae_to e = SubActive \<and>
        ae_version e = 1 \<and> ae_tier e = sr_tier r)"

lemma entry_svc_sel [simp]:
  "ae_action (entry_svc env a f t at v tier reason) = a" "ae_from (entry_svc env a f t at v tier reason) = f"
  "ae_to (entry_svc env a f t at v tier reason) = t" "ae_version (entry_svc env a f t at v tier reason) = v"
  "ae_tier (entry_svc env a f t at v tier reason) = tier" "ae_window (entry_svc env a f t at v tier reason) = se_window env"
  "ae_at (entry_svc env a f t at v tier reason) = at"
  by (simp_all add: entry_svc_def)

lemma create_svc_Inr:
  "create_svc tiers put validate env i s = Inr (r, s') \<Longrightarrow> s' = put r s \<and> created tiers validate (se_newId env) r"
  by (auto simp: create_svc_def created_def requireNonEmpty_def assertRegistrable_def Let_def
      split: if_splits option.splits)

lemma transition_svc_Inr:
  assumes "transition_svc get put env sid action to allowed reason s = Inr (r, s')"
    and "\<And>from. from \<in> set allowed \<Longrightarrow> (action, from, to) \<in>
          {(ActPause, SubActive, SubPaused), (ActResume, SubPaused, SubActive),
           (ActCancel, SubActive, SubCancelled), (ActCancel, SubPaused, SubCancelled)}"
  shows "s' = put r s \<and> (\<exists>cur e. get sid s = Some cur \<and> continues tiers cur e r)"
proof -
  obtain cur where cur: "get sid s = Some cur" "sr_status cur \<noteq> SubCancelled" "sr_status cur \<in> set allowed"
    and r: "r = cur\<lparr>sr_status := to, sr_updatedAt := se_now env,
      sr_cancelEffectiveWindow := (if to = SubCancelled then Some (se_window env + 1) else sr_cancelEffectiveWindow cur),
      sr_audit := sr_audit cur @ [entry_svc env action (Some (sr_status cur)) to (se_now env) (sr_version cur) (sr_tier cur) reason]\<rparr>"
    and s': "s' = put r s"
    using assms(1) by (auto simp: transition_svc_def get_svc_def Let_def split: option.splits if_splits)
  have "action \<noteq> ActChangeTier" using assms(2) [OF cur(3)] by auto
  with cur assms(2) [OF cur(3)]
  have "continues tiers cur (entry_svc env action (Some (sr_status cur)) to (se_now env) (sr_version cur) (sr_tier cur) reason) r"
    unfolding r continues_def by simp
  with cur s' show ?thesis by blast
qed

lemma changeTier_svc_Inr:
  assumes "changeTier_svc tiers get put env sid tier reason s = Inr (r, s')"
  shows "s' = put r s \<and> (\<exists>cur e. get sid s = Some cur \<and> continues tiers cur e r)"
  using assms by (auto simp: changeTier_svc_def get_svc_def assertRegistrable_def continues_def Let_def
      split: option.splits if_splits)

fun call_target :: "service_env \<Rightarrow> service_call \<Rightarrow> string" where
  "call_target env (CreateSub i) = se_newId env"
| "call_target env (PauseSub sid r) = sid"
| "call_target env (ResumeSub sid r) = sid"
| "call_target env (CancelSub sid r) = sid"
| "call_target env (ChangeTier sid t r) = sid"

lemma service_run_Inr:
  assumes "service_run tiers get put validate env call s = Inr (r, s')"
  shows "s' = put r s \<and>
    (created tiers validate (se_newId env) r \<and> (\<exists>i. call = CreateSub i) \<or>
     (\<exists>cur e. get (call_target env call) s = Some cur \<and> continues tiers cur e r))"
proof (cases call)
  case (PauseSub sid reason)
  then have "transition_svc get put env sid ActPause SubPaused [SubActive] reason s = Inr (r, s')"
    using assms by (simp add: pause_svc_def)
  from transition_svc_Inr [OF this, of tiers] PauseSub show ?thesis by simp
next
  case (ResumeSub sid reason)
  then have "transition_svc get put env sid ActResume SubActive [SubPaused] reason s = Inr (r, s')"
    using assms by (simp add: resume_svc_def)
  from transition_svc_Inr [OF this, of tiers] ResumeSub show ?thesis by simp
next
  case (CancelSub sid reason)
  then have "transition_svc get put env sid ActCancel SubCancelled [SubActive, SubPaused] reason s = Inr (r, s')"
    using assms by (simp add: cancel_svc_def)
  from transition_svc_Inr [OF this, of tiers] CancelSub show ?thesis by auto
next
  case (CreateSub i)
  with assms create_svc_Inr [of tiers put validate env i s r s'] show ?thesis by simp
next
  case (ChangeTier sid tier reason)
  with assms changeTier_svc_Inr [of tiers get put env sid tier reason s r s'] show ?thesis by simp
qed


section \<open>Records that replay from their audit trail\<close>

definition follows :: "audit_entry \<Rightarrow> audit_entry \<Rightarrow> bool" where
  "follows e e' \<longleftrightarrow> ae_from e' = Some (ae_to e) \<and> ae_to e \<noteq> SubCancelled \<and>
     (if ae_action e' = ActChangeTier
      then ae_to e' = ae_to e \<and> ae_version e' = ae_version e + 1 \<and> ae_tier e' \<noteq> ae_tier e
      else ae_version e' = ae_version e \<and> ae_tier e' = ae_tier e \<and>
        (ae_action e', ae_to e, ae_to e') \<in>
          {(ActPause, SubActive, SubPaused), (ActResume, SubPaused, SubActive),
           (ActCancel, SubActive, SubCancelled), (ActCancel, SubPaused, SubCancelled)})"

definition audit_ok :: "audit_entry list \<Rightarrow> bool" where
  "audit_ok es \<longleftrightarrow> es \<noteq> [] \<and> ae_action (hd es) = ActCreate \<and> ae_from (hd es) = None \<and> ae_to (hd es) = SubActive \<and>
     ae_version (hd es) = 1 \<and> (\<forall>i. Suc i < length es \<longrightarrow> follows (es ! i) (es ! Suc i))"

definition record_ok :: "subscription_record \<Rightarrow> bool" where
  "record_ok r \<longleftrightarrow> audit_ok (sr_audit r) \<and> sr_status r = ae_to (last (sr_audit r)) \<and>
     sr_version r = ae_version (last (sr_audit r)) \<and> sr_tier r = ae_tier (last (sr_audit r)) \<and>
     sr_cancelEffectiveWindow r =
       (if sr_status r = SubCancelled then Some (ae_window (last (sr_audit r)) + 1) else None)"

lemma audit_ok_snoc:
  assumes "audit_ok es" and "follows (last es) e"
  shows "audit_ok (es @ [e])"
proof -
  have ne: "es \<noteq> []" using assms(1) by (simp add: audit_ok_def)
  have "follows ((es @ [e]) ! i) ((es @ [e]) ! Suc i)" if "Suc i < length (es @ [e])" for i
  proof (cases "Suc i < length es")
    case True
    with assms show ?thesis by (simp add: audit_ok_def nth_append)
  next
    case False
    with that have "i = length es - 1" "Suc i = length es" using ne by auto
    with assms(2) ne show ?thesis by (simp add: nth_append last_conv_nth)
  qed
  with assms ne show ?thesis by (simp add: audit_ok_def)
qed

lemma record_ok_created: "created tiers validate sid r \<Longrightarrow> record_ok r"
  by (auto simp: created_def record_ok_def audit_ok_def)

lemma record_ok_continues:
  assumes "record_ok cur" and "continues tiers cur e r"
  shows "record_ok r"
proof -
  have "follows (last (sr_audit cur)) e"
    using assms by (auto simp: record_ok_def continues_def follows_def)
  with assms show ?thesis
    by (auto simp: record_ok_def continues_def intro: audit_ok_snoc)
qed

lemma record_ok_version: "record_ok r \<Longrightarrow> continues tiers r e r' \<Longrightarrow> sr_version r \<le> sr_version r'"
  by (auto simp: continues_def split: if_splits)

section \<open>The store interface and what holds over any store\<close>

locale subscription_store =
  fixes get :: "string \<Rightarrow> 's \<Rightarrow> subscription_record option"
    and put :: "subscription_record \<Rightarrow> 's \<Rightarrow> 's"
    and list_by :: "string \<Rightarrow> 's \<Rightarrow> subscription_record list"
    and invar :: "'s \<Rightarrow> bool"
  assumes get_put: "get sid (put r s) = (if sid = sr_id r then Some r else get sid s)"
    and put_invar: "invar s \<Longrightarrow> invar (put r s)"
    and list_law: "invar s \<Longrightarrow> set (list_by u s) = {r. get (sr_id r) s = Some r \<and> sr_subscriber r = u} \<and>
      sorted_wrt (\<lambda>r r'. sr_createdAt r' \<le> sr_createdAt r) (list_by u s)"
begin

text \<open>The invariant of the records a store holds.\<close>

lemma step_records:
  assumes "service_step tiers get put validate s s'"
    and "\<And>sid r. get sid s = Some r \<Longrightarrow> record_ok r \<and> sr_id r = sid \<and> validate (sr_webhookTarget r) = None"
    and "get sid s' = Some r"
  shows "record_ok r \<and> sr_id r = sid \<and> validate (sr_webhookTarget r) = None"
proof -
  obtain env call r' where run: "service_run tiers get put validate env call s = Inr (r', s')"
    using assms(1) by (auto elim: service_stepE)
  have s': "s' = put r' s" using service_run_Inr [OF run] by blast
  have "record_ok r' \<and> validate (sr_webhookTarget r') = None"
    using service_run_Inr [OF run] assms(2) record_ok_continues record_ok_created
    by (fastforce simp: continues_def created_def)
  with s' assms(2,3) show ?thesis by (auto simp: get_put split: if_splits)
qed

lemma reach_records:
  assumes "service_reach tiers get put validate s0 s"
    and "\<And>sid r. get sid s0 = Some r \<Longrightarrow> record_ok r \<and> sr_id r = sid \<and> validate (sr_webhookTarget r) = None"
    and "get sid s = Some r"
  shows "record_ok r \<and> sr_id r = sid \<and> validate (sr_webhookTarget r) = None"
  using assms
proof (induction arbitrary: sid r rule: service_reach.induct)
  case (more s s')
  show ?case by (rule step_records [OF more.hyps(2) more.IH [OF more.prems(1)] more.prems(2)])
qed simp

text \<open>A stored record only grows: its audit trail is extended, and a cancelled one stays.\<close>

lemma step_grows:
  assumes "service_step tiers get put validate s s'" and "get sid s = Some r0"
    and "\<And>sid r. get sid s = Some r \<Longrightarrow> sr_id r = sid"
  shows "\<exists>r ext. get sid s' = Some r \<and> sr_id r = sid \<and> sr_audit r = sr_audit r0 @ ext \<and>
    sr_version r0 \<le> sr_version r \<and> (sr_status r0 = SubCancelled \<longrightarrow> r = r0)"
proof -
  obtain env call r' where run: "service_run tiers get put validate env call s = Inr (r', s')"
    and fresh: "\<And>i. call = CreateSub i \<Longrightarrow> get (se_newId env) s = None"
    using assms(1) by (auto elim: service_stepE)
  have s': "s' = put r' s" using service_run_Inr [OF run] by blast
  show ?thesis
  proof (cases "sr_id r' = sid")
    case False
    with assms s' show ?thesis by (auto simp: get_put)
  next
    case True
    have "\<not> (created tiers validate (se_newId env) r' \<and> (\<exists>i. call = CreateSub i))"
      using fresh assms(2) True by (auto simp: created_def)
    then obtain cur e where cur: "get (call_target env call) s = Some cur" "continues tiers cur e r'"
      using service_run_Inr [OF run] by blast
    then have "sr_id cur = call_target env call" "sr_id r' = sr_id cur"
      using assms(3) by (auto simp: continues_def)
    with cur assms(2) True have "cur = r0" by simp
    with cur(2) True s' show ?thesis by (auto simp: get_put continues_def split: if_splits)
  qed
qed

lemma reach_grows:
  assumes "service_reach tiers get put validate s0 s" and "get sid s0 = Some r0"
    and "\<And>sid r. get sid s0 = Some r \<Longrightarrow> record_ok r \<and> sr_id r = sid \<and> validate (sr_webhookTarget r) = None"
  shows "\<exists>r ext. get sid s = Some r \<and> sr_id r = sid \<and> sr_audit r = sr_audit r0 @ ext \<and>
    sr_version r0 \<le> sr_version r \<and> (sr_status r0 = SubCancelled \<longrightarrow> r = r0)"
  using assms
proof (induction rule: service_reach.induct)
  case (more s s')
  obtain r ext where r: "get sid s = Some r" "sr_audit r = sr_audit r0 @ ext" "sr_version r0 \<le> sr_version r"
      "sr_status r0 = SubCancelled \<longrightarrow> r = r0"
    using more.IH more.prems by blast
  have ids: "\<And>sid r. get sid s = Some r \<Longrightarrow> sr_id r = sid"
    using reach_records [OF more.hyps(1) more.prems(2)] by blast
  obtain r' ext' where "get sid s' = Some r'" "sr_id r' = sid" "sr_audit r' = sr_audit r @ ext'"
      "sr_version r \<le> sr_version r'" "sr_status r = SubCancelled \<longrightarrow> r' = r"
    using step_grows [OF more.hyps(2) r(1) ids] by blast
  with r show ?case by auto
qed auto

end

section \<open>The in-memory store provides the interface\<close>

definition subscription_map_ok :: "subscription_map \<Rightarrow> bool" where
  "subscription_map_ok m \<longleftrightarrow> map_wf m \<and> (\<forall>(sid, r) \<in> set m. sr_id r = sid)"

interpretation mem_subs: subscription_store store_get store_put store_list subscription_map_ok
proof unfold_locales
  fix sid r and s :: subscription_map
  show "store_get sid (store_put r s) = (if sid = sr_id r then Some r else store_get sid s)"
    by (simp add: store_get_def store_put_def)
next
  fix r and s :: subscription_map
  show "subscription_map_ok s \<Longrightarrow> subscription_map_ok (store_put r s)"
    by (auto simp: subscription_map_ok_def store_put_def set_map_set)
next
  fix u and s :: subscription_map
  assume ok: "subscription_map_ok s"
  have "r \<in> snd ` set s \<longleftrightarrow> map_get s (sr_id r) = Some r" for r
    using ok by (force simp: subscription_map_ok_def map_get_in_set)
  then have "set (store_list u s) = {r. store_get (sr_id r) s = Some r \<and> sr_subscriber r = u}"
    by (auto simp: store_list_def store_get_def)
  moreover have "sorted (map (\<lambda>r. - sr_createdAt r) (store_list u s))"
    by (simp add: store_list_def)
  then have "sorted_wrt (\<lambda>r r'. sr_createdAt r' \<le> sr_createdAt r) (store_list u s)"
    by (simp add: sorted_map)
  ultimately show "set (store_list u s) = {r. store_get (sr_id r) s = Some r \<and> sr_subscriber r = u} \<and>
      sorted_wrt (\<lambda>r r'. sr_createdAt r' \<le> sr_createdAt r) (store_list u s)" by blast
qed


section \<open>Properties\<close>

definition example_record :: subscription_record where
  "example_record = \<lparr>sr_id = ''s1'', sr_version = 1, sr_subscriber = ''bob'', sr_offering = ''o'',
     sr_webhookTarget = ''https://x'', sr_tier = TimeInsensitive, sr_status = SubActive, sr_createdAt = 5,
     sr_updatedAt = 5, sr_cancelEffectiveWindow = None,
     sr_audit = [\<lparr>ae_action = ActCreate, ae_version = 1, ae_tier = TimeInsensitive, ae_at = 5, ae_from = None,
       ae_to = SubActive, ae_window = 7, ae_reason = None\<rparr>]\<rparr>"

lemma example_create:
  "create_svc TIERS store_put (\<lambda>_. None) \<lparr>se_now = 5, se_newId = ''s1'', se_window = 7\<rparr>
     \<lparr>ci_subscriber = '' bob '', ci_offering = ''o'', ci_webhookTarget = ''https://x'', ci_tier = TimeInsensitive\<rparr> [] =
   Inr (example_record, [(''s1'', example_record)])"
  by code_simp

lemma example_reach: "service_reach TIERS store_get store_put (\<lambda>_. None) [] [(''s1'', example_record)]"
proof (rule service_reach.more [OF service_reach.start])
  show "service_step TIERS store_get store_put (\<lambda>_. None) [] [(''s1'', example_record)]"
    by (rule service_step.intros [where call = "CreateSub \<lparr>ci_subscriber = '' bob '', ci_offering = ''o'',
          ci_webhookTarget = ''https://x'', ci_tier = TimeInsensitive\<rparr>"
          and env = "\<lparr>se_now = 5, se_newId = ''s1'', se_window = 7\<rparr>"])
      (simp_all add: example_create store_get_def)
qed

text \<open>
  C34: what was promised stays answerable from the record alone. In every run of the service on an
  empty store, over any tier table and validator, each stored record has a well-formed audit trail
  (it starts with a creation at version 1, every entry follows from the one before by a legal
  action, the version moves exactly with the tier, nothing follows a cancellation), its status,
  tier and version are those of the last entry, a cancellation takes effect in the window after
  the one it was made in, and its webhook target passed the validator.
\<close>

theorem audit_trail_replays:
  assumes "service_reach tiers store_get store_put validate [] s" and "store_get sid s = Some r"
  shows "record_ok r \<and> sr_id r = sid \<and> validate (sr_webhookTarget r) = None"
  by (rule mem_subs.reach_records [OF assms(1) _ assms(2)]) (simp add: store_get_def)

theorem audit_trail_replays_witness: "record_ok example_record \<and> sr_id example_record = ''s1''"
  using audit_trail_replays [OF example_reach, of "''s1''" example_record] by (simp add: store_get_def)

text \<open>
  the audit trail is append-only and cancellation is terminal. Between any two points of a
  run, a record stays in the store, its audit trail is only extended and its version never
  decreases; a cancelled record does not change at all.
\<close>

theorem audit_append_only:
  assumes "service_reach tiers store_get store_put validate [] s0"
    and "service_reach tiers store_get store_put validate s0 s" and "store_get sid s0 = Some r0"
  shows "\<exists>r ext. store_get sid s = Some r \<and> sr_audit r = sr_audit r0 @ ext \<and>
    sr_version r0 \<le> sr_version r \<and> (sr_status r0 = SubCancelled \<longrightarrow> r = r0)"
proof -
  have "record_ok r \<and> sr_id r = sid \<and> validate (sr_webhookTarget r) = None" if "store_get sid s0 = Some r" for sid r
    by (rule mem_subs.reach_records [OF assms(1) _ that]) (simp add: store_get_def)
  from mem_subs.reach_grows [OF assms(2,3) this] show ?thesis by blast
qed

theorem audit_append_only_witness:
  "\<exists>r ext. store_get ''s1'' [(''s1'', example_record)] = Some r \<and> sr_audit r = sr_audit example_record @ ext \<and>
    sr_version example_record \<le> sr_version r \<and> (sr_status example_record = SubCancelled \<longrightarrow> r = example_record)"
  using audit_append_only [OF example_reach service_reach.start, of "''s1''" example_record]
  by (simp add: store_get_def)

text \<open>
  every operation of a stored subscription has one of the outcomes of the transition table,
  and a refused one leaves no trace: from an active or paused record, \<open>cancel\<close> succeeds and takes
  effect in the next window; \<open>pause\<close> needs an active and \<open>resume\<close> a paused record; a cancelled
  record refuses everything.
\<close>

theorem service_transition_table:
  "(store_get sid s = None \<longrightarrow>
      pause_svc store_get store_put env sid x s = Inl (NOT_FOUND sid) \<and>
      resume_svc store_get store_put env sid x s = Inl (NOT_FOUND sid) \<and>
      cancel_svc store_get store_put env sid x s = Inl (NOT_FOUND sid) \<and>
      changeTier_svc tiers store_get store_put env sid t x s = Inl (NOT_FOUND sid)) \<and>
   (\<forall>r. store_get sid s = Some r \<longrightarrow> sr_id r = sid \<longrightarrow>
     (case sr_status r of
        SubCancelled \<Rightarrow> pause_svc store_get store_put env sid x s = Inl (ALREADY_CANCELLED sid) \<and>
          resume_svc store_get store_put env sid x s = Inl (ALREADY_CANCELLED sid) \<and>
          cancel_svc store_get store_put env sid x s = Inl (ALREADY_CANCELLED sid) \<and>
          changeTier_svc tiers store_get store_put env sid t x s = Inl (ALREADY_CANCELLED sid)
      | SubActive \<Rightarrow> resume_svc store_get store_put env sid x s = Inl (INVALID_TRANSITION ActResume) \<and>
          (\<exists>r' s'. pause_svc store_get store_put env sid x s = Inr (r', s') \<and> store_get sid s' = Some r' \<and>
             sr_status r' = SubPaused \<and> sr_cancelEffectiveWindow r' = sr_cancelEffectiveWindow r)
      | SubPaused \<Rightarrow> pause_svc store_get store_put env sid x s = Inl (INVALID_TRANSITION ActPause) \<and>
          (\<exists>r' s'. resume_svc store_get store_put env sid x s = Inr (r', s') \<and> store_get sid s' = Some r' \<and>
             sr_status r' = SubActive \<and> sr_cancelEffectiveWindow r' = sr_cancelEffectiveWindow r)) \<and>
     (sr_status r \<noteq> SubCancelled \<longrightarrow>
        (\<exists>r' s'. cancel_svc store_get store_put env sid x s = Inr (r', s') \<and> store_get sid s' = Some r' \<and>
           sr_status r' = SubCancelled \<and> sr_cancelEffectiveWindow r' = Some (se_window env + 1))))"
  by (auto simp: pause_svc_def resume_svc_def cancel_svc_def changeTier_svc_def transition_svc_def get_svc_def
      mem_subs.get_put Let_def split: subscription_status.split)

theorem service_transition_table_witness:
  "\<exists>r' s'. cancel_svc store_get store_put \<lparr>se_now = 9, se_newId = ''s2'', se_window = 8\<rparr> ''s1'' None
      [(''s1'', example_record)] = Inr (r', s') \<and> store_get ''s1'' s' = Some r' \<and>
      sr_status r' = SubCancelled \<and> sr_cancelEffectiveWindow r' = Some 9"
  using service_transition_table [of "''s1''" "[(''s1'', example_record)]"
      "\<lparr>se_now = 9, se_newId = ''s2'', se_window = 8\<rparr>" None TIERS TimeInsensitive]
  by (simp add: store_get_def example_record_def)

text \<open>
  \<open>listBySubscriber\<close> returns exactly the stored records of that subscriber, newest first.
\<close>

theorem listBySubscriber_exact:
  assumes "subscription_map_ok m" and "listBySubscriber_svc store_list u m = Inr rs"
  shows "set rs = {r. store_get (sr_id r) m = Some r \<and> sr_subscriber r = trim u} \<and>
    sorted_wrt (\<lambda>r r'. sr_createdAt r' \<le> sr_createdAt r) rs"
  using assms mem_subs.list_law [of m "trim u"]
  by (auto simp: listBySubscriber_svc_def requireNonEmpty_def Let_def split: if_splits)

theorem listBySubscriber_exact_witness:
  "set [example_record] = {r. store_get (sr_id r) [(''s1'', example_record)] = Some r \<and> sr_subscriber r = trim '' bob ''}"
proof -
  have "subscription_map_ok [(''s1'', example_record)]" by code_simp
  moreover have "listBySubscriber_svc store_list '' bob '' [(''s1'', example_record)] = Inr [example_record]"
    by code_simp
  ultimately show ?thesis using listBySubscriber_exact by blast
qed

end
