(* ===== verification/Js_Numbers.thy ===== *)
theory Js_Numbers
  imports Complex_Main Orbital_Prelude
begin

text \<open>
  Numbers beyond integers, as configuration values and money amounts use them: a number that may
  be \<open>NaN\<close> or infinite, \<open>Number.isFinite\<close> and \<open>Number.isInteger\<close>. Finite numbers are taken as exact
  rationals; rounding of binary floating point is not modelled.
\<close>

datatype js_number = Finite rat | NotFinite

fun js_isInteger :: "js_number \<Rightarrow> bool" where
  "js_isInteger (Finite q) \<longleftrightarrow> of_int \<lfloor>q\<rfloor> = q"
| "js_isInteger NotFinite \<longleftrightarrow> False"

text \<open>The order of strings that \<open>a < b\<close> uses: lexicographic on code units.\<close>

fun str_less :: "string \<Rightarrow> string \<Rightarrow> bool" where
  "str_less [] [] = False"
| "str_less [] (y # ys) = True"
| "str_less (x # xs) [] = False"
| "str_less (x # xs) (y # ys) \<longleftrightarrow>
     (of_char x :: nat) < of_char y \<or> x = y \<and> str_less xs ys"

lemma str_less_irrefl [simp]: "\<not> str_less s s"
  by (induction s) auto

lemma str_less_trans: "str_less a b \<Longrightarrow> str_less b c \<Longrightarrow> str_less a c"
proof (induction a b arbitrary: c rule: str_less.induct)
  case (2 y ys) then show ?case by (cases c) auto
next
  case (4 x xs y ys) then show ?case by (cases c) auto
qed auto

lemma str_less_linear: "a = b \<or> str_less a b \<or> str_less b a"
proof (induction a b rule: str_less.induct)
  case (4 x xs y ys)
  have "(of_char x :: nat) = of_char y \<Longrightarrow> x = y" by simp
  with 4 show ?case by (cases "(of_char x :: nat) < of_char y"; cases "(of_char y :: nat) < of_char x") auto
qed auto

end
