(* ===== verification/Guards.thy ===== *)
theory Guards
  imports Js_Numbers
begin

text \<open>
  The guard rails in front of a worker's submission: the circuit breaker
  (\<^verbatim>\<open>packages/worker-core/src/guards/circuitBreaker.ts\<close>), the price guard (\<^verbatim>\<open>guards/priceGuard.ts\<close>) and fee
  resolution (\<^verbatim>\<open>fees.ts\<close>). Prices are \<open>bigint\<close>s and therefore integers; fee multipliers and
  simulated fees are finite numbers, taken as exact rationals.
\<close>

section \<open>CircuitBreaker\<close>

record guard_trip =
  gt_workerId :: string
  gt_occurredAtUnix :: int
  gt_reason :: string

record reenable_record =
  rr_reenabledBy :: string
  rr_reenabledAtUnix :: int
  rr_rationale :: string

datatype breaker_state = BreakerClosed nat | BreakerOpen int "guard_trip list"

record circuit_breaker =
  cb_maxConsecutiveTrips :: nat
  cb_state :: breaker_state
  cb_trips :: "guard_trip list"
  cb_reenables :: "reenable_record list"

datatype breaker_error = CircuitBreakerNotOpenError | OnTripThrew

definition newCircuitBreaker :: "nat \<Rightarrow> circuit_breaker" where
  "newCircuitBreaker n = \<lparr>cb_maxConsecutiveTrips = n, cb_state = BreakerClosed 0, cb_trips = [], cb_reenables = []\<rparr>"

definition breaker_isOpen :: "circuit_breaker \<Rightarrow> bool" where
  "breaker_isOpen b = (case cb_state b of BreakerOpen _ _ \<Rightarrow> True | BreakerClosed _ \<Rightarrow> False)"

text \<open>\<open>throws r\<close> is whether the \<open>onTrip\<close> callback throws on \<open>r\<close>; without a callback it never does. The
  callback runs after the trip is stored and before the state is updated.\<close>

definition recordTrip ::
  "(guard_trip \<Rightarrow> bool) \<Rightarrow> guard_trip \<Rightarrow> circuit_breaker \<Rightarrow> (breaker_error, breaker_state) result \<times> circuit_breaker" where
  "recordTrip throws r b =
     (let b = b\<lparr>cb_trips := cb_trips b @ [r]\<rparr> in
      if throws r then (Inl OnTripThrew, b)
      else let st = (case cb_state b of
             BreakerOpen since _ \<Rightarrow> BreakerOpen since (slice_last (cb_maxConsecutiveTrips b) (cb_trips b))
           | BreakerClosed c \<Rightarrow>
               (let consecutiveTrips = c + 1 in
                if consecutiveTrips \<ge> cb_maxConsecutiveTrips b
                then BreakerOpen (gt_occurredAtUnix r) (slice_last (cb_maxConsecutiveTrips b) (cb_trips b))
                else BreakerClosed consecutiveTrips))
        in (Inr st, b\<lparr>cb_state := st\<rparr>))"

definition recordSuccess :: "circuit_breaker \<Rightarrow> breaker_state \<times> circuit_breaker" where
  "recordSuccess b =
     (let st = (case cb_state b of BreakerClosed _ \<Rightarrow> BreakerClosed 0 | BreakerOpen s t \<Rightarrow> BreakerOpen s t)
      in (st, b\<lparr>cb_state := st\<rparr>))"

definition manualReenable ::
  "string \<Rightarrow> int \<Rightarrow> string \<Rightarrow> circuit_breaker \<Rightarrow> (breaker_error, breaker_state) result \<times> circuit_breaker" where
  "manualReenable who t why b =
     (case cb_state b of
        BreakerClosed _ \<Rightarrow> (Inl CircuitBreakerNotOpenError, b)
      | BreakerOpen _ _ \<Rightarrow>
          (Inr (BreakerClosed 0),
           b\<lparr>cb_reenables := cb_reenables b @
               [\<lparr>rr_reenabledBy = who, rr_reenabledAtUnix = t, rr_rationale = why\<rparr>],
             cb_state := BreakerClosed 0\<rparr>))"

datatype breaker_op = Trip guard_trip | Success | Reenable string int string

fun breaker_run :: "breaker_op \<Rightarrow> circuit_breaker \<Rightarrow> circuit_breaker" where
  "breaker_run (Trip r) b = snd (recordTrip (\<lambda>_. False) r b)"
| "breaker_run Success b = snd (recordSuccess b)"
| "breaker_run (Reenable who t why) b = snd (manualReenable who t why b)"

fun is_trip :: "breaker_op \<Rightarrow> bool" where
  "is_trip (Trip _) = True"
| "is_trip _ = False"

fun is_reenable :: "breaker_op \<Rightarrow> bool" where
  "is_reenable (Reenable _ _ _) = True"
| "is_reenable _ = False"

lemma trip_not_reenable: "is_trip op \<Longrightarrow> \<not> is_reenable op"
  by (cases op) auto

text \<open>A stretch of \<open>c\<close> trips with no clean check in between.\<close>

definition trip_run :: "nat \<Rightarrow> breaker_op list \<Rightarrow> bool" where
  "trip_run c seg \<longleftrightarrow> Success \<notin> set seg \<and> length (filter is_trip seg) = c"

definition breaker_inv :: "nat \<Rightarrow> breaker_op list \<Rightarrow> circuit_breaker \<Rightarrow> bool" where
  "breaker_inv n ops b \<longleftrightarrow> cb_maxConsecutiveTrips b = n \<and>
     (case cb_state b of
        BreakerClosed c \<Rightarrow> c < n \<and> (\<exists>pre seg. ops = pre @ seg \<and> trip_run c seg)
      | BreakerOpen _ _ \<Rightarrow> (\<exists>pre seg post. ops = pre @ seg @ post \<and> trip_run n seg \<and> \<not> list_ex is_reenable post))"

lemma breaker_inv_step:
  assumes "breaker_inv n ops b" and "0 < n"
  shows "breaker_inv n (ops @ [op]) (breaker_run op b)"
proof (cases "cb_state b")
  case (BreakerClosed c)
  with assms obtain pre seg where seg: "ops = pre @ seg" "trip_run c seg" "c < n" "cb_maxConsecutiveTrips b = n"
    by (auto simp: breaker_inv_def)
  have fresh: "\<exists>pre' seg'. ops @ [op] = pre' @ seg' \<and> trip_run 0 seg'"
    by (rule exI [of _ "ops @ [op]"], rule exI [of _ "[]"]) (simp add: trip_run_def)
  show ?thesis
  proof (cases op)
    case (Trip r)
    then have run: "trip_run (Suc c) (seg @ [op])" using seg by (simp add: trip_run_def)
    show ?thesis
    proof (cases "Suc c = n")
      case True
      then have "\<exists>p s q. ops @ [op] = p @ s @ q \<and> trip_run n s \<and> \<not> list_ex is_reenable q"
        using run seg by (intro exI [of _ pre] exI [of _ "seg @ [op]"] exI [of _ "[]"]) simp
      with Trip BreakerClosed seg True show ?thesis by (simp add: breaker_inv_def recordTrip_def Let_def)
    next
      case False
      have "\<exists>p s. ops @ [op] = p @ s \<and> trip_run (Suc c) s"
        using run seg by (intro exI [of _ pre] exI [of _ "seg @ [op]"]) simp
      with Trip BreakerClosed seg False show ?thesis by (simp add: breaker_inv_def recordTrip_def Let_def)
    qed
  next
    case Success
    with BreakerClosed seg assms(2) fresh show ?thesis by (simp add: breaker_inv_def recordSuccess_def Let_def)
  next
    case (Reenable who t why)
    have "\<exists>p s. ops @ [op] = p @ s \<and> trip_run c s"
      using seg Reenable by (intro exI [of _ pre] exI [of _ "seg @ [op]"]) (simp add: trip_run_def)
    with Reenable BreakerClosed seg show ?thesis by (simp add: breaker_inv_def manualReenable_def)
  qed
next
  case (BreakerOpen since ts)
  with assms obtain pre seg post where seg: "ops = pre @ seg @ post" "trip_run n seg"
      "\<not> list_ex is_reenable post" "cb_maxConsecutiveTrips b = n"
    by (auto simp: breaker_inv_def)
  have still: "\<not> is_reenable op \<Longrightarrow>
      \<exists>p s q. ops @ [op] = p @ s @ q \<and> trip_run n s \<and> \<not> list_ex is_reenable q"
    using seg by (intro exI [of _ pre] exI [of _ seg] exI [of _ "post @ [op]"]) simp
  have fresh: "\<exists>pre' seg'. ops @ [op] = pre' @ seg' \<and> trip_run 0 seg'"
    by (rule exI [of _ "ops @ [op]"], rule exI [of _ "[]"]) (simp add: trip_run_def)
  show ?thesis using BreakerOpen seg(4) assms(2) still fresh
    by (cases op) (simp_all add: breaker_inv_def recordTrip_def recordSuccess_def manualReenable_def Let_def)
qed

lemma breaker_inv_run: "0 < n \<Longrightarrow> breaker_inv n ops (fold breaker_run ops (newCircuitBreaker n))"
proof (induction ops rule: rev_induct)
  case Nil
  then show ?case by (simp add: breaker_inv_def newCircuitBreaker_def trip_run_def)
qed (simp add: breaker_inv_step)

lemma breaker_stays_open:
  "breaker_isOpen b \<Longrightarrow> \<not> list_ex is_reenable ops \<Longrightarrow> breaker_isOpen (fold breaker_run ops b)"
proof (induction ops arbitrary: b)
  case (Cons op ops)
  have "breaker_isOpen (breaker_run op b)"
    using Cons.prems by (cases op) (auto simp: breaker_isOpen_def recordTrip_def recordSuccess_def Let_def
      split: breaker_state.splits)
  with Cons show ?case by simp
qed simp

lemma breaker_max [simp]: "cb_maxConsecutiveTrips (breaker_run op b) = cb_maxConsecutiveTrips b"
  by (cases op) (auto simp: recordTrip_def recordSuccess_def manualReenable_def Let_def split: breaker_state.split)

lemma trips_open:
  assumes "\<forall>op \<in> set trips. is_trip op" and "cb_state b = BreakerClosed c"
    and "cb_maxConsecutiveTrips b \<le> c + length trips" and "trips \<noteq> []"
  shows "breaker_isOpen (fold breaker_run trips b)"
  using assms
proof (induction trips arbitrary: b c)
  case (Cons op trips)
  obtain r where op: "op = Trip r" using Cons.prems(1) by (cases op) auto
  show ?case
  proof (cases "cb_maxConsecutiveTrips b \<le> c + 1")
    case True
    then have "breaker_isOpen (breaker_run op b)"
      using op Cons.prems(2) by (simp add: breaker_isOpen_def recordTrip_def Let_def)
    moreover have "\<not> list_ex is_reenable trips" using Cons.prems(1) trip_not_reenable by (auto simp: list_ex_iff)
    ultimately show ?thesis using breaker_stays_open by simp
  next
    case False
    then have "cb_state (breaker_run op b) = BreakerClosed (c + 1)"
      using op Cons.prems(2) by (simp add: recordTrip_def Let_def)
    moreover have "trips \<noteq> []" using False Cons.prems(3) by auto
    ultimately show ?thesis using Cons.IH [of "breaker_run op b" "c + 1"] Cons.prems by simp
  qed
qed simp


section \<open>Price guard\<close>

record price_reading =
  prd_price :: int
  prd_decimals :: int
  prd_observedAtUnix :: int
  prd_source :: string

record price_guard_config =
  pg_maxAgeSeconds :: int
  pg_maxDivergenceBps :: int

text \<open>The divergence reported with a verdict; a non-positive price diverges infinitely.\<close>

datatype divergence = Bps int | InfiniteBps

datatype price_verdict =
    GuardOk
  | Stale string int int
  | Diverging divergence int price_reading price_reading

definition checkStaleness :: "price_reading \<Rightarrow> int \<Rightarrow> int \<Rightarrow> price_verdict" where
  "checkStaleness reading maxAgeSeconds nowUnix =
     (let ageSeconds = nowUnix - prd_observedAtUnix reading in
      if ageSeconds < 0 \<or> ageSeconds > maxAgeSeconds
      then Stale (prd_source reading) ageSeconds maxAgeSeconds else GuardOk)"

text \<open>Division of \<open>bigint\<close>s truncates toward zero.\<close>

definition bigint_div :: "int \<Rightarrow> int \<Rightarrow> int" where
  "bigint_div a b = sgn a * sgn b * (\<bar>a\<bar> div \<bar>b\<bar>)"

definition scaleTo :: "price_reading \<Rightarrow> int \<Rightarrow> int" where
  "scaleTo reading targetDecimals =
     (let diff = targetDecimals - prd_decimals reading in
      if diff = 0 then prd_price reading
      else if diff > 0 then prd_price reading * 10 ^ nat diff
      else bigint_div (prd_price reading) (10 ^ nat (- diff)))"

definition checkDeviation :: "price_reading \<Rightarrow> price_reading \<Rightarrow> int \<Rightarrow> price_verdict" where
  "checkDeviation a b maxDivergenceBps =
     (let targetDecimals = max (prd_decimals a) (prd_decimals b);
          scaledA = scaleTo a targetDecimals;
          scaledB = scaleTo b targetDecimals
      in if scaledA \<le> 0 \<or> scaledB \<le> 0 then Diverging InfiniteBps maxDivergenceBps a b
         else let diff = (if scaledA > scaledB then scaledA - scaledB else scaledB - scaledA);
                  smaller = (if scaledA < scaledB then scaledA else scaledB);
                  divergenceBpsExact = bigint_div (diff * 10000) smaller
           in if divergenceBpsExact > maxDivergenceBps
              then Diverging (Bps divergenceBpsExact) maxDivergenceBps a b
              else GuardOk)"

definition checkPriceGuard :: "price_reading \<Rightarrow> price_reading \<Rightarrow> price_guard_config \<Rightarrow> int \<Rightarrow> price_verdict" where
  "checkPriceGuard primary secondary config nowUnix =
     (let primaryStaleness = checkStaleness primary (pg_maxAgeSeconds config) nowUnix in
      if primaryStaleness \<noteq> GuardOk then primaryStaleness
      else let secondaryStaleness = checkStaleness secondary (pg_maxAgeSeconds config) nowUnix in
        if secondaryStaleness \<noteq> GuardOk then secondaryStaleness
        else checkDeviation primary secondary (pg_maxDivergenceBps config))"

text \<open>The price a reading stands for.\<close>

definition real_price :: "price_reading \<Rightarrow> rat" where
  "real_price r = (if prd_decimals r \<ge> 0 then of_int (prd_price r) / 10 ^ nat (prd_decimals r)
     else of_int (prd_price r) * 10 ^ nat (- prd_decimals r))"

text \<open>Scaling up to the larger number of decimals is exact.\<close>

lemma scaleTo_exact:
  assumes "0 \<le> prd_decimals r" and "prd_decimals r \<le> t"
  shows "of_int (scaleTo r t) = real_price r * 10 ^ nat t"
proof -
  have "(10::rat) ^ nat t = 10 ^ nat (prd_decimals r) * 10 ^ nat (t - prd_decimals r)"
    using assms by (simp flip: power_add nat_add_distrib)
  with assms show ?thesis by (simp add: scaleTo_def real_price_def Let_def)
qed

lemma bigint_div_pos: "0 < b \<Longrightarrow> 0 \<le> a \<Longrightarrow> bigint_div a b = a div b"
  by (cases "a = 0") (simp_all add: bigint_div_def sgn_if)

lemma int_div_le_iff: "0 < (b::int) \<Longrightarrow> a div b \<le> m \<longleftrightarrow> a < (m + 1) * b"
proof -
  assume b: "0 < b"
  have a: "b * (a div b) \<le> a" "a < b * (a div b) + b"
    using b mult_div_mod_eq [of b a] pos_mod_sign [OF b, of a] pos_mod_bound [OF b, of a] by linarith+
  show ?thesis
  proof (cases "a div b \<le> m")
    case True
    then have "b * (a div b) + b \<le> (m + 1) * b" using b by (simp add: algebra_simps)
    with a True show ?thesis by linarith
  next
    case False
    then have "(m + 1) * b \<le> b * (a div b)" using b by (simp add: mult.commute)
    with a False show ?thesis by linarith
  qed
qed

lemma checkDeviation_scaled:
  fixes a b :: price_reading
  defines "t \<equiv> max (prd_decimals a) (prd_decimals b)"
  shows "checkDeviation a b m = GuardOk \<longleftrightarrow> 0 < scaleTo a t \<and> 0 < scaleTo b t \<and>
    \<bar>scaleTo a t - scaleTo b t\<bar> * 10000 < (m + 1) * min (scaleTo a t) (scaleTo b t)"
proof (cases "0 < scaleTo a t \<and> 0 < scaleTo b t")
  case True
  let ?A = "scaleTo a t" and ?B = "scaleTo b t"
  have "checkDeviation a b m = GuardOk \<longleftrightarrow> bigint_div (\<bar>?A - ?B\<bar> * 10000) (min ?A ?B) \<le> m"
    using True by (auto simp: checkDeviation_def t_def [symmetric] Let_def min_def abs_if)
  also have "\<dots> \<longleftrightarrow> \<bar>?A - ?B\<bar> * 10000 < (m + 1) * min ?A ?B"
    using True by (simp add: bigint_div_pos int_div_le_iff)
  finally show ?thesis using True by blast
qed (auto simp: checkDeviation_def t_def [symmetric] Let_def)

lemma checkDeviation_prices:
  assumes "0 \<le> prd_decimals a" and "0 \<le> prd_decimals b"
  shows "checkDeviation a b m = GuardOk \<longleftrightarrow> 0 < real_price a \<and> 0 < real_price b \<and>
    \<bar>real_price a - real_price b\<bar> * 10000 < (of_int m + 1) * min (real_price a) (real_price b)"
proof -
  define t where "t = max (prd_decimals a) (prd_decimals b)"
  define k :: rat where "k = 10 ^ nat t"
  have k: "0 < k" by (simp add: k_def)
  let ?A = "scaleTo a t" and ?B = "scaleTo b t"
  have A: "of_int ?A = real_price a * k" and B: "of_int ?B = real_price b * k"
    using assms scaleTo_exact by (simp_all add: t_def k_def)
  have pos: "0 < ?A \<longleftrightarrow> 0 < real_price a" "0 < ?B \<longleftrightarrow> 0 < real_price b"
    using A B k by (metis of_int_0_less_iff zero_less_mult_pos2 mult_pos_pos)+
  have mn: "of_int (min ?A ?B) = min (real_price a) (real_price b) * k"
    using A B k by (simp add: of_int_min min_mult_distrib_right)
  have ab: "of_int \<bar>?A - ?B\<bar> = \<bar>real_price a - real_price b\<bar> * k"
    using A B k by (simp add: abs_mult flip: left_diff_distrib)
  have "\<bar>?A - ?B\<bar> * 10000 < (m + 1) * min ?A ?B \<longleftrightarrow>
      (of_int (\<bar>?A - ?B\<bar> * 10000) :: rat) < of_int ((m + 1) * min ?A ?B)"
    by (simp only: of_int_less_iff)
  also have "\<dots> \<longleftrightarrow> (\<bar>real_price a - real_price b\<bar> * 10000) * k < ((of_int m + 1) * min (real_price a) (real_price b)) * k"
    by (simp only: of_int_mult of_int_add of_int_1 of_int_numeral mn ab) (simp add: mult_ac)
  also have "\<dots> \<longleftrightarrow> \<bar>real_price a - real_price b\<bar> * 10000 < (of_int m + 1) * min (real_price a) (real_price b)"
    using k by (simp only: mult_less_cancel_right_pos)
  finally show ?thesis unfolding checkDeviation_scaled t_def [symmetric] using pos by simp
qed

section \<open>Fees\<close>

record fee_config =
  fc_feeMultiplier :: "js_number option"
  fc_maxFeeStroops :: "js_number option"

record resolved_fee =
  rf_totalStroops :: int
  rf_resourceFeeStroops :: int
  rf_simulatedResourceFeeStroops :: rat
  rf_multiplier :: rat

datatype fee_error =
    UnusableSimulatedFee
  | MultiplierBelowOne
  | MultiplierAboveCeiling rat
  | MaxFeeNotPositiveInteger
  | FeeCapExceededError int rat

definition DEFAULT_FEE_MULTIPLIER :: rat where "DEFAULT_FEE_MULTIPLIER = 3 / 2"

definition MAX_FEE_MULTIPLIER :: rat where "MAX_FEE_MULTIPLIER = 10"

definition DEFAULT_MAX_FEE_STROOPS :: rat where "DEFAULT_MAX_FEE_STROOPS = 10000000"

definition BASE_FEE_STROOPS :: int where "BASE_FEE_STROOPS = 100"

definition resolveFee :: "js_number \<Rightarrow> fee_config \<Rightarrow> (fee_error, resolved_fee) result" where
  "resolveFee simulatedResourceFee config =
     (case simulatedResourceFee of
        NotFinite \<Rightarrow> Inl UnusableSimulatedFee
      | Finite simulated \<Rightarrow>
          if simulated < 0 then Inl UnusableSimulatedFee
          else case (case fc_feeMultiplier config of Some m \<Rightarrow> m | None \<Rightarrow> Finite DEFAULT_FEE_MULTIPLIER) of
            NotFinite \<Rightarrow> Inl MultiplierBelowOne
          | Finite multiplier \<Rightarrow>
              if multiplier < 1 then Inl MultiplierBelowOne
              else if multiplier > MAX_FEE_MULTIPLIER then Inl (MultiplierAboveCeiling multiplier)
              else case (case fc_maxFeeStroops config of Some m \<Rightarrow> m | None \<Rightarrow> Finite DEFAULT_MAX_FEE_STROOPS) of
                NotFinite \<Rightarrow> Inl MaxFeeNotPositiveInteger
              | Finite maxFeeStroops \<Rightarrow>
                  if of_int \<lfloor>maxFeeStroops\<rfloor> \<noteq> maxFeeStroops \<or> maxFeeStroops \<le> 0
                  then Inl MaxFeeNotPositiveInteger
                  else let resourceFeeStroops = \<lceil>simulated * multiplier\<rceil>;
                           totalStroops = resourceFeeStroops + BASE_FEE_STROOPS
                    in if of_int totalStroops > maxFeeStroops
                       then Inl (FeeCapExceededError totalStroops maxFeeStroops)
                       else Inr \<lparr>rf_totalStroops = totalStroops, rf_resourceFeeStroops = resourceFeeStroops,
                         rf_simulatedResourceFeeStroops = simulated, rf_multiplier = multiplier\<rparr>)"

section \<open>Properties\<close>

text \<open>
  the breaker opens on exactly the consecutive trips it is configured for and only a human
  closes it. In any run of a breaker with a positive limit \<open>n\<close>: if it is open, the run contains a
  stretch of \<open>n\<close> trips with no clean check in between, and no re-enable came after it; and \<open>n\<close>
  trips in a row open it, after which it stays open until a re-enable, however many clean checks
  follow.
\<close>

theorem breaker_opens_on_consecutive_trips:
  assumes "0 < n"
  shows "(breaker_isOpen (fold breaker_run ops (newCircuitBreaker n)) \<longrightarrow>
      (\<exists>pre seg post. ops = pre @ seg @ post \<and> trip_run n seg \<and> \<not> list_ex is_reenable post)) \<and>
    (\<forall>pre trips post. ops = pre @ trips @ post \<and> (\<forall>op \<in> set trips. is_trip op) \<and> length trips = n \<and>
      \<not> list_ex is_reenable post \<longrightarrow> breaker_isOpen (fold breaker_run ops (newCircuitBreaker n)))"
proof (intro conjI impI allI)
  assume "breaker_isOpen (fold breaker_run ops (newCircuitBreaker n))"
  with breaker_inv_run [OF assms, of ops]
  show "\<exists>pre seg post. ops = pre @ seg @ post \<and> trip_run n seg \<and> \<not> list_ex is_reenable post"
    by (auto simp: breaker_inv_def breaker_isOpen_def split: breaker_state.splits)
next
  fix pre trips post
  assume h: "ops = pre @ trips @ post \<and> (\<forall>op \<in> set trips. is_trip op) \<and> length trips = n \<and> \<not> list_ex is_reenable post"
  let ?b = "fold breaker_run pre (newCircuitBreaker n)"
  have mx: "cb_maxConsecutiveTrips ?b = n" using breaker_inv_run [OF assms, of pre] by (simp add: breaker_inv_def)
  have "breaker_isOpen (fold breaker_run trips ?b)"
  proof (cases "cb_state ?b")
    case (BreakerClosed c)
    then show ?thesis using h mx assms by (intro trips_open [of trips ?b c]) auto
  next
    case (BreakerOpen since ts)
    moreover have "\<not> list_ex is_reenable trips" using h trip_not_reenable by (auto simp: list_ex_iff)
    ultimately show ?thesis using breaker_stays_open [of ?b trips] by (simp add: breaker_isOpen_def)
  qed
  with h show "breaker_isOpen (fold breaker_run ops (newCircuitBreaker n))"
    using breaker_stays_open by simp
qed

definition example_trip :: "int \<Rightarrow> guard_trip" where
  "example_trip t = \<lparr>gt_workerId = ''k'', gt_occurredAtUnix = t, gt_reason = ''stale''\<rparr>"

theorem breaker_opens_on_consecutive_trips_witness:
  "breaker_isOpen (fold breaker_run [Trip (example_trip 1), Trip (example_trip 2), Success] (newCircuitBreaker 2))"
proof -
  let ?ops = "[Trip (example_trip 1), Trip (example_trip 2), Success]"
  have "?ops = [] @ [Trip (example_trip 1), Trip (example_trip 2)] @ [Success] \<and>
      (\<forall>op \<in> set [Trip (example_trip 1), Trip (example_trip 2)]. is_trip op) \<and>
      length [Trip (example_trip 1), Trip (example_trip 2)] = 2 \<and> \<not> list_ex is_reenable [Success]" by simp
  moreover have "(0::nat) < 2" by simp
  ultimately show ?thesis using breaker_opens_on_consecutive_trips [of 2 ?ops] by metis
qed

text \<open>
  a trip recorded while the breaker is open replaces the evidence. The comments say that an
  open breaker retains the trips that opened it and that further trips do not change its state; a
  further trip rewrites \<open>trippingTrips\<close> to the most recent ones, so that after as many further
  trips as the limit none of the trips that opened it is retained.
\<close>

theorem open_breaker_forgets_tripping_trips:
  assumes "cb_state b = BreakerOpen since ts" and "0 < cb_maxConsecutiveTrips b"
    and "length rs = cb_maxConsecutiveTrips b"
  shows "cb_state (fold breaker_run (map Trip rs) b) = BreakerOpen since rs"
proof -
  have gen: "cb_state b = BreakerOpen since ts \<Longrightarrow> xs \<noteq> [] \<Longrightarrow>
      cb_state (fold breaker_run (map Trip xs) b) =
        BreakerOpen since (slice_last (cb_maxConsecutiveTrips b) (cb_trips b @ xs))" for b ts xs
  proof (induction xs arbitrary: b ts)
    case (Cons x xs)
    then show ?case
      by (cases "xs = []") (simp_all add: recordTrip_def Let_def)
  qed simp
  have "rs \<noteq> []" using assms by auto
  with gen [OF assms(1)] assms show ?thesis by (simp add: slice_last_def)
qed

theorem open_breaker_forgets_tripping_trips_witness:
  "cb_state (fold breaker_run (map Trip [example_trip 9])
     \<lparr>cb_maxConsecutiveTrips = 1, cb_state = BreakerOpen 5 [example_trip 5], cb_trips = [example_trip 5],
      cb_reenables = []\<rparr>) = BreakerOpen 5 [example_trip 9]"
  by (rule open_breaker_forgets_tripping_trips) simp_all

text \<open>
  a price passes the guard exactly when both readings are fresh (not older than the bound and
  not from the future), both prices are positive, and their exact relative divergence against the
  smaller one is below one basis point more than the bound: the integer division drops the
  fraction of a basis point, never more. The verdict does not depend on which reading is primary.
\<close>

theorem price_guard_exact:
  assumes "0 \<le> prd_decimals a" and "0 \<le> prd_decimals b"
  shows "(checkPriceGuard a b config now = GuardOk \<longleftrightarrow>
      (\<forall>r \<in> {a, b}. 0 \<le> now - prd_observedAtUnix r \<and> now - prd_observedAtUnix r \<le> pg_maxAgeSeconds config \<and>
         0 < real_price r) \<and>
      \<bar>real_price a - real_price b\<bar> * 10000 <
        (of_int (pg_maxDivergenceBps config) + 1) * min (real_price a) (real_price b)) \<and>
    (checkPriceGuard a b config now = GuardOk \<longleftrightarrow> checkPriceGuard b a config now = GuardOk)"
proof -
  have ok: "checkPriceGuard x y config now = GuardOk \<longleftrightarrow>
      checkStaleness x (pg_maxAgeSeconds config) now = GuardOk \<and> checkStaleness y (pg_maxAgeSeconds config) now = GuardOk \<and>
      checkDeviation x y (pg_maxDivergenceBps config) = GuardOk" for x y
    by (auto simp: checkPriceGuard_def Let_def)
  have fresh: "checkStaleness x m now = GuardOk \<longleftrightarrow> 0 \<le> now - prd_observedAtUnix x \<and> now - prd_observedAtUnix x \<le> m"
    for x m by (simp add: checkStaleness_def Let_def)
  show ?thesis
    unfolding ok fresh checkDeviation_prices [OF assms] checkDeviation_prices [OF assms(2,1)]
    by (auto simp: abs_minus_commute min.commute)
qed

theorem price_guard_exact_witness:
  "checkPriceGuard \<lparr>prd_price = 1000, prd_decimals = 2, prd_observedAtUnix = 90, prd_source = ''a''\<rparr>
     \<lparr>prd_price = 10, prd_decimals = 0, prd_observedAtUnix = 95, prd_source = ''b''\<rparr>
     \<lparr>pg_maxAgeSeconds = 10, pg_maxDivergenceBps = 50\<rparr> 100 = GuardOk"
  using price_guard_exact [of "\<lparr>prd_price = 1000, prd_decimals = 2, prd_observedAtUnix = 90, prd_source = ''a''\<rparr>"
      "\<lparr>prd_price = 10, prd_decimals = 0, prd_observedAtUnix = 95, prd_source = ''b''\<rparr>"
      "\<lparr>pg_maxAgeSeconds = 10, pg_maxDivergenceBps = 50\<rparr>" 100]
  by (simp add: real_price_def)

text \<open>
  every fee that is signed for is padded and capped. A fee is resolved only for a usable
  simulated fee, a multiplier between 1 and 10 and a positive integer cap; the resource part is at
  least the simulated fee and at most ten times it (rounded up), the total is that part plus the
  base fee, and it never exceeds the cap.
\<close>

theorem fee_padded_and_capped:
  assumes "resolveFee (Finite simulated) config = Inr fee"
  shows "0 \<le> simulated \<and> 1 \<le> rf_multiplier fee \<and> rf_multiplier fee \<le> 10 \<and>
    simulated \<le> of_int (rf_resourceFeeStroops fee) \<and> rf_resourceFeeStroops fee \<le> \<lceil>10 * simulated\<rceil> \<and>
    rf_totalStroops fee = rf_resourceFeeStroops fee + BASE_FEE_STROOPS \<and>
    (\<exists>cap. (fc_maxFeeStroops config = Some (Finite cap) \<or> fc_maxFeeStroops config = None \<and> cap = DEFAULT_MAX_FEE_STROOPS) \<and>
      0 < cap \<and> of_int (rf_totalStroops fee) \<le> cap)"
proof -
  obtain m cap where m: "1 \<le> m" "m \<le> 10" and s: "0 \<le> simulated"
    and cap: "fc_maxFeeStroops config = Some (Finite cap) \<or> fc_maxFeeStroops config = None \<and> cap = DEFAULT_MAX_FEE_STROOPS"
      "0 < cap" "of_int (\<lceil>simulated * m\<rceil> + BASE_FEE_STROOPS) \<le> cap"
    and fee: "rf_multiplier fee = m" "rf_resourceFeeStroops fee = \<lceil>simulated * m\<rceil>"
      "rf_totalStroops fee = \<lceil>simulated * m\<rceil> + BASE_FEE_STROOPS"
    using assms by (auto simp: resolveFee_def MAX_FEE_MULTIPLIER_def Let_def not_less not_le
        split: if_splits js_number.splits option.splits)
  have "simulated \<le> simulated * m" "simulated * m \<le> 10 * simulated"
    using mult_left_mono [OF m(1) s] mult_left_mono [OF m(2) s] by (simp_all add: mult.commute)
  then have "simulated \<le> of_int \<lceil>simulated * m\<rceil>" "\<lceil>simulated * m\<rceil> \<le> \<lceil>10 * simulated\<rceil>"
    by (meson le_of_int_ceiling order_trans, simp add: ceiling_mono)
  with m s cap fee show ?thesis by auto
qed

theorem fee_padded_and_capped_witness:
  "rf_totalStroops (projr (resolveFee (Finite 1001) \<lparr>fc_feeMultiplier = None, fc_maxFeeStroops = None\<rparr>)) = 1502 + BASE_FEE_STROOPS \<and>
   (1001 :: rat) \<le> 1502"
proof -
  let ?c = "\<lparr>fc_feeMultiplier = None, fc_maxFeeStroops = None\<rparr> :: fee_config"
  have "resolveFee (Finite 1001) ?c =
      Inr \<lparr>rf_totalStroops = 1602, rf_resourceFeeStroops = 1502, rf_simulatedResourceFeeStroops = 1001, rf_multiplier = 3 / 2\<rparr>"
    by code_simp
  from fee_padded_and_capped [OF this] this show ?thesis by (simp add: BASE_FEE_STROOPS_def)
qed

end
