(* ===== verification/Retry.thy ===== *)
theory Retry
  imports Js_Numbers
begin

text \<open>
  Failure handling of worker submissions: classification
  (\<^verbatim>\<open>packages/worker-core/src/errors.ts\<close>), the retry policy and the retry queues
  (\<^verbatim>\<open>retry.ts\<close>, with \<open>fullJitterBackoffMs\<close> of \<^verbatim>\<open>packages/pulse-core/src/backoff.ts\<close>), and the dead-letter
  store (\<^verbatim>\<open>WorkerDeadLetterStore.ts\<close>). \<open>Math.random\<close> is an argument; the queue interface is the locale
  \<open>worker_retry_queue\<close>.
\<close>

section \<open>Classification\<close>

datatype failure_kind =
    RpcTimeout | RpcNetwork | LedgerContention | InsufficientFee | RateLimit
  | ContractRejection | ContractInvalid | Unauthorized | UnknownFailure

record submission_failure =
  sf_kind :: failure_kind
  sf_message :: string
  sf_retryable :: bool

text \<open>
  What a submission can throw: a \<open>SorobanRpcError\<close> (code, message, retryable flag), another \<open>Error\<close>
  (message, \<open>result_code\<close>, the name of its \<open>cause\<close> when that is an \<open>Error\<close>), a string, a plain object
  (its \<open>message\<close>, or \<open>String(error)\<close> without one, and its \<open>result_code\<close>), or anything else by its
  \<open>String(error)\<close>.
\<close>

datatype submit_error =
    SorobanRpcError string string bool
  | JsError string "string option" "string option"
  | StringError string
  | ObjectError string "string option"
  | OtherError string

definition mapRpcCode :: "string \<Rightarrow> failure_kind" where
  "mapRpcCode code =
     (if code = ''network'' then RpcNetwork
      else if code = ''rate_limit'' then RateLimit
      else if code = ''server'' then RpcTimeout
      else if code = ''auth'' then Unauthorized
      else ContractInvalid)"

fun extractMessage :: "submit_error \<Rightarrow> string" where
  "extractMessage (SorobanRpcError code msg r) = msg"
| "extractMessage (JsError msg rc cause) = msg"
| "extractMessage (StringError s) = s"
| "extractMessage (ObjectError s rc) = s"
| "extractMessage (OtherError s) = s"

fun extractResultCode :: "submit_error \<Rightarrow> string option" where
  "extractResultCode (JsError msg rc cause) = rc"
| "extractResultCode (ObjectError s rc) = rc"
| "extractResultCode _ = None"

fun hasNetworkCause :: "submit_error \<Rightarrow> bool" where
  "hasNetworkCause (JsError msg rc (Some name)) \<longleftrightarrow>
     (let n = toLowerCase name in str_includes n ''timeout'' \<or> str_includes n ''network'' \<or> str_includes n ''econn'')"
| "hasNetworkCause _ \<longleftrightarrow> False"

text \<open>The last parameter of \<open>matches\<close>, the expected code fragment, is not used by its body.\<close>

definition matches :: "string \<Rightarrow> string option \<Rightarrow> string list \<Rightarrow> bool" where
  "matches message code needles =
     (let haystack = toLowerCase (message @ '' '' @ (case code of Some c \<Rightarrow> c | None \<Rightarrow> []))
      in list_ex (\<lambda>needle. str_includes haystack (toLowerCase needle)) needles)"

definition terminalOrRetryable :: "failure_kind \<Rightarrow> string \<Rightarrow> bool \<Rightarrow> submission_failure" where
  "terminalOrRetryable kind message retryable =
     \<lparr>sf_kind = kind, sf_message = message, sf_retryable = retryable\<rparr>"

definition classifySubmissionError :: "submit_error \<Rightarrow> submission_failure" where
  "classifySubmissionError error =
     (case error of
        SorobanRpcError code msg retryable \<Rightarrow>
          \<lparr>sf_kind = mapRpcCode code, sf_message = msg, sf_retryable = retryable\<rparr>
      | _ \<Rightarrow>
          let message = extractMessage error; code = extractResultCode error in
          if matches message code [''insufficient fee'', ''tx_insufficient_fee'']
          then terminalOrRetryable InsufficientFee message True
          else if matches message code [''tx bad seq'', ''tx_too_early'', ''tx_too_late'', ''tx_outdated'',
            ''tx_duplication'', ''tx_duplicate'', ''bad seq'', ''too late'', ''too early'']
          then terminalOrRetryable LedgerContention message True
          else if matches message code [''rate limit'', ''too many requests'', ''throttled'']
          then terminalOrRetryable RateLimit message True
          else if matches message code [''timeout'', ''etimedout'', ''econnreset'', ''econnrefused'', ''network'', ''socket'']
          then terminalOrRetryable RpcTimeout message True
          else if hasNetworkCause error
          then terminalOrRetryable RpcNetwork message True
          else if matches message code [''contract'', ''op_invalid'', ''tx_failed'', ''wasm'', ''auth'', ''bad auth'',
            ''invalid auth'', ''rejected'']
          then terminalOrRetryable ContractRejection message False
          else if matches message code [''unauthorized'', ''unauthorised'', ''401'', ''403'']
          then terminalOrRetryable Unauthorized message False
          else terminalOrRetryable UnknownFailure message False)"

definition isRetryableSubmissionFailure :: "submit_error \<Rightarrow> bool" where
  "isRetryableSubmissionFailure error \<longleftrightarrow> sf_retryable (classifySubmissionError error)"

section \<open>Backoff and the retry policy\<close>

text \<open>\<open>random\<close> is the value of \<open>Math.random()\<close>, in the interval from 0 to 1, exclusive.\<close>

definition fullJitterBackoffMs :: "rat \<Rightarrow> int \<Rightarrow> rat \<Rightarrow> rat \<Rightarrow> int" where
  "fullJitterBackoffMs random attempt initialDelayMs maxDelayMs =
     (let exponentialDelay = min (initialDelayMs * 2 powi (attempt - 1)) maxDelayMs
      in \<lfloor>random * exponentialDelay\<rfloor>)"

record submission_handle =
  sh_submissionId :: string
  sh_windowDeadlineMs :: int

record retry_policy =
  rp_maxAttempts :: int
  rp_initialDelayMs :: rat
  rp_maxDelayMs :: rat
  rp_jitter :: bool

datatype retry_config_error = BadMaxAttempts | BadInitialDelay | BadMaxDelay

definition newRetryPolicy ::
  "js_number \<Rightarrow> js_number \<Rightarrow> js_number \<Rightarrow> bool option \<Rightarrow> (retry_config_error, retry_policy) result" where
  "newRetryPolicy maxAttempts initialDelayMs maxDelayMs jitter =
     (if \<not> js_isInteger maxAttempts \<or> (case maxAttempts of Finite q \<Rightarrow> q < 1 | NotFinite \<Rightarrow> True)
      then Inl BadMaxAttempts
      else if (case initialDelayMs of Finite q \<Rightarrow> q < 0 | NotFinite \<Rightarrow> True) then Inl BadInitialDelay
      else if (case maxDelayMs of Finite q \<Rightarrow> q < 0 | NotFinite \<Rightarrow> True) then Inl BadMaxDelay
      else Inr \<lparr>rp_maxAttempts = (case maxAttempts of Finite q \<Rightarrow> \<lfloor>q\<rfloor> | NotFinite \<Rightarrow> 0),
        rp_initialDelayMs = (case initialDelayMs of Finite q \<Rightarrow> q | NotFinite \<Rightarrow> 0),
        rp_maxDelayMs = (case maxDelayMs of Finite q \<Rightarrow> q | NotFinite \<Rightarrow> 0),
        rp_jitter = (case jitter of Some j \<Rightarrow> j | None \<Rightarrow> True)\<rparr>)"

definition delayForAttempt :: "retry_policy \<Rightarrow> rat \<Rightarrow> int \<Rightarrow> int" where
  "delayForAttempt policy random attempt =
     (let exponential = min (rp_initialDelayMs policy * 2 powi (attempt - 1)) (rp_maxDelayMs policy) in
      if \<not> rp_jitter policy then \<lfloor>exponential\<rfloor>
      else fullJitterBackoffMs random attempt (rp_initialDelayMs policy) (rp_maxDelayMs policy))"

datatype deadletter_reason = Terminal | WindowExpired | MaxAttempts

datatype retry_decision =
    RetryAt int int
  | DeadLetter deadletter_reason int submission_failure

definition decide :: "retry_policy \<Rightarrow> int \<Rightarrow> rat \<Rightarrow> int \<Rightarrow> submit_error \<Rightarrow> submission_handle \<Rightarrow> retry_decision" where
  "decide policy now random attempt error submission =
     (let failure = classifySubmissionError error in
      if \<not> sf_retryable failure then DeadLetter Terminal attempt failure
      else if attempt \<ge> rp_maxAttempts policy then DeadLetter MaxAttempts attempt failure
      else let delayMs = delayForAttempt policy random attempt;
               nextRetryAt = now + delayMs
        in if nextRetryAt > sh_windowDeadlineMs submission then DeadLetter WindowExpired attempt failure
           else RetryAt (attempt + 1) nextRetryAt)"

section \<open>Retry queues\<close>

record retry_record =
  wr_id :: string
  wr_submission :: submission_handle
  wr_attempt :: int
  wr_nextRetryAt :: int
  wr_lastError :: "string option"
  wr_failures :: "submission_failure list"
  wr_createdAt :: int
  wr_updatedAt :: int

definition makeRetryRecord ::
  "submission_handle \<Rightarrow> int \<Rightarrow> int \<Rightarrow> submission_failure \<Rightarrow> submission_failure list \<Rightarrow> int \<Rightarrow> retry_record" where
  "makeRetryRecord submission attempt nextRetryAt failure priorFailures now =
     \<lparr>wr_id = sh_submissionId submission, wr_submission = submission, wr_attempt = attempt,
      wr_nextRetryAt = nextRetryAt, wr_lastError = Some (sf_message failure),
      wr_failures = priorFailures @ [failure], wr_createdAt = now, wr_updatedAt = now\<rparr>"

definition earlier :: "retry_record \<Rightarrow> retry_record \<Rightarrow> bool" where
  "earlier r best \<longleftrightarrow> wr_nextRetryAt r < wr_nextRetryAt best \<or>
     wr_nextRetryAt r = wr_nextRetryAt best \<and> str_less (wr_id r) (wr_id best)"

text \<open>The selection loop of both \<open>dequeue\<close> methods, over the records with their positions.\<close>

fun best_due :: "int \<Rightarrow> (nat \<times> retry_record) list \<Rightarrow> (nat \<times> retry_record) option \<Rightarrow> (nat \<times> retry_record) option" where
  "best_due now [] best = best"
| "best_due now ((i, r) # rs) best =
     (if wr_nextRetryAt r > now then best_due now rs best
      else if (case best of None \<Rightarrow> True | Some (_, b) \<Rightarrow> earlier r b) then best_due now rs (Some (i, r))
      else best_due now rs best)"

subsection \<open>MemoryWorkerRetryQueue\<close>

record mem_retry_queue =
  mq_queued :: "(string, retry_record) js_map"
  mq_inFlight :: "(string, retry_record \<times> int) js_map"
  mq_visibilityTimeoutMs :: int

definition DEFAULT_VISIBILITY_TIMEOUT_MS :: rat where "DEFAULT_VISIBILITY_TIMEOUT_MS = 30000"

definition newMemoryQueue :: "rat option \<Rightarrow> mem_retry_queue" where
  "newMemoryQueue timeout = \<lparr>mq_queued = [], mq_inFlight = [],
     mq_visibilityTimeoutMs = max 1 \<lfloor>case timeout of Some t \<Rightarrow> t | None \<Rightarrow> DEFAULT_VISIBILITY_TIMEOUT_MS\<rfloor>\<rparr>"

definition mq_enqueue :: "int \<Rightarrow> retry_record \<Rightarrow> mem_retry_queue \<Rightarrow> mem_retry_queue" where
  "mq_enqueue now r q = q\<lparr>mq_queued := map_set (wr_id r) (r\<lparr>wr_updatedAt := now\<rparr>) (mq_queued q)\<rparr>"

fun reclaim_loop ::
  "int \<Rightarrow> (string \<times> retry_record \<times> int) list \<Rightarrow> mem_retry_queue \<Rightarrow> mem_retry_queue" where
  "reclaim_loop now [] q = q"
| "reclaim_loop now ((k, r, expiresAt) # es) q =
     (if expiresAt \<le> now
      then reclaim_loop now es (q\<lparr>mq_inFlight := map_del k (mq_inFlight q),
        mq_queued := map_set k (r\<lparr>wr_nextRetryAt := now, wr_updatedAt := now\<rparr>) (mq_queued q)\<rparr>)
      else reclaim_loop now es q)"

definition reclaimExpiredInFlight :: "int \<Rightarrow> mem_retry_queue \<Rightarrow> mem_retry_queue" where
  "reclaimExpiredInFlight now q = reclaim_loop now (mq_inFlight q) q"

definition mq_dequeue :: "int \<Rightarrow> mem_retry_queue \<Rightarrow> retry_record option \<times> mem_retry_queue" where
  "mq_dequeue now q =
     (let q = reclaimExpiredInFlight now q in
      case best_due now (enumerate 0 (map snd (mq_queued q))) None of
        None \<Rightarrow> (None, q)
      | Some (_, best) \<Rightarrow>
          (Some best, q\<lparr>mq_queued := map_del (wr_id best) (mq_queued q),
             mq_inFlight := map_set (wr_id best) (best, now + mq_visibilityTimeoutMs q) (mq_inFlight q)\<rparr>))"

definition mq_ack :: "string \<Rightarrow> mem_retry_queue \<Rightarrow> mem_retry_queue" where
  "mq_ack k q = q\<lparr>mq_inFlight := map_del k (mq_inFlight q), mq_queued := map_del k (mq_queued q)\<rparr>"

definition mq_size :: "mem_retry_queue \<Rightarrow> nat" where
  "mq_size q = length (mq_queued q)"

subsection \<open>FileWorkerRetryQueue\<close>

text \<open>
  The records of the file. Every mutation persists the whole list before it returns and the cache
  always equals it, so a restart (a new queue that loads the file) sees this list. Errors of the
  file system are not modelled.
\<close>

type_synonym file_queue = "retry_record list"

fun replace_first :: "string \<Rightarrow> retry_record \<Rightarrow> retry_record list \<Rightarrow> retry_record list option" where
  "replace_first k r [] = None"
| "replace_first k r (x # xs) =
     (if wr_id x = k then Some (r # xs) else map_option (\<lambda>ys. x # ys) (replace_first k r xs))"

definition fq_enqueue :: "int \<Rightarrow> retry_record \<Rightarrow> file_queue \<Rightarrow> file_queue" where
  "fq_enqueue now r records =
     (let updated = r\<lparr>wr_updatedAt := now\<rparr> in
      case replace_first (wr_id r) updated records of Some rs \<Rightarrow> rs | None \<Rightarrow> records @ [updated])"

definition fq_dequeue :: "int \<Rightarrow> file_queue \<Rightarrow> retry_record option \<times> file_queue" where
  "fq_dequeue now records =
     (case best_due now (enumerate 0 records) None of
        None \<Rightarrow> (None, records)
      | Some (i, best) \<Rightarrow> (Some best, take i records @ drop (Suc i) records))"

definition fq_ack :: "string \<Rightarrow> file_queue \<Rightarrow> file_queue" where
  "fq_ack k records = filter (\<lambda>r. wr_id r \<noteq> k) records"

definition fq_size :: "file_queue \<Rightarrow> nat" where
  "fq_size records = length records"


section \<open>The selection loop\<close>

lemma not_earlier:
  "\<not> earlier a b \<longleftrightarrow> wr_nextRetryAt b < wr_nextRetryAt a \<or>
     wr_nextRetryAt b = wr_nextRetryAt a \<and> (wr_id b = wr_id a \<or> str_less (wr_id b) (wr_id a))"
proof -
  have "\<not> str_less (wr_id a) (wr_id b) \<longleftrightarrow> wr_id b = wr_id a \<or> str_less (wr_id b) (wr_id a)"
    using str_less_linear [of "wr_id a" "wr_id b"] str_less_trans [of "wr_id a" "wr_id b" "wr_id a"]
    by (metis str_less_irrefl)
  then show ?thesis by (auto simp: earlier_def)
qed

lemma not_earlier_trans: "\<not> earlier a b \<Longrightarrow> \<not> earlier b c \<Longrightarrow> \<not> earlier a c"
  unfolding not_earlier using str_less_trans by auto

lemma earlier_asym: "earlier a b \<Longrightarrow> \<not> earlier b a"
  by (auto simp: not_earlier) (auto simp: earlier_def)

lemma best_due_None: "best_due now rs best = None \<Longrightarrow> best = None \<and> (\<forall>(i, r) \<in> set rs. now < wr_nextRetryAt r)"
  by (induction now rs best rule: best_due.induct) (auto split: if_splits option.splits)

lemma best_due_Some:
  "best_due now rs best = Some (i, r) \<Longrightarrow>
   ((i, r) \<in> set rs \<and> wr_nextRetryAt r \<le> now \<or> best = Some (i, r)) \<and>
   (\<forall>(j, r') \<in> set rs. wr_nextRetryAt r' \<le> now \<longrightarrow> \<not> earlier r' r) \<and>
   (\<forall>b. best = Some b \<longrightarrow> \<not> earlier (snd b) r)"
proof (induction now rs best rule: best_due.induct)
  case (1 now best)
  then show ?case by (auto simp: earlier_def)
next
  case (2 now j x rs best)
  show ?case
  proof (cases "wr_nextRetryAt x > now")
    case True
    with 2 show ?thesis by auto
  next
    case False
    show ?thesis
    proof (cases "case best of None \<Rightarrow> True | Some (_, b) \<Rightarrow> earlier x b")
      case True
      then have rec: "best_due now rs (Some (j, x)) = Some (i, r)" using 2(4) False by simp
      from 2(2) [OF False True rec] have ih: "\<not> earlier x r"
          "((i, r) \<in> set rs \<and> wr_nextRetryAt r \<le> now \<or> (j, x) = (i, r))"
          "\<forall>(j, r') \<in> set rs. wr_nextRetryAt r' \<le> now \<longrightarrow> \<not> earlier r' r"
        by auto
      have "\<not> earlier (snd b) r" if "best = Some b" for b
      proof -
        have "earlier x (snd b)" using True that by (cases b) auto
        with earlier_asym not_earlier_trans ih(1) show ?thesis by blast
      qed
      with ih False show ?thesis by auto
    next
      case F: False
      then obtain b where b: "best = Some b" "\<not> earlier x (snd b)" by (cases best) auto
      from 2(3) [OF False F] 2(4) False F
      have ih: "((i, r) \<in> set rs \<and> wr_nextRetryAt r \<le> now \<or> best = Some (i, r))"
          "\<forall>(j, r') \<in> set rs. wr_nextRetryAt r' \<le> now \<longrightarrow> \<not> earlier r' r"
          "\<forall>b. best = Some b \<longrightarrow> \<not> earlier (snd b) r"
        by auto
      have "\<not> earlier x r" using b ih(3) not_earlier_trans by blast
      with ih show ?thesis by auto
    qed
  qed
qed

lemma best_due_first:
  assumes "best_due now (enumerate 0 rs) None = Some (i, r)"
  shows "i < length rs \<and> rs ! i = r \<and> wr_nextRetryAt r \<le> now \<and>
    (\<forall>r' \<in> set rs. wr_nextRetryAt r' \<le> now \<longrightarrow> \<not> earlier r' r)"
proof -
  have "(i, r) \<in> set (enumerate 0 rs)" and due: "wr_nextRetryAt r \<le> now"
    and first: "\<forall>(j, r') \<in> set (enumerate 0 rs). wr_nextRetryAt r' \<le> now \<longrightarrow> \<not> earlier r' r"
    using best_due_Some [OF assms] by auto
  then have "i < length rs" "rs ! i = r" by (auto simp: in_set_enumerate_eq)
  moreover have "\<not> earlier r' r" if r': "r' \<in> set rs" "wr_nextRetryAt r' \<le> now" for r'
  proof -
    obtain j where "j < length rs" "rs ! j = r'" using r'(1) by (auto simp: in_set_conv_nth)
    then have "(j, r') \<in> set (enumerate 0 rs)" by (simp add: in_set_enumerate_eq)
    with first r'(2) show ?thesis by auto
  qed
  ultimately show ?thesis using due by blast
qed

section \<open>The WorkerRetryQueue interface\<close>

fun drain :: "(int \<Rightarrow> 's \<Rightarrow> retry_record option \<times> 's) \<Rightarrow> nat \<Rightarrow> int \<Rightarrow> 's \<Rightarrow> retry_record list" where
  "drain dequeue 0 now q = []"
| "drain dequeue (Suc n) now q =
     (case dequeue now q of (None, q') \<Rightarrow> [] | (Some r, q') \<Rightarrow> r # drain dequeue n now q')"

text \<open>\<open>visible now q\<close> are the records the queue could hand out at \<open>now\<close>.\<close>

locale worker_retry_queue =
  fixes enqueue :: "int \<Rightarrow> retry_record \<Rightarrow> 's \<Rightarrow> 's"
    and dequeue :: "int \<Rightarrow> 's \<Rightarrow> retry_record option \<times> 's"
    and ack :: "string \<Rightarrow> 's \<Rightarrow> 's"
    and visible :: "int \<Rightarrow> 's \<Rightarrow> retry_record list"
    and invar :: "'s \<Rightarrow> bool"
  assumes dequeue_first: "invar q \<Longrightarrow> dequeue now q = (Some r, q') \<Longrightarrow>
      r \<in> set (visible now q) \<and> wr_nextRetryAt r \<le> now \<and>
      (\<forall>r' \<in> set (visible now q). wr_nextRetryAt r' \<le> now \<longrightarrow> \<not> earlier r' r) \<and>
      set (visible now q') = set (visible now q) - {r}"
    and dequeue_empty: "invar q \<Longrightarrow> dequeue now q = (None, q') \<Longrightarrow>
      \<forall>r \<in> set (visible now q). now < wr_nextRetryAt r"
    and dequeue_invar: "invar q \<Longrightarrow> invar (snd (dequeue now q))"
    and enqueue_invar: "invar q \<Longrightarrow> invar (enqueue now r q)"
    and ack_invar: "invar q \<Longrightarrow> invar (ack k q)"
    and ack_gone: "invar q \<Longrightarrow> r \<in> set (visible now (ack k q)) \<Longrightarrow> wr_id r \<noteq> k"
begin

lemma drain_subset: "invar q \<Longrightarrow> set (drain dequeue n now q) \<subseteq> {r \<in> set (visible now q). wr_nextRetryAt r \<le> now}"
proof (induction n arbitrary: q)
  case (Suc n)
  show ?case
  proof (cases "dequeue now q")
    case (Pair o' q')
    then have "invar q'" using dequeue_invar [OF Suc.prems, of now] by simp
    with Suc Pair show ?thesis using dequeue_first [OF Suc.prems, of now] by (cases o') force+
  qed
qed simp

lemma drain_sorted:
  "invar q \<Longrightarrow> sorted_wrt (\<lambda>r r'. \<not> earlier r' r) (drain dequeue n now q) \<and> distinct (drain dequeue n now q)"
proof (induction n arbitrary: q)
  case (Suc n)
  show ?case
  proof (cases "dequeue now q")
    case (Pair o' q')
    show ?thesis
    proof (cases o')
      case (Some r)
      have inv: "invar q'" using dequeue_invar [OF Suc.prems, of now] Pair by simp
      have f: "\<forall>r' \<in> set (visible now q). wr_nextRetryAt r' \<le> now \<longrightarrow> \<not> earlier r' r"
          "set (visible now q') = set (visible now q) - {r}"
        using dequeue_first [OF Suc.prems] Pair Some by auto
      with drain_subset [OF inv, of n now] Suc.IH [OF inv] Pair Some show ?thesis by auto
    qed (use Pair in simp)
  qed
qed simp

lemma drain_complete:
  "invar q \<Longrightarrow> card (set (visible now q)) < n \<Longrightarrow>
   set (drain dequeue n now q) = {r \<in> set (visible now q). wr_nextRetryAt r \<le> now}"
proof (induction n arbitrary: q)
  case (Suc n)
  show ?case
  proof (cases "dequeue now q")
    case (Pair o' q')
    show ?thesis
    proof (cases o')
      case None
      with Pair dequeue_empty [OF Suc.prems(1)] show ?thesis by fastforce
    next
      case (Some r)
      have inv: "invar q'" using dequeue_invar [OF Suc.prems(1), of now] Pair by simp
      have f: "r \<in> set (visible now q)" "wr_nextRetryAt r \<le> now" "set (visible now q') = set (visible now q) - {r}"
        using dequeue_first [OF Suc.prems(1)] Pair Some by auto
      then have "card (set (visible now q')) < n" 
        using card_Diff1_less [OF finite_set f(1)] Suc.prems(2) by simp
      from Suc.IH [OF inv this] f Pair Some show ?thesis by auto
    qed
  qed
qed simp

end


section \<open>The in-memory queue provides the interface\<close>

definition mq_ok :: "mem_retry_queue \<Rightarrow> bool" where
  "mq_ok q \<longleftrightarrow> map_wf (mq_queued q) \<and> map_wf (mq_inFlight q) \<and> 1 \<le> mq_visibilityTimeoutMs q \<and>
     (\<forall>(k, r) \<in> set (mq_queued q). wr_id r = k) \<and> (\<forall>(k, r, e) \<in> set (mq_inFlight q). wr_id r = k)"

definition mq_visible :: "int \<Rightarrow> mem_retry_queue \<Rightarrow> retry_record list" where
  "mq_visible now q = map snd (mq_queued (reclaimExpiredInFlight now q))"

lemma mq_ok_requeue:
  assumes "mq_ok q" and "wr_id r = k"
  shows "mq_ok (q\<lparr>mq_inFlight := map_del k (mq_inFlight q), mq_queued := map_set k r (mq_queued q)\<rparr>)"
proof -
  have "map_wf (mq_queued q)" "map_wf (mq_inFlight q)" using assms(1) by (auto simp: mq_ok_def)
  moreover have "\<forall>(k, r) \<in> set (map_set k r (mq_queued q)). wr_id r = k"
    using assms calculation unfolding mq_ok_def by (simp only: set_map_set) auto
  moreover have "\<forall>(k, r, e) \<in> set (map_del k (mq_inFlight q)). wr_id r = k"
    using assms(1) unfolding mq_ok_def set_map_del by blast
  ultimately show ?thesis using assms(1) by (simp add: mq_ok_def)
qed

lemma reclaim_loop_ok:
  "mq_ok q \<Longrightarrow> \<forall>(k, r, e) \<in> set es. wr_id r = k \<Longrightarrow> mq_ok (reclaim_loop now es q)"
proof (induction now es q rule: reclaim_loop.induct)
  case (2 now k r e es q)
  have "mq_ok (q\<lparr>mq_inFlight := map_del k (mq_inFlight q),
      mq_queued := map_set k (r\<lparr>wr_nextRetryAt := now, wr_updatedAt := now\<rparr>) (mq_queued q)\<rparr>)"
    using 2(4) by (intro mq_ok_requeue [OF 2(3)]) simp
  with 2 show ?case by simp
qed simp

lemma reclaim_loop_inFlight:
  "(k, r, e) \<in> set (mq_inFlight (reclaim_loop now es q)) \<Longrightarrow>
   (k, r, e) \<in> set (mq_inFlight q) \<and> ((k, r, e) \<in> set es \<longrightarrow> now < e)"
  by (induction now es q rule: reclaim_loop.induct) (auto simp: set_map_del split: if_splits)

lemma reclaim_ok: "mq_ok q \<Longrightarrow> mq_ok (reclaimExpiredInFlight now q)"
  unfolding reclaimExpiredInFlight_def by (rule reclaim_loop_ok) (auto simp: mq_ok_def)

lemma reclaim_live: "(k, r, e) \<in> set (mq_inFlight (reclaimExpiredInFlight now q)) \<Longrightarrow> now < e"
  unfolding reclaimExpiredInFlight_def using reclaim_loop_inFlight by blast

lemma reclaim_idle:
  assumes "\<forall>(k, r, e) \<in> set (mq_inFlight q). now < e"
  shows "reclaimExpiredInFlight now q = q"
proof -
  have "\<forall>(k, r, e) \<in> set es. now < e \<Longrightarrow> reclaim_loop now es q = q" for es
    by (induction es) auto
  with assms show ?thesis by (simp add: reclaimExpiredInFlight_def)
qed

lemma mq_dequeue_some:
  assumes ok: "mq_ok q" and d: "mq_dequeue now q = (Some r, q')"
  shows "mq_ok q' \<and> r \<in> set (mq_visible now q) \<and> wr_nextRetryAt r \<le> now \<and>
    (\<forall>r' \<in> set (mq_visible now q). wr_nextRetryAt r' \<le> now \<longrightarrow> \<not> earlier r' r) \<and>
    set (mq_visible now q') = set (mq_visible now q) - {r}"
proof -
  let ?q = "reclaimExpiredInFlight now q"
  have okq: "mq_ok ?q" by (rule reclaim_ok [OF ok])
  obtain i where i: "best_due now (enumerate 0 (map snd (mq_queued ?q))) None = Some (i, r)"
    and q': "q' = ?q\<lparr>mq_queued := map_del (wr_id r) (mq_queued ?q),
      mq_inFlight := map_set (wr_id r) (r, now + mq_visibilityTimeoutMs ?q) (mq_inFlight ?q)\<rparr>"
    using d by (auto simp: mq_dequeue_def Let_def split: option.splits)
  have first: "r \<in> set (map snd (mq_queued ?q))" "wr_nextRetryAt r \<le> now"
      "\<forall>r' \<in> set (map snd (mq_queued ?q)). wr_nextRetryAt r' \<le> now \<longrightarrow> \<not> earlier r' r"
    using best_due_first [OF i] nth_mem by blast+
  have okq': "mq_ok q'" using okq unfolding q' by (auto simp: mq_ok_def set_map_set set_map_del)
  have "\<forall>(k, x, e) \<in> set (mq_inFlight q'). now < e"
    using okq reclaim_live [of _ _ _ now q] unfolding q' by (auto simp: mq_ok_def set_map_set)
  then have "mq_visible now q' = map snd (map_del (wr_id r) (mq_queued ?q))"
    unfolding mq_visible_def by (simp add: reclaim_idle) (simp add: q')
  moreover have "snd ` set (map_del (wr_id r) (mq_queued ?q)) = snd ` set (mq_queued ?q) - {r}"
  proof -
    have own: "\<forall>(k, x) \<in> set (mq_queued ?q). wr_id x = k" using okq by (simp add: mq_ok_def)
    have inj: "(k, x) \<in> set (mq_queued ?q) \<Longrightarrow> (k, y) \<in> set (mq_queued ?q) \<Longrightarrow> x = y" for k x y
      using okq by (auto simp: mq_ok_def map_wf_def eq_key_imp_eq_value)
    obtain k where k: "(k, r) \<in> set (mq_queued ?q)" "k = wr_id r" using first(1) own by fastforce
    have "x \<noteq> r \<longleftrightarrow> j \<noteq> wr_id r" if "(j, x) \<in> set (mq_queued ?q)" for j x
      using own that k inj by blast
    then show ?thesis unfolding set_map_del by (auto simp: image_iff) blast+
  qed
  ultimately show ?thesis using first okq' by (simp add: mq_visible_def)
qed

lemma mq_dequeue_none:
  "mq_dequeue now q = (None, q') \<Longrightarrow>
   q' = reclaimExpiredInFlight now q \<and> (\<forall>r \<in> set (mq_visible now q). now < wr_nextRetryAt r)"
proof -
  assume d: "mq_dequeue now q = (None, q')"
  then have "best_due now (enumerate 0 (mq_visible now q)) None = None" and q': "q' = reclaimExpiredInFlight now q"
    by (auto simp: mq_dequeue_def mq_visible_def Let_def split: option.splits)
  then have *: "\<forall>(i, r) \<in> set (enumerate 0 (mq_visible now q)). now < wr_nextRetryAt r" using best_due_None by blast
  have "now < wr_nextRetryAt r" if "r \<in> set (mq_visible now q)" for r
  proof -
    from that obtain i where "i < length (mq_visible now q)" "mq_visible now q ! i = r"
      by (auto simp: in_set_conv_nth)
    then have "(i, r) \<in> set (enumerate 0 (mq_visible now q))" by (simp add: in_set_enumerate_eq)
    with * show ?thesis by auto
  qed
  with q' show ?thesis by blast
qed

lemma reclaim_loop_ids:
  "r \<in> snd ` set (mq_queued (reclaim_loop now es q)) \<Longrightarrow> mq_ok q \<Longrightarrow> \<forall>(k, r, e) \<in> set es. wr_id r = k \<Longrightarrow>
   wr_id r \<in> fst ` set (mq_queued q) \<union> fst ` set es"
proof (induction now es q rule: reclaim_loop.induct)
  case (1 now q)
  then obtain k where "(k, r) \<in> set (mq_queued q)" by auto
  moreover from this 1(2) have "wr_id r = k" by (auto simp: mq_ok_def)
  ultimately show ?case by force
next
  case (2 now k x e es q)
  have "mq_ok (q\<lparr>mq_inFlight := map_del k (mq_inFlight q),
      mq_queued := map_set k (x\<lparr>wr_nextRetryAt := now, wr_updatedAt := now\<rparr>) (mq_queued q)\<rparr>)"
    using 2(5) by (intro mq_ok_requeue [OF 2(4)]) simp
  with 2 show ?case by (auto simp: keys_set split: if_splits)
qed

interpretation mem_queue: worker_retry_queue mq_enqueue mq_dequeue mq_ack mq_visible mq_ok
proof unfold_locales
  fix q q' now r
  assume "mq_ok q" "mq_dequeue now q = (Some r, q')"
  then show "r \<in> set (mq_visible now q) \<and> wr_nextRetryAt r \<le> now \<and>
      (\<forall>r' \<in> set (mq_visible now q). wr_nextRetryAt r' \<le> now \<longrightarrow> \<not> earlier r' r) \<and>
      set (mq_visible now q') = set (mq_visible now q) - {r}"
    using mq_dequeue_some by blast
next
  fix q q' now
  assume "mq_dequeue now q = (None, q')"
  then show "\<forall>r \<in> set (mq_visible now q). now < wr_nextRetryAt r" using mq_dequeue_none by blast
next
  fix q now assume ok: "mq_ok q"
  show "mq_ok (snd (mq_dequeue now q))"
  proof (cases "mq_dequeue now q")
    case (Pair o' q')
    then show ?thesis
      using mq_dequeue_some [OF ok] mq_dequeue_none reclaim_ok [OF ok] by (cases o') force+
  qed
next
  fix q now r assume "mq_ok q"
  then show "mq_ok (mq_enqueue now r q)" by (auto simp: mq_ok_def mq_enqueue_def set_map_set)
next
  fix q k assume "mq_ok q"
  then show "mq_ok (mq_ack k q)" by (auto simp: mq_ok_def mq_ack_def set_map_del)
next
  fix q r now k
  assume ok: "mq_ok q" and r: "r \<in> set (mq_visible now (mq_ack k q))"
  have "mq_ok (mq_ack k q)" using ok by (auto simp: mq_ok_def mq_ack_def set_map_del)
  then have "wr_id r \<in> fst ` set (mq_queued (mq_ack k q)) \<union> fst ` set (mq_inFlight (mq_ack k q))"
    using r by (intro reclaim_loop_ids [of r now]) (auto simp: mq_visible_def reclaimExpiredInFlight_def mq_ok_def)
  then show "wr_id r \<noteq> k" by (auto simp: mq_ack_def set_map_del)
qed

section \<open>The file queue provides the interface\<close>

definition fq_ok :: "file_queue \<Rightarrow> bool" where
  "fq_ok records \<longleftrightarrow> distinct (map wr_id records)"

lemma replace_first_None: "replace_first k r xs = None \<longleftrightarrow> k \<notin> wr_id ` set xs"
  by (induction xs) auto

lemma replace_first_ids:
  "replace_first k r xs = Some ys \<Longrightarrow> wr_id r = k \<Longrightarrow> map wr_id ys = map wr_id xs"
  by (induction xs arbitrary: ys) (auto split: if_splits)

lemma fq_enqueue_ok: "fq_ok q \<Longrightarrow> fq_ok (fq_enqueue now r q)"
  using replace_first_None [of "wr_id r" "r\<lparr>wr_updatedAt := now\<rparr>" q]
    replace_first_ids [of "wr_id r" "r\<lparr>wr_updatedAt := now\<rparr>" q]
  by (auto simp: fq_ok_def fq_enqueue_def Let_def split: option.split)

lemma set_splice:
  assumes "i < length xs" and "distinct xs"
  shows "set (take i xs @ drop (Suc i) xs) = set xs - {xs ! i} \<and> distinct (take i xs @ drop (Suc i) xs)"
proof -
  have "xs = take i xs @ xs ! i # drop (Suc i) xs" using assms(1) by (rule id_take_nth_drop)
  then obtain a b where "xs = a @ xs ! i # b" "a = take i xs" "b = drop (Suc i) xs" by blast
  with assms(2) show ?thesis by (metis Diff_insert_absorb Un_insert_right distinct.simps(2) distinct_append
        insert_Diff1 list.simps(15) set_append disjoint_insert(2) Un_iff)
qed


lemma fq_dequeue_some:
  assumes ok: "fq_ok q" and d: "fq_dequeue now q = (Some r, q')"
  shows "fq_ok q' \<and> r \<in> set q \<and> wr_nextRetryAt r \<le> now \<and>
    (\<forall>r' \<in> set q. wr_nextRetryAt r' \<le> now \<longrightarrow> \<not> earlier r' r) \<and> set q' = set q - {r}"
proof -
  obtain i where i: "best_due now (enumerate 0 q) None = Some (i, r)" and q': "q' = take i q @ drop (Suc i) q"
    using d by (auto simp: fq_dequeue_def split: option.splits)
  note f = best_due_first [OF i]
  have "distinct q" using ok by (simp add: fq_ok_def distinct_map)
  moreover have "map wr_id q' = take i (map wr_id q) @ drop (Suc i) (map wr_id q)"
    by (simp add: q' take_map drop_map)
  ultimately show ?thesis using f set_splice [of i q] set_splice [of i "map wr_id q"] ok
    by (auto simp: q' fq_ok_def)
qed

lemma fq_dequeue_none:
  assumes "fq_dequeue now q = (None, q')"
  shows "q' = q \<and> (\<forall>r \<in> set q. now < wr_nextRetryAt r)"
proof -
  have "best_due now (enumerate 0 q) None = None" and q': "q' = q"
    using assms by (auto simp: fq_dequeue_def split: option.splits)
  then have *: "\<forall>(i, r) \<in> set (enumerate 0 q). now < wr_nextRetryAt r" using best_due_None by blast
  have "now < wr_nextRetryAt r" if "r \<in> set q" for r
  proof -
    from that obtain i where "i < length q" "q ! i = r" by (auto simp: in_set_conv_nth)
    then have "(i, r) \<in> set (enumerate 0 q)" by (simp add: in_set_enumerate_eq)
    with * show ?thesis by auto
  qed
  with q' show ?thesis by blast
qed

interpretation file_queue: worker_retry_queue fq_enqueue fq_dequeue fq_ack "\<lambda>now q. q" fq_ok
proof unfold_locales
  fix q now assume ok: "fq_ok q"
  show "fq_ok (snd (fq_dequeue now q))"
  proof (cases "fq_dequeue now q")
    case (Pair o' q')
    then show ?thesis using fq_dequeue_some [OF ok] fq_dequeue_none ok by (cases o') force+
  qed
next
  fix q k assume "fq_ok q"
  then show "fq_ok (fq_ack k q)" by (simp add: fq_ok_def fq_ack_def distinct_map_filter)
next
  fix q r and now :: int and k
  assume "r \<in> set (fq_ack k q)"
  then show "wr_id r \<noteq> k" by (simp add: fq_ack_def)
qed (use fq_dequeue_some fq_dequeue_none fq_enqueue_ok in blast)+

section \<open>Dead letters\<close>

record dead_letter_input =
  dl_submissionId :: string
  dl_error :: string
  dl_attempts :: int
  dl_failures :: "submission_failure list"
  dl_outcome :: deadletter_reason
  dl_windowDeadlineMs :: int
  dl_miss :: bool
  dl_terminalKind :: "failure_kind option"
  dl_failedAt :: "int option"

record dead_letter_entry = dead_letter_input +
  dl_id :: string
  dl_timestamp :: int
  dl_replayedAt :: "int option"

record dead_letter_filter =
  df_submissionId :: "string option"
  df_outcome :: "deadletter_reason option"
  df_terminalKind :: "failure_kind option"
  df_miss :: "bool option"
  df_since :: "int option"
  df_until :: "int option"
  df_limit :: "nat option"

record dead_letter_store =
  ds_maxEntries :: int
  ds_entries :: "(string, dead_letter_entry) js_map"

datatype dead_letter_error = UnknownEntry string | ReplayNotConfigured | ReplayFailed string

definition DEFAULT_MAX_ENTRIES :: int where "DEFAULT_MAX_ENTRIES = 1000"

definition newDeadLetterStore :: "int option \<Rightarrow> dead_letter_store" where
  "newDeadLetterStore maxEntries =
     \<lparr>ds_maxEntries = (case maxEntries of Some n \<Rightarrow> n | None \<Rightarrow> DEFAULT_MAX_ENTRIES), ds_entries = []\<rparr>"

fun evict_loop :: "int \<Rightarrow> ('k, 'v) js_map \<Rightarrow> ('k, 'v) js_map" where
  "evict_loop maxEntries [] = []"
| "evict_loop maxEntries (e # es) =
     (if int (length (e # es)) > maxEntries then evict_loop maxEntries es else e # es)"

definition evictOldestIfNeeded :: "dead_letter_store \<Rightarrow> dead_letter_store" where
  "evictOldestIfNeeded s = s\<lparr>ds_entries := evict_loop (ds_maxEntries s) (ds_entries s)\<rparr>"

text \<open>\<open>uuid\<close> is the new random id and \<open>now\<close> the clock.\<close>

definition record_dl :: "string \<Rightarrow> int \<Rightarrow> dead_letter_input \<Rightarrow> dead_letter_store \<Rightarrow> string \<times> dead_letter_store" where
  "record_dl uuid now input s =
     (let timestamp = (case dl_failedAt input of Some t \<Rightarrow> t | None \<Rightarrow> now);
          i = ''wdlq_'' @ uuid;
          entry = dead_letter_input.extend input \<lparr>dl_id = i, dl_timestamp = timestamp, dl_replayedAt = None\<rparr>
      in (i, evictOldestIfNeeded (s\<lparr>ds_entries := map_set i entry (ds_entries s)\<rparr>)))"

definition get_dl :: "string \<Rightarrow> dead_letter_store \<Rightarrow> dead_letter_entry option" where
  "get_dl i s = map_get (ds_entries s) i"

definition opt_filter :: "'b option \<Rightarrow> ('b \<Rightarrow> 'a \<Rightarrow> bool) \<Rightarrow> 'a list \<Rightarrow> 'a list" where
  "opt_filter c p xs = (case c of Some v \<Rightarrow> filter (p v) xs | None \<Rightarrow> xs)"

definition list_dl :: "dead_letter_filter \<Rightarrow> dead_letter_store \<Rightarrow> dead_letter_entry list" where
  "list_dl f s =
     (let results = map snd (ds_entries s);
          results = opt_filter (df_submissionId f) (\<lambda>v e. dl_submissionId e = v) results;
          results = opt_filter (df_outcome f) (\<lambda>v e. dl_outcome e = v) results;
          results = opt_filter (df_terminalKind f) (\<lambda>v e. dl_terminalKind e = Some v) results;
          results = opt_filter (df_miss f) (\<lambda>v e. dl_miss e = v) results;
          results = opt_filter (df_since f) (\<lambda>v e. dl_timestamp e \<ge> v) results;
          results = opt_filter (df_until f) (\<lambda>v e. dl_timestamp e \<le> v) results;
          results = sort_key dl_timestamp results
      in case df_limit f of Some n \<Rightarrow> take n results | None \<Rightarrow> results)"

text \<open>\<open>handler e = Some msg\<close> when the handler throws on the entry; \<open>None\<close> for no handler configured is the
  outer option.\<close>

definition replay_dl ::
  "(dead_letter_entry \<Rightarrow> string option) option \<Rightarrow> int \<Rightarrow> string \<Rightarrow> dead_letter_store \<Rightarrow>
   (dead_letter_error, unit) result \<times> dead_letter_store" where
  "replay_dl handler now i s =
     (case map_get (ds_entries s) i of
        None \<Rightarrow> (Inl (UnknownEntry i), s)
      | Some entry \<Rightarrow>
          (case handler of
             None \<Rightarrow> (Inl ReplayNotConfigured, s)
           | Some h \<Rightarrow>
               (case h entry of
                  Some msg \<Rightarrow> (Inl (ReplayFailed msg), s)
                | None \<Rightarrow> (Inr (), s\<lparr>ds_entries := map_set i (entry\<lparr>dl_replayedAt := Some now\<rparr>) (ds_entries s)\<rparr>))))"

definition delete_dl :: "string \<Rightarrow> dead_letter_store \<Rightarrow> bool \<times> dead_letter_store" where
  "delete_dl i s = (map_get (ds_entries s) i \<noteq> None, s\<lparr>ds_entries := map_del i (ds_entries s)\<rparr>)"

lemma evict_loop_suffix: "\<exists>k. evict_loop n es = drop k es \<and> (0 \<le> n \<longrightarrow> k = length es - nat n)"
proof (induction n es rule: evict_loop.induct)
  case (2 n e es)
  show ?case
  proof (cases "int (length (e # es)) > n")
    case True
    then obtain k where k: "evict_loop n (e # es) = drop (Suc k) (e # es)" "0 \<le> n \<longrightarrow> k = length es - nat n"
      using 2 by auto
    moreover have "0 \<le> n \<longrightarrow> Suc k = length (e # es) - nat n" using k(2) True by auto
    ultimately show ?thesis by blast
  next
    case False
    then show ?thesis by (intro exI [of _ 0]) auto
  qed
qed simp


section \<open>Properties\<close>

lemma newRetryPolicy_Inr:
  "newRetryPolicy n i m j = Inr p \<Longrightarrow> 1 \<le> rp_maxAttempts p \<and> 0 \<le> rp_initialDelayMs p \<and> 0 \<le> rp_maxDelayMs p"
  by (auto simp: newRetryPolicy_def le_floor_iff split: if_splits js_number.splits)

lemma delay_bounds:
  assumes "0 \<le> rp_initialDelayMs p" and "0 \<le> rp_maxDelayMs p" and "0 \<le> random" and "random < 1"
  shows "0 \<le> delayForAttempt p random a \<and> of_int (delayForAttempt p random a) \<le> rp_maxDelayMs p \<and>
    of_int (delayForAttempt p random a) \<le> rp_initialDelayMs p * 2 powi (a - 1)"
proof -
  let ?e = "min (rp_initialDelayMs p * 2 powi (a - 1)) (rp_maxDelayMs p)"
  have e: "0 \<le> ?e" using assms(1,2) by (simp add: zero_le_power_int)
  have "random * ?e \<le> ?e" using e assms(4) mult_right_mono [of random 1 ?e] by simp
  moreover have "0 \<le> random * ?e" using e assms(3) by simp
  ultimately have "0 \<le> delayForAttempt p random a" "of_int (delayForAttempt p random a) \<le> ?e"
    using e of_int_floor_le [of "random * ?e"] of_int_floor_le [of ?e]
    by (auto simp: delayForAttempt_def fullJitterBackoffMs_def Let_def simp del: of_int_floor_le)
  then show ?thesis by simp
qed

text \<open>
  no retry leaks out of its window. For every policy the constructor accepts, a scheduled
  retry follows a retryable failure, is attempt number \<open>attempt + 1\<close> within the attempt budget, lies
  between now and the window deadline, and its delay respects both the exponential curve and the
  cap; a failure is dead-lettered as terminal exactly when it is not retryable, and otherwise only
  because the attempts or the window are exhausted.
\<close>

theorem retry_stays_in_window:
  assumes "newRetryPolicy n i m j = Inr policy" and "0 \<le> random" and "random < 1"
  shows "case decide policy now random attempt error sub of
      RetryAt next t \<Rightarrow> isRetryableSubmissionFailure error \<and> next = attempt + 1 \<and> next \<le> rp_maxAttempts policy \<and>
        now \<le> t \<and> t \<le> sh_windowDeadlineMs sub \<and> of_int (t - now) \<le> rp_maxDelayMs policy \<and>
        of_int (t - now) \<le> rp_initialDelayMs policy * 2 powi (attempt - 1)
    | DeadLetter reason a f \<Rightarrow> a = attempt \<and> f = classifySubmissionError error \<and>
        (reason = Terminal \<longleftrightarrow> \<not> isRetryableSubmissionFailure error) \<and>
        (reason = MaxAttempts \<longrightarrow> rp_maxAttempts policy \<le> attempt) \<and>
        (reason = WindowExpired \<longrightarrow> sh_windowDeadlineMs sub < now + delayForAttempt policy random attempt)"
  using newRetryPolicy_Inr [OF assms(1)] delay_bounds [of policy random attempt] assms(2,3)
  by (auto simp: decide_def isRetryableSubmissionFailure_def Let_def)

theorem retry_stays_in_window_witness:
  "case decide \<lparr>rp_maxAttempts = 5, rp_initialDelayMs = 100, rp_maxDelayMs = 10000, rp_jitter = True\<rparr> 1000 (1/2) 1
      (StringError ''rpc timeout'') \<lparr>sh_submissionId = ''p'', sh_windowDeadlineMs = 2000\<rparr> of
     RetryAt next t \<Rightarrow> next = 2 \<and> t \<le> 2000 | DeadLetter reason a f \<Rightarrow> False"
proof -
  let ?p = "\<lparr>rp_maxAttempts = 5, rp_initialDelayMs = 100, rp_maxDelayMs = 10000, rp_jitter = True\<rparr>"
  have "newRetryPolicy (Finite 5) (Finite 100) (Finite 10000) None = Inr ?p" by code_simp
  from retry_stays_in_window [OF this, where random = "1/2" and now = 1000 and attempt = 1 and
      error = "StringError ''rpc timeout''" and sub = "\<lparr>sh_submissionId = ''p'', sh_windowDeadlineMs = 2000\<rparr>"]
  have r: "case decide ?p 1000 (1/2) 1 (StringError ''rpc timeout'') \<lparr>sh_submissionId = ''p'', sh_windowDeadlineMs = 2000\<rparr> of
      RetryAt next t \<Rightarrow> next = 2 \<and> t \<le> 2000 | DeadLetter reason a f \<Rightarrow> True"
    by (auto split: retry_decision.splits)
  have "decide ?p 1000 (1/2) 1 (StringError ''rpc timeout'') \<lparr>sh_submissionId = ''p'', sh_windowDeadlineMs = 2000\<rparr> =
      RetryAt 2 1050" by code_simp
  with r show ?thesis by simp
qed

text \<open>
  both queues hand out due retries earliest first. Draining a well-formed queue at one moment
  returns every record that is due then (for the in-memory queue also the ones whose visibility
  timeout has passed), each once, ordered by due time and then by id, and no record that is not due.
\<close>

theorem retry_queues_earliest_first:
  "(mq_ok q \<and> card (set (mq_visible now q)) < n \<longrightarrow>
      sorted_wrt (\<lambda>r r'. \<not> earlier r' r) (drain mq_dequeue n now q) \<and> distinct (drain mq_dequeue n now q) \<and>
      set (drain mq_dequeue n now q) = {r \<in> set (mq_visible now q). wr_nextRetryAt r \<le> now}) \<and>
   (fq_ok f \<and> card (set f) < n \<longrightarrow>
      sorted_wrt (\<lambda>r r'. \<not> earlier r' r) (drain fq_dequeue n now f) \<and> distinct (drain fq_dequeue n now f) \<and>
      set (drain fq_dequeue n now f) = {r \<in> set f. wr_nextRetryAt r \<le> now})"
  using mem_queue.drain_sorted [where q = q and n = n and now = now]
    mem_queue.drain_complete [where q = q and n = n and now = now]
    file_queue.drain_sorted [where q = f and n = n and now = now]
    file_queue.drain_complete [where q = f and n = n and now = now] by blast

definition example_retry :: "string \<Rightarrow> int \<Rightarrow> int \<Rightarrow> retry_record" where
  "example_retry k attempt t = \<lparr>wr_id = k, wr_submission = \<lparr>sh_submissionId = k, sh_windowDeadlineMs = 100000\<rparr>,
     wr_attempt = attempt, wr_nextRetryAt = t, wr_lastError = None, wr_failures = [], wr_createdAt = 0, wr_updatedAt = 0\<rparr>"

theorem retry_queues_earliest_first_witness:
  "set (drain fq_dequeue 3 10 [example_retry ''b'' 2 7, example_retry ''a'' 2 5]) =
     {r \<in> set [example_retry ''b'' 2 7, example_retry ''a'' 2 5]. wr_nextRetryAt r \<le> 10}"
proof -
  have "card (set [example_retry ''b'' 2 7, example_retry ''a'' 2 5]) < 3"
    by (rule le_less_trans [OF card_length]) simp
  then show ?thesis
    using retry_queues_earliest_first [of undefined 10 3 "[example_retry ''b'' 2 7, example_retry ''a'' 2 5]"]
    by (simp add: fq_ok_def example_retry_def)
qed

lemma reclaim_loop_keep:
  "k \<notin> fst ` set es \<Longrightarrow> map_get (mq_queued (reclaim_loop now es q)) k = map_get (mq_queued q) k"
  by (induction now es q rule: reclaim_loop.induct) auto

lemma reclaim_loop_expired:
  assumes "(k, r, e) \<in> set es" and "e \<le> now" and "distinct (map fst es)"
  shows "map_get (mq_queued (reclaim_loop now es q)) k = Some (r\<lparr>wr_nextRetryAt := now, wr_updatedAt := now\<rparr>)"
  using assms
proof (induction es arbitrary: q)
  case (Cons x es)
  obtain k' r' e' where x: "x = (k', r', e')" by (cases x)
  show ?case
  proof (cases "x = (k, r, e)")
    case True
    then have "k \<notin> fst ` set es" using Cons.prems(3) by auto
    with True Cons.prems(2) show ?thesis by (simp add: reclaim_loop_keep)
  next
    case False
    with Cons x show ?thesis by auto
  qed
qed simp

text \<open>
  a worker that dies between \<open>dequeue\<close> and \<open>ack\<close>. The in-memory queue hands the record out again
  once its visibility timeout has passed. The file queue, whose comment says that the retry state
  survives the process and which the in-memory queue claims to share its visibility-timeout
  semantics with, has deleted the record from the file: a restarted process does not find it.
\<close>

theorem unacked_record_after_crash:
  "(mq_ok q \<and> mq_dequeue now q = (Some r, q') \<and> now + mq_visibilityTimeoutMs q' \<le> later \<longrightarrow>
      r\<lparr>wr_nextRetryAt := later, wr_updatedAt := later\<rparr> \<in> set (mq_visible later q')) \<and>
   (fq_ok f \<and> fq_dequeue now f = (Some r, f') \<longrightarrow> wr_id r \<notin> wr_id ` set f')"
proof (intro conjI impI)
  assume h: "mq_ok q \<and> mq_dequeue now q = (Some r, q') \<and> now + mq_visibilityTimeoutMs q' \<le> later"
  then have "mq_ok q'" using mq_dequeue_some by blast
  then have wf: "map_wf (mq_inFlight q')" by (simp add: mq_ok_def)
  have "map_get (mq_inFlight q') (wr_id r) = Some (r, now + mq_visibilityTimeoutMs q')"
    using h by (auto simp: mq_dequeue_def Let_def split: option.splits)
  then have "(wr_id r, r, now + mq_visibilityTimeoutMs q') \<in> set (mq_inFlight q')" by (rule map_get_mem)
  with h wf have "map_get (mq_queued (reclaimExpiredInFlight later q')) (wr_id r) =
      Some (r\<lparr>wr_nextRetryAt := later, wr_updatedAt := later\<rparr>)"
    unfolding reclaimExpiredInFlight_def by (intro reclaim_loop_expired) (auto simp: map_wf_def)
  then show "r\<lparr>wr_nextRetryAt := later, wr_updatedAt := later\<rparr> \<in> set (mq_visible later q')"
    by (force simp: mq_visible_def dest: map_get_mem)
next
  assume h: "fq_ok f \<and> fq_dequeue now f = (Some r, f')"
  then have "r \<in> set f" "set f' = set f - {r}" using fq_dequeue_some [of f now r f'] by blast+
  moreover have "inj_on wr_id (set f)" using h by (simp add: fq_ok_def distinct_map)
  ultimately show "wr_id r \<notin> wr_id ` set f'" by (auto simp: inj_on_def)
qed

theorem unacked_record_after_crash_witness:
  "wr_id (example_retry ''a'' 2 5) \<notin> wr_id ` set ([] :: retry_record list) \<and>
   fq_dequeue 10 [example_retry ''a'' 2 5] = (Some (example_retry ''a'' 2 5), [])"
proof -
  have "fq_ok [example_retry ''a'' 2 5] \<and> fq_dequeue 10 [example_retry ''a'' 2 5] = (Some (example_retry ''a'' 2 5), [])"
    by (simp add: fq_ok_def fq_dequeue_def example_retry_def)
  with unacked_record_after_crash [of "newMemoryQueue None" 10 "example_retry ''a'' 2 5" "newMemoryQueue None" 0
      "[example_retry ''a'' 2 5]" "[]"] show ?thesis by simp
qed

text \<open>
  an upsert does not survive the visibility timeout. When an attempt fails and its successor
  is enqueued under the same id (\<open>ack\<close> is for success only), the expired in-flight copy overwrites
  it: the next \<open>dequeue\<close> after the timeout finds the earlier attempt due at once, with the attempt
  number and the failure chain of before, so neither the backoff nor the attempt budget holds.
\<close>

theorem expired_copy_overwrites_upsert:
  assumes "mq_ok q" and "mq_dequeue now q = (Some r, q')" and "wr_id r' = wr_id r"
    and "now + mq_visibilityTimeoutMs q' \<le> later"
  shows "map_get (mq_queued (reclaimExpiredInFlight later (mq_enqueue t r' q'))) (wr_id r) =
    Some (r\<lparr>wr_nextRetryAt := later, wr_updatedAt := later\<rparr>)"
proof -
  have "mq_ok q'" using mq_dequeue_some assms by blast
  then have wf: "map_wf (mq_inFlight q')" by (simp add: mq_ok_def)
  have "map_get (mq_inFlight q') (wr_id r) = Some (r, now + mq_visibilityTimeoutMs q')"
    using assms by (auto simp: mq_dequeue_def Let_def split: option.splits)
  then have "(wr_id r, r, now + mq_visibilityTimeoutMs q') \<in> set (mq_inFlight q')" by (rule map_get_mem)
  with assms wf show ?thesis
    unfolding reclaimExpiredInFlight_def by (intro reclaim_loop_expired) (auto simp: map_wf_def mq_enqueue_def)
qed

theorem expired_copy_overwrites_upsert_witness:
  "map_get (mq_queued (reclaimExpiredInFlight 30010 (mq_enqueue 11 (example_retry ''a'' 3 60000)
     (snd (mq_dequeue 10 (mq_enqueue 0 (example_retry ''a'' 2 5) (newMemoryQueue None))))))) ''a'' =
   Some (example_retry ''a'' 2 30010\<lparr>wr_updatedAt := 30010\<rparr>)"
proof -
  let ?q = "mq_enqueue 0 (example_retry ''a'' 2 5) (newMemoryQueue None)"
  have ok: "mq_ok ?q"
    by (simp add: mq_ok_def mq_enqueue_def newMemoryQueue_def example_retry_def map_wf_def)
  have d: "mq_dequeue 10 ?q = (Some (example_retry ''a'' 2 5), snd (mq_dequeue 10 ?q))"
    by (simp add: mq_dequeue_def mq_enqueue_def newMemoryQueue_def example_retry_def
        reclaimExpiredInFlight_def Let_def)
  have "mq_visibilityTimeoutMs (snd (mq_dequeue 10 ?q)) = 30000" by code_simp
  with expired_copy_overwrites_upsert [OF ok d, of "example_retry ''a'' 3 60000" 30010 11]
  show ?thesis by (simp add: example_retry_def)
qed

lemma matches_code:
  "matches m c ns \<longleftrightarrow> (\<exists>n \<in> set ns. str_includes (toLowerCase (m @ '' '' @ (case c of Some x \<Rightarrow> x | None \<Rightarrow> []))) (toLowerCase n))"
  by (simp add: matches_def list_ex_iff Let_def)

text \<open>
  two classifications differ from what the comments promise. The network's result code
  \<open>tx_bad_seq\<close> (the comment counts a bad sequence as retryable ledger contention, and the call names
  it as the expected code) matches none of the needles, so such a failure is terminal; and an
  error text with \<open>unauthorized\<close> is never of kind \<open>unauthorized\<close>, because the needle \<open>auth\<close> of
  contract rejections matches first.
\<close>

theorem classification_gaps:
  "sf_retryable (classifySubmissionError (JsError ''Transaction submission failed'' (Some ''tx_bad_seq'') None)) = False \<and>
   (\<forall>msg rc cause. matches msg rc [''unauthorized''] \<longrightarrow>
      sf_kind (classifySubmissionError (JsError msg rc cause)) \<noteq> Unauthorized)"
proof (intro conjI allI impI)
  show "sf_retryable (classifySubmissionError (JsError ''Transaction submission failed'' (Some ''tx_bad_seq'') None)) = False"
    by code_simp
next
  fix msg rc cause
  assume u: "matches msg rc [''unauthorized'']"
  have "str_includes (toLowerCase ''unauthorized'') (toLowerCase ''auth'')" by code_simp
  with u have "matches msg rc [''auth'']" unfolding matches_code by (auto intro: str_includes_trans)
  then have "matches msg rc [''contract'', ''op_invalid'', ''tx_failed'', ''wasm'', ''auth'', ''bad auth'',
      ''invalid auth'', ''rejected'']"
    unfolding matches_code by auto
  then show "sf_kind (classifySubmissionError (JsError msg rc cause)) \<noteq> Unauthorized"
    by (simp add: classifySubmissionError_def terminalOrRetryable_def Let_def)
qed

theorem classification_gaps_witness:
  "sf_kind (classifySubmissionError (JsError ''401 unauthorized'' None None)) \<noteq> Unauthorized"
proof -
  have "matches ''401 unauthorized'' None [''unauthorized'']" by code_simp
  with classification_gaps show ?thesis by blast
qed

text \<open>
  the dead-letter store is bounded and keeps the newest. Recording under a fresh id leaves at
  most \<open>maxEntries\<close> entries, evicts the oldest first, keeps the order of the rest, and the new entry,
  with its whole failure chain, is the last one.
\<close>

theorem dead_letters_bounded_fifo:
  assumes "1 \<le> ds_maxEntries s" and "map_get (ds_entries s) (''wdlq_'' @ uuid) = None"
    and "record_dl uuid now input s = (i, s')"
  shows "int (length (ds_entries s')) \<le> ds_maxEntries s \<and>
    (\<exists>k entry. ds_entries s' = drop k (ds_entries s) @ [(i, entry)] \<and> get_dl i s' = Some entry \<and>
      dl_failures entry = dl_failures input \<and> dl_miss entry = dl_miss input \<and> dl_replayedAt entry = None)"
proof -
  let ?t = "case dl_failedAt input of Some t \<Rightarrow> t | None \<Rightarrow> now"
  let ?e = "dead_letter_input.extend input \<lparr>dl_id = ''wdlq_'' @ uuid, dl_timestamp = ?t, dl_replayedAt = None\<rparr>"
  let ?es = "ds_entries s @ [(i, ?e)]"
  have i: "i = ''wdlq_'' @ uuid" using assms(3) by (simp add: record_dl_def Let_def)
  have snoc: "map_get es k = None \<Longrightarrow> map_set k v es = es @ [(k, v)]"
    for k :: string and v :: dead_letter_entry and es by (induction es) (auto split: if_splits)
  have s': "ds_entries s' = evict_loop (ds_maxEntries s) ?es"
    using assms(2,3) i by (auto simp: record_dl_def Let_def evictOldestIfNeeded_def snoc)
  obtain k where k: "evict_loop (ds_maxEntries s) ?es = drop k ?es" "k = length ?es - nat (ds_maxEntries s)"
    using evict_loop_suffix [of "ds_maxEntries s" ?es] assms(1) by auto
  have "k \<le> length (ds_entries s)" using k(2) assms(1) by auto
  then have d: "ds_entries s' = drop k (ds_entries s) @ [(i, ?e)]" using s' k(1) by simp
  have "map_get (ds_entries s) i = None" using assms(2) i by simp
  then have "map_get (drop k (ds_entries s)) i = None" by (auto simp: map_of_eq_None_iff dest: in_set_dropD)
  then have "get_dl i s' = Some ?e" unfolding get_dl_def d by (simp only: map_of_append map_add_def map_of.simps) simp
  moreover have "int (length (ds_entries s')) \<le> ds_maxEntries s" using s' k assms(1) by auto
  moreover have "dl_failures ?e = dl_failures input" "dl_miss ?e = dl_miss input" "dl_replayedAt ?e = None"
    by (simp_all add: dead_letter_input.defs)
  ultimately show ?thesis using d by blast
qed


theorem dead_letters_bounded_fifo_witness:
  "int (length (ds_entries (snd (record_dl ''u'' 5
     \<lparr>dl_submissionId = ''p'', dl_error = ''e'', dl_attempts = 1, dl_failures = [], dl_outcome = Terminal,
      dl_windowDeadlineMs = 9, dl_miss = True, dl_terminalKind = None, dl_failedAt = None\<rparr> (newDeadLetterStore (Some 1)))))) \<le> 1"
proof -
  let ?i = "\<lparr>dl_submissionId = ''p'', dl_error = ''e'', dl_attempts = 1, dl_failures = [], dl_outcome = Terminal,
      dl_windowDeadlineMs = 9, dl_miss = True, dl_terminalKind = None, dl_failedAt = None\<rparr> :: dead_letter_input"
  have "1 \<le> ds_maxEntries (newDeadLetterStore (Some 1))"
    "map_get (ds_entries (newDeadLetterStore (Some 1))) (''wdlq_'' @ ''u'') = None"
    by (simp_all add: newDeadLetterStore_def)
  from dead_letters_bounded_fifo [OF this, of 5 ?i] show ?thesis
    by (simp add: newDeadLetterStore_def) (metis prod.collapse)
qed

end
