(* ===== verification/Cost_Meter.thy ===== *)
theory Cost_Meter
  imports Js_Numbers
begin

text \<open>
  Readiness cost metering of the backstop, \<^verbatim>\<open>packages/worker-core/src/backstop/costMeter.ts\<close>. A cost
  breakdown is indexed by its six drivers, as the code's loops over \<open>DRIVER_KEYS\<close> read it; amounts are
  exact rationals.
\<close>

section \<open>Breakdowns\<close>

datatype cost_driver = RpcCalls | RpcMs | ExportScans | ExportScanBytes | ComputeMs | StorageByteLedgers

type_synonym cost_breakdown = "cost_driver \<Rightarrow> rat"

definition DRIVER_KEYS :: "cost_driver list" where
  "DRIVER_KEYS = [RpcCalls, RpcMs, ExportScans, ExportScanBytes, ComputeMs, StorageByteLedgers]"

definition emptyCostBreakdown :: cost_breakdown where
  "emptyCostBreakdown = (\<lambda>_. 0)"

definition addInto :: "cost_breakdown \<Rightarrow> cost_driver \<Rightarrow> rat \<Rightarrow> cost_breakdown" where
  "addInto target key value = target(key := target key + value)"

definition sumBreakdowns :: "cost_breakdown list \<Rightarrow> cost_breakdown" where
  "sumBreakdowns items = fold (\<lambda>item total key. total key + item key) items emptyCostBreakdown"

definition scaleBreakdown :: "cost_breakdown \<Rightarrow> rat \<Rightarrow> cost_breakdown" where
  "scaleBreakdown b factor = (\<lambda>key. b key * factor)"

definition subtractBreakdowns :: "cost_breakdown \<Rightarrow> cost_breakdown \<Rightarrow> cost_breakdown" where
  "subtractBreakdowns a b = (\<lambda>key. a key - b key)"

section \<open>The meter\<close>

record cost_window =
  kw_subscriptionId :: string
  kw_startLedger :: int
  kw_endLedger :: int
  kw_attributedCost :: cost_breakdown
  kw_standaloneCost :: cost_breakdown

record marginal_estimate =
  me_samples :: nat
  me_perSubscription :: cost_breakdown

record marginal_report =
  mr_transitionsObserved :: nat
  mr_transitionsSkippedFlat :: nat
  mr_transitionsSkippedMixed :: nat
  mr_sharedCondition :: "marginal_estimate option"
  mr_newCondition :: "marginal_estimate option"

datatype cost_meter_error = NO_SUBSCRIPTIONS | NEGATIVE_VALUE | COST_LEDGER_OUT_OF_RANGE | WINDOW_NOT_ADVANCING
  | UNKNOWN_SUBSCRIPTION

datatype subscription_arrival = SharedCondition | NewCondition

record open_cost =
  oc_attributed :: cost_breakdown
  oc_standalone :: cost_breakdown

record cost_meter =
  mt_openStart :: int
  mt_open :: "(string, open_cost) js_map"
  mt_conditions :: "(string, string) js_map"
  mt_arrivals :: "(string, subscription_arrival) js_map"
  mt_closed :: "cost_window list"
  mt_arrivalsPerWindow :: "subscription_arrival list list"
  mt_pendingArrivals :: "subscription_arrival list"

definition assertNonNegative :: "js_number \<Rightarrow> (cost_meter_error, rat) result" where
  "assertNonNegative value =
     (case value of Finite v \<Rightarrow> (if v < 0 then Inl NEGATIVE_VALUE else Inr v) | NotFinite \<Rightarrow> Inl NEGATIVE_VALUE)"

definition assertLedger_cm :: "int \<Rightarrow> (cost_meter_error, unit) result" where
  "assertLedger_cm value = ensure (isSafeInteger value \<and> 0 \<le> value) COST_LEDGER_OUT_OF_RANGE"

definition newCostMeter :: "int \<Rightarrow> (cost_meter_error, cost_meter) result" where
  "newCostMeter startLedger =
     bind_result (assertLedger_cm startLedger) (\<lambda>_.
       Inr \<lparr>mt_openStart = startLedger, mt_open = [], mt_conditions = [], mt_arrivals = [], mt_closed = [],
         mt_arrivalsPerWindow = [], mt_pendingArrivals = []\<rparr>)"

definition track :: "string \<Rightarrow> string \<Rightarrow> cost_meter \<Rightarrow> subscription_arrival \<times> cost_meter" where
  "track sid condition mt =
     (let alreadyWatched = condition \<in> set (map snd (mt_conditions mt));
          arrival = (if alreadyWatched then SharedCondition else NewCondition)
      in (arrival, mt\<lparr>mt_conditions := map_set sid condition (mt_conditions mt),
            mt_arrivals := map_set sid arrival (mt_arrivals mt),
            mt_pendingArrivals := mt_pendingArrivals mt @ [arrival]\<rparr>))"

definition untrack :: "string \<Rightarrow> cost_meter \<Rightarrow> cost_meter" where
  "untrack sid mt = mt\<lparr>mt_conditions := map_del sid (mt_conditions mt), mt_arrivals := map_del sid (mt_arrivals mt)\<rparr>"

definition activeCount :: "cost_meter \<Rightarrow> nat" where
  "activeCount mt = length (mt_conditions mt)"

definition conditionCount :: "cost_meter \<Rightarrow> nat" where
  "conditionCount mt = length (uniq (map snd (mt_conditions mt)))"

definition bucket :: "string \<Rightarrow> (string, open_cost) js_map \<Rightarrow> open_cost" where
  "bucket sid m = (case map_get m sid of
     Some b \<Rightarrow> b | None \<Rightarrow> \<lparr>oc_attributed = emptyCostBreakdown, oc_standalone = emptyCostBreakdown\<rparr>)"

definition add_cost :: "(open_cost \<Rightarrow> open_cost) \<Rightarrow> string \<Rightarrow> (string, open_cost) js_map \<Rightarrow> (string, open_cost) js_map" where
  "add_cost f sid m = map_set sid (f (bucket sid m)) m"

definition shared ::
  "string list \<Rightarrow> (rat \<Rightarrow> open_cost \<Rightarrow> open_cost) \<Rightarrow> cost_meter \<Rightarrow> (cost_meter_error, cost_meter) result" where
  "shared sids apply_cost mt =
     (if sids = [] then Inl NO_SUBSCRIPTIONS
      else let unique = uniq sids; share = 1 / of_nat (length unique)
        in Inr (mt\<lparr>mt_open := fold (add_cost (apply_cost share)) unique (mt_open mt)\<rparr>))"

text \<open>A call of a shared driver: a count of one call and an amount, split and in full.\<close>

definition apply_shared :: "cost_driver \<Rightarrow> cost_driver \<Rightarrow> rat \<Rightarrow> rat \<Rightarrow> open_cost \<Rightarrow> open_cost" where
  "apply_shared calls amount value share b =
     \<lparr>oc_attributed = addInto (addInto (oc_attributed b) calls share) amount (value * share),
      oc_standalone = addInto (addInto (oc_standalone b) calls 1) amount value\<rparr>"

definition apply_direct :: "cost_driver \<Rightarrow> rat \<Rightarrow> open_cost \<Rightarrow> open_cost" where
  "apply_direct key value b =
     \<lparr>oc_attributed = addInto (oc_attributed b) key value, oc_standalone = addInto (oc_standalone b) key value\<rparr>"

definition recordRpcCall :: "string list \<Rightarrow> js_number \<Rightarrow> cost_meter \<Rightarrow> (cost_meter_error, cost_meter) result" where
  "recordRpcCall sids durationMs mt =
     bind_result (assertNonNegative durationMs) (\<lambda>ms. shared sids (apply_shared RpcCalls RpcMs ms) mt)"

definition recordExportScan :: "string list \<Rightarrow> js_number \<Rightarrow> cost_meter \<Rightarrow> (cost_meter_error, cost_meter) result" where
  "recordExportScan sids bytesScanned mt =
     bind_result (assertNonNegative bytesScanned) (\<lambda>n. shared sids (apply_shared ExportScans ExportScanBytes n) mt)"

definition recordCompute :: "string \<Rightarrow> js_number \<Rightarrow> cost_meter \<Rightarrow> (cost_meter_error, cost_meter) result" where
  "recordCompute sid durationMs mt =
     bind_result (assertNonNegative durationMs) (\<lambda>ms.
       Inr (mt\<lparr>mt_open := add_cost (apply_direct ComputeMs ms) sid (mt_open mt)\<rparr>))"

definition recordStorage :: "string \<Rightarrow> js_number \<Rightarrow> cost_meter \<Rightarrow> (cost_meter_error, cost_meter) result" where
  "recordStorage sid bytes mt =
     bind_result (assertNonNegative bytes) (\<lambda>n.
       Inr (mt\<lparr>mt_open := add_cost (apply_direct StorageByteLedgers n) sid (mt_open mt)\<rparr>))"

fun str_insert :: "string \<Rightarrow> string list \<Rightarrow> string list" where
  "str_insert x [] = [x]"
| "str_insert x (y # ys) = (if str_less y x then y # str_insert x ys else x # y # ys)"

text \<open>\<open>Array.prototype.sort()\<close> on strings.\<close>

definition str_sort :: "string list \<Rightarrow> string list" where
  "str_sort xs = foldr str_insert xs []"

definition seal :: "cost_meter \<Rightarrow> int \<Rightarrow> string \<Rightarrow> cost_window" where
  "seal mt endLedger sid =
     \<lparr>kw_subscriptionId = sid, kw_startLedger = mt_openStart mt, kw_endLedger = endLedger,
      kw_attributedCost = (case map_get (mt_open mt) sid of Some b \<Rightarrow> oc_attributed b | None \<Rightarrow> emptyCostBreakdown),
      kw_standaloneCost = (case map_get (mt_open mt) sid of Some b \<Rightarrow> oc_standalone b | None \<Rightarrow> emptyCostBreakdown)\<rparr>"

definition closeWindow :: "int \<Rightarrow> cost_meter \<Rightarrow> (cost_meter_error, cost_window list \<times> cost_meter) result" where
  "closeWindow endLedger mt =
     bind_result (assertLedger_cm endLedger) (\<lambda>_.
       if endLedger \<le> mt_openStart mt then Inl WINDOW_NOT_ADVANCING
       else let ids = uniq (map fst (mt_open mt) @ map fst (mt_conditions mt));
                sealed = map (seal mt endLedger) (str_sort ids)
         in Inr (sealed, mt\<lparr>mt_closed := mt_closed mt @ sealed,
              mt_arrivalsPerWindow := mt_arrivalsPerWindow mt @ [mt_pendingArrivals mt],
              mt_pendingArrivals := [], mt_open := [], mt_openStart := endLedger\<rparr>))"

definition cost_history :: "string \<Rightarrow> cost_meter \<Rightarrow> cost_window list" where
  "cost_history sid mt = filter (\<lambda>w. kw_subscriptionId w = sid) (mt_closed mt)"

definition cost_windows :: "cost_meter \<Rightarrow> cost_window list" where
  "cost_windows mt = mt_closed mt"

definition totalForWindow :: "cost_meter \<Rightarrow> int \<Rightarrow> cost_breakdown" where
  "totalForWindow mt startLedger =
     sumBreakdowns (map kw_attributedCost (filter (\<lambda>w. kw_startLedger w = startLedger) (mt_closed mt)))"

definition sharingFactor :: "cost_meter \<Rightarrow> int \<Rightarrow> cost_breakdown" where
  "sharingFactor mt startLedger =
     (let windows = filter (\<lambda>w. kw_startLedger w = startLedger) (mt_closed mt);
          attributed = sumBreakdowns (map kw_attributedCost windows);
          standalone = sumBreakdowns (map kw_standaloneCost windows)
      in (\<lambda>key. if attributed key = 0 then 1 else standalone key / attributed key))"

text \<open>The loop of \<open>marginalCost\<close> over the window indices: skipped transitions and samples.\<close>

record marginal_acc =
  ma_flat :: nat
  ma_mixed :: nat
  ma_samples :: "(subscription_arrival \<times> cost_breakdown) list"

definition marginal_step ::
  "cost_breakdown list \<Rightarrow> nat list \<Rightarrow> subscription_arrival list list \<Rightarrow> nat \<Rightarrow> marginal_acc \<Rightarrow> marginal_acc" where
  "marginal_step totals counts arrivalsPerWindow i acc =
     (let current = counts ! i; previous = counts ! (i - 1) in
      if int current - int previous \<le> 0 then acc\<lparr>ma_flat := ma_flat acc + 1\<rparr>
      else let kinds = uniq (if i < length arrivalsPerWindow then arrivalsPerWindow ! i else [])
        in case kinds of
             [kind] \<Rightarrow> acc\<lparr>ma_samples := ma_samples acc @
               [(kind, scaleBreakdown (subtractBreakdowns (totals ! i) (totals ! (i - 1)))
                  (1 / of_nat (current - previous)))]\<rparr>
           | _ \<Rightarrow> acc\<lparr>ma_mixed := ma_mixed acc + 1\<rparr>)"

definition estimate :: "subscription_arrival \<Rightarrow> (subscription_arrival \<times> cost_breakdown) list \<Rightarrow> marginal_estimate option" where
  "estimate kind samples =
     (let rows = map snd (filter (\<lambda>s. fst s = kind) samples) in
      if rows = [] then None
      else Some \<lparr>me_samples = length rows,
        me_perSubscription = scaleBreakdown (sumBreakdowns rows) (1 / of_nat (length rows))\<rparr>)"

definition marginalCost :: "cost_meter \<Rightarrow> marginal_report" where
  "marginalCost mt =
     (let starts = sort (uniq (map kw_startLedger (mt_closed mt)));
          totals = map (totalForWindow mt) starts;
          counts = map (\<lambda>s. length (filter (\<lambda>w. kw_startLedger w = s) (mt_closed mt))) starts;
          acc = fold (marginal_step totals counts (mt_arrivalsPerWindow mt)) [1..<length starts]
            \<lparr>ma_flat = 0, ma_mixed = 0, ma_samples = []\<rparr>
      in \<lparr>mr_transitionsObserved = length starts - 1, mr_transitionsSkippedFlat = ma_flat acc,
          mr_transitionsSkippedMixed = ma_mixed acc,
          mr_sharedCondition = estimate SharedCondition (ma_samples acc),
          mr_newCondition = estimate NewCondition (ma_samples acc)\<rparr>)"


section \<open>Runs of the meter\<close>

datatype meter_op =
    Track string string
  | Untrack string
  | RpcCall "string list" js_number
  | ExportScan "string list" js_number
  | Compute string js_number
  | Storage string js_number
  | CloseWindow int

fun meter_run :: "meter_op \<Rightarrow> cost_meter \<Rightarrow> (cost_meter_error, cost_meter) result" where
  "meter_run (Track sid c) mt = Inr (snd (track sid c mt))"
| "meter_run (Untrack sid) mt = Inr (untrack sid mt)"
| "meter_run (RpcCall sids v) mt = recordRpcCall sids v mt"
| "meter_run (ExportScan sids v) mt = recordExportScan sids v mt"
| "meter_run (Compute sid v) mt = recordCompute sid v mt"
| "meter_run (Storage sid v) mt = recordStorage sid v mt"
| "meter_run (CloseWindow l) mt = bind_result (closeWindow l mt) (\<lambda>r. Inr (snd r))"

text \<open>A run keeps the meter as it was when an operation throws.\<close>

definition meter_apply :: "meter_op \<Rightarrow> cost_meter \<Rightarrow> cost_meter" where
  "meter_apply op mt = (case meter_run op mt of Inr mt' \<Rightarrow> mt' | Inl _ \<Rightarrow> mt)"

text \<open>What one successful operation actually costs, whoever shares it.\<close>

fun incurred :: "meter_op \<Rightarrow> cost_breakdown" where
  "incurred (RpcCall sids (Finite v)) = (\<lambda>d. if d = RpcCalls then 1 else if d = RpcMs then v else 0)"
| "incurred (ExportScan sids (Finite v)) = (\<lambda>d. if d = ExportScans then 1 else if d = ExportScanBytes then v else 0)"
| "incurred (Compute sid (Finite v)) = (\<lambda>d. if d = ComputeMs then v else 0)"
| "incurred (Storage sid (Finite v)) = (\<lambda>d. if d = StorageByteLedgers then v else 0)"
| "incurred _ = (\<lambda>d. 0)"

fun spend :: "meter_op list \<Rightarrow> cost_meter \<Rightarrow> cost_driver \<Rightarrow> rat" where
  "spend [] mt d = 0"
| "spend (op # ops) mt d =
     (case meter_run op mt of Inr mt' \<Rightarrow> incurred op d + spend ops mt' d | Inl _ \<Rightarrow> spend ops mt d)"

text \<open>Everything attributed so far, in the sealed windows and in the open one.\<close>

definition open_total :: "(open_cost \<Rightarrow> rat) \<Rightarrow> (string, open_cost) js_map \<Rightarrow> rat" where
  "open_total f m = sum_list (map (\<lambda>p. f (snd p)) m)"

definition attributed_total :: "cost_meter \<Rightarrow> cost_driver \<Rightarrow> rat" where
  "attributed_total mt d =
     sum_list (map (\<lambda>w. kw_attributedCost w d) (mt_closed mt)) + open_total (\<lambda>b. oc_attributed b d) (mt_open mt)"

section \<open>Attribution\<close>

lemma open_total_set:
  "map_wf m \<Longrightarrow> open_total f (map_set k v m) =
     open_total f m + f v - (case map_get m k of Some b \<Rightarrow> f b | None \<Rightarrow> 0)"
proof (induction m)
  case (Cons p m)
  then have "map_wf m" by (simp add: map_wf_def)
  with Cons show ?case by (cases p) (auto simp: open_total_def map_wf_def)
qed (simp add: open_total_def)

lemma open_total_add_cost:
  assumes "map_wf m" and "f \<lparr>oc_attributed = emptyCostBreakdown, oc_standalone = emptyCostBreakdown\<rparr> = 0"
    and "\<And>b. f (g b) = f b + c"
  shows "open_total f (add_cost g sid m) = open_total f m + c"
  using assms by (auto simp: add_cost_def bucket_def open_total_set split: option.split)

lemma add_cost_wf [simp]: "map_wf m \<Longrightarrow> map_wf (add_cost g sid m)"
  by (simp add: add_cost_def)

lemma fold_add_cost:
  assumes "map_wf m" and "f \<lparr>oc_attributed = emptyCostBreakdown, oc_standalone = emptyCostBreakdown\<rparr> = 0"
    and "\<And>b. f (g b) = f b + c"
  shows "map_wf (fold (add_cost g) sids m) \<and> open_total f (fold (add_cost g) sids m) = open_total f m + of_nat (length sids) * c"
  using assms(1)
proof (induction sids arbitrary: m)
  case (Cons sid sids)
  have "open_total f (add_cost g sid m) = open_total f m + c"
    by (rule open_total_add_cost [OF Cons.prems assms(2,3)])
  with Cons.IH [of "add_cost g sid m"] Cons.prems show ?case by (simp add: algebra_simps)
qed simp

lemma attributed_shared:
  "oc_attributed (apply_shared calls amount v s b) d =
     oc_attributed b d + ((if d = calls then s else 0) + (if d = amount then v * s else 0))"
  by (simp add: apply_shared_def addInto_def)

lemma attributed_direct: "oc_attributed (apply_direct key v b) d = oc_attributed b d + (if d = key then v else 0)"
  by (simp add: apply_direct_def addInto_def)

lemma shared_total:
  assumes "shared sids (apply_shared calls amount v) mt = Inr mt'" and "map_wf (mt_open mt)"
  shows "map_wf (mt_open mt') \<and> mt_closed mt' = mt_closed mt \<and>
    open_total (\<lambda>b. oc_attributed b d) (mt_open mt') =
      open_total (\<lambda>b. oc_attributed b d) (mt_open mt) + ((if d = calls then 1 else 0) + (if d = amount then v else 0))"
proof -
  let ?n = "of_nat (length (uniq sids)) :: rat"
  let ?c = "(if d = calls then 1 / ?n else 0) + (if d = amount then v * (1 / ?n) else 0)"
  have "sids \<noteq> []" and mt': "mt' = mt\<lparr>mt_open := fold (add_cost (apply_shared calls amount v (1 / ?n))) (uniq sids) (mt_open mt)\<rparr>"
    using assms(1) by (auto simp: shared_def Let_def split: if_splits)
  then have n: "?n \<noteq> 0" by simp
  then have "?n * ?c = (if d = calls then 1 else 0) + (if d = amount then v else 0)" by (simp add: field_simps)
  with fold_add_cost [OF assms(2), of "\<lambda>b. oc_attributed b d" "apply_shared calls amount v (1 / ?n)" ?c "uniq sids"]
  show ?thesis unfolding mt' by (simp add: attributed_shared emptyCostBreakdown_def)
qed

lemma mset_str_sort: "mset (str_sort xs) = mset xs"
proof -
  have "mset (str_insert x ys) = add_mset x (mset ys)" for x ys by (induction ys) auto
  then show ?thesis by (induction xs) (simp_all add: str_sort_def)
qed

lemma seal_total:
  assumes "map_wf (mt_open mt)"
  shows "sum_list (map (\<lambda>w. kw_attributedCost w d)
      (map (seal mt l) (str_sort (uniq (map fst (mt_open mt) @ map fst (mt_conditions mt)))))) =
    open_total (\<lambda>b. oc_attributed b d) (mt_open mt)"
proof -
  let ?ids = "uniq (map fst (mt_open mt) @ map fst (mt_conditions mt))"
  define g where "g sid = (case map_get (mt_open mt) sid of Some b \<Rightarrow> oc_attributed b d | None \<Rightarrow> 0)" for sid
  have "map (\<lambda>w. kw_attributedCost w d) (map (seal mt l) (str_sort ?ids)) = map g (str_sort ?ids)"
    by (simp add: seal_def g_def emptyCostBreakdown_def fun_eq_iff split: option.split)
  moreover have "sum_list (map g (str_sort ?ids)) = sum_list (map g ?ids)"
    by (metis mset_map mset_str_sort sum_mset_sum_list)
  moreover have "sum_list (map g ?ids) = sum g (set ?ids)"
    by (simp add: sum_list_distinct_conv_sum_set del: set_uniq uniq.simps)
  moreover have "sum g (set ?ids) = sum g (fst ` set (mt_open mt))"
  proof (rule sum.mono_neutral_right)
    show "\<forall>sid \<in> set ?ids - fst ` set (mt_open mt). g sid = 0"
    proof
      fix sid assume "sid \<in> set ?ids - fst ` set (mt_open mt)"
      then have "map_get (mt_open mt) sid = None" by (simp add: map_of_eq_None_iff)
      then show "g sid = 0" by (simp add: g_def)
    qed
  qed auto
  moreover have "sum g (fst ` set (mt_open mt)) = sum_list (map g (map fst (mt_open mt)))"
    using sum_list_distinct_conv_sum_set [of "map fst (mt_open mt)" g] assms by (simp add: map_wf_def)
  moreover have "map g (map fst (mt_open mt)) = map (\<lambda>p. oc_attributed (snd p) d) (mt_open mt)"
    using assms by (auto simp: g_def map_wf_def)
  ultimately show ?thesis by (simp only: open_total_def)
qed

lemma closeWindow_Inr:
  "closeWindow l mt = Inr (ws, mt') \<longleftrightarrow> isSafeInteger l \<and> mt_openStart mt < l \<and> 0 \<le> l \<and>
     ws = map (seal mt l) (str_sort (uniq (map fst (mt_open mt) @ map fst (mt_conditions mt)))) \<and>
     mt' = mt\<lparr>mt_closed := mt_closed mt @ ws, mt_arrivalsPerWindow := mt_arrivalsPerWindow mt @ [mt_pendingArrivals mt],
       mt_pendingArrivals := [], mt_open := [], mt_openStart := l\<rparr>"
  by (auto simp: closeWindow_def assertLedger_cm_def Let_def split: if_splits)

lemma assertNonNegative_Inr [simp]: "assertNonNegative v = Inr q \<longleftrightarrow> v = Finite q \<and> 0 \<le> q"
  by (cases v) (auto simp: assertNonNegative_def)

lemma meter_run_total:
  assumes "meter_run op mt = Inr mt'" and "map_wf (mt_open mt)"
  shows "map_wf (mt_open mt') \<and> attributed_total mt' d = attributed_total mt d + incurred op d"
proof (cases op)
  case (RpcCall sids v)
  then obtain ms where "v = Finite ms" "shared sids (apply_shared RpcCalls RpcMs ms) mt = Inr mt'"
    using assms(1) by (auto simp: recordRpcCall_def)
  with shared_total [OF this(2) assms(2), of d] RpcCall show ?thesis by (auto simp: attributed_total_def)
next
  case (ExportScan sids v)
  then obtain n where "v = Finite n" "shared sids (apply_shared ExportScans ExportScanBytes n) mt = Inr mt'"
    using assms(1) by (auto simp: recordExportScan_def)
  with shared_total [OF this(2) assms(2), of d] ExportScan show ?thesis by (auto simp: attributed_total_def)
next
  case (Compute sid v)
  then show ?thesis using assms
    by (auto simp: recordCompute_def attributed_total_def emptyCostBreakdown_def attributed_direct
        open_total_add_cost [where c = "if d = ComputeMs then _ else 0"])
next
  case (Storage sid v)
  then show ?thesis using assms
    by (auto simp: recordStorage_def attributed_total_def emptyCostBreakdown_def attributed_direct
        open_total_add_cost [where c = "if d = StorageByteLedgers then _ else 0"])
next
  case (CloseWindow l)
  then obtain ws where c: "closeWindow l mt = Inr (ws, mt')" using assms(1) by auto
  then show ?thesis using CloseWindow seal_total [OF assms(2), of d l]
    by (auto simp: closeWindow_Inr attributed_total_def open_total_def)
qed (use assms in \<open>auto simp: track_def untrack_def attributed_total_def Let_def\<close>)


lemma meter_runs_total:
  "map_wf (mt_open mt) \<Longrightarrow> attributed_total (fold meter_apply ops mt) d = attributed_total mt d + spend ops mt d"
proof (induction ops arbitrary: mt)
  case (Cons op ops)
  then show ?case
  proof (cases "meter_run op mt")
    case (Inr mt')
    with meter_run_total [OF Inr Cons.prems] Cons.IH [of mt'] show ?thesis by (simp add: meter_apply_def)
  qed (simp add: meter_apply_def)
qed simp

section \<open>Sharing\<close>

definition bucket_ok :: "open_cost \<Rightarrow> bool" where
  "bucket_ok b \<longleftrightarrow> (\<forall>d. 0 \<le> oc_attributed b d \<and> oc_attributed b d \<le> oc_standalone b d)"

definition meter_ok :: "cost_meter \<Rightarrow> bool" where
  "meter_ok mt \<longleftrightarrow> (\<forall>p \<in> set (mt_open mt). bucket_ok (snd p)) \<and>
     (\<forall>w \<in> set (mt_closed mt). \<forall>d. 0 \<le> kw_attributedCost w d \<and> kw_attributedCost w d \<le> kw_standaloneCost w d)"

lemma bucket_ok_empty: "bucket_ok \<lparr>oc_attributed = emptyCostBreakdown, oc_standalone = emptyCostBreakdown\<rparr>"
  by (simp add: bucket_ok_def emptyCostBreakdown_def)

lemma bucket_ok_bucket: "\<forall>p \<in> set m. bucket_ok (snd p) \<Longrightarrow> bucket_ok (bucket sid m)"
  using bucket_ok_empty by (fastforce simp: bucket_def dest: map_of_SomeD split: option.split)

lemma add_cost_ok:
  assumes "\<forall>p \<in> set m. bucket_ok (snd p)" and "\<And>b. bucket_ok b \<Longrightarrow> bucket_ok (g b)"
  shows "\<forall>p \<in> set (add_cost g sid m). bucket_ok (snd p)"
proof -
  have new: "p \<in> set (map_set k v m') \<Longrightarrow> p = (k, v) \<or> p \<in> set m'" for p k v and m' :: "(string, open_cost) js_map"
    by (induction m') (auto split: if_splits)
  have "bucket_ok (g (bucket sid m))" using assms bucket_ok_bucket by blast
  with new assms(1) show ?thesis unfolding add_cost_def by fastforce
qed

lemma fold_add_cost_ok:
  assumes "\<forall>p \<in> set m. bucket_ok (snd p)" and "\<And>b. bucket_ok b \<Longrightarrow> bucket_ok (g b)"
  shows "\<forall>p \<in> set (fold (add_cost g) sids m). bucket_ok (snd p)"
  using assms(1)
proof (induction sids arbitrary: m)
  case (Cons sid sids)
  have "\<forall>p \<in> set (add_cost g sid m). bucket_ok (snd p)" using add_cost_ok [OF Cons.prems] assms(2) by blast
  with Cons.IH show ?case by simp
qed simp

lemma apply_shared_ok: "0 \<le> v \<Longrightarrow> 0 \<le> s \<Longrightarrow> s \<le> 1 \<Longrightarrow> bucket_ok b \<Longrightarrow> bucket_ok (apply_shared calls amount v s b)"
  using mult_left_mono [of s 1 v] by (auto simp: bucket_ok_def apply_shared_def addInto_def add_mono)

lemma apply_direct_ok: "0 \<le> v \<Longrightarrow> bucket_ok b \<Longrightarrow> bucket_ok (apply_direct key v b)"
  by (auto simp: bucket_ok_def apply_direct_def addInto_def)

lemma shared_ok:
  assumes "shared sids (apply_shared calls amount v) mt = Inr mt'" and "0 \<le> v" and "meter_ok mt"
  shows "meter_ok mt'"
proof -
  let ?n = "of_nat (length (uniq sids)) :: rat"
  have ne: "sids \<noteq> []" and mt': "mt' = mt\<lparr>mt_open := fold (add_cost (apply_shared calls amount v (1 / ?n))) (uniq sids) (mt_open mt)\<rparr>"
    using assms(1) by (auto simp: shared_def Let_def split: if_splits)
  have "uniq sids \<noteq> []" using ne by simp
  then have "1 \<le> length (uniq sids)" by (simp add: Suc_le_eq del: uniq_eq_Nil)
  then have "1 \<le> ?n" by (metis of_nat_1 of_nat_le_iff)
  then have "0 \<le> 1 / ?n" "1 / ?n \<le> 1" by (simp_all add: divide_le_eq)
  with fold_add_cost_ok [of "mt_open mt" "apply_shared calls amount v (1 / ?n)" "uniq sids"]
    apply_shared_ok [OF assms(2)] assms(3) show ?thesis unfolding mt' by (auto simp: meter_ok_def)
qed

lemma seal_ok:
  "meter_ok mt \<Longrightarrow> 0 \<le> kw_attributedCost (seal mt l sid) d \<and> kw_attributedCost (seal mt l sid) d \<le> kw_standaloneCost (seal mt l sid) d"
  by (auto simp: seal_def meter_ok_def bucket_ok_def emptyCostBreakdown_def dest!: map_of_SomeD split: option.split)

lemma meter_run_ok:
  assumes "meter_run op mt = Inr mt'" and "meter_ok mt"
  shows "meter_ok mt'"
proof (cases op)
  case (RpcCall sids v)
  then show ?thesis using assms by (auto simp: recordRpcCall_def intro: shared_ok)
next
  case (ExportScan sids v)
  then show ?thesis using assms by (auto simp: recordExportScan_def intro: shared_ok)
next
  case (Compute sid v)
  then obtain q where q: "0 \<le> q" "mt' = mt\<lparr>mt_open := add_cost (apply_direct ComputeMs q) sid (mt_open mt)\<rparr>"
    using assms(1) by (auto simp: recordCompute_def)
  have "\<forall>p \<in> set (add_cost (apply_direct ComputeMs q) sid (mt_open mt)). bucket_ok (snd p)"
    using assms(2) apply_direct_ok [OF q(1)] by (intro add_cost_ok) (auto simp: meter_ok_def)
  with q assms(2) show ?thesis by (simp add: meter_ok_def)
next
  case (Storage sid v)
  then obtain q where q: "0 \<le> q" "mt' = mt\<lparr>mt_open := add_cost (apply_direct StorageByteLedgers q) sid (mt_open mt)\<rparr>"
    using assms(1) by (auto simp: recordStorage_def)
  have "\<forall>p \<in> set (add_cost (apply_direct StorageByteLedgers q) sid (mt_open mt)). bucket_ok (snd p)"
    using assms(2) apply_direct_ok [OF q(1)] by (intro add_cost_ok) (auto simp: meter_ok_def)
  with q assms(2) show ?thesis by (simp add: meter_ok_def)
next
  case (CloseWindow l)
  then obtain ws where c: "closeWindow l mt = Inr (ws, mt')" using assms(1) by auto
  then show ?thesis using assms(2) seal_ok [OF assms(2)] by (auto simp: closeWindow_Inr meter_ok_def)
qed (use assms in \<open>auto simp: track_def untrack_def meter_ok_def Let_def\<close>)

lemma meter_runs_ok: "meter_ok mt \<Longrightarrow> meter_ok (fold meter_apply ops mt)"
proof (induction ops arbitrary: mt)
  case (Cons op ops)
  then show ?case by (cases "meter_run op mt") (simp_all add: meter_apply_def meter_run_ok)
qed simp

lemma sumBreakdowns_sum: "sumBreakdowns items d = sum_list (map (\<lambda>b. b d) items)"
proof -
  have "fold (\<lambda>item total key. total key + item key) items acc d = acc d + sum_list (map (\<lambda>b. b d) items)" for acc
    by (induction items arbitrary: acc) simp_all
  then show ?thesis by (simp add: sumBreakdowns_def emptyCostBreakdown_def)
qed

section \<open>Properties\<close>

text \<open>
  the even split sums to spend actually incurred. After any sequence of operations on a new
  meter, whatever subscriptions share a call and whichever operations are refused, the attributed
  cost over all subscriptions, sealed and open, is for every driver exactly the cost of the calls
  that were recorded.
\<close>

theorem attributed_cost_is_spend:
  assumes "newCostMeter start = Inr mt"
  shows "attributed_total (fold meter_apply ops mt) d = spend ops mt d"
proof -
  have "map_wf (mt_open mt)" "attributed_total mt d = 0"
    using assms by (auto simp: newCostMeter_def attributed_total_def open_total_def)
  with meter_runs_total [of mt ops d] show ?thesis by simp
qed

theorem attributed_cost_is_spend_witness:
  "attributed_total (fold meter_apply [RpcCall [''a'', ''b'', ''a''] (Finite 30), CloseWindow 10]
     (projr (newCostMeter 0))) RpcMs = 30"
proof -
  have "newCostMeter 0 = Inr (projr (newCostMeter 0))" by (simp add: newCostMeter_def assertLedger_cm_def isSafeInteger_def)
  from attributed_cost_is_spend [OF this, of "[RpcCall [''a'', ''b'', ''a''] (Finite 30), CloseWindow 10]" RpcMs]
  show ?thesis
    by (simp add: newCostMeter_def assertLedger_cm_def isSafeInteger_def recordRpcCall_def assertNonNegative_def
        shared_def Let_def split: sum.split)
qed

text \<open>
  sharing never makes a subscription more expensive than it would be alone. For every run of a
  new meter, every window and every driver, the sharing factor (stand-alone over attributed cost) is
  at least one.
\<close>

theorem sharing_factor_at_least_one:
  assumes "newCostMeter start = Inr mt"
  shows "1 \<le> sharingFactor (fold meter_apply ops mt) w d"
proof -
  let ?mt = "fold meter_apply ops mt"
  let ?ws = "filter (\<lambda>x. kw_startLedger x = w) (mt_closed ?mt)"
  have "meter_ok mt" using assms by (auto simp: newCostMeter_def meter_ok_def)
  then have "meter_ok ?mt" by (rule meter_runs_ok)
  then have each: "\<forall>x \<in> set ?ws. 0 \<le> kw_attributedCost x d \<and> kw_attributedCost x d \<le> kw_standaloneCost x d"
    by (auto simp: meter_ok_def)
  have "sum_list (map (\<lambda>x. kw_attributedCost x d) ?ws) \<le> sum_list (map (\<lambda>x. kw_standaloneCost x d) ?ws)"
    by (rule sum_list_mono) (use each in auto)
  moreover have "0 \<le> sum_list (map (\<lambda>x. kw_attributedCost x d) ?ws)"
    by (rule sum_list_nonneg) (use each in auto)
  ultimately show ?thesis by (auto simp: sharingFactor_def Let_def sumBreakdowns_sum o_def le_divide_eq)
qed

theorem sharing_factor_at_least_one_witness:
  "1 \<le> sharingFactor (fold meter_apply [RpcCall [''a'', ''b''] (Finite 30), CloseWindow 10] (projr (newCostMeter 0))) 0 RpcMs"
proof -
  have "newCostMeter 0 = Inr (projr (newCostMeter 0))" by (simp add: newCostMeter_def assertLedger_cm_def isSafeInteger_def)
  then show ?thesis by (rule sharing_factor_at_least_one)
qed

text \<open>
  an empty window shifts the marginal estimate. \<open>marginalCost\<close> indexes the arrivals per sealed
  window by the position among the windows that have records, and a window sealed with no
  subscription has none: after one such window, a subscription that joined a watched condition is
  reported as one that introduced a new condition.
\<close>

theorem marginal_cost_shifted_by_empty_window:
  "let mt = fold meter_apply [CloseWindow 10, Track ''s1'' ''A'', CloseWindow 20, Track ''s2'' ''A'', CloseWindow 30]
       (projr (newCostMeter 0))
   in mt_arrivals mt = [(''s1'', NewCondition), (''s2'', SharedCondition)] \<and>
      mr_sharedCondition (marginalCost mt) = None \<and> mr_newCondition (marginalCost mt) \<noteq> None"
  by code_simp

end
