(* ===== verification/Paymaster.thy ===== *)
theory Paymaster
  imports Js_Numbers
begin

text \<open>
  Fee sponsorship: the spend-control policy
  (\<^verbatim>\<open>packages/worker-core/src/sponsorshipPolicy.ts\<close>) and the paymaster that wraps a user's transaction
  (\<^verbatim>\<open>Paymaster.ts\<close>). Parsing an envelope and building the fee bump are calls into the Stellar SDK:
  the arguments \<open>fromXDR\<close> and \<open>buildFeeBump\<close>. A UTC date string \<open>YYYY-MM-DD\<close> is represented by its day
  number, to which it corresponds one to one in the years 0 to 9999. Fees are \<open>bigint\<close>; times and bounds
  are integers, the daily ceiling an exact rational.
\<close>

section \<open>SponsorshipPolicy\<close>

text \<open>\<open>retryAfterMs\<close> is \<open>None\<close> where the code computes with the undefined first element of an empty
  list (a limit of zero or less) and reports \<open>NaN\<close>.\<close>

datatype sponsorship_error =
    RateLimitedError string "int option"
  | FeeTooHighError int int
  | FloatExhaustedError rat rat

record policy_config =
  pc_maxBumpsPerUserPerWindow :: "int option"
  pc_windowMs :: "int option"
  pc_maxFeePerBump :: "int option"
  pc_dailyXlmCeiling :: "rat option"

record resolved_policy =
  rs_maxBumpsPerUserPerWindow :: int
  rs_windowMs :: int
  rs_maxFeePerBump :: int
  rs_dailyXlmCeiling :: rat

definition STROOP_PER_XLM :: int where "STROOP_PER_XLM = 10000000"

definition resolvePolicy :: "policy_config \<Rightarrow> resolved_policy" where
  "resolvePolicy cfg =
     \<lparr>rs_maxBumpsPerUserPerWindow = or_default (pc_maxBumpsPerUserPerWindow cfg) 10,
      rs_windowMs = or_default (pc_windowMs cfg) 60000,
      rs_maxFeePerBump = or_default (pc_maxFeePerBump cfg) 10000,
      rs_dailyXlmCeiling = or_default (pc_dailyXlmCeiling cfg) 10\<rparr>"

text \<open>The daily spend: the day it is for (\<open>None\<close> is the initial empty date) and its stroops.\<close>

record sponsorship_policy =
  sp_policy :: resolved_policy
  sp_buckets :: "(string, int list) js_map"
  sp_day :: "int option"
  sp_stroops :: int

definition newSponsorshipPolicy :: "policy_config \<Rightarrow> sponsorship_policy" where
  "newSponsorshipPolicy cfg = \<lparr>sp_policy = resolvePolicy cfg, sp_buckets = [], sp_day = None, sp_stroops = 0\<rparr>"

definition utcDateString :: "int \<Rightarrow> int" where
  "utcDateString nowMs = nowMs div 86400000"

definition checkRateLimit :: "string \<Rightarrow> int \<Rightarrow> sponsorship_policy \<Rightarrow> (sponsorship_error, unit) result" where
  "checkRateLimit userId nowMs p =
     (case map_get (sp_buckets p) userId of
        None \<Rightarrow> Inr ()
      | Some timestamps \<Rightarrow>
          (let windowStart = nowMs - rs_windowMs (sp_policy p);
               recent = filter (\<lambda>t. t > windowStart) timestamps
           in if int (length recent) \<ge> rs_maxBumpsPerUserPerWindow (sp_policy p)
              then Inl (RateLimitedError userId
                (case recent of [] \<Rightarrow> None
                 | oldestInWindow # _ \<Rightarrow> Some (max 0 (oldestInWindow + rs_windowMs (sp_policy p) - nowMs))))
              else Inr ()))"

definition checkFeeCap :: "int \<Rightarrow> sponsorship_policy \<Rightarrow> (sponsorship_error, unit) result" where
  "checkFeeCap requestedBaseFee p =
     (if requestedBaseFee > rs_maxFeePerBump (sp_policy p)
      then Inl (FeeTooHighError requestedBaseFee (rs_maxFeePerBump (sp_policy p))) else Inr ())"

definition checkDailyFloat :: "int \<Rightarrow> sponsorship_policy \<Rightarrow> (sponsorship_error, unit) result" where
  "checkDailyFloat nowMs p =
     (let today = utcDateString nowMs;
          stroops = (if sp_day p = Some today then sp_stroops p else 0);
          spentXlm = of_int stroops / of_int STROOP_PER_XLM
      in if spentXlm \<ge> rs_dailyXlmCeiling (sp_policy p)
         then Inl (FloatExhaustedError spentXlm (rs_dailyXlmCeiling (sp_policy p))) else Inr ())"

definition check_sp :: "string \<Rightarrow> int \<Rightarrow> int \<Rightarrow> sponsorship_policy \<Rightarrow> (sponsorship_error, unit) result" where
  "check_sp userId requestedBaseFee nowMs p =
     bind_result (checkRateLimit userId nowMs p) (\<lambda>_.
     bind_result (checkFeeCap requestedBaseFee p) (\<lambda>_. checkDailyFloat nowMs p))"

definition recordRateLimit :: "string \<Rightarrow> int \<Rightarrow> sponsorship_policy \<Rightarrow> sponsorship_policy" where
  "recordRateLimit userId nowMs p =
     (let timestamps = or_default (map_get (sp_buckets p) userId) [];
          windowStart = nowMs - rs_windowMs (sp_policy p)
      in p\<lparr>sp_buckets := map_set userId (filter (\<lambda>t. t > windowStart) timestamps @ [nowMs]) (sp_buckets p)\<rparr>)"

definition recordDailySpend :: "int \<Rightarrow> int \<Rightarrow> sponsorship_policy \<Rightarrow> sponsorship_policy" where
  "recordDailySpend totalFeeStroops nowMs p =
     (let today = utcDateString nowMs;
          p = (if sp_day p \<noteq> Some today then p\<lparr>sp_day := Some today, sp_stroops := 0\<rparr> else p)
      in p\<lparr>sp_stroops := sp_stroops p + totalFeeStroops\<rparr>)"

definition record_sp :: "string \<Rightarrow> int \<Rightarrow> int \<Rightarrow> sponsorship_policy \<Rightarrow> sponsorship_policy" where
  "record_sp userId totalFeeStroops nowMs p =
     recordDailySpend totalFeeStroops nowMs (recordRateLimit userId nowMs p)"

definition dailySpentXlm :: "sponsorship_policy \<Rightarrow> rat" where
  "dailySpentXlm p = of_int (sp_stroops p) / of_int STROOP_PER_XLM"

section \<open>Paymaster\<close>

text \<open>What the SDK's parser returns: a fee bump, or a transaction with its source and the numbers of
  its operations and signatures.\<close>

datatype parsed_tx = FeeBumpTransaction | RegularTransaction string nat nat

datatype paymaster_error =
    InvalidInner string
  | SelfWrapError string
  | PolicyError sponsorship_error
  | BuildError string

record paymaster =
  pm_operatorAddress :: string
  pm_policy :: sponsorship_policy

definition newPaymaster :: "string \<Rightarrow> policy_config \<Rightarrow> paymaster" where
  "newPaymaster operatorAddress cfg = \<lparr>pm_operatorAddress = operatorAddress, pm_policy = newSponsorshipPolicy cfg\<rparr>"

record bump_input =
  bi_innerXdr :: string
  bi_baseFee :: int

record bump_result =
  br_feeBumpXdr :: string
  br_totalFeeStroops :: int
  br_innerSource :: string

definition parseInner :: "(string \<Rightarrow> parsed_tx option) \<Rightarrow> string \<Rightarrow> (paymaster_error, parsed_tx) result" where
  "parseInner fromXDR xdr =
     (case fromXDR xdr of
        None \<Rightarrow> Inl (InvalidInner ''XDR could not be parsed as a Stellar transaction envelope'')
      | Some FeeBumpTransaction \<Rightarrow> Inl (InvalidInner (''inner transaction must be a regular Transaction, not a FeeBumpTransaction '' @
          ''(nesting fee bumps is not permitted by the Stellar protocol)''))
      | Some (RegularTransaction source operations signatures) \<Rightarrow>
          if operations = 0 then Inl (InvalidInner ''inner transaction has no operations; fee-bump requires at least one'')
          else if signatures = 0 then Inl (InvalidInner ''inner transaction has no signatures; the user must sign before the paymaster wraps'')
          else Inr (RegularTransaction source operations signatures))"

fun tx_source :: "parsed_tx \<Rightarrow> string" where
  "tx_source (RegularTransaction source _ _) = source"
| "tx_source FeeBumpTransaction = []"

definition bump_pm ::
  "(string \<Rightarrow> parsed_tx option) \<Rightarrow> (int \<Rightarrow> parsed_tx \<Rightarrow> (string, string \<times> int) result) \<Rightarrow> bump_input \<Rightarrow> int \<Rightarrow> paymaster \<Rightarrow>
   (paymaster_error, bump_result \<times> paymaster) result"
where
  "bump_pm fromXDR buildFeeBump input nowMs pm =
     bind_result (parseInner fromXDR (bi_innerXdr input)) (\<lambda>innerTx.
       if tx_source innerTx = pm_operatorAddress pm then Inl (SelfWrapError (pm_operatorAddress pm))
       else let userId = tx_source innerTx in
         case check_sp userId (bi_baseFee input) nowMs (pm_policy pm) of
           Inl e \<Rightarrow> Inl (PolicyError e)
         | Inr _ \<Rightarrow>
             (case buildFeeBump (bi_baseFee input) innerTx of
                Inl msg \<Rightarrow> Inl (BuildError msg)
              | Inr (feeBumpXdr, totalFeeStroops) \<Rightarrow>
                  Inr (\<lparr>br_feeBumpXdr = feeBumpXdr, br_totalFeeStroops = totalFeeStroops, br_innerSource = userId\<rparr>,
                       pm\<lparr>pm_policy := record_sp userId totalFeeStroops nowMs (pm_policy pm)\<rparr>)))"

section \<open>Runs\<close>

text \<open>A granted bump: the user, the time and the fee.\<close>

type_synonym grant = "string \<times> int \<times> int"

fun pm_run ::
  "(string \<Rightarrow> parsed_tx option) \<Rightarrow> (int \<Rightarrow> parsed_tx \<Rightarrow> (string, string \<times> int) result) \<Rightarrow>
   (bump_input \<times> int) list \<Rightarrow> paymaster \<Rightarrow> grant list \<times> paymaster"
where
  "pm_run fromXDR buildFeeBump [] pm = ([], pm)"
| "pm_run fromXDR buildFeeBump ((input, now) # rest) pm =
     (case bump_pm fromXDR buildFeeBump input now pm of
        Inl e \<Rightarrow> pm_run fromXDR buildFeeBump rest pm
      | Inr (r, pm') \<Rightarrow>
          (let (gs, pm'') = pm_run fromXDR buildFeeBump rest pm'
           in ((br_innerSource r, now, br_totalFeeStroops r) # gs, pm'')))"

definition in_window_of :: "string \<Rightarrow> int \<Rightarrow> int \<Rightarrow> grant \<Rightarrow> bool" where
  "in_window_of u w t g \<longleftrightarrow> fst g = u \<and> t - w < fst (snd g) \<and> fst (snd g) \<le> t"

text \<open>The log of the grants so far agrees with the buckets on every window that can still matter.\<close>

definition log_inv :: "int \<Rightarrow> grant list \<Rightarrow> sponsorship_policy \<Rightarrow> bool" where
  "log_inv now gs p \<longleftrightarrow>
     (\<forall>g \<in> set gs. fst (snd g) \<le> now) \<and>
     (\<forall>u t. now \<le> t \<longrightarrow>
        length (filter (\<lambda>x. x > t - rs_windowMs (sp_policy p)) (or_default (map_get (sp_buckets p) u) [])) =
        length (filter (\<lambda>g. fst g = u \<and> fst (snd g) > t - rs_windowMs (sp_policy p)) gs)) \<and>
     (\<forall>u t. int (length (filter (in_window_of u (rs_windowMs (sp_policy p)) t) gs)) \<le>
        rs_maxBumpsPerUserPerWindow (sp_policy p))"

lemma bump_pm_Inr:
  assumes "bump_pm fromXDR buildFeeBump input now pm = Inr (r, pm')"
  shows "check_sp (br_innerSource r) (bi_baseFee input) now (pm_policy pm) = Inr () \<and>
    pm' = pm\<lparr>pm_policy := record_sp (br_innerSource r) (br_totalFeeStroops r) now (pm_policy pm)\<rparr> \<and>
    br_innerSource r \<noteq> pm_operatorAddress pm \<and>
    (\<exists>ops sigs. fromXDR (bi_innerXdr input) = Some (RegularTransaction (br_innerSource r) ops sigs) \<and> 0 < ops \<and> 0 < sigs)"
  using assms
  by (auto simp: bump_pm_def parseInner_def Let_def split: option.splits parsed_tx.splits if_splits sum.splits)

lemma record_sp_sel [simp]:
  "sp_policy (record_sp u f now p) = sp_policy p"
  "sp_buckets (record_sp u f now p) = map_set u
     (filter (\<lambda>t. t > now - rs_windowMs (sp_policy p)) (or_default (map_get (sp_buckets p) u) []) @ [now]) (sp_buckets p)"
  by (simp_all add: record_sp_def recordDailySpend_def recordRateLimit_def Let_def)

lemma check_rate:
  assumes "check_sp u fee now p = Inr ()" and "0 < rs_maxBumpsPerUserPerWindow (sp_policy p)"
  shows "int (length (filter (\<lambda>x. x > now - rs_windowMs (sp_policy p)) (or_default (map_get (sp_buckets p) u) []))) <
    rs_maxBumpsPerUserPerWindow (sp_policy p)"
  using assms by (auto simp: check_sp_def checkRateLimit_def or_default_def Let_def split: option.splits if_splits)

lemma log_inv_later: "log_inv now gs p \<Longrightarrow> now \<le> now' \<Longrightarrow> log_inv now' gs p"
  unfolding log_inv_def by (meson order_trans)

lemma window_le_recent:
  "length (filter (in_window_of u w t) gs) \<le> length (filter (\<lambda>g. fst g = u \<and> fst (snd g) > t - w) gs)"
  by (induction gs) (auto simp: in_window_of_def)

lemma filter_later_length:
  "now \<le> t \<Longrightarrow> length (filter (\<lambda>x. x > t - w) xs) \<le> length (filter (\<lambda>x. x > now - w) xs)" for now :: int
  by (induction xs) auto

lemma filter_evicted:
  "now \<le> t \<Longrightarrow> filter (\<lambda>x. x > t - w) (filter (\<lambda>x. x > now - w) xs) = filter (\<lambda>x. x > t - w) xs" for now :: int
  by (induction xs) auto

lemma log_inv_step:
  assumes inv: "log_inv now gs p" and chk: "check_sp u fee now p = Inr ()"
    and pos: "0 < rs_maxBumpsPerUserPerWindow (sp_policy p)"
  shows "log_inv now (gs @ [(u, now, f)]) (record_sp u f now p)"
proof -
  let ?w = "rs_windowMs (sp_policy p)" and ?m = "rs_maxBumpsPerUserPerWindow (sp_policy p)"
  let ?b = "\<lambda>u. or_default (map_get (sp_buckets p) u) []"
  have agree: "length (filter (\<lambda>x. x > t - ?w) (?b v)) =
      length (filter (\<lambda>g. fst g = v \<and> fst (snd g) > t - ?w) gs)" if "now \<le> t" for v t
    using inv that by (simp add: log_inv_def)
  have b: "or_default (map_get (sp_buckets (record_sp u f now p)) v) [] =
      (if v = u then filter (\<lambda>x. x > now - ?w) (?b u) @ [now] else ?b v)" for v
    by simp
  have agree': "length (filter (\<lambda>x. x > t - ?w) (or_default (map_get (sp_buckets (record_sp u f now p)) v) [])) =
      length (filter (\<lambda>g. fst g = v \<and> fst (snd g) > t - ?w) (gs @ [(u, now, f)]))" if "now \<le> t" for v t
    using agree [OF that, of v] by (cases "v = u") (simp_all add: filter_evicted [OF that] del: filter_filter)
  have bound: "int (length (filter (in_window_of v ?w t) (gs @ [(u, now, f)]))) \<le> ?m" for v t
  proof (cases "v = u \<and> now \<le> t")
    case True
    have "length (filter (in_window_of v ?w t) gs) \<le> length (filter (\<lambda>x. x > t - ?w) (?b v))"
      using window_le_recent [of v ?w t gs] agree [of t v] True by simp
    also have "\<dots> \<le> length (filter (\<lambda>x. x > now - ?w) (?b v))" using True by (intro filter_later_length) simp
    finally have "int (length (filter (in_window_of v ?w t) gs)) < ?m" using check_rate [OF chk pos] True by simp
    then show ?thesis by simp
  next
    case False
    then show ?thesis using inv by (auto simp: log_inv_def in_window_of_def)
  qed
  show ?thesis unfolding log_inv_def using inv agree' bound by (auto simp: log_inv_def)
qed

lemma log_inv_new: "0 \<le> rs_maxBumpsPerUserPerWindow (resolvePolicy cfg) \<Longrightarrow> log_inv now [] (newSponsorshipPolicy cfg)"
  by (simp add: log_inv_def newSponsorshipPolicy_def or_default_def)

text \<open>The daily spend agrees with the log of the grants on every day that can still matter.\<close>

definition fees_on :: "int \<Rightarrow> grant list \<Rightarrow> int" where
  "fees_on day gs = sum_list (map (\<lambda>g. snd (snd g)) (filter (\<lambda>g. utcDateString (fst (snd g)) = day) gs))"

definition day_inv :: "int \<Rightarrow> grant list \<Rightarrow> sponsorship_policy \<Rightarrow> bool" where
  "day_inv now gs p \<longleftrightarrow>
     (\<forall>g \<in> set gs. fst (snd g) \<le> now) \<and>
     (\<forall>t \<ge> now. (if sp_day p = Some (utcDateString t) then sp_stroops p else 0) = fees_on (utcDateString t) gs)"

lemma utcDateString_mono: "s \<le> t \<Longrightarrow> utcDateString s \<le> utcDateString t"
  by (simp add: utcDateString_def zdiv_mono1)

lemma fees_on_append [simp]:
  "fees_on d (gs @ [(u, t, f)]) = fees_on d gs + (if utcDateString t = d then f else 0)"
  by (simp add: fees_on_def)

lemma fees_on_later_day: "\<forall>g \<in> set gs. fst (snd g) \<le> now \<Longrightarrow> utcDateString now < d \<Longrightarrow> fees_on d gs = 0"
proof -
  assume le: "\<forall>g \<in> set gs. fst (snd g) \<le> now" and d: "utcDateString now < d"
  have "utcDateString (fst (snd g)) \<noteq> d" if "g \<in> set gs" for g
    using le that d utcDateString_mono [of "fst (snd g)" now] by fastforce
  then have "filter (\<lambda>g. utcDateString (fst (snd g)) = d) gs = []" by (simp add: filter_empty_conv)
  then show "fees_on d gs = 0" by (simp add: fees_on_def)
qed

lemma record_sp_day [simp]:
  "sp_day (record_sp u f now p) = Some (utcDateString now)"
  "sp_stroops (record_sp u f now p) = (if sp_day p = Some (utcDateString now) then sp_stroops p else 0) + f"
  by (simp_all add: record_sp_def recordDailySpend_def recordRateLimit_def Let_def)

lemma day_inv_later: "day_inv now gs p \<Longrightarrow> now \<le> now' \<Longrightarrow> day_inv now' gs p"
  unfolding day_inv_def by (meson order_trans)

lemma day_inv_step:
  assumes "day_inv now gs p"
  shows "day_inv now (gs @ [(u, now, f)]) (record_sp u f now p)"
proof -
  have "fees_on (utcDateString t) gs = 0" if "now \<le> t" "utcDateString now \<noteq> utcDateString t" for t
    using assms that utcDateString_mono [of now t] by (intro fees_on_later_day [of gs now]) (auto simp: day_inv_def)
  moreover have "fees_on (utcDateString now) gs = (if sp_day p = Some (utcDateString now) then sp_stroops p else 0)"
    using assms by (simp add: day_inv_def)
  ultimately show ?thesis using assms by (auto simp: day_inv_def)
qed

lemma check_float:
  "check_sp u fee now p = Inr () \<Longrightarrow> day_inv now gs p \<Longrightarrow>
    of_int (fees_on (utcDateString now) gs) < rs_dailyXlmCeiling (sp_policy p) * of_int STROOP_PER_XLM"
  by (auto simp: check_sp_def checkDailyFloat_def day_inv_def Let_def STROOP_PER_XLM_def divide_simps split: sum.splits if_splits)

section \<open>Properties\<close>

text \<open>One bump of a run keeps both records in step with the log.\<close>

lemma bump_step:
  assumes "bump_pm fromXDR buildFeeBump input now pm = Inr (r, pm')"
    and "log_inv now gs (pm_policy pm)" and "day_inv now gs (pm_policy pm)"
    and "0 < rs_maxBumpsPerUserPerWindow (sp_policy (pm_policy pm))"
  shows "log_inv now (gs @ [(br_innerSource r, now, br_totalFeeStroops r)]) (pm_policy pm') \<and>
    day_inv now (gs @ [(br_innerSource r, now, br_totalFeeStroops r)]) (pm_policy pm') \<and>
    sp_policy (pm_policy pm') = sp_policy (pm_policy pm) \<and>
    of_int (fees_on (utcDateString now) gs) < rs_dailyXlmCeiling (sp_policy (pm_policy pm)) * of_int STROOP_PER_XLM"
proof -
  have chk: "check_sp (br_innerSource r) (bi_baseFee input) now (pm_policy pm) = Inr ()"
    and pm': "pm_policy pm' = record_sp (br_innerSource r) (br_totalFeeStroops r) now (pm_policy pm)"
    using bump_pm_Inr [OF assms(1)] by simp_all
  show ?thesis unfolding pm'
    using log_inv_step [OF assms(2) chk assms(4)] day_inv_step [OF assms(3)] check_float [OF chk assms(3)] by simp
qed

definition float_ok :: "rat \<Rightarrow> grant list \<Rightarrow> bool" where
  "float_ok c gs \<longleftrightarrow>
     (\<forall>i < length gs. of_int (fees_on (utcDateString (fst (snd (gs ! i)))) (take i gs)) < c * of_int STROOP_PER_XLM)"

lemma float_ok_append [simp]:
  "float_ok c (gs @ [g]) \<longleftrightarrow> float_ok c gs \<and> of_int (fees_on (utcDateString (fst (snd g))) gs) < c * of_int STROOP_PER_XLM"
  by (auto simp: float_ok_def nth_append less_Suc_eq)

lemma pm_run_inv:
  assumes "sorted (now # map snd ops)" and "log_inv now gs (pm_policy pm)" and "day_inv now gs (pm_policy pm)"
    and "float_ok (rs_dailyXlmCeiling rs) gs"
    and "sp_policy (pm_policy pm) = rs" and "0 < rs_maxBumpsPerUserPerWindow rs"
  shows "(\<exists>now'. log_inv now' (gs @ fst (pm_run fromXDR buildFeeBump ops pm))
       (pm_policy (snd (pm_run fromXDR buildFeeBump ops pm)))) \<and>
    sp_policy (pm_policy (snd (pm_run fromXDR buildFeeBump ops pm))) = rs \<and>
    float_ok (rs_dailyXlmCeiling rs) (gs @ fst (pm_run fromXDR buildFeeBump ops pm))"
  using assms
proof (induction ops arbitrary: now gs pm)
  case Nil
  then show ?case by auto
next
  case (Cons op ops)
  obtain input t where op: "op = (input, t)" by (cases op)
  have le: "now \<le> t" and srt: "sorted (t # map snd ops)" using Cons.prems(1) op by auto
  have inv: "log_inv t gs (pm_policy pm)" "day_inv t gs (pm_policy pm)"
    using log_inv_later [OF Cons.prems(2) le] day_inv_later [OF Cons.prems(3) le] by blast+
  show ?case
  proof (cases "bump_pm fromXDR buildFeeBump input t pm")
    case (Inl e)
    then show ?thesis using Cons.IH [OF srt inv Cons.prems(4-6)] op by simp
  next
    case (Inr rp)
    obtain r pm' where rp: "rp = (r, pm')" by (cases rp)
    note st = bump_step [OF Inr [unfolded rp] inv, unfolded Cons.prems(5), OF Cons.prems(6)]
    have "float_ok (rs_dailyXlmCeiling rs) (gs @ [(br_innerSource r, t, br_totalFeeStroops r)])"
      using st Cons.prems(4) by simp
    then show ?thesis
      using Cons.IH [OF srt, of "gs @ [(br_innerSource r, t, br_totalFeeStroops r)]" pm'] st Cons.prems(6) op Inr rp
      by (simp add: case_prod_beta)
  qed
qed

lemma pm_run_new:
  assumes "sorted (map snd ops)" and "0 < rs_maxBumpsPerUserPerWindow (resolvePolicy cfg)"
    and "pm_run fromXDR buildFeeBump ops (newPaymaster oper cfg) = (gs, pm)"
  shows "(\<exists>now. log_inv now gs (pm_policy pm)) \<and> sp_policy (pm_policy pm) = resolvePolicy cfg \<and>
    float_ok (rs_dailyXlmCeiling (resolvePolicy cfg)) gs"
proof -
  let ?now = "case ops of [] \<Rightarrow> 0 | op # _ \<Rightarrow> snd op"
  have "sorted (?now # map snd ops)" using assms(1) by (cases ops) auto
  moreover have "log_inv ?now [] (pm_policy (newPaymaster oper cfg))"
    using assms(2) by (simp add: newPaymaster_def log_inv_new)
  moreover have "day_inv ?now [] (pm_policy (newPaymaster oper cfg))"
    by (simp add: newPaymaster_def newSponsorshipPolicy_def day_inv_def fees_on_def)
  ultimately show ?thesis
    using pm_run_inv [of ?now ops "[]" "newPaymaster oper cfg" "resolvePolicy cfg" fromXDR buildFeeBump] assms(2,3)
    by (simp add: float_ok_def newPaymaster_def newSponsorshipPolicy_def)
qed

text \<open>
  C40: the per-user limit holds on every sliding window. In any sequence of requests made at
  nondecreasing times to a new paymaster, whatever the envelopes are and whichever requests fail, no
  user is granted more bumps than the configured maximum in any interval of the window's length.
\<close>

theorem rate_limit_holds:
  assumes "sorted (map snd ops)" and "0 < rs_maxBumpsPerUserPerWindow (resolvePolicy cfg)"
    and "pm_run fromXDR buildFeeBump ops (newPaymaster oper cfg) = (gs, pm)"
  shows "int (length (filter (in_window_of u (rs_windowMs (resolvePolicy cfg)) t) gs)) \<le>
    rs_maxBumpsPerUserPerWindow (resolvePolicy cfg)"
  using pm_run_new [OF assms] by (auto simp: log_inv_def)

definition demo_xdr :: "string \<Rightarrow> parsed_tx option" where
  "demo_xdr x = (if x = ''bad'' then None else Some (RegularTransaction x 1 1))"

definition demo_build :: "int \<Rightarrow> parsed_tx \<Rightarrow> (string, string \<times> int) result" where
  "demo_build fee tx = Inr (tx_source tx @ ''+'', 2 * fee)"

definition demo_ops :: "(bump_input \<times> int) list" where
  "demo_ops = map (\<lambda>(x, t). (\<lparr>bi_innerXdr = x, bi_baseFee = 100\<rparr>, t))
     [(''bad'', 0), (''GU'', 0), (''GU'', 1), (''GOP'', 2), (''GU'', 5), (''GU'', 2000)]"

definition demo_cfg :: policy_config where
  "demo_cfg = \<lparr>pc_maxBumpsPerUserPerWindow = Some 2, pc_windowMs = Some 1000, pc_maxFeePerBump = None,
     pc_dailyXlmCeiling = None\<rparr>"

lemma demo_run:
  "fst (pm_run demo_xdr demo_build demo_ops (newPaymaster ''GOP'' demo_cfg)) = [(''GU'', 0, 200), (''GU'', 1, 200), (''GU'', 2000, 200)]"
  by code_simp

theorem rate_limit_holds_witness:
  "sorted (map snd demo_ops) \<and>
   length (filter (in_window_of ''GU'' 1000 5) (fst (pm_run demo_xdr demo_build demo_ops (newPaymaster ''GOP'' demo_cfg)))) \<le> 2"
proof -
  have s: "sorted (map snd demo_ops)" by (simp add: demo_ops_def)
  have c: "rs_maxBumpsPerUserPerWindow (resolvePolicy demo_cfg) = 2" "rs_windowMs (resolvePolicy demo_cfg) = 1000"
    by (simp_all add: demo_cfg_def resolvePolicy_def)
  from rate_limit_holds [where fromXDR = demo_xdr and buildFeeBump = demo_build and cfg = demo_cfg and oper = "''GOP''"
      and u = "''GU''" and t = 5, OF s _ prod.collapse [symmetric]] s c
  show ?thesis by simp
qed

text \<open>
  the daily ceiling stops the spending, with an overshoot of one fee. In every such sequence each
  granted bump finds the fees granted earlier on its UTC day below the ceiling; the check does not add the
  fee that is being requested, so the total of a day can pass the ceiling by the fee of its last
  grant.
\<close>

theorem daily_ceiling_overshoots_by_one_fee:
  assumes "sorted (map snd ops)" and "0 < rs_maxBumpsPerUserPerWindow (resolvePolicy cfg)"
    and "pm_run fromXDR buildFeeBump ops (newPaymaster oper cfg) = (gs, pm)"
    and "i < length gs"
  shows "of_int (fees_on (utcDateString (fst (snd (gs ! i)))) (take i gs)) <
      rs_dailyXlmCeiling (resolvePolicy cfg) * of_int STROOP_PER_XLM \<and>
    of_int (fees_on (utcDateString (fst (snd (gs ! i)))) (take (Suc i) gs)) <
      rs_dailyXlmCeiling (resolvePolicy cfg) * of_int STROOP_PER_XLM + of_int (snd (snd (gs ! i)))"
proof -
  obtain u t f where g: "gs ! i = (u, t, f)" by (cases "gs ! i")
  have "fees_on (utcDateString t) (take (Suc i) gs) = fees_on (utcDateString t) (take i gs) + f"
    using assms(4) g by (simp add: take_Suc_conv_app_nth)
  with pm_run_new [OF assms(1-3)] assms(4) g show ?thesis by (auto simp: float_ok_def)
qed

theorem daily_ceiling_overshoots_by_one_fee_witness:
  "fst (pm_run demo_xdr demo_build [(\<lparr>bi_innerXdr = ''GU'', bi_baseFee = 100\<rparr>, 0)]
       (newPaymaster ''GOP'' (demo_cfg\<lparr>pc_dailyXlmCeiling := Some (1 / 10000000)\<rparr>))) = [(''GU'', 0, 200)] \<and>
   of_int (fees_on 0 [(''GU'', 0, 200)]) < (1 / 10000000) * of_int STROOP_PER_XLM + (200 :: rat)"
proof -
  let ?cfg = "demo_cfg\<lparr>pc_dailyXlmCeiling := Some (1 / 10000000)\<rparr>"
  let ?ops = "[(\<lparr>bi_innerXdr = ''GU'', bi_baseFee = 100\<rparr>, 0)]"
  have r: "fst (pm_run demo_xdr demo_build ?ops (newPaymaster ''GOP'' ?cfg)) = [(''GU'', 0, 200)]" by code_simp
  have s: "sorted (map snd ?ops)" by simp
  have c: "rs_maxBumpsPerUserPerWindow (resolvePolicy ?cfg) = 2" "rs_dailyXlmCeiling (resolvePolicy ?cfg) = 1 / 10000000"
    by (simp_all add: demo_cfg_def resolvePolicy_def)
  from daily_ceiling_overshoots_by_one_fee [where fromXDR = demo_xdr and buildFeeBump = demo_build and cfg = ?cfg
      and oper = "''GOP''" and i = 0, OF s _ prod.collapse [symmetric]]
  show ?thesis by (simp add: r c utcDateString_def del: pm_run.simps)
qed

end
