(* ===== verification/Schedule.thy ===== *)
theory Schedule
  imports Orbital_Prelude
begin

text \<open>
  Time-based triggers: \<^verbatim>\<open>packages/worker-core/src/schedule.ts\<close> and \<^verbatim>\<open>TriggerEvaluator.ts\<close>. A \<open>Date\<close>
  is its epoch milliseconds. The package \<open>cron-parser\<close> is the argument \<open>cron\<close>: given an expression, an
  optional timezone and the current date it refuses the expression or gives the iterator, as the
  function from the number of the call of \<open>next\<close> to its answer. The enumeration loop need not end, so
  it is an option-valued partial function and \<open>None\<close> is a loop that does not return.
\<close>

section \<open>Schedules\<close>

datatype schedule = IntervalSchedule int | CronSchedule string "string option"

type_synonym cron_parser = "string \<Rightarrow> string option \<Rightarrow> int \<Rightarrow> (string, nat \<Rightarrow> (string, int) result) result"

definition cron_tz :: "string option \<Rightarrow> string option" where
  "cron_tz timezone = (if timezone = Some [] then None else timezone)"

definition align :: "(int \<Rightarrow> int) option \<Rightarrow> int \<Rightarrow> int" where
  "align nextLedgerCloseTime t = (case nextLedgerCloseTime of Some f \<Rightarrow> f t | None \<Rightarrow> t)"

definition nextDue :: "cron_parser \<Rightarrow> schedule \<Rightarrow> int \<Rightarrow> (int \<Rightarrow> int) option \<Rightarrow> (string, int) result" where
  "nextDue cron schedule after close =
     (case schedule of
        IntervalSchedule intervalMs \<Rightarrow> Inr (align close (after + intervalMs))
      | CronSchedule expression timezone \<Rightarrow>
          bind_result (cron expression (cron_tz timezone) after) (\<lambda>next_date.
          bind_result (next_date 0) (\<lambda>due. Inr (align close due))))"

text \<open>The loop of \<open>dueTimesBetween\<close>: \<open>k\<close> counts the nominal times taken so far, and the times already
  seen are the ones in the result.\<close>

partial_function (option) due_loop ::
  "(nat \<Rightarrow> (string, int) result) \<Rightarrow> (int \<Rightarrow> int) option \<Rightarrow> int \<Rightarrow> nat \<Rightarrow> int list \<Rightarrow> (string, int list) result option"
where
  "due_loop nominal close to k acc =
     (case nominal k of
        Inl e \<Rightarrow> Some (Inl e)
      | Inr current \<Rightarrow>
          if current \<le> to then
            if align close current > to then Some (Inr acc)
            else due_loop nominal close to (Suc k)
              (if align close current \<in> set acc then acc else acc @ [align close current])
          else Some (Inr acc))"

definition interval_times :: "int \<Rightarrow> int \<Rightarrow> nat \<Rightarrow> (string, int) result" where
  "interval_times after intervalMs k = Inr (after + (int k + 1) * intervalMs)"

definition dueTimesBetween ::
  "cron_parser \<Rightarrow> schedule \<Rightarrow> int \<Rightarrow> int \<Rightarrow> (int \<Rightarrow> int) option \<Rightarrow> (string, int list) result option"
where
  "dueTimesBetween cron schedule after to close =
     (if to \<le> after then Some (Inr [])
      else case schedule of
          IntervalSchedule intervalMs \<Rightarrow> due_loop (interval_times after intervalMs) close to 0 []
        | CronSchedule expression timezone \<Rightarrow>
            (case cron expression (cron_tz timezone) after of
               Inl e \<Rightarrow> Some (Inl e)
             | Inr next_date \<Rightarrow> due_loop next_date close to 0 []))"

section \<open>TriggerEvaluator\<close>

datatype catch_up_policy = FireOnce | FireAll

record worker_state =
  ws_id :: string
  ws_schedule :: schedule
  ws_anchorAt :: "int option"
  ws_lastFiredAt :: "int option"
  ws_catchUpPolicy :: "catch_up_policy option"

record time_fire_decision =
  tf_workerId :: string
  tf_fireTimes :: "int list"

record trigger_evaluator =
  te_minPollIntervalMs :: int
  te_lastPollAt :: "int option"

definition newTriggerEvaluator :: "int option \<Rightarrow> trigger_evaluator" where
  "newTriggerEvaluator minPollIntervalMs =
     \<lparr>te_minPollIntervalMs = (case minPollIntervalMs of Some v \<Rightarrow> v | None \<Rightarrow> 5000), te_lastPollAt = None\<rparr>"

definition fire_from :: "worker_state \<Rightarrow> int option" where
  "fire_from w = (case ws_lastFiredAt w of Some t \<Rightarrow> Some t | None \<Rightarrow> ws_anchorAt w)"

definition evaluate_te ::
  "cron_parser \<Rightarrow> worker_state \<Rightarrow> int \<Rightarrow> (string, time_fire_decision option) result option"
where
  "evaluate_te cron w ledgerCloseTime =
     (case fire_from w of
        None \<Rightarrow> Some (Inr None)
      | Some from_time \<Rightarrow>
          (case dueTimesBetween cron (ws_schedule w) from_time ledgerCloseTime None of
             None \<Rightarrow> None
           | Some (Inl e) \<Rightarrow> Some (Inl e)
           | Some (Inr dueTimes) \<Rightarrow>
               Some (Inr (if dueTimes = [] then None
                 else if ws_catchUpPolicy w = Some FireAll then Some \<lparr>tf_workerId = ws_id w, tf_fireTimes = dueTimes\<rparr>
                 else Some \<lparr>tf_workerId = ws_id w, tf_fireTimes = [ledgerCloseTime]\<rparr>))))"

fun evaluate_workers ::
  "cron_parser \<Rightarrow> int \<Rightarrow> worker_state list \<Rightarrow> (string, time_fire_decision list) result option"
where
  "evaluate_workers cron now [] = Some (Inr [])"
| "evaluate_workers cron now (w # ws) =
     (case evaluate_te cron w now of
        None \<Rightarrow> None
      | Some (Inl e) \<Rightarrow> Some (Inl e)
      | Some (Inr d) \<Rightarrow>
          (case evaluate_workers cron now ws of
             None \<Rightarrow> None
           | Some (Inl e) \<Rightarrow> Some (Inl e)
           | Some (Inr ds) \<Rightarrow> Some (Inr (case d of Some x \<Rightarrow> x # ds | None \<Rightarrow> ds))))"

text \<open>The answer of the ledger source is the argument \<open>closeTime\<close>; it is only asked when the poll is
  not skipped.\<close>

definition poll ::
  "cron_parser \<Rightarrow> int \<Rightarrow> (string, int) result \<Rightarrow> worker_state list \<Rightarrow> trigger_evaluator \<Rightarrow>
   (string, time_fire_decision list) result option \<times> trigger_evaluator"
where
  "poll cron now closeTime workers te =
     (if (case te_lastPollAt te of None \<Rightarrow> False | Some l \<Rightarrow> now - l < te_minPollIntervalMs te) then (Some (Inr []), te)
      else ((case closeTime of Inl e \<Rightarrow> Some (Inl e) | Inr t \<Rightarrow> evaluate_workers cron t workers),
            te\<lparr>te_lastPollAt := Some now\<rparr>))"

section \<open>The enumeration loop\<close>

lemma due_loop_stop:
  "nominal k = Inr c \<Longrightarrow> to < c \<or> to < align close c \<Longrightarrow> due_loop nominal close to k acc = Some (Inr acc)"
  by (subst due_loop.simps) auto

lemma due_loop_step:
  "nominal k = Inr c \<Longrightarrow> c \<le> to \<Longrightarrow> align close c \<le> to \<Longrightarrow>
    due_loop nominal close to k acc =
    due_loop nominal close to (Suc k) (if align close c \<in> set acc then acc else acc @ [align close c])"
  by (subst due_loop.simps) auto


lemma due_loop_run:
  assumes "\<And>k. nominal k = Inr (f k)" and "\<forall>j < n. f j \<le> to \<and> align close (f j) \<le> to"
    and "to < f n \<or> to < align close (f n)" and "k \<le> n"
  shows "due_loop nominal close to k (uniq (map (\<lambda>j. align close (f j)) [0..<k])) =
    Some (Inr (uniq (map (\<lambda>j. align close (f j)) [0..<n])))"
  using assms(4)
proof (induction "n - k" arbitrary: k)
  case 0
  then have "k = n" by simp
  then show ?case using due_loop_stop [where nominal = nominal and k = n and c = "f n" and to = to and close = close] assms(1) [of n] assms(3)
    by simp
next
  case (Suc m)
  then have "k < n" by simp
  then have "due_loop nominal close to k (uniq (map (\<lambda>j. align close (f j)) [0..<k])) =
      due_loop nominal close to (Suc k) (uniq (map (\<lambda>j. align close (f j)) [0..<Suc k]))"
    using due_loop_step [where nominal = nominal and k = k and c = "f k" and to = to and close = close] assms(1) [of k] assms(2)
    by (simp add: uniq_snoc)
  also have "\<dots> = Some (Inr (uniq (map (\<lambda>j. align close (f j)) [0..<n])))"
    using Suc(1) [of "Suc k"] Suc(2) \<open>k < n\<close> by simp
  finally show ?case .
qed



section \<open>Properties\<close>

lemma align_None [simp]: "align None t = t"
  by (simp add: align_def)

lemma sorted_uniq: "sorted xs \<Longrightarrow> sorted (uniq xs)" for xs :: "'a :: linorder list"
  by (induction xs) (auto intro: sorted_wrt_filter)

text \<open>The enumeration stops at the first nominal time beyond the bound.\<close>

lemma interval_run:
  assumes i: "0 < i" and mono: "\<And>s t. s \<le> t \<Longrightarrow> align close s \<le> align close t" and "after < to"
  defines "f \<equiv> \<lambda>k. after + (int k + 1) * i"
  shows "\<exists>n. dueTimesBetween cron (IntervalSchedule i) after to close =
      Some (Inr (uniq (map (\<lambda>j. align close (f j)) [0..<n]))) \<and>
    (\<forall>j. j < n \<longleftrightarrow> f j \<le> to \<and> align close (f j) \<le> to)"
proof -
  let ?stop = "\<lambda>n. to < f n \<or> to < align close (f n)"
  have f_mono: "j \<le> k \<Longrightarrow> f j \<le> f k" for j k using i by (simp add: f_def)
  have "to < f (nat (to - after))"
  proof -
    have "to - after < (to - after + 1) * 1" by simp
    also have "\<dots> \<le> (to - after + 1) * i" using i assms(3) by (intro mult_left_mono) auto
    finally show ?thesis using assms(3) by (simp add: f_def)
  qed
  then have ex: "\<exists>n. ?stop n" by blast
  define n where "n = (LEAST n. ?stop n)"
  have n: "?stop n" unfolding n_def by (rule LeastI_ex [OF ex])
  have before: "\<not> ?stop j" if "j < n" for j using that unfolding n_def by (rule not_less_Least)
  have after_n: "?stop j" if "n \<le> j" for j
    using n f_mono [OF that] mono [OF f_mono [OF that]] by fastforce
  have iff: "j < n \<longleftrightarrow> f j \<le> to \<and> align close (f j) \<le> to" for j
    using before [of j] after_n [of j] by (cases "j < n") (auto simp: not_less)
  have "interval_times after i k = Inr (f k)" for k by (simp add: interval_times_def f_def)
  from due_loop_run [of "interval_times after i" f n to close 0, OF this _ n] iff assms(3)
  show ?thesis by (auto simp: dueTimesBetween_def)
qed

text \<open>
  a positive interval is enumerated exactly. \<open>dueTimesBetween\<close> returns, and its times are, in
  ascending order and each once, the ledger-aligned multiples of the interval that lie in the range.
\<close>

theorem interval_due_times_exact:
  assumes "0 < i" and "\<forall>s t. s \<le> t \<longrightarrow> align close s \<le> align close t"
  shows "\<exists>ts. dueTimesBetween cron (IntervalSchedule i) after to close = Some (Inr ts) \<and> sorted ts \<and> distinct ts \<and>
    (after < to \<longrightarrow> set ts = {align close t |t k. t = after + int k * i \<and> 0 < k \<and> t \<le> to \<and> align close t \<le> to})"
proof (cases "after < to")
  case True
  have mono: "\<And>s t. s \<le> t \<Longrightarrow> align close s \<le> align close t" using assms(2) by blast
  let ?f = "\<lambda>k. after + (int k + 1) * i"
  obtain n where r: "dueTimesBetween cron (IntervalSchedule i) after to close = Some (Inr (uniq (map (\<lambda>j. align close (?f j)) [0..<n])))"
    and n: "\<forall>j. j < n \<longleftrightarrow> ?f j \<le> to \<and> align close (?f j) \<le> to"
    using interval_run [OF assms(1) mono True] by blast
  have st: "sorted (map (\<lambda>j. align close (?f j)) [0..<n])"
    using assms(1) by (auto simp: sorted_iff_nth_mono intro!: mono mult_right_mono)
  have im: "(\<lambda>j. align close (?f j)) ` {0..<n} =
      {align close t |t k. t = after + int k * i \<and> 0 < k \<and> t \<le> to \<and> align close t \<le> to}"
  proof (intro equalityI subsetI)
    fix x assume "x \<in> (\<lambda>j. align close (?f j)) ` {0..<n}"
    then obtain j where "j < n" "x = align close (?f j)" by auto
    with n show "x \<in> {align close t |t k. t = after + int k * i \<and> 0 < k \<and> t \<le> to \<and> align close t \<le> to}"
      by (intro CollectI exI [of _ "?f j"] exI [of _ "Suc j"]) (auto simp: algebra_simps)
  next
    fix x assume "x \<in> {align close t |t k. t = after + int k * i \<and> 0 < k \<and> t \<le> to \<and> align close t \<le> to}"
    then obtain k where k: "x = align close (after + int k * i)" "0 < k" "after + int k * i \<le> to" "align close (after + int k * i) \<le> to"
      by auto
    have "after + int k * i = ?f (k - 1)" using k(2) by (cases k) (simp_all add: algebra_simps)
    then have eq: "x = align close (?f (k - 1))" and "?f (k - 1) \<le> to \<and> align close (?f (k - 1)) \<le> to"
      using k by simp_all
    with n have "k - 1 < n" by blast
    with eq show "x \<in> (\<lambda>j. align close (?f j)) ` {0..<n}" by simp
  qed
  show ?thesis
  proof (intro exI conjI impI)
    show "dueTimesBetween cron (IntervalSchedule i) after to close = Some (Inr (uniq (map (\<lambda>j. align close (?f j)) [0..<n])))"
      by (rule r)
    show "sorted (uniq (map (\<lambda>j. align close (?f j)) [0..<n]))" by (rule sorted_uniq [OF st])
    show "set (uniq (map (\<lambda>j. align close (?f j)) [0..<n])) =
        {align close t |t k. t = after + int k * i \<and> 0 < k \<and> t \<le> to \<and> align close t \<le> to}"
      using im by (simp only: set_uniq set_map set_upt)
  qed simp
next
  case False
  then show ?thesis by (simp add: dueTimesBetween_def)
qed

theorem interval_due_times_exact_witness:
  "\<exists>ts. dueTimesBetween (\<lambda>_ _ _. Inl []) (IntervalSchedule 3) 0 20 (Some (\<lambda>t. (t + 4) div 5 * 5)) = Some (Inr ts) \<and>
     sorted ts \<and> distinct ts"
proof -
  have "\<forall>s t. s \<le> t \<longrightarrow> align (Some (\<lambda>t. (t + 4) div 5 * 5)) s \<le> align (Some (\<lambda>t. (t + 4) div 5 * 5)) t"
    by (simp add: align_def zdiv_mono1)
  from interval_due_times_exact [OF _ this, of 3 "\<lambda>_ _ _. Inl []" 0 20] show ?thesis by auto
qed

lemma mult_le_iff_le_div: "0 < i \<Longrightarrow> x * i \<le> a \<longleftrightarrow> x \<le> a div i" for x i a :: int
proof
  assume i: "0 < i" and "x * i \<le> a"
  then have "x * i div i \<le> a div i" by (intro zdiv_mono1) simp_all
  with i show "x \<le> a div i" by simp
next
  assume i: "0 < i" and "x \<le> a div i"
  then have "x * i \<le> (a div i) * i" by (simp add: mult_right_mono)
  also have "\<dots> \<le> a" using pos_mod_sign [OF i, of a] div_mult_mod_eq [of a i] by linarith
  finally show "x * i \<le> a" .
qed

lemma interval_list:
  assumes i: "0 < i"
  shows "dueTimesBetween cron (IntervalSchedule i) a t None =
    Some (Inr (map (\<lambda>j. a + (int j + 1) * i) [0..<nat ((t - a) div i)]))"
proof (cases "a < t")
  case True
  obtain n where r: "dueTimesBetween cron (IntervalSchedule i) a t None = Some (Inr (uniq (map (\<lambda>j. align None (a + (int j + 1) * i)) [0..<n])))"
    and n: "\<forall>j. j < n \<longleftrightarrow> a + (int j + 1) * i \<le> t \<and> align None (a + (int j + 1) * i) \<le> t"
    using interval_run [OF i _ True, of None cron] by auto
  have "a + (int j + 1) * i \<le> t \<longleftrightarrow> j < nat ((t - a) div i)" for j
    using mult_le_iff_le_div [OF i, of "int j + 1" "t - a"] by linarith
  with n have "\<forall>j. j < n \<longleftrightarrow> j < nat ((t - a) div i)" by simp
  then have "n = nat ((t - a) div i)" by (metis less_irrefl linorder_neqE_nat)
  moreover have "distinct (map (\<lambda>j. a + (int j + 1) * i) [0..<n])" using i by (auto simp: distinct_map inj_on_def)
  ultimately show ?thesis using r by (simp add: uniq_distinct)
next
  case False
  then have "(t - a) div i \<le> 0" using zdiv_mono1 [of "t - a" 0 i] i by simp
  with False show ?thesis by (simp add: dueTimesBetween_def)
qed


definition fire_times :: "(string, time_fire_decision option) result option \<Rightarrow> int list" where
  "fire_times r = (case r of Some (Inr (Some d)) \<Rightarrow> tf_fireTimes d | _ \<Rightarrow> [])"

lemma fire_all_times:
  assumes "ws_schedule w = IntervalSchedule i" and "0 < i" and "ws_catchUpPolicy w = Some FireAll" and "fire_from w = Some a"
  shows "fire_times (evaluate_te cron w t) = map (\<lambda>j. a + (int j + 1) * i) [0..<nat ((t - a) div i)]"
  using assms by (simp add: evaluate_te_def interval_list fire_times_def)

text \<open>
  C36: with the policy \<open>fire-all\<close> no due time is skipped or repeated across polls. If a worker fires
  what one evaluation returns and its last fire time is recorded, then the fire times of that
  evaluation and of any later one together are those of a single evaluation at the later close time.
\<close>

theorem fire_all_no_gap_no_repeat:
  assumes "ws_schedule w = IntervalSchedule i" and "0 < i" and "ws_catchUpPolicy w = Some FireAll"
    and "fire_from w = Some a" and "t1 \<le> t2"
  shows "let xs = fire_times (evaluate_te cron w t1);
      w' = (if xs = [] then w else w\<lparr>ws_lastFiredAt := Some (last xs)\<rparr>)
    in xs @ fire_times (evaluate_te cron w' t2) = fire_times (evaluate_te cron w t2)"
proof -
  define n where "n = nat ((t1 - a) div i)"
  let ?xs = "fire_times (evaluate_te cron w t1)"
  let ?w' = "if ?xs = [] then w else w\<lparr>ws_lastFiredAt := Some (last ?xs)\<rparr>"
  have xs: "?xs = map (\<lambda>j. a + (int j + 1) * i) [0..<n]" unfolding n_def by (rule fire_all_times [OF assms(1-4)])
  have from': "fire_from ?w' = Some (a + int n * i)"
    using assms(4) by (cases n) (auto simp: xs fire_from_def)
  have ys: "fire_times (evaluate_te cron ?w' t2) =
      map (\<lambda>j. a + int n * i + (int j + 1) * i) [0..<nat ((t2 - (a + int n * i)) div i)]"
    using assms(1-3) by (intro fire_all_times [OF _ _ _ from']) auto
  have "(t1 - a) div i \<le> (t2 - a) div i" using assms(2,5) by (simp add: zdiv_mono1)
  moreover have "(t2 - (a + int n * i)) div i = (t2 - a) div i - int n"
    using div_mult_self1 [of i "t2 - a" "- int n"] assms(2) by (simp add: algebra_simps)
  ultimately have m: "nat ((t2 - a) div i) = n + nat ((t2 - (a + int n * i)) div i)" by (auto simp: n_def)
  have "map (\<lambda>j. a + (int j + 1) * i) [n..<n + m] = map (\<lambda>j. a + int n * i + (int j + 1) * i) [0..<m]" for m
    by (induction m) (simp_all add: algebra_simps)
  moreover have "fire_times (evaluate_te cron w t2) =
      map (\<lambda>j. a + (int j + 1) * i) [0..<n + nat ((t2 - (a + int n * i)) div i)]"
    by (simp only: fire_all_times [OF assms(1-4)] m)
  ultimately have "fire_times (evaluate_te cron w t2) = ?xs @ fire_times (evaluate_te cron ?w' t2)"
    by (simp only: ys) (simp only: xs upt_add_eq_append [of 0 n, OF le0] map_append)
  then show ?thesis unfolding Let_def by (rule sym)
qed

theorem fire_all_no_gap_no_repeat_witness:
  "fire_times (evaluate_te (\<lambda>_ _ _. Inl []) \<lparr>ws_id = ''w'', ws_schedule = IntervalSchedule 10, ws_anchorAt = Some 0,
       ws_lastFiredAt = None, ws_catchUpPolicy = Some FireAll\<rparr> 25) @
   fire_times (evaluate_te (\<lambda>_ _ _. Inl []) \<lparr>ws_id = ''w'', ws_schedule = IntervalSchedule 10, ws_anchorAt = Some 0,
       ws_lastFiredAt = Some 20, ws_catchUpPolicy = Some FireAll\<rparr> 47) = [10, 20, 30, 40]"
proof -
  let ?w = "\<lparr>ws_id = ''w'', ws_schedule = IntervalSchedule 10, ws_anchorAt = Some 0, ws_lastFiredAt = None,
    ws_catchUpPolicy = Some FireAll\<rparr>"
  have "fire_from ?w = Some 0" by (simp add: fire_from_def)
  moreover have "fire_times (evaluate_te (\<lambda>_ _ _. Inl []) ?w t) = map (\<lambda>j. 0 + (int j + 1) * 10) [0..<nat ((t - 0) div 10)]" for t
    by (intro fire_all_times) (simp_all add: fire_from_def)
  ultimately show ?thesis
    using fire_all_no_gap_no_repeat [of ?w 10 0 25 47 "\<lambda>_ _ _. Inl []"] by (simp add: upt_rec)
qed

end
