(* ===== verification/Verification_Engine.thy ===== *)
theory Verification_Engine
  imports Event_Trigger Schedule
begin

text \<open>
  Chain-derived worker verification:
  \<^verbatim>\<open>packages/worker-core/src/verification/workerFireVerdict.ts\<close> (statuses, windows, verdicts), the
  worker definition of \<^verbatim>\<open>types.ts\<close> as far as verification reads it, and
  \<^verbatim>\<open>verification/WorkerVerificationEngine.ts\<close> for time and event triggers. An absent property of an
  event or a verdict is \<open>None\<close>; the planner's extra property \<open>conditionEventId\<close>, which the spread of a
  decision copies along, is not part of a verdict.
\<close>

section \<open>Verdicts\<close>

datatype fire_verdict_status = VPending | VNotDue | VFired | VLate | VMissed | VUnverifiable

datatype verdict_reason =
    RejectedEarlyCall | BeforeActivationReason | WindowAlreadyOpenReason
  | MissingLedgerReason | NoAttestation | AttestationInvalid | AttestationWindowMismatch | AttestationUnretrievable

record verdict_window =
  vw_windowId :: string
  vw_workerId :: string
  vw_conditionLedger :: int
  vw_deadlineLedger :: int

record worker_fire_verdict = verdict_window +
  fv_status :: fire_verdict_status
  fv_reason :: "verdict_reason option"
  fv_invocationLedger :: "int option"
  fv_invocationTxHash :: "string option"
  fv_latencyLedgers :: "int option"

definition EXCLUDED_FROM_SCORING :: "fire_verdict_status list" where
  "EXCLUDED_FROM_SCORING = [VPending, VUnverifiable]"

section \<open>Worker definitions and ledger close times\<close>

datatype manifest_schedule = ManifestInterval int string | ManifestCron string string

datatype worker_trigger = TimeTrigger manifest_schedule | EventTrigger string string | ComputationTrigger string

record worker_definition =
  wd_id :: string
  wd_operator :: string
  wd_targetContractId :: string
  wd_functionName :: string
  wd_trigger :: worker_trigger

fun toSchedulerSchedule :: "manifest_schedule \<Rightarrow> schedule" where
  "toSchedulerSchedule (ManifestInterval everyMs timezone) = IntervalSchedule everyMs"
| "toSchedulerSchedule (ManifestCron expression timezone) = CronSchedule expression (Some timezone)"

record close_entry =
  ce_ledger :: int
  ce_closeTime :: int

definition newCloseTimeIndex :: "close_entry list \<Rightarrow> close_entry list" where
  "newCloseTimeIndex entries = sort_key ce_ledger entries"

definition closeTimeOfLedger :: "close_entry list \<Rightarrow> int \<Rightarrow> int option" where
  "closeTimeOfLedger index ledger = map_option ce_closeTime (find (\<lambda>e. ce_ledger e = ledger) index)"

definition firstLedgerAtOrAfter :: "close_entry list \<Rightarrow> int \<Rightarrow> int option" where
  "firstLedgerAtOrAfter index at_time = map_option ce_ledger (find (\<lambda>e. at_time \<le> ce_closeTime e) index)"

section \<open>Resolving a window\<close>

definition isInvocationOf :: "norm_event \<Rightarrow> string \<Rightarrow> string \<Rightarrow> bool" where
  "isInvocationOf event contractId functionName \<longleftrightarrow>
     ev_type event = ''contract.invoked'' \<and> ev_contractId event = Some contractId \<and> ev_function event = Some functionName"

definition ledgerOf_ve :: "norm_event \<Rightarrow> int option" where
  "ledgerOf_ve event = ev_ledger event"

text \<open>The state of the search: the earliest successful invocation with its transaction hash, and
  whether a rejected attempt was seen.\<close>

type_synonym search_state = "(int \<times> string option) option \<times> bool"

definition search_step :: "verdict_window \<Rightarrow> string \<Rightarrow> string \<Rightarrow> norm_event \<Rightarrow> search_state \<Rightarrow> search_state" where
  "search_step window contractId functionName event s =
     (if \<not> isInvocationOf event contractId functionName then s
      else case ledgerOf_ve event of
          None \<Rightarrow> s
        | Some ledger \<Rightarrow>
            if ledger < vw_conditionLedger window then s
            else if ev_inSuccessfulContractCall event = Some False then (fst s, True)
            else (case fst s of
                None \<Rightarrow> (Some (ledger, ev_txHash event), snd s)
              | Some (best, h) \<Rightarrow> if ledger < best then (Some (ledger, ev_txHash event), snd s) else s))"

definition verdict_of ::
  "verdict_window \<Rightarrow> fire_verdict_status \<Rightarrow> verdict_reason option \<Rightarrow> int option \<Rightarrow> string option \<Rightarrow> int option \<Rightarrow> worker_fire_verdict"
where
  "verdict_of w status reason ledger txHash latency =
     verdict_window.extend w
       \<lparr>fv_status = status, fv_reason = reason, fv_invocationLedger = ledger, fv_invocationTxHash = txHash,
        fv_latencyLedgers = latency\<rparr>"

definition resolveWindow ::
  "verdict_window \<Rightarrow> string \<Rightarrow> string \<Rightarrow> norm_event list \<Rightarrow> int \<Rightarrow> int \<Rightarrow> worker_fire_verdict"
where
  "resolveWindow window targetContractId functionName events toLedger verificationHorizonLedgers =
     (if toLedger - vw_deadlineLedger window < verificationHorizonLedgers
      then verdict_of window VPending None None None None
      else let (best, sawRejectedAttempt) = fold (search_step window targetContractId functionName) events (None, False)
        in case best of
            Some (ledger, txHash) \<Rightarrow>
              (if ledger \<le> vw_deadlineLedger window then verdict_of window VFired None (Some ledger) txHash None
               else verdict_of window VLate None (Some ledger) txHash (Some (ledger - vw_deadlineLedger window)))
          | None \<Rightarrow>
              if sawRejectedAttempt then verdict_of window VNotDue (Some RejectedEarlyCall) None None None
              else verdict_of window VMissed None None None None)"

section \<open>The engine\<close>

datatype verify_error = WrongTriggerKind | RangeNotCovered | ScheduleError string

definition time_window :: "worker_definition \<Rightarrow> int \<Rightarrow> int \<Rightarrow> verdict_window" where
  "time_window d latencyBoundLedgers conditionLedger =
     \<lparr>vw_windowId = wd_id d @ '':t:'' @ show_int conditionLedger, vw_workerId = wd_id d,
      vw_conditionLedger = conditionLedger, vw_deadlineLedger = conditionLedger + latencyBoundLedgers\<rparr>"

definition due_ledgers :: "close_entry list \<Rightarrow> int \<Rightarrow> int list \<Rightarrow> int list" where
  "due_ledgers index toLedger dueTimes =
     concat (map (\<lambda>due. case firstLedgerAtOrAfter index due of
        None \<Rightarrow> [] | Some conditionLedger \<Rightarrow> if conditionLedger > toLedger then [] else [conditionLedger]) dueTimes)"

definition verifyTimeTrigger ::
  "cron_parser \<Rightarrow> worker_definition \<Rightarrow> norm_event list \<Rightarrow> int \<Rightarrow> int \<Rightarrow> int \<Rightarrow> close_entry list \<Rightarrow> int option \<Rightarrow>
   (verify_error, worker_fire_verdict list) result option"
where
  "verifyTimeTrigger cron d events fromLedger toLedger latencyBoundLedgers index horizon =
     (case wd_trigger d of
        TimeTrigger schedule \<Rightarrow>
          (case (closeTimeOfLedger index fromLedger, closeTimeOfLedger index toLedger) of
             (Some fromClose, Some toClose) \<Rightarrow>
               (case dueTimesBetween cron (toSchedulerSchedule schedule) fromClose toClose None of
                  None \<Rightarrow> None
                | Some (Inl e) \<Rightarrow> Some (Inl (ScheduleError e))
                | Some (Inr dueTimes) \<Rightarrow>
                    Some (Inr (map (\<lambda>l. resolveWindow (time_window d latencyBoundLedgers l) (wd_targetContractId d) (wd_functionName d)
                        events toLedger (case horizon of Some h \<Rightarrow> h | None \<Rightarrow> 0))
                      (due_ledgers index toLedger dueTimes))))
           | _ \<Rightarrow> Some (Inl RangeNotCovered))
      | _ \<Rightarrow> Some (Inl WrongTriggerKind))"

definition decision_window :: "fire_decision \<Rightarrow> verdict_window" where
  "decision_window f =
     \<lparr>vw_windowId = fd_windowId f, vw_workerId = fd_workerId f, vw_conditionLedger = fd_conditionLedger f,
      vw_deadlineLedger = fd_deadlineLedger f\<rparr>"

definition verifyEventTrigger ::
  "worker_definition \<Rightarrow> trigger_definition \<Rightarrow> (norm_event \<Rightarrow> bool) \<Rightarrow> norm_event list \<Rightarrow> norm_event list \<Rightarrow> int \<Rightarrow> int \<Rightarrow>
   (verify_error, worker_fire_verdict list) result"
where
  "verifyEventTrigger d planner_def pred conditionEvents invocationEvents toLedger horizon =
     (case wd_trigger d of
        EventTrigger _ _ \<Rightarrow>
          Inr (map (\<lambda>f. resolveWindow (decision_window f) (wd_targetContractId d) (wd_functionName d) invocationEvents toLedger horizon)
            (pr_decisions (plan planner_def pred conditionEvents)))
      | _ \<Rightarrow> Inl WrongTriggerKind)"

section \<open>The abstract verdict\<close>

text \<open>What a verdict is a function of: the ledgers of the successful invocations from the condition
  on, and whether a rejected attempt exists.\<close>

definition candidate :: "verdict_window \<Rightarrow> string \<Rightarrow> string \<Rightarrow> norm_event \<Rightarrow> int option" where
  "candidate w c f e = (if isInvocationOf e c f then
     (case ev_ledger e of Some l \<Rightarrow> if vw_conditionLedger w \<le> l then Some l else None | None \<Rightarrow> None) else None)"

definition successes :: "verdict_window \<Rightarrow> string \<Rightarrow> string \<Rightarrow> norm_event list \<Rightarrow> int set" where
  "successes w c f events =
     {l. \<exists>e \<in> set events. candidate w c f e = Some l \<and> ev_inSuccessfulContractCall e \<noteq> Some False}"

definition rejected :: "verdict_window \<Rightarrow> string \<Rightarrow> string \<Rightarrow> norm_event list \<Rightarrow> bool" where
  "rejected w c f events \<longleftrightarrow>
     (\<exists>e \<in> set events. candidate w c f e \<noteq> None \<and> ev_inSuccessfulContractCall e = Some False)"

lemma search_step_candidate:
  "search_step w c f e s =
     (case candidate w c f e of
        None \<Rightarrow> s
      | Some l \<Rightarrow>
          if ev_inSuccessfulContractCall e = Some False then (fst s, True)
          else (case fst s of
              None \<Rightarrow> (Some (l, ev_txHash e), snd s)
            | Some (best, h) \<Rightarrow> if l < best then (Some (l, ev_txHash e), snd s) else s))"
  by (auto simp: search_step_def candidate_def ledgerOf_ve_def split: option.splits)

lemma successes_snoc:
  "successes w c f (xs @ [e]) = successes w c f xs \<union>
     (if ev_inSuccessfulContractCall e = Some False then {} else set_option (candidate w c f e))"
  by (auto simp: successes_def elem_set)

lemma rejected_snoc:
  "rejected w c f (xs @ [e]) \<longleftrightarrow> rejected w c f xs \<or> candidate w c f e \<noteq> None \<and> ev_inSuccessfulContractCall e = Some False"
  by (auto simp: rejected_def)

definition search_ok :: "int set \<Rightarrow> (int \<times> string option) option \<Rightarrow> bool" where
  "search_ok S best \<longleftrightarrow> (case best of None \<Rightarrow> S = {} | Some (l, h) \<Rightarrow> l \<in> S \<and> (\<forall>l' \<in> S. l \<le> l'))"

lemma search_fold:
  "snd (fold (search_step w c f) events (None, False)) = rejected w c f events \<and>
   search_ok (successes w c f events) (fst (fold (search_step w c f) events (None, False)))"
proof (induction events rule: rev_induct)
  case Nil
  then show ?case by (simp add: rejected_def successes_def search_ok_def)
next
  case (snoc e events)
  obtain best r where s: "fold (search_step w c f) events (None, False) = (best, r)" by (cases "fold (search_step w c f) events (None, False)")
  then have IH: "r = rejected w c f events" "search_ok (successes w c f events) best" using snoc by simp_all
  have "search_step w c f e (best, r) = (b', r') \<Longrightarrow>
      r' = rejected w c f (events @ [e]) \<and> search_ok (successes w c f (events @ [e])) b'" for b' r'
    using IH by (cases "candidate w c f e"; cases best)
      (auto simp: search_step_candidate [of w c f e] successes_snoc rejected_snoc search_ok_def split: if_splits, force+)
  then show ?case using s by (cases "search_step w c f e (best, r)") simp
qed

lemma verdict_of_sel [simp]:
  "fv_status (verdict_of w st r l h lat) = st" "fv_reason (verdict_of w st r l h lat) = r"
  "fv_invocationLedger (verdict_of w st r l h lat) = l" "fv_latencyLedgers (verdict_of w st r l h lat) = lat"
  "vw_windowId (verdict_of w st r l h lat) = vw_windowId w" "vw_workerId (verdict_of w st r l h lat) = vw_workerId w"
  "vw_conditionLedger (verdict_of w st r l h lat) = vw_conditionLedger w"
  "vw_deadlineLedger (verdict_of w st r l h lat) = vw_deadlineLedger w"
  by (simp_all add: verdict_of_def verdict_window.defs)

text \<open>The reference verdict without transaction hash: status, reason, ledger, latency.\<close>

definition abstract_verdict ::
  "int \<Rightarrow> int set \<Rightarrow> bool \<Rightarrow> bool \<Rightarrow> fire_verdict_status \<times> verdict_reason option \<times> int option \<times> int option"
where
  "abstract_verdict deadline S rej pending =
     (if pending then (VPending, None, None, None)
      else if \<exists>l \<in> S. l \<le> deadline then (VFired, None, Some (LEAST l. l \<in> S), None)
      else if S \<noteq> {} then (VLate, None, Some (LEAST l. l \<in> S), Some ((LEAST l. l \<in> S) - deadline))
      else if rej then (VNotDue, Some RejectedEarlyCall, None, None)
      else (VMissed, None, None, None))"

definition verdict_core :: "worker_fire_verdict \<Rightarrow> fire_verdict_status \<times> verdict_reason option \<times> int option \<times> int option" where
  "verdict_core v = (fv_status v, fv_reason v, fv_invocationLedger v, fv_latencyLedgers v)"

lemma resolveWindow_refines:
  "verdict_core (resolveWindow w c f events toLedger horizon) =
     abstract_verdict (vw_deadlineLedger w) (successes w c f events) (rejected w c f events)
       (toLedger - vw_deadlineLedger w < horizon) \<and>
   vw_windowId (resolveWindow w c f events toLedger horizon) = vw_windowId w \<and>
   vw_conditionLedger (resolveWindow w c f events toLedger horizon) = vw_conditionLedger w \<and>
   vw_deadlineLedger (resolveWindow w c f events toLedger horizon) = vw_deadlineLedger w"
proof -
  let ?S = "successes w c f events"
  obtain best r where s: "fold (search_step w c f) events (None, False) = (best, r)" by (cases "fold (search_step w c f) events (None, False)")
  have r: "r = rejected w c f events" and b: "search_ok ?S best" using search_fold [of w c f events] s by simp_all
  show ?thesis
  proof (cases best)
    case None
    with b have "?S = {}" by (simp add: search_ok_def)
    with None s r show ?thesis by (simp add: resolveWindow_def abstract_verdict_def verdict_core_def)
  next
    case (Some lh)
    obtain l h where lh: "lh = (l, h)" by (cases lh)
    with b Some have l: "l \<in> ?S" "\<forall>l' \<in> ?S. l \<le> l'" by (simp_all add: search_ok_def)
    then have least: "(LEAST l. l \<in> ?S) = l" by (intro Least_equality) auto
    have ex: "(\<exists>l \<in> ?S. l \<le> vw_deadlineLedger w) \<longleftrightarrow> l \<le> vw_deadlineLedger w" using l by force
    have "?S \<noteq> {}" using l by blast
    with Some lh s show ?thesis by (simp add: resolveWindow_def abstract_verdict_def verdict_core_def least ex)
  qed
qed


lemma resolveWindow_core:
  "verdict_core (resolveWindow w c f events toLedger horizon) =
     abstract_verdict (vw_deadlineLedger w) (successes w c f events) (rejected w c f events)
       (toLedger - vw_deadlineLedger w < horizon)"
  "vw_windowId (resolveWindow w c f events toLedger horizon) = vw_windowId w"
  "vw_conditionLedger (resolveWindow w c f events toLedger horizon) = vw_conditionLedger w"
  "vw_deadlineLedger (resolveWindow w c f events toLedger horizon) = vw_deadlineLedger w"
  using resolveWindow_refines by blast+

section \<open>Reproducibility\<close>

lemma resolveWindow_same_events:
  "set events = set events' \<Longrightarrow>
    verdict_core (resolveWindow w c f events t h) = verdict_core (resolveWindow w c f events' t h)"
  by (simp add: resolveWindow_core successes_def rejected_def)

text \<open>A verdict without its transaction hash.\<close>

definition verdict_view ::
  "worker_fire_verdict \<Rightarrow> string \<times> int \<times> int \<times> fire_verdict_status \<times> verdict_reason option \<times> int option \<times> int option"
where
  "verdict_view v = (vw_windowId v, vw_conditionLedger v, vw_deadlineLedger v, verdict_core v)"

lemma verdict_view_same_events:
  "set events = set events' \<Longrightarrow>
    verdict_view (resolveWindow w c f events t h) = verdict_view (resolveWindow w c f events' t h)"
  by (simp add: verdict_view_def resolveWindow_core(2-4)) (rule resolveWindow_same_events)

text \<open>
  C20: verdicts are reproducible. Delivering the condition events in another order across ledgers, and
  the invocation events in any order and any number of times, gives the same windows with the same
  status, reason, invocation ledger and latency.
\<close>

theorem verification_reproducible:
  assumes "mset conditionEvents = mset conditionEvents'"
    and "\<And>l. filter (\<lambda>e. ledger_key e = l) conditionEvents = filter (\<lambda>e. ledger_key e = l) conditionEvents'"
    and "set invocationEvents = set invocationEvents'"
  shows "map_sum id (map verdict_view) (verifyEventTrigger d p pred conditionEvents invocationEvents t h) =
    map_sum id (map verdict_view) (verifyEventTrigger d p pred conditionEvents' invocationEvents' t h)"
proof -
  have "plan p pred conditionEvents = plan p pred conditionEvents'"
    using sort_key_cong_groups [OF assms(1,2)] by (simp add: plan_def)
  then show ?thesis
    by (auto simp: verifyEventTrigger_def intro: verdict_view_same_events [OF assms(3)] split: worker_trigger.split)
qed

definition demo_worker :: worker_definition where
  "demo_worker = \<lparr>wd_id = ''w'', wd_operator = ''GOP'', wd_targetContractId = ''C1'', wd_functionName = ''pay'',
     wd_trigger = EventTrigger ''C0'' ''transfer''\<rparr>"

definition invocation_at :: "int \<Rightarrow> norm_event" where
  "invocation_at l = (sample_event ''contract.invoked'' ''i'' l)\<lparr>ev_contractId := Some ''C1'', ev_function := Some ''pay''\<rparr>"

theorem verification_reproducible_witness:
  "map_sum id (map verdict_view) (verifyEventTrigger demo_worker sample_trigger (\<lambda>_. True)
     [sample_event ''payment.received'' ''x'' 20, sample_event ''payment.received'' ''y'' 12]
     [invocation_at 21, invocation_at 14] 40 0) =
   map_sum id (map verdict_view) (verifyEventTrigger demo_worker sample_trigger (\<lambda>_. True)
     [sample_event ''payment.received'' ''y'' 12, sample_event ''payment.received'' ''x'' 20]
     [invocation_at 14, invocation_at 21, invocation_at 14] 40 0)"
  by (rule verification_reproducible) (auto simp: sample_defs ledger_key_def ledgerOf_def)

text \<open>Statuses by what they say of the worker.\<close>

fun status_rank :: "fire_verdict_status \<Rightarrow> nat" where
  "status_rank VMissed = 0"
| "status_rank VNotDue = 1"
| "status_rank VLate = 2"
| "status_rank VFired = 3"
| "status_rank VPending = 0"
| "status_rank VUnverifiable = 0"

lemma abstract_verdict_mono:
  assumes "S \<subseteq> S'" and "rej \<longrightarrow> rej'"
  shows "status_rank (fst (abstract_verdict d S rej False)) \<le> status_rank (fst (abstract_verdict d S' rej' False))"
  using assms by (auto simp: abstract_verdict_def)

text \<open>
  further evidence never turns a verdict against the operator. Once a window is out of the
  horizon it stays out, and with more events and a later ledger its status can only move from missed
  over not-due and late to fired; fired is final.
\<close>

theorem verdict_only_improves:
  assumes "fv_status (resolveWindow w c f events t h) \<noteq> VPending"
    and "set events \<subseteq> set events'" and "t \<le> t'"
  shows "fv_status (resolveWindow w c f events' t' h) \<noteq> VPending \<and>
    status_rank (fv_status (resolveWindow w c f events t h)) \<le> status_rank (fv_status (resolveWindow w c f events' t' h)) \<and>
    (fv_status (resolveWindow w c f events t h) = VFired \<longrightarrow> fv_status (resolveWindow w c f events' t' h) = VFired)"
proof -
  have st: "fv_status (resolveWindow w c f es l h) =
      fst (abstract_verdict (vw_deadlineLedger w) (successes w c f es) (rejected w c f es) (l - vw_deadlineLedger w < h))" for es l
    using arg_cong [OF resolveWindow_core(1), of fst] by (simp add: verdict_core_def)
  have np: "\<not> t - vw_deadlineLedger w < h" using assms(1) by (auto simp: st abstract_verdict_def)
  have np': "\<not> t' - vw_deadlineLedger w < h" using np assms(3) by linarith
  have "successes w c f events \<subseteq> successes w c f events'" "rejected w c f events \<longrightarrow> rejected w c f events'"
    using assms(2) by (auto simp: successes_def rejected_def)
  from abstract_verdict_mono [OF this, of "vw_deadlineLedger w"]
  have le: "status_rank (fv_status (resolveWindow w c f events t h)) \<le> status_rank (fv_status (resolveWindow w c f events' t' h))"
    using np np' by (simp add: st)
  have "fv_status (resolveWindow w c f events' t' h) \<noteq> VPending" using np' by (auto simp: st abstract_verdict_def)
  moreover have "status_rank s \<ge> 3 \<Longrightarrow> s = VFired" for s by (cases s) auto
  ultimately show ?thesis using le by auto
qed

theorem verdict_only_improves_witness:
  "status_rank (fv_status (resolveWindow \<lparr>vw_windowId = ''a'', vw_workerId = ''w'', vw_conditionLedger = 20, vw_deadlineLedger = 25\<rparr>
       ''C1'' ''pay'' [] 40 3)) \<le>
   status_rank (fv_status (resolveWindow \<lparr>vw_windowId = ''a'', vw_workerId = ''w'', vw_conditionLedger = 20, vw_deadlineLedger = 25\<rparr>
       ''C1'' ''pay'' [invocation_at 30] 50 3))"
proof -
  let ?w = "\<lparr>vw_windowId = ''a'', vw_workerId = ''w'', vw_conditionLedger = 20, vw_deadlineLedger = 25\<rparr>"
  have "fv_status (resolveWindow ?w ''C1'' ''pay'' [] 40 3) \<noteq> VPending" by code_simp
  from verdict_only_improves [OF this, of "[invocation_at 30]" 50] show ?thesis by simp
qed

section \<open>Where verdicts depend on the run\<close>

text \<open>
  a missed verdict is revised by the next window's invocation. The search for an invocation has
  no upper ledger, so the first window below is missed when verified at ledger 40, beyond the horizon, and late
  when verified at ledger 60, after the invocation that serves the second window landed; that one
  invocation is credited to both windows.
\<close>

theorem missed_verdict_is_revised:
  "map_sum id (map (\<lambda>v. (fv_status v, fv_invocationLedger v)))
     (verifyEventTrigger demo_worker sample_trigger (\<lambda>_. True)
       [sample_event ''payment.received'' ''x'' 20, sample_event ''payment.received'' ''y'' 38] [] 40 3) =
     Inr [(VMissed, None), (VPending, None)] \<and>
   map_sum id (map (\<lambda>v. (fv_status v, fv_invocationLedger v)))
     (verifyEventTrigger demo_worker sample_trigger (\<lambda>_. True)
       [sample_event ''payment.received'' ''x'' 20, sample_event ''payment.received'' ''y'' 38] [invocation_at 42] 60 3) =
     Inr [(VLate, Some 42), (VFired, Some 42)]"
  by code_simp

definition demo_time_worker :: "int \<Rightarrow> worker_definition" where
  "demo_time_worker everyMs = demo_worker\<lparr>wd_trigger := TimeTrigger (ManifestInterval everyMs ''UTC'')\<rparr>"

definition demo_index :: "close_entry list" where
  "demo_index = map (\<lambda>k. \<lparr>ce_ledger = k, ce_closeTime = 5 * k\<rparr>) [1, 2, 3, 4, 5, 6]"

definition window_ids :: "(verify_error, worker_fire_verdict list) result option \<Rightarrow> string list" where
  "window_ids r = (case r of Some (Inr vs) \<Rightarrow> map vw_windowId vs | _ \<Rightarrow> [])"

text \<open>
  the windows of an interval trigger depend on the range asked about. The interval is counted
  from the close time of the first ledger of the range, so two overlapping ranges have no window in common, and an
  interval shorter than a ledger gives two windows with one id.
\<close>

theorem time_windows_depend_on_range:
  "window_ids (verifyTimeTrigger cron (demo_time_worker 10) [] 1 6 1 demo_index None) = [''w:t:3'', ''w:t:5''] \<and>
   window_ids (verifyTimeTrigger cron (demo_time_worker 10) [] 2 6 1 demo_index None) = [''w:t:4'', ''w:t:6''] \<and>
   window_ids (verifyTimeTrigger cron (demo_time_worker 2) [] 1 2 1 demo_index None) = [''w:t:2'', ''w:t:2'']"
proof -
  have ids: "window_ids (verifyTimeTrigger cron (demo_time_worker i) [] l1 l2 1 demo_index None) =
      map (\<lambda>l. ''w:t:'' @ show_int l) (due_ledgers demo_index l2 (map (\<lambda>j. 5 * l1 + (int j + 1) * i) [0..<nat ((5 * l2 - 5 * l1) div i)]))"
    if "0 < i" "l1 \<in> {1, 2}" "l2 \<in> {2, 6}" for i l1 l2
    using that by (auto simp: window_ids_def verifyTimeTrigger_def demo_time_worker_def demo_worker_def demo_index_def
      closeTimeOfLedger_def interval_list resolveWindow_core(2) time_window_def)
  show ?thesis by (simp add: ids) code_simp
qed

end
