(* ===== verification/Cursor_Stores.thy ===== *)
theory Cursor_Stores
  imports Orbital_Prelude
begin

text \<open>
  Cursor persistence of \<^verbatim>\<open>packages/pulse-core/src\<close>: the interface of \<^verbatim>\<open>CursorStore.ts\<close> with its default
  batch operations, the store on files of \<^verbatim>\<open>FileCursorStore.ts\<close> and the write-coalescing decorator
  of \<^verbatim>\<open>coalesceCursorStore.ts\<close>. A directory is a map from file names to the parsed content of the file,
  \<open>JUndefined\<close> for text that is not JSON; of the file system's errors only a missing file is modelled.
  The promise chain of the decorator is explicit: flushes wait in a queue, one runs at a time, and a
  rejected chain runs none.
\<close>

section \<open>The interface\<close>

definition default_setMany :: "(string \<Rightarrow> string \<Rightarrow> 's \<Rightarrow> 's) \<Rightarrow> (string, string) js_map \<Rightarrow> 's \<Rightarrow> 's" where
  "default_setMany set_one entries s = fold (\<lambda>(k, v) s. set_one k v s) entries s"

definition default_getMany :: "('s \<Rightarrow> string \<Rightarrow> string option) \<Rightarrow> string list \<Rightarrow> 's \<Rightarrow> (string, string option) js_map" where
  "default_getMany get_one keys s = fold (\<lambda>k r. map_set k (get_one s k) r) keys []"

text \<open>A cursor store: its state is readable through \<open>get\<close>, and \<open>set\<close> changes the one key.\<close>

locale cursor_store =
  fixes get_one :: "'s \<Rightarrow> string \<Rightarrow> string option" and set_one :: "string \<Rightarrow> string \<Rightarrow> 's \<Rightarrow> 's"
  assumes get_set: "get_one (set_one k v s) k' = (if k' = k then Some v else get_one s k')"
begin

lemma get_setMany:
  "map_wf entries \<Longrightarrow> get_one (default_setMany set_one entries s) k =
    (case map_get entries k of Some v \<Rightarrow> Some v | None \<Rightarrow> get_one s k)"
proof (induction entries arbitrary: s)
  case (Cons e es)
  obtain k0 v0 where e: "e = (k0, v0)" by (cases e)
  with Cons.prems have "map_wf es" "map_get es k0 = None" by (auto simp: map_wf_def map_of_eq_None_iff)
  with Cons.IH [of "set_one k0 v0 s"] e show ?case
    by (auto simp: default_setMany_def get_set split: option.splits)
qed (simp add: default_setMany_def)

lemma getMany_lookup:
  "map_get (default_getMany get_one keys s) k = (if k \<in> set keys then Some (get_one s k) else None)"
proof -
  have "map_get (fold (\<lambda>k r. map_set k (get_one s k) r) keys r) k =
      (if k \<in> set keys then Some (get_one s k) else map_get r k)" for r
    by (induction keys arbitrary: r) auto
  then show ?thesis by (simp add: default_getMany_def)
qed

end

section \<open>FileCursorStore\<close>

type_synonym directory = "(string, js_value) js_map"

definition hex_digit :: "nat \<Rightarrow> char" where
  "hex_digit d = (if d < 10 then char_of (48 + d) else char_of (55 + d))"

definition percent :: "nat \<Rightarrow> string" where
  "percent b = [CHR ''%'', hex_digit (b div 16), hex_digit (b mod 16)]"

definition uri_unreserved :: "char \<Rightarrow> bool" where
  "uri_unreserved c \<longleftrightarrow> (let n = of_char c :: nat in 48 \<le> n \<and> n \<le> 57 \<or> 65 \<le> n \<and> n \<le> 90 \<or> 97 \<le> n \<and> n \<le> 122) \<or>
     c \<in> set ''-_.!~*'' \<or> c = CHR 0x27 \<or> c \<in> set ''()''"

text \<open>Percent encoding of the UTF-8 bytes; code units up to 255 have one or two bytes.\<close>

definition encode_char :: "char \<Rightarrow> string" where
  "encode_char c =
     (let n = of_char c :: nat
      in if uri_unreserved c then [c]
         else if n < 128 then percent n
         else percent (192 + n div 64) @ percent (128 + n mod 64))"

definition encodeURIComponent :: "string \<Rightarrow> string" where
  "encodeURIComponent s = concat (map encode_char s)"

definition safeFilename :: "string \<Rightarrow> string" where
  "safeFilename streamKey = encodeURIComponent streamKey @ ''.json''"

definition file_get :: "directory \<Rightarrow> string \<Rightarrow> string option" where
  "file_get d streamKey =
     (case map_get d (safeFilename streamKey) of
        None \<Rightarrow> None
      | Some content \<Rightarrow> (case js_field ''cursor'' content of JStr c \<Rightarrow> Some c | _ \<Rightarrow> None))"

definition cursor_payload :: "string \<Rightarrow> string \<Rightarrow> js_value" where
  "cursor_payload cursor updatedAt = JObj [(''cursor'', JStr cursor), (''updated_at'', JStr updatedAt)]"

text \<open>The random part of a temporary name: the base-36 digits of a random fraction.\<close>

definition base36 :: "nat list \<Rightarrow> string" where
  "base36 rand = map (\<lambda>d. let r = d mod 36 in if r < 10 then char_of (48 + r) else char_of (87 + r)) rand"

definition tmp_name :: "string \<Rightarrow> nat list \<Rightarrow> string" where
  "tmp_name streamKey rand = safeFilename streamKey @ ''.tmp-'' @ base36 rand"

text \<open>\<open>set\<close> writes a temporary file and renames it; a crash can leave the state between the two.\<close>

definition file_set_tmp :: "nat list \<Rightarrow> string \<Rightarrow> string \<Rightarrow> string \<Rightarrow> directory \<Rightarrow> directory" where
  "file_set_tmp rand updatedAt streamKey cursor d = map_set (tmp_name streamKey rand) (cursor_payload cursor updatedAt) d"

definition file_rename :: "string \<Rightarrow> string \<Rightarrow> directory \<Rightarrow> directory" where
  "file_rename tmp file d =
     (case map_get d tmp of None \<Rightarrow> d | Some content \<Rightarrow> map_set file content (map_del tmp d))"

definition file_set :: "nat list \<Rightarrow> string \<Rightarrow> string \<Rightarrow> string \<Rightarrow> directory \<Rightarrow> directory" where
  "file_set rand updatedAt streamKey cursor d =
     file_rename (tmp_name streamKey rand) (safeFilename streamKey) (file_set_tmp rand updatedAt streamKey cursor d)"

section \<open>Percent encoding is injective\<close>

lemma hex_digit_inj: "a < 16 \<Longrightarrow> b < 16 \<Longrightarrow> hex_digit a = hex_digit b \<Longrightarrow> a = b"
proof -
  assume "a < 16" "b < 16" "hex_digit a = hex_digit b"
  then have "(of_char (hex_digit a) :: nat) = of_char (hex_digit b)" by simp
  with \<open>a < 16\<close> \<open>b < 16\<close> show "a = b" by (auto simp: hex_digit_def split: if_splits)
qed

lemma percent_inj: "a < 256 \<Longrightarrow> b < 256 \<Longrightarrow> percent a = percent b \<Longrightarrow> a = b"
  using hex_digit_inj [of "a div 16" "b div 16"] hex_digit_inj [of "a mod 16" "b mod 16"] div_mod_decomp [of a 16] div_mod_decomp [of b 16]
  by (simp add: percent_def less_mult_imp_div_less)

lemma percent_append: "a < 256 \<Longrightarrow> b < 256 \<Longrightarrow> percent a @ s = percent b @ t \<longleftrightarrow> a = b \<and> s = t"
  using percent_inj [of a b] by (auto simp: percent_def)

lemma percent_hd: "percent a @ s \<noteq> c # t" if "uri_unreserved c"
  using that by (auto simp: percent_def uri_unreserved_def Let_def)

lemma encode_char_prefix_free:
  assumes "encode_char c @ s = encode_char c' @ t"
  shows "c = c' \<and> s = t"
proof -
  let ?n = "of_char c :: nat" and ?m = "of_char c' :: nat"
  have b: "?n < 256" "?m < 256" by (simp_all add: nat_of_char_less_256)
  then have d: "?n div 64 < 4" "?m div 64 < 4" by (simp_all add: div_less_iff_less_mult)
  have two: "192 + ?n div 64 < 256" "128 + ?n mod 64 < 256" "192 + ?m div 64 < 256" "128 + ?m mod 64 < 256"
    using d mod_less_divisor [of 64 ?n] mod_less_divisor [of 64 ?m] by linarith+
  consider (u) "uri_unreserved c \<or> uri_unreserved c'" | (r) "\<not> uri_unreserved c" "\<not> uri_unreserved c'" by blast
  then show ?thesis
  proof cases
    case u
    then show ?thesis using assms percent_hd percent_hd [symmetric] by (auto simp: encode_char_def Let_def split: if_splits)
  next
    case r
    have "?n = ?m \<or> ?n div 64 = ?m div 64 \<and> ?n mod 64 = ?m mod 64" "s = t"
      using assms r b two by (auto simp: encode_char_def Let_def percent_append split: if_splits)
    then have "?n = ?m \<and> s = t" using div_mult_mod_eq [of ?n 64] div_mult_mod_eq [of ?m 64] by metis
    then show ?thesis by simp
  qed
qed

lemma encode_char_nonempty: "encode_char c \<noteq> []"
  by (simp add: encode_char_def percent_def Let_def)

lemma encodeURIComponent_inj: "encodeURIComponent s = encodeURIComponent t \<Longrightarrow> s = t"
proof (induction s arbitrary: t)
  case Nil
  then show ?case by (cases t) (auto simp: encodeURIComponent_def encode_char_nonempty)
next
  case (Cons c s)
  then obtain c' t' where t: "t = c' # t'" by (cases t) (auto simp: encodeURIComponent_def encode_char_nonempty)
  then have "c = c' \<and> encodeURIComponent s = encodeURIComponent t'"
    using Cons.prems encode_char_prefix_free [of c _ c'] by (simp add: encodeURIComponent_def)
  with Cons.IH t show ?case by blast
qed

lemma safeFilename_inj [simp]: "safeFilename s = safeFilename t \<longleftrightarrow> s = t"
  using encodeURIComponent_inj by (auto simp: safeFilename_def)

text \<open>A temporary name is no name of a cursor file: its last part has no dot.\<close>

lemma base36_no_dot: "CHR ''.'' \<notin> set (base36 rand)"
proof
  assume "CHR ''.'' \<in> set (base36 rand)"
  then obtain d :: nat where "CHR ''.'' = (let r = d mod 36 in if r < 10 then char_of (48 + r) else char_of (87 + r))"
    unfolding base36_def by auto
  moreover have "d mod 36 < 36" by simp
  ultimately have "(of_char CHR ''.'' :: nat) = (if d mod 36 < 10 then 48 + d mod 36 else 87 + d mod 36)"
    by (simp only: Let_def split: if_splits) simp_all
  then show False by (simp split: if_splits)
qed

lemma dot_before_dash: "xs @ CHR ''-'' # u = p @ CHR ''.'' # v \<Longrightarrow> CHR ''-'' \<notin> set p \<Longrightarrow> CHR ''.'' \<in> set xs"
proof (induction p arbitrary: xs)
  case Nil
  then show ?case by (cases xs) auto
next
  case (Cons a p)
  then obtain xs' where "xs = a # xs'" by (cases xs) auto
  with Cons show ?case by auto
qed

lemma tmp_name_neq: "tmp_name k rand \<noteq> safeFilename k'"
proof
  assume eq: "tmp_name k rand = safeFilename k'"
  have "rev (base36 rand) @ CHR ''-'' # (''pmt.'' @ rev (safeFilename k)) = ''nosj'' @ CHR ''.'' # rev (encodeURIComponent k')"
    using arg_cong [OF eq, of rev] by (simp add: tmp_name_def safeFilename_def)
  then have "CHR ''.'' \<in> set (rev (base36 rand))" by (rule dot_before_dash) simp
  with base36_no_dot show False by simp
qed

lemma file_get_set_tmp: "file_get (file_set_tmp rand now k v d) k' = file_get d k'"
  using tmp_name_neq [of k rand k'] by (auto simp: file_get_def file_set_tmp_def)

lemma file_get_set: "file_get (file_set rand now k v d) k' = (if k' = k then Some v else file_get d k')"
  using tmp_name_neq [of k rand k']
  by (auto simp: file_get_def file_set_def file_rename_def file_set_tmp_def cursor_payload_def)

text \<open>The store on files satisfies the contract, whatever temporary names it draws.\<close>

interpretation file_store: cursor_store file_get "file_set rand now" for rand now
  by unfold_locales (rule file_get_set)

text \<open>
  a cursor survives a crash during \<open>set\<close>. Stream keys never share a file; a crash before the
  rename leaves every cursor as it was, and after it the key has the new cursor and every other key
  the old one.
\<close>

theorem file_set_atomic:
  "file_get (file_set_tmp rand now k v d) k' = file_get d k' \<and>
   file_get (file_set rand now k v d) k' = (if k' = k then Some v else file_get d k') \<and>
   (safeFilename k = safeFilename k' \<longleftrightarrow> k = k')"
  by (simp add: file_get_set_tmp file_store.get_set)

section \<open>CoalescingStore\<close>

text \<open>
  \<open>co_queued\<close> counts the flushes appended to the promise chain that have not started, \<open>co_inflight\<close> is
  the snapshot an unfinished \<open>setMany\<close> is writing, \<open>co_rejected\<close> says that the chain is a rejected
  promise.
\<close>

record 's coalescing =
  co_inner :: 's
  co_buffer :: "(string, string) js_map"
  co_inflight :: "(string, string) js_map option"
  co_queued :: nat
  co_rejected :: bool

datatype range_error = IntervalNotPositive

definition coalesceCursorStore :: "'s \<Rightarrow> int option \<Rightarrow> (range_error, 's coalescing) result" where
  "coalesceCursorStore inner intervalMs =
     (case intervalMs of
        None \<Rightarrow> Inl IntervalNotPositive
      | Some ms \<Rightarrow>
          if ms \<le> 0 then Inl IntervalNotPositive
          else Inr \<lparr>co_inner = inner, co_buffer = [], co_inflight = None, co_queued = 0, co_rejected = False\<rparr>)"

definition co_get :: "('s \<Rightarrow> string \<Rightarrow> string option) \<Rightarrow> 's coalescing \<Rightarrow> string \<Rightarrow> string option" where
  "co_get get_one c k = (case map_get (co_buffer c) k of Some v \<Rightarrow> Some v | None \<Rightarrow> get_one (co_inner c) k)"

definition co_set :: "string \<Rightarrow> string \<Rightarrow> 's coalescing \<Rightarrow> 's coalescing" where
  "co_set k v c = c\<lparr>co_buffer := map_set k v (co_buffer c)\<rparr>"

definition co_setMany :: "(string, string) js_map \<Rightarrow> 's coalescing \<Rightarrow> 's coalescing" where
  "co_setMany entries c = fold (\<lambda>(k, v). co_set k v) entries c"

definition co_getMany ::
  "('s \<Rightarrow> string \<Rightarrow> string option) \<Rightarrow> string list \<Rightarrow> 's coalescing \<Rightarrow> (string, string option) js_map"
where
  "co_getMany get_one keys c =
     (let missedKeys = filter (\<lambda>k. map_get (co_buffer c) k = None) keys;
          result = fold (\<lambda>k r. case map_get (co_buffer c) k of Some v \<Rightarrow> map_set k (Some v) r | None \<Rightarrow> r) keys [];
          innerResult = default_getMany get_one missedKeys (co_inner c)
      in fold (\<lambda>k r. map_set k (case map_get innerResult k of Some v \<Rightarrow> v | None \<Rightarrow> None) r) missedKeys result)"

text \<open>\<open>flush\<close> and the timer append \<open>doFlush\<close> to the chain.\<close>

definition co_flush :: "'s coalescing \<Rightarrow> 's coalescing" where
  "co_flush c = c\<lparr>co_queued := Suc (co_queued c)\<rparr>"

text \<open>The head of the chain runs when nothing is in flight; on a rejected chain it is skipped.\<close>

definition co_doFlush :: "'s coalescing \<Rightarrow> 's coalescing" where
  "co_doFlush c =
     (if co_queued c = 0 \<or> co_inflight c \<noteq> None then c
      else let c = c\<lparr>co_queued := co_queued c - 1\<rparr>
        in if co_rejected c \<or> co_buffer c = [] then c
           else c\<lparr>co_inflight := Some (co_buffer c), co_buffer := []\<rparr>)"

definition co_written :: "(string \<Rightarrow> string \<Rightarrow> 's \<Rightarrow> 's) \<Rightarrow> 's coalescing \<Rightarrow> 's coalescing" where
  "co_written set_one c =
     (case co_inflight c of
        None \<Rightarrow> c
      | Some snapshot \<Rightarrow> c\<lparr>co_inner := default_setMany set_one snapshot (co_inner c), co_inflight := None\<rparr>)"

text \<open>A rejected \<open>setMany\<close>, with the entries it wrote before it failed.\<close>

definition co_failed :: "(string \<Rightarrow> string \<Rightarrow> 's \<Rightarrow> 's) \<Rightarrow> nat \<Rightarrow> 's coalescing \<Rightarrow> 's coalescing" where
  "co_failed set_one n c =
     (case co_inflight c of
        None \<Rightarrow> c
      | Some snapshot \<Rightarrow>
          c\<lparr>co_inner := default_setMany set_one (take n snapshot) (co_inner c), co_inflight := None, co_rejected := True\<rparr>)"

datatype co_op = CSet string string | CSetMany "(string, string) js_map" | CFlush | CRun | CWritten | CFailed nat

fun co_step :: "(string \<Rightarrow> string \<Rightarrow> 's \<Rightarrow> 's) \<Rightarrow> co_op \<Rightarrow> 's coalescing \<Rightarrow> 's coalescing" where
  "co_step set_one (CSet k v) c = co_set k v c"
| "co_step set_one (CSetMany es) c = co_setMany es c"
| "co_step set_one CFlush c = co_flush c"
| "co_step set_one CRun c = co_doFlush c"
| "co_step set_one CWritten c = co_written set_one c"
| "co_step set_one (CFailed n) c = co_failed set_one n c"

text \<open>The abstract store: a map of all cursors set so far.\<close>

fun co_spec :: "co_op \<Rightarrow> (string \<rightharpoonup> string) \<Rightarrow> (string \<rightharpoonup> string)" where
  "co_spec (CSet k v) m = m(k \<mapsto> v)"
| "co_spec (CSetMany es) m = fold (\<lambda>(k, v) m. m(k \<mapsto> v)) es m"
| "co_spec _ m = m"

definition co_abs :: "('s \<Rightarrow> string \<Rightarrow> string option) \<Rightarrow> 's coalescing \<Rightarrow> (string \<rightharpoonup> string)" where
  "co_abs get_one c = get_one (co_inner c) ++ map_of (case co_inflight c of Some m \<Rightarrow> m | None \<Rightarrow> []) ++ map_of (co_buffer c)"

definition co_wf :: "'s coalescing \<Rightarrow> bool" where
  "co_wf c \<longleftrightarrow> map_wf (co_buffer c) \<and> (\<forall>m. co_inflight c = Some m \<longrightarrow> map_wf m)"


lemmas co_defs = co_set_def co_flush_def co_doFlush_def co_written_def co_failed_def

lemma co_setMany_simp: "co_setMany es c = c\<lparr>co_buffer := fold (\<lambda>(k, v). map_set k v) es (co_buffer c)\<rparr>"
  by (induction es arbitrary: c) (auto simp: co_setMany_def co_set_def)

lemma map_of_map_set: "map_of (map_set k v m) = (map_of m)(k \<mapsto> v)"
  by (simp add: fun_eq_iff)

lemma map_of_fold_set: "map_of (fold (\<lambda>(k, v). map_set k v) es m) = fold (\<lambda>(k, v) m. m(k \<mapsto> v)) es (map_of m)"
  by (induction es arbitrary: m) (auto simp: map_of_map_set)

lemma map_wf_fold_set: "map_wf m \<Longrightarrow> map_wf (fold (\<lambda>(k, v). map_set k v) es m)"
  by (induction es arbitrary: m) auto

lemma add_fold_upd: "m ++ fold (\<lambda>(k, v) m. m(k \<mapsto> v)) es n = fold (\<lambda>(k, v) m. m(k \<mapsto> v)) es (m ++ n)"
  by (induction es arbitrary: n) auto

lemma co_wf_step: "co_wf c \<Longrightarrow> co_wf (co_step set_one op c)"
  by (cases op) (auto simp: co_wf_def co_defs co_setMany_simp Let_def map_wf_fold_set split: option.splits)

definition is_failure :: "co_op \<Rightarrow> bool" where
  "is_failure op \<longleftrightarrow> (case op of CFailed _ \<Rightarrow> True | _ \<Rightarrow> False)"

abbreviation co_run :: "(string \<Rightarrow> string \<Rightarrow> 's \<Rightarrow> 's) \<Rightarrow> co_op list \<Rightarrow> 's coalescing \<Rightarrow> 's coalescing" where
  "co_run set_one ops c \<equiv> fold (co_step set_one) ops c"

lemma co_wf_run: "co_wf c \<Longrightarrow> co_wf (co_run set_one ops c)"
  by (induction ops arbitrary: c) (auto simp: co_wf_step)

context cursor_store
begin

lemma get_setMany_add: "map_wf es \<Longrightarrow> get_one (default_setMany set_one es s) = get_one s ++ map_of es"
  by (auto simp: fun_eq_iff get_setMany map_add_def split: option.splits)

text \<open>Every operation but a failing write is simulated by the abstract map.\<close>

lemma co_step_refines:
  assumes "co_wf c" "\<not> is_failure op"
  shows "co_abs get_one (co_step set_one op c) = co_spec op (co_abs get_one c)"
proof (cases op)
  case (CSetMany es)
  then show ?thesis by (simp add: co_abs_def co_setMany_simp map_of_fold_set add_fold_upd)
next
  case CWritten
  with \<open>co_wf c\<close> show ?thesis
    by (auto simp: co_abs_def co_defs co_wf_def get_setMany_add split: option.splits)
next
  case CRun
  then show ?thesis by (auto simp: co_abs_def co_defs Let_def split: option.splits)
qed (use assms in \<open>auto simp: co_abs_def co_defs map_of_map_set is_failure_def split: option.splits\<close>)

lemma co_run_refines:
  "co_wf c \<Longrightarrow> \<forall>op \<in> set ops. \<not> is_failure op \<Longrightarrow>
   co_abs get_one (co_run set_one ops c) = fold co_spec ops (co_abs get_one c)"
  by (induction ops arbitrary: c) (auto simp: co_wf_step co_step_refines)

lemma co_quiet_inner:
  "co_inflight c = None \<Longrightarrow> co_buffer c = [] \<Longrightarrow> get_one (co_inner c) = co_abs get_one c"
  by (simp add: co_abs_def)

end

text \<open>Draining: from a chain that is not rejected, \<open>flush\<close> run to its end empties the buffer.\<close>

definition co_drain :: "(string \<Rightarrow> string \<Rightarrow> 's \<Rightarrow> 's) \<Rightarrow> 's coalescing \<Rightarrow> 's coalescing" where
  "co_drain set_one c =
     (let c = co_written set_one (co_flush c)
      in ((\<lambda>c. co_written set_one (co_doFlush c)) ^^ co_queued c) c)"

lemma co_drain_step:
  fixes set_one :: "string \<Rightarrow> string \<Rightarrow> 's \<Rightarrow> 's"
  assumes "co_inflight c = None" "\<not> co_rejected c" "co_queued c \<noteq> 0"
  defines "c' \<equiv> co_written set_one (co_doFlush c)"
  shows "co_inflight c' = None" "\<not> co_rejected c'" "co_queued c' = co_queued c - 1" "co_buffer c' = []"
  using assms by (auto simp: co_defs Let_def)

lemma co_drain_iter:
  "co_inflight c = None \<Longrightarrow> \<not> co_rejected c \<Longrightarrow> n \<le> co_queued c \<Longrightarrow>
   (let c' = ((\<lambda>c. co_written set_one (co_doFlush c)) ^^ n) c
    in co_inflight c' = None \<and> \<not> co_rejected c' \<and> co_queued c' = co_queued c - n \<and> (0 < n \<longrightarrow> co_buffer c' = []))"
proof (induction n)
  case (Suc n)
  let ?c' = "((\<lambda>c. co_written set_one (co_doFlush c)) ^^ n) c"
  from Suc have "co_inflight ?c' = None" "\<not> co_rejected ?c'" "co_queued ?c' = co_queued c - n" by (auto simp: Let_def)
  with co_drain_step [of ?c' set_one] Suc.prems show ?case by (simp add: Let_def)
qed simp

lemma co_drain_ops: "co_drain set_one c =
    co_run set_one ([CFlush, CWritten] @ concat (replicate (Suc (co_queued c)) [CRun, CWritten])) c"
proof -
  have "((\<lambda>c. co_written set_one (co_doFlush c)) ^^ n) c' = co_run set_one (concat (replicate n [CRun, CWritten])) c'" for n c'
    by (induction n arbitrary: c') (simp_all add: funpow_Suc_right del: funpow.simps(2))
  moreover have "co_queued (co_written set_one (co_flush c)) = Suc (co_queued c)"
    by (simp add: co_defs split: option.splits)
  ultimately show ?thesis by (simp add: co_drain_def Let_def)
qed

lemma co_drain_quiet:
  assumes "\<not> co_rejected c"
  shows "co_inflight (co_drain set_one c) = None \<and> co_buffer (co_drain set_one c) = []"
proof -
  let ?c = "co_written set_one (co_flush c)"
  have "co_inflight ?c = None" "\<not> co_rejected ?c" "co_queued ?c = Suc (co_queued c)"
    using assms by (auto simp: co_defs split: option.splits)
  then show ?thesis
    using co_drain_iter [of ?c "co_queued ?c" set_one] by (simp add: co_drain_def Let_def)
qed

text \<open>The stale read: while a flush is writing its snapshot, \<open>get\<close> answers from the inner store.\<close>

lemma get_during_flush:
  "co_queued c \<noteq> 0 \<Longrightarrow> co_inflight c = None \<Longrightarrow> \<not> co_rejected c \<Longrightarrow>
   co_get get_one (co_doFlush c) k = get_one (co_inner c) k"
  by (simp add: co_get_def co_defs Let_def)

lemma co_fresh: "coalesceCursorStore inner ms = Inr c \<Longrightarrow>
    co_wf c \<and> \<not> co_rejected c \<and> co_abs get_one c = get_one inner"
  by (auto simp: coalesceCursorStore_def co_wf_def co_abs_def split: option.splits if_splits)

lemma co_not_rejected:
  "\<not> co_rejected c \<Longrightarrow> \<forall>op \<in> set ops. \<not> is_failure op \<Longrightarrow> \<not> co_rejected (co_run set_one ops c)"
proof (induction ops arbitrary: c)
  case (Cons op ops)
  then have "\<not> co_rejected (co_step set_one op c)"
    by (cases op) (auto simp: co_defs co_setMany_simp Let_def is_failure_def split: option.splits)
  with Cons show ?case by simp
qed simp

context cursor_store
begin

lemma drain_writes_all:
  assumes c0: "coalesceCursorStore inner ms = Inr c0" and ops: "\<forall>op \<in> set ops. \<not> is_failure op"
  shows "get_one (co_inner (co_drain set_one (co_run set_one ops c0))) = fold co_spec ops (get_one inner)"
proof -
  let ?c = "co_run set_one ops c0"
  let ?ops = "[CFlush, CWritten] @ concat (replicate (Suc (co_queued ?c)) [CRun, CWritten])"
  have wf: "co_wf ?c" using co_fresh [OF c0] by (simp add: co_wf_run)
  have "\<not> co_rejected ?c" using co_fresh [OF c0] ops by (intro co_not_rejected) auto
  then have "get_one (co_inner (co_drain set_one ?c)) = co_abs get_one (co_drain set_one ?c)"
    by (intro co_quiet_inner) (simp_all add: co_drain_quiet)
  also have "\<dots> = fold co_spec ?ops (co_abs get_one ?c)"
    unfolding co_drain_ops by (rule co_run_refines [OF wf]) (auto simp: is_failure_def)
  also have "\<dots> = co_abs get_one ?c"
  proof -
    have "fold co_spec (concat (replicate n [CRun, CWritten])) m = m" for n m by (induction n) auto
    then show ?thesis by simp
  qed
  also have "\<dots> = fold co_spec ops (get_one inner)"
    using co_run_refines [of c0 ops] co_fresh [OF c0] ops by simp
  finally show ?thesis .
qed

end

text \<open>
  C32: coalescing loses nothing and reorders nothing. Whatever interleaving of writes, timer flushes and
  completed batch writes has run, the pending state (durable cursors, overridden by the batch in
  flight, overridden by the buffer) is the map of last writes, and a \<open>flush\<close> run to its end leaves
  exactly that map in the file store.
\<close>

theorem coalescing_refines:
  assumes "coalesceCursorStore inner (Some ms) = Inr c0" "\<forall>op \<in> set ops. \<not> is_failure op"
  shows "co_abs file_get (co_run (file_set rand now) ops c0) = fold co_spec ops (file_get inner) \<and>
         file_get (co_inner (co_drain (file_set rand now) (co_run (file_set rand now) ops c0)))
           = fold co_spec ops (file_get inner)"
  using file_store.co_run_refines [of c0 ops rand now] file_store.drain_writes_all [OF assms, of rand now]
    co_fresh [OF assms(1), of file_get] assms(2) by simp

theorem coalescing_refines_witness:
  "file_get (co_inner (co_drain (file_set [1] ''t'') (co_run (file_set [1] ''t'')
      [CSet ''a'' ''1'', CFlush, CRun, CSet ''a'' ''2'', CWritten]
      \<lparr>co_inner = [], co_buffer = [], co_inflight = None, co_queued = 0, co_rejected = False\<rparr>))) ''a'' = Some ''2''"
  using coalescing_refines [of "[]" 5 "\<lparr>co_inner = [], co_buffer = [], co_inflight = None, co_queued = 0, co_rejected = False\<rparr>"
      "[CSet ''a'' ''1'', CFlush, CRun, CSet ''a'' ''2'', CWritten]" "[1]" "''t''"]
  by (simp add: coalesceCursorStore_def is_failure_def)

lemma rejected_step:
  "co_rejected c \<Longrightarrow> co_inflight c = None \<Longrightarrow>
   co_rejected (co_step set_one op c) \<and> co_inflight (co_step set_one op c) = None \<and> co_inner (co_step set_one op c) = co_inner c"
  by (cases op) (auto simp: co_defs co_setMany_simp Let_def)

lemma rejected_run:
  "co_rejected c \<Longrightarrow> co_inflight c = None \<Longrightarrow> co_inner (co_run set_one ops c) = co_inner c"
proof (induction ops arbitrary: c)
  case (Cons op ops)
  with rejected_step [of c set_one op] Cons.IH [of "co_step set_one op c"] show ?case by simp
qed simp

text \<open>
  one failed batch write stops persistence for good. After \<open>setMany\<close> of the inner store rejects,
  no later sequence of writes and flushes changes the inner store, although every \<open>set\<close> keeps
  succeeding; the snapshot that failed is in no buffer any more.
\<close>

theorem failed_flush_is_final:
  assumes "co_inflight c = Some snapshot"
  shows "co_inner (co_run set_one ops (co_failed set_one n c)) = default_setMany set_one (take n snapshot) (co_inner c) \<and>
         co_buffer (co_failed set_one n c) = co_buffer c \<and> co_inflight (co_failed set_one n c) = None"
  using rejected_run [of "co_failed set_one n c" set_one ops] assms by (simp add: co_failed_def)

theorem failed_flush_is_final_witness:
  "co_inner (co_run (file_set [1] ''t'') [CSet ''a'' ''2'', CFlush, CRun, CWritten]
     (co_failed (file_set [1] ''t'') 0
        \<lparr>co_inner = [], co_buffer = [], co_inflight = Some [(''a'', ''1'')], co_queued = 0, co_rejected = False\<rparr>)) = []"
  using failed_flush_is_final [of "\<lparr>co_inner = [], co_buffer = [], co_inflight = Some [(''a'', ''1'')], co_queued = 0, co_rejected = False\<rparr>"
      "[(''a'', ''1'')]" "file_set [1] ''t''" "[CSet ''a'' ''2'', CFlush, CRun, CWritten]" 0]
  by (simp add: default_setMany_def)

section \<open>MemoryCursorStore and migrateCursors\<close>

type_synonym memory_cursors = "(string, string) js_map"

definition memory_get :: "memory_cursors \<Rightarrow> string \<Rightarrow> string option" where
  "memory_get m streamKey = map_get m streamKey"

definition memory_set :: "string \<Rightarrow> string \<Rightarrow> memory_cursors \<Rightarrow> memory_cursors" where
  "memory_set streamKey cursor m = map_set streamKey cursor m"

definition memory_getAll :: "memory_cursors \<Rightarrow> (string \<times> string) list" where
  "memory_getAll m = m"

text \<open>The result is the target store and the number of cursors copied.\<close>

definition migrateCursors ::
  "('s \<Rightarrow> (string \<times> string) list) \<Rightarrow> (string \<Rightarrow> string \<Rightarrow> 't \<Rightarrow> 't) \<Rightarrow> 's \<Rightarrow> 't \<Rightarrow> 't \<times> nat"
where
  "migrateCursors getAll set_one source target =
     (fold (\<lambda>(k, v) t. set_one k v t) (getAll source) target, length (getAll source))"

interpretation memory_store: cursor_store memory_get memory_set
  by unfold_locales (simp add: memory_get_def memory_set_def)

text \<open>
  migrating a memory store into a file store copies every cursor and disturbs no other.
\<close>

theorem migrate_copies:
  assumes "map_wf source"
  shows "file_get (fst (migrateCursors memory_getAll (file_set rand now) source target)) k =
           (case memory_get source k of Some v \<Rightarrow> Some v | None \<Rightarrow> file_get target k) \<and>
         snd (migrateCursors memory_getAll (file_set rand now) source target) = length source"
  using file_store.get_setMany [OF assms, of rand now target k]
  by (simp add: migrateCursors_def memory_getAll_def memory_get_def default_setMany_def)

theorem migrate_copies_witness:
  "file_get (fst (migrateCursors memory_getAll (file_set [1] ''t'') [(''a'', ''1''), (''b'', ''2'')] [])) ''b'' = Some ''2''"
  using migrate_copies [of "[(''a'', ''1''), (''b'', ''2'')]" "[1]" "''t''" "[]" "''b''"]
  by (simp add: map_wf_def memory_get_def)

section \<open>CacheCursorStore\<close>

record 's caching =
  cc_inner :: 's
  cc_ttlMs :: int
  cc_cache :: "(string, string option \<times> int) js_map"

text \<open>\<open>get\<close> up to its \<open>await\<close> (a fresh entry answers), and what it does with the inner store's answer.\<close>

definition cache_lookup :: "int \<Rightarrow> string \<Rightarrow> 's caching \<Rightarrow> string option option" where
  "cache_lookup now k c =
     (case map_get (cc_cache c) k of
        Some (v, expiresAt) \<Rightarrow> if now < expiresAt then Some v else None
      | None \<Rightarrow> None)"

definition cache_fill :: "int \<Rightarrow> string \<Rightarrow> string option \<Rightarrow> 's caching \<Rightarrow> 's caching" where
  "cache_fill now k v c = c\<lparr>cc_cache := map_set k (v, now + cc_ttlMs c) (cc_cache c)\<rparr>"

definition cache_get ::
  "('s \<Rightarrow> string \<Rightarrow> string option) \<Rightarrow> int \<Rightarrow> int \<Rightarrow> string \<Rightarrow> 's caching \<Rightarrow> string option \<times> 's caching"
where
  "cache_get get_one now now' k c =
     (case cache_lookup now k c of
        Some v \<Rightarrow> (v, c)
      | None \<Rightarrow> let v = get_one (cc_inner c) k in (v, cache_fill now' k v c))"

definition cache_set :: "(string \<Rightarrow> string \<Rightarrow> 's \<Rightarrow> 's) \<Rightarrow> string \<Rightarrow> string \<Rightarrow> 's caching \<Rightarrow> 's caching" where
  "cache_set set_one k v c = c\<lparr>cc_cache := map_del k (cc_cache c), cc_inner := set_one k v (cc_inner c)\<rparr>"

definition cacheCursorStore :: "'s \<Rightarrow> int \<Rightarrow> 's caching" where
  "cacheCursorStore inner ttlMs = \<lparr>cc_inner = inner, cc_ttlMs = ttlMs, cc_cache = []\<rparr>"

datatype cache_op = KGet int int string | KSet string string

fun cache_step ::
  "('s \<Rightarrow> string \<Rightarrow> string option) \<Rightarrow> (string \<Rightarrow> string \<Rightarrow> 's \<Rightarrow> 's) \<Rightarrow> cache_op \<Rightarrow> 's caching \<Rightarrow> 's caching"
where
  "cache_step get_one set_one (KGet now now' k) c = snd (cache_get get_one now now' k c)"
| "cache_step get_one set_one (KSet k v) c = cache_set set_one k v c"

text \<open>Coherence: what is cached is what the inner store holds.\<close>

definition cache_coherent :: "('s \<Rightarrow> string \<Rightarrow> string option) \<Rightarrow> 's caching \<Rightarrow> bool" where
  "cache_coherent get_one c \<longleftrightarrow> (\<forall>k v e. map_get (cc_cache c) k = Some (v, e) \<longrightarrow> v = get_one (cc_inner c) k)"

context cursor_store
begin

lemma cache_step_coherent: "cache_coherent get_one c \<Longrightarrow> cache_coherent get_one (cache_step get_one set_one op c)"
  by (cases op)
    (auto simp: cache_coherent_def cache_get_def cache_fill_def cache_set_def get_set Let_def split: option.splits if_splits)

lemma cache_run_coherent:
  "cache_coherent get_one c \<Longrightarrow> cache_coherent get_one (fold (cache_step get_one set_one) ops c)"
  by (induction ops arbitrary: c) (simp_all add: cache_step_coherent)

lemma cache_get_transparent: "cache_coherent get_one c \<Longrightarrow> fst (cache_get get_one now now' k c) = get_one (cc_inner c) k"
  by (auto simp: cache_coherent_def cache_get_def cache_lookup_def Let_def split: option.splits if_splits)

end

lemma cache_fresh: "cache_coherent get_one (cacheCursorStore inner ttl)"
  by (simp add: cache_coherent_def cacheCursorStore_def)

text \<open>
  with operations that do not overlap the cache is transparent: after any sequence of reads and
  writes, at any clock values, \<open>get\<close> answers what the inner store holds.
\<close>

theorem cache_transparent:
  "fst (cache_get file_get now1 now2 k
      (fold (cache_step file_get (file_set rand now)) ops (cacheCursorStore inner ttl))) =
   file_get (cc_inner (fold (cache_step file_get (file_set rand now)) ops (cacheCursorStore inner ttl))) k"
  by (rule file_store.cache_get_transparent [OF file_store.cache_run_coherent [OF cache_fresh]])

text \<open>
  a read that overlaps a write of its key poisons the cache: if the write happens between the read
  of the inner store and the fill, every \<open>get\<close> within the time to live answers the old cursor while
  the inner store holds the new one.
\<close>

theorem cache_race:
  assumes "cache_lookup t0 k c = None" "t2 < t1 + cc_ttlMs c"
  shows "fst (cache_get file_get t2 t3 k
           (cache_fill t1 k (file_get (cc_inner c) k) (cache_set (file_set rand now) k v c))) = file_get (cc_inner c) k \<and>
         file_get (cc_inner (cache_fill t1 k (file_get (cc_inner c) k) (cache_set (file_set rand now) k v c))) k = Some v"
  using assms by (simp add: cache_get_def cache_lookup_def cache_fill_def cache_set_def file_store.get_set)

theorem cache_race_witness:
  "fst (cache_get file_get 2 3 ''a''
      (cache_fill 1 ''a'' None (cache_set (file_set [1] ''t'') ''a'' ''1'' (cacheCursorStore [] 10)))) = None"
  using cache_race [of 0 "''a''" "cacheCursorStore [] 10" 2 1 3 "[1]" "''t''" "''1''"]
  by (simp add: cacheCursorStore_def cache_lookup_def file_get_def)

end
