(* ===== verification/Stellar_Values.thy ===== *)
theory Stellar_Values
  imports Orbital_Prelude
begin

text \<open>
  Values of the Stellar network as \<^verbatim>\<open>packages/pulse-core/src\<close> handles them: decimal amounts
  (\<^verbatim>\<open>amount.ts\<close>) and claimable-balance predicates (\<^verbatim>\<open>claimPredicate.ts\<close>). A \<open>bigint\<close> is an \<^typ>\<open>int\<close>;
  the branding casts of \<^verbatim>\<open>address.ts\<close> and \<open>toStellarAmount\<close> are identities at run time and do not
  appear. \<open>Date\<close> parsing is the argument \<open>parse_date\<close>, with \<open>None\<close> for an invalid date.
\<close>

section \<open>Amounts\<close>

definition STROOPS :: nat where "STROOPS = 10000000"

fun split_on :: "char \<Rightarrow> string \<Rightarrow> string list" where
  "split_on c [] = [[]]"
| "split_on c (x # xs) =
     (if x = c then [] # split_on c xs
      else case split_on c xs of [] \<Rightarrow> [[x]] | p # ps \<Rightarrow> (x # p) # ps)"

definition padStart :: "nat \<Rightarrow> char \<Rightarrow> string \<Rightarrow> string" where
  "padStart n c s = replicate (n - length s) c @ s"

definition all_digits :: "string \<Rightarrow> bool" where
  "all_digits s \<longleftrightarrow> s \<noteq> [] \<and> list_all is_digit s"

datatype amount_error = InvalidStellarAmount

definition toBigInt :: "string \<Rightarrow> (amount_error, int) result" where
  "toBigInt s =
     (let negative = is_prefix ''-'' s;
          abs_s = (if negative then tl s else s);
          parts = split_on CHR ''.'' abs_s
      in if abs_s = [] then Inl InvalidStellarAmount
         else if length parts > 2 then Inl InvalidStellarAmount
         else
           let whole = (if hd parts = [] then ''0'' else hd parts);
               frac = (if length parts = 2 then parts ! 1 else [])
           in if \<not> all_digits whole \<or> (frac \<noteq> [] \<and> \<not> all_digits frac) then Inl InvalidStellarAmount
              else
                let padded = take 7 (frac @ ''0000000'');
                    combined = int (read_nat whole 0 * STROOPS + read_nat padded 0)
                in Inr (if negative then - combined else combined))"

definition fromBigInt :: "int \<Rightarrow> string" where
  "fromBigInt amount =
     (let negative = amount < 0;
          a = nat (if negative then - amount else amount)
      in (if negative then ''-'' else []) @ show_nat (a div STROOPS) @ ''.'' @ padStart 7 CHR ''0'' (show_nat (a mod STROOPS)))"

section \<open>Claim predicates\<close>

datatype claim_predicate =
    PUnconditional
  | PNot claim_predicate
  | PAnd "claim_predicate list"
  | POr "claim_predicate list"
  | PAbsBefore string
  | PRelBefore string

fun parse_int_digits :: "string \<Rightarrow> nat option \<Rightarrow> nat option" where
  "parse_int_digits [] acc = acc"
| "parse_int_digits (c # cs) acc =
     (if is_digit c then parse_int_digits cs (Some (10 * (case acc of Some a \<Rightarrow> a | None \<Rightarrow> 0) + (of_char c - 48))) else acc)"

text \<open>\<open>parseInt(s, 10)\<close>: leading white space, an optional sign, the longest run of digits; \<open>None\<close> is \<open>NaN\<close>.\<close>

definition parseInt :: "string \<Rightarrow> int option" where
  "parseInt s =
     (let t = dropWhile is_space s
      in if is_prefix ''-'' t then map_option (\<lambda>n. - int n) (parse_int_digits (tl t) None)
         else if is_prefix ''+'' t then map_option int (parse_int_digits (tl t) None)
         else map_option int (parse_int_digits t None))"

fun evaluatePredicate :: "(string \<Rightarrow> int option) \<Rightarrow> claim_predicate \<Rightarrow> int \<Rightarrow> bool" where
  "evaluatePredicate parse_date PUnconditional now = True"
| "evaluatePredicate parse_date (PNot p) now = (\<not> evaluatePredicate parse_date p now)"
| "evaluatePredicate parse_date (PAnd ps) now = list_all (\<lambda>p. evaluatePredicate parse_date p now) ps"
| "evaluatePredicate parse_date (POr ps) now = list_ex (\<lambda>p. evaluatePredicate parse_date p now) ps"
| "evaluatePredicate parse_date (PAbsBefore timestamp) now =
     (case parse_date timestamp of None \<Rightarrow> False | Some ms \<Rightarrow> now div 1000 < ms div 1000)"
| "evaluatePredicate parse_date (PRelBefore seconds) now =
     (case parseInt seconds of None \<Rightarrow> False | Some s \<Rightarrow> now div 1000 < s)"

text \<open>A call of a fallible function on every element of an array, stopping at the first error.\<close>

fun traverse :: "('a \<Rightarrow> ('e, 'b) result) \<Rightarrow> 'a list \<Rightarrow> ('e, 'b list) result" where
  "traverse f [] = Inr []"
| "traverse f (x # xs) = bind_result (f x) (\<lambda>y. bind_result (traverse f xs) (\<lambda>ys. Inr (y # ys)))"

lemma traverse_cong [fundef_cong]:
  "xs = ys \<Longrightarrow> (\<And>x. x \<in> set ys \<Longrightarrow> f x = g x) \<Longrightarrow> traverse f xs = traverse g ys"
proof (induction ys arbitrary: xs)
  case (Cons y ys)
  then have "traverse f ys = traverse g ys" by simp
  with Cons show ?case by simp
qed simp

lemma traverse_map: "(\<And>x. x \<in> set xs \<Longrightarrow> f (g x) = Inr x) \<Longrightarrow> traverse f (map g xs) = Inr xs"
  by (induction xs) auto

lemma js_field_size: "js_field k v \<noteq> JUndefined \<Longrightarrow> size (js_field k v) < size v"
proof (cases v)
  case (JObj fs)
  have "map_of fs k = Some x \<Longrightarrow> size x < size (JObj fs)" for x
  proof -
    assume "map_of fs k = Some x"
    then have "(k, x) \<in> set fs" by (rule map_of_SomeD)
    then have "size_prod (\<lambda>_. 0) size (k, x) \<le> size_list (size_prod (\<lambda>_. 0) size) fs" by (rule size_list_estimation') simp
    then show ?thesis by simp
  qed
  then show "js_field k v \<noteq> JUndefined \<Longrightarrow> ?thesis" using JObj by (auto split: option.splits)
qed simp_all

lemma js_array_size: "js_field k v = JArr xs \<Longrightarrow> x \<in> set xs \<Longrightarrow> size x < size v"
  using js_field_size [of k v] size_list_estimation' [of x xs "size x" size] by simp

datatype predicate_error = PredicateTypeError | InvalidPredicate js_value

function normalizeClaimPredicate :: "js_value \<Rightarrow> (predicate_error, claim_predicate) result" where
  "normalizeClaimPredicate raw =
     (if raw = JUndefined \<or> raw = JNull then Inl PredicateTypeError
      else if js_field ''unconditional'' raw = JBool True then Inr PUnconditional
      else if js_field ''not'' raw \<noteq> JUndefined then
        bind_result (normalizeClaimPredicate (js_field ''not'' raw)) (\<lambda>p. Inr (PNot p))
      else case js_field ''and'' raw of
          JArr ps \<Rightarrow> bind_result (traverse normalizeClaimPredicate ps) (\<lambda>qs. Inr (PAnd qs))
        | _ \<Rightarrow> (case js_field ''or'' raw of
            JArr ps \<Rightarrow> bind_result (traverse normalizeClaimPredicate ps) (\<lambda>qs. Inr (POr qs))
          | _ \<Rightarrow> (case js_field ''abs_before'' raw of
              JStr t \<Rightarrow> Inr (PAbsBefore t)
            | _ \<Rightarrow> (case js_field ''rel_before'' raw of
                JStr s \<Rightarrow> Inr (PRelBefore s)
              | _ \<Rightarrow> Inl (InvalidPredicate raw)))))"
  by pat_completeness auto
termination
  by (relation "measure size") (auto intro: js_field_size js_array_size)

declare normalizeClaimPredicate.simps [simp del]

section \<open>Round trips\<close>

lemma split_on_no: "c \<notin> set s \<Longrightarrow> split_on c s = [s]"
  by (induction s) auto

lemma split_on_one: "c \<notin> set s \<Longrightarrow> c \<notin> set t \<Longrightarrow> split_on c (s @ c # t) = [s, t]"
  by (induction s) (auto simp: split_on_no)

lemma dot_not_digit: "\<not> is_digit (CHR ''.'')"
  by (simp add: is_digit_def)

lemma all_digits_show_nat: "all_digits (show_nat n)"
  using show_nat_digits by (auto simp: all_digits_def show_nat_nonempty list_all_iff)

lemma all_digits_padStart: "all_digits s \<Longrightarrow> all_digits (padStart n CHR ''0'' s)"
  by (auto simp: all_digits_def padStart_def list_all_iff is_digit_def)

lemma read_nat_zeros: "read_nat (replicate n CHR ''0'' @ s) 0 = read_nat s 0"
  by (induction n) simp_all

lemma length_show_nat: "n < 10 ^ k \<Longrightarrow> 0 < k \<Longrightarrow> length (show_nat n) \<le> k"
proof (induction n arbitrary: k rule: show_nat.induct)
  case (1 n)
  show ?case
  proof (cases "n < 10")
    case True
    then show ?thesis using 1(3) by (simp add: show_nat.simps [of n])
  next
    case False
    with 1(2) have "k \<noteq> 1" by auto
    with 1(3) have k: "1 < k" by simp
    then have "n div 10 < 10 ^ (k - 1)" using 1(2) by (cases k) (auto simp: div_less_iff_less_mult mult.commute)
    with 1(1) [OF False, of "k - 1"] k have "length (show_nat (n div 10)) \<le> k - 1" by simp
    with False k show ?thesis by (simp add: show_nat.simps [of n])
  qed
qed

lemma padStart_show_nat:
  assumes "n < STROOPS"
  shows "length (padStart 7 CHR ''0'' (show_nat n)) = 7 \<and> read_nat (padStart 7 CHR ''0'' (show_nat n)) 0 = n"
  using length_show_nat [of n 7] assms by (simp add: padStart_def STROOPS_def read_nat_zeros read_show_nat)

lemma toBigInt_unsigned:
  assumes w: "all_digits w" and f: "all_digits f" and "length f = 7"
  shows "toBigInt (w @ ''.'' @ f) = Inr (int (read_nat w 0 * STROOPS + read_nat f 0))"
    and "toBigInt (''-'' @ w @ ''.'' @ f) = Inr (- int (read_nat w 0 * STROOPS + read_nat f 0))"
proof -
  have sp: "split_on CHR ''.'' (w @ CHR ''.'' # f) = [w, f]"
    using w f dot_not_digit by (intro split_on_one) (auto simp: all_digits_def list_all_iff)
  have ne: "w \<noteq> []" "f \<noteq> []" using w f by (auto simp: all_digits_def)
  have hd: "\<not> is_prefix ''-'' (w @ CHR ''.'' # f)"
    using w minus_not_digit by (cases w) (auto simp: is_prefix_def all_digits_def)
  show "toBigInt (w @ ''.'' @ f) = Inr (int (read_nat w 0 * STROOPS + read_nat f 0))"
    using sp ne hd w f assms(3) by (simp add: toBigInt_def Let_def)
  show "toBigInt (''-'' @ w @ ''.'' @ f) = Inr (- int (read_nat w 0 * STROOPS + read_nat f 0))"
    using sp ne w f assms(3) by (simp add: toBigInt_def Let_def is_prefix_def)
qed

lemma toBigInt_fromBigInt: "toBigInt (fromBigInt x) = Inr x"
proof -
  define a where "a = nat (if x < 0 then - x else x)"
  have p: "all_digits (show_nat (a div STROOPS))" "all_digits (padStart 7 CHR ''0'' (show_nat (a mod STROOPS)))"
    by (simp_all add: all_digits_show_nat all_digits_padStart)
  have m: "length (padStart 7 CHR ''0'' (show_nat (a mod STROOPS))) = 7"
    "read_nat (padStart 7 CHR ''0'' (show_nat (a mod STROOPS))) 0 = a mod STROOPS"
    using padStart_show_nat [of "a mod STROOPS"] by (simp_all add: STROOPS_def)
  have v: "int (a div STROOPS * STROOPS + a mod STROOPS) = \<bar>x\<bar>" by (simp add: a_def)
  show ?thesis
  proof (cases "x < 0")
    case True
    then have "fromBigInt x = ''-'' @ show_nat (a div STROOPS) @ ''.'' @ padStart 7 CHR ''0'' (show_nat (a mod STROOPS))"
      by (simp add: fromBigInt_def a_def Let_def)
    then show ?thesis using toBigInt_unsigned(2) [OF p m(1)] m(2) v True by (simp only: read_show_nat) simp
  next
    case False
    then have "fromBigInt x = show_nat (a div STROOPS) @ ''.'' @ padStart 7 CHR ''0'' (show_nat (a mod STROOPS))"
      by (simp add: fromBigInt_def a_def Let_def)
    then show ?thesis using toBigInt_unsigned(1) [OF p m(1)] m(2) v False by (simp only: read_show_nat) simp
  qed
qed

text \<open>
  C31: amounts round-trip. Printing any number of stroops, negative ones included, and reading it
  back gives that number.
\<close>

theorem amount_roundtrip: "toBigInt (fromBigInt x) = Inr x"
  by (rule toBigInt_fromBigInt)

text \<open>The object Horizon sends for a predicate.\<close>

fun rawPredicate :: "claim_predicate \<Rightarrow> js_value" where
  "rawPredicate PUnconditional = JObj [(''unconditional'', JBool True)]"
| "rawPredicate (PNot p) = JObj [(''not'', rawPredicate p)]"
| "rawPredicate (PAnd ps) = JObj [(''and'', JArr (map rawPredicate ps))]"
| "rawPredicate (POr ps) = JObj [(''or'', JArr (map rawPredicate ps))]"
| "rawPredicate (PAbsBefore t) = JObj [(''abs_before'', JStr t)]"
| "rawPredicate (PRelBefore s) = JObj [(''rel_before'', JStr s)]"

lemma rawPredicate_object: "rawPredicate p \<noteq> JUndefined"
  by (cases p) simp_all

text \<open>
  predicates round-trip. Every predicate, however deeply nested, is recovered from the object
  that Horizon sends for it.
\<close>

theorem predicate_roundtrip: "normalizeClaimPredicate (rawPredicate p) = Inr p"
proof (induction p)
  case (PNot p)
  then show ?case by (subst normalizeClaimPredicate.simps) (simp add: rawPredicate_object)
next
  case (PAnd ps)
  then show ?case by (subst normalizeClaimPredicate.simps) (simp add: traverse_map)
next
  case (POr ps)
  then show ?case by (subst normalizeClaimPredicate.simps) (simp add: traverse_map)
qed (subst normalizeClaimPredicate.simps; simp)+

text \<open>
  a relative deadline is compared with the epoch. \<open>rel_before\<close> counts seconds from the moment the
  balance was created, which the evaluation does not know; it compares the duration with the seconds since 1970, so a
  balance with a relative deadline of up to thirty years is reported as not claimable at any time after 2001, and a
  negated one as always claimable.
\<close>

theorem relative_deadline_is_absolute:
  assumes "parseInt s = Some d" and "d \<le> 1000000000" and "1000000000000 \<le> now"
  shows "\<not> evaluatePredicate parse_date (PRelBefore s) now \<and> evaluatePredicate parse_date (PNot (PRelBefore s)) now"
proof -
  have "1000000000 \<le> now div 1000" using zdiv_mono1 [OF assms(3), of 1000] by simp
  with assms show ?thesis by simp
qed

theorem relative_deadline_is_absolute_witness:
  "parseInt ''86400'' = Some 86400 \<and> \<not> evaluatePredicate (\<lambda>_. None) (PRelBefore ''86400'') 1700000000000"
proof -
  have "parseInt ''86400'' = Some 86400" by (simp add: parseInt_def is_prefix_def is_digit_def is_space_def)
  with relative_deadline_is_absolute [OF this, of 1700000000000 "\<lambda>_. None"] show ?thesis by simp
qed

section \<open>BigInt\<close>

text \<open>
  \<open>BigInt(s)\<close> on a decimal string (with surrounding white space, an optional sign, and the empty string as
  zero); other notations are outside the ids that the transports send and are rejected here.
\<close>

definition hex_value :: "char \<Rightarrow> nat option" where
  "hex_value c =
     (let n = of_char c :: nat
      in if 48 \<le> n \<and> n \<le> 57 then Some (n - 48)
         else if 97 \<le> n \<and> n \<le> 102 then Some (n - 87)
         else if 65 \<le> n \<and> n \<le> 70 then Some (n - 55) else None)"

text \<open>The digits of a literal with a radix prefix.\<close>

definition read_radix :: "nat \<Rightarrow> string \<Rightarrow> int option" where
  "read_radix r s =
     (if s = [] \<or> \<not> list_all (\<lambda>c. case hex_value c of Some v \<Rightarrow> v < r | None \<Rightarrow> False) s then None
      else Some (int (fold (\<lambda>c acc. acc * r + (case hex_value c of Some v \<Rightarrow> v | None \<Rightarrow> 0)) s 0)))"

definition parse_bigint :: "string \<Rightarrow> int option" where
  "parse_bigint s =
     (let t = trim s
      in if t = [] then Some 0
         else if all_digits t then Some (int (read_nat t 0))
         else if is_prefix ''-'' t \<and> all_digits (tl t) then Some (- int (read_nat (tl t) 0))
         else if is_prefix ''+'' t \<and> all_digits (tl t) then Some (int (read_nat (tl t) 0))
         else if is_prefix ''0x'' (toLowerCase t) then read_radix 16 (drop 2 t)
         else if is_prefix ''0o'' (toLowerCase t) then read_radix 8 (drop 2 t)
         else if is_prefix ''0b'' (toLowerCase t) then read_radix 2 (drop 2 t)
         else None)"

lemma trim_digits: "all_digits s \<Longrightarrow> trim s = s"
proof -
  assume d: "all_digits s"
  have "\<not> is_space c" if "is_digit c" for c using that by (auto simp: is_space_def is_digit_def)
  then have "dropWhile is_space s = s" "dropWhile is_space (rev s) = rev s"
    using d by (auto simp: all_digits_def list_all_iff dropWhile_eq_self_iff hd_rev)
  then show ?thesis by (simp add: trim_def)
qed

lemma parse_bigint_padded: "parse_bigint (replicate z CHR ''0'' @ show_nat n) = Some (int n)"
proof -
  have "all_digits (replicate z CHR ''0'' @ show_nat n)"
    using all_digits_show_nat [of n] by (auto simp: all_digits_def list_all_iff is_digit_def)
  then show ?thesis
    by (simp add: parse_bigint_def Let_def trim_digits read_nat_zeros read_show_nat show_nat_nonempty)
qed

lemma split_on_nonempty: "split_on c s \<noteq> []"
  by (induction s) (auto split: list.splits)

lemma split_on_first: "c \<notin> set s \<Longrightarrow> hd (split_on c (s @ c # t)) = s"
  by (induction s) (auto simp: split_on_nonempty split: list.splits)

end
