(* ===== verification/Event_Normalize.thy ===== *)
theory Event_Normalize
  imports Stellar_Values Js_Json
begin

text \<open>
  Normalisation of Horizon operation records, the \<open>_normalize\<close> family of
  \<^verbatim>\<open>packages/pulse-core/src/EventEngine.ts\<close>. A record is an untyped value; the event is the object literal
  the code builds, with its fields in the code's order. The casts \<open>toAccountAddress\<close>,
  \<open>toContractAddress\<close> and \<open>toStellarAmount\<close> are identities at run time and do not appear. The non-enumerable getter that
  \<open>withTimestampDate\<close> adds is derived from \<open>timestamp\<close> and is not part of the value. The taxonomy lookup of
  contract events is the argument \<open>semantic\<close>.
\<close>

section \<open>Base 64\<close>

text \<open>\<open>Buffer.from(s, 'base64')\<close>: characters outside the alphabet are skipped, padding ends the text.\<close>

definition base64_value :: "char \<Rightarrow> nat option" where
  "base64_value c =
     (let n = of_char c :: nat
      in if 65 \<le> n \<and> n \<le> 90 then Some (n - 65)
         else if 97 \<le> n \<and> n \<le> 122 then Some (n - 71)
         else if 48 \<le> n \<and> n \<le> 57 then Some (n + 4)
         else if c = CHR ''+'' \<or> c = CHR ''-'' then Some 62
         else if c = CHR ''/'' \<or> c = CHR ''_'' then Some 63
         else None)"

fun base64_bytes :: "nat list \<Rightarrow> nat list" where
  "base64_bytes (a # b # c # d # vs) =
     [a * 4 + b div 16, b mod 16 * 16 + c div 4, c mod 4 * 64 + d] @ base64_bytes vs"
| "base64_bytes [a, b, c] = [a * 4 + b div 16, b mod 16 * 16 + c div 4]"
| "base64_bytes [a, b] = [a * 4 + b div 16]"
| "base64_bytes _ = []"

definition buffer_from_base64 :: "string \<Rightarrow> js_value" where
  "buffer_from_base64 s =
     JArr (map (\<lambda>b. JNum (int b)) (base64_bytes (List.map_filter base64_value (takeWhile (\<lambda>c. c \<noteq> CHR ''='') s))))"

section \<open>Normalisers\<close>

text \<open>
  What \<open>_normalize\<close> returns: an event, \<open>null\<close>, or \<open>null\<close> after the notification for an unrecognised
  operation type. A thrown exception is the left side of the result.
\<close>

datatype normalized = NEvent js_value | NDropped | NUnrecognized string

datatype normalize_error = NTypeError | NPredicate predicate_error

type_synonym normalize_result = "(normalize_error, normalized) result"

type_synonym resolve_semantic = "string \<Rightarrow> js_value list \<Rightarrow> js_value \<Rightarrow> js_value option"

definition classicIdentity :: "js_value \<Rightarrow> (string \<times> js_value) list" where
  "classicIdentity r =
     (let tx = js_field ''transaction'' r
      in (if nonempty_str (js_field ''transaction_hash'' r) then [(''txHash'', js_field ''transaction_hash'' r)] else []) @
         (if js_typeof_object tx \<and> tx \<noteq> JNull then
            (if is_num (js_field ''ledger'' tx) then [(''ledger'', js_field ''ledger'' tx)] else []) @
            (if js_field ''memo_type'' tx \<noteq> JStr ''none'' \<and> nonempty_str (js_field ''memo'' tx)
             then [(''memo'', js_field ''memo'' tx)] else [])
          else []))"

definition asset_of :: "string \<Rightarrow> js_value \<Rightarrow> js_value" where
  "asset_of prefix r =
     (if js_field (prefix @ ''asset_type'') r = JStr ''native'' then JStr ''XLM''
      else JStr (js_String (js_field (prefix @ ''asset_code'') r) @ '':'' @ js_String (js_field (prefix @ ''asset_issuer'') r)))"

definition normalizePayment :: "js_value \<Rightarrow> normalized" where
  "normalizePayment r =
     (if \<not> list_all (\<lambda>f. nonempty_str (js_field f r)) [''to'', ''from'', ''amount'', ''created_at''] then NDropped
      else NEvent (JObj (
        [(''type'', JStr ''unknown''), (''to'', js_field ''to'' r), (''from'', js_field ''from'' r),
         (''amount'', js_field ''amount'' r), (''asset'', asset_of [] r), (''timestamp'', js_field ''created_at'' r)] @
        classicIdentity r @ [(''raw'', r)])))"

definition normalizeAccountMerge :: "js_value \<Rightarrow> normalized" where
  "normalizeAccountMerge r =
     NEvent (JObj (
       [(''type'', JStr ''account.merged''), (''source'', js_field ''account'' r), (''destination'', js_field ''into'' r),
        (''timestamp'', js_field ''created_at'' r)] @ classicIdentity r @ [(''raw'', r)]))"

definition offer_type :: "string \<Rightarrow> string \<Rightarrow> string" where
  "offer_type offer_id amount =
     (if amount = ''0'' \<or> amount = ''0.0000000'' then ''offer.deleted''
      else if offer_id = ''0'' then ''offer.created'' else ''offer.updated'')"

definition normalizeOffer :: "js_value \<Rightarrow> normalized" where
  "normalizeOffer r =
     (if \<not> is_str (js_field ''source_account'' r) \<or> \<not> is_str (js_field ''created_at'' r) then NDropped
      else let offer_id = js_String (coalesce (js_field ''offer_id'' r) (JStr ''0''));
               amount = js_String (coalesce (js_field ''amount'' r) (JStr ''0''))
        in NEvent (JObj (
          [(''type'', JStr (offer_type offer_id amount)), (''offer_id'', JStr offer_id),
           (''source'', js_field ''source_account'' r), (''buying_asset'', asset_of ''buying_'' r),
           (''selling_asset'', asset_of ''selling_'' r), (''amount'', JStr amount), (''price'', js_field ''price'' r),
           (''price_r'', js_field ''price_r'' r), (''timestamp'', js_field ''created_at'' r)] @
          classicIdentity r @ [(''raw'', r)])))"

definition normalizeCreateAccount :: "js_value \<Rightarrow> normalized" where
  "normalizeCreateAccount r =
     (if \<not> list_all (\<lambda>f. is_str (js_field f r)) [''funder'', ''account'', ''starting_balance'', ''created_at''] then NDropped
      else NEvent (JObj (
        [(''type'', JStr ''account.created''), (''funder'', js_field ''funder'' r), (''account'', js_field ''account'' r),
         (''starting_balance'', js_field ''starting_balance'' r), (''timestamp'', js_field ''created_at'' r)] @
        classicIdentity r @ [(''raw'', r)])))"

definition normalizeBumpSequence :: "js_value \<Rightarrow> normalized" where
  "normalizeBumpSequence r =
     (if \<not> is_str (js_field ''source_account'' r) \<or> \<not> is_str (js_field ''created_at'' r) then NDropped
      else NEvent (JObj (
        [(''type'', JStr ''account.bump_sequence''), (''source'', js_field ''source_account'' r),
         (''bump_to'', js_field ''bump_to'' r), (''timestamp'', js_field ''created_at'' r)] @
        classicIdentity r @ [(''raw'', r)])))"

definition normalizeManageData :: "js_value \<Rightarrow> normalized" where
  "normalizeManageData r =
     (if \<not> nonempty_str (js_field ''source_account'' r) then NDropped
      else if \<not> nonempty_str (js_field ''data_name'' r) then NDropped
      else let cleared = nullish (js_field ''data_value'' r); text = js_String (js_field ''data_value'' r)
        in NEvent (JObj (
          [(''type'', JStr (if cleared then ''data.cleared'' else ''data.set'')),
           (''source'', js_field ''source_account'' r), (''name'', js_field ''data_name'' r),
           (''value'', if cleared then JNull else JStr text),
           (''decoded'', if cleared then JNull else buffer_from_base64 text),
           (''timestamp'', if is_str (js_field ''created_at'' r) then js_field ''created_at'' r else JStr '''')] @
          classicIdentity r @ [(''raw'', r)])))"

text \<open>The regular expression \<^verbatim>\<open>/^0(?:\.0+)?$/\<close>.\<close>

definition isZeroTrustlineLimit :: "string \<Rightarrow> bool" where
  "isZeroTrustlineLimit limit \<longleftrightarrow>
     limit = ''0'' \<or> is_prefix ''0.'' limit \<and> drop 2 limit \<noteq> [] \<and> list_all (\<lambda>c. c = CHR ''0'') (drop 2 limit)"

definition resolveTrustlineEventType :: "string \<Rightarrow> string" where
  "resolveTrustlineEventType limit =
     (if isZeroTrustlineLimit limit then ''trustline.removed''
      else if limit = ''922337203685.4775807'' then ''trustline.added'' else ''trustline.updated'')"

definition normalizeChangeTrust :: "js_value \<Rightarrow> normalized" where
  "normalizeChangeTrust r =
     (if \<not> is_str (js_field ''source_account'' r) then NDropped
      else if \<not> is_str (js_field ''created_at'' r) then NDropped
      else if \<not> is_str (js_field ''limit'' r) \<and> \<not> is_num (js_field ''limit'' r) then NDropped
      else let limit = js_String (js_field ''limit'' r)
        in NEvent (JObj (
          [(''type'', JStr (resolveTrustlineEventType limit)), (''account'', js_field ''source_account'' r),
           (''asset'', asset_of [] r), (''limit'', JStr limit), (''timestamp'', js_field ''created_at'' r)] @
          classicIdentity r @ [(''raw'', r)])))"

definition signer_change :: "js_value \<Rightarrow> (string \<times> js_value) list" where
  "signer_change r =
     (if is_str (js_field ''signer_key'' r) then
        let weight = (case js_field ''signer_weight'' r of JNum n \<Rightarrow> n | _ \<Rightarrow> 0)
        in if weight = 0 then [(''signer_removed'', JObj [(''key'', js_field ''signer_key'' r), (''weight'', JNum 0)])]
           else [(''signer_added'', JObj [(''key'', js_field ''signer_key'' r), (''weight'', JNum weight)])]
      else [])"

definition threshold_changes :: "js_value \<Rightarrow> (string \<times> js_value) list" where
  "threshold_changes r =
     filter (\<lambda>(_, v). is_num v)
       (map (\<lambda>f. (f, js_field f r)) [''low_threshold'', ''med_threshold'', ''high_threshold'', ''master_key_weight''])"

definition option_changes :: "js_value \<Rightarrow> (string \<times> js_value) list" where
  "option_changes r =
     signer_change r @
     (if threshold_changes r \<noteq> [] then [(''thresholds'', JObj (threshold_changes r))] else []) @
     (if is_str (js_field ''home_domain'' r) then [(''home_domain'', js_field ''home_domain'' r)] else [])"

definition normalizeSetOptions :: "js_value \<Rightarrow> normalized" where
  "normalizeSetOptions r =
     (if option_changes r = [] then NDropped
      else NEvent (JObj (
        [(''type'', JStr ''account.options_changed''), (''source'', js_field ''source_account'' r),
         (''changes'', JObj (option_changes r)), (''timestamp'', js_field ''created_at'' r)] @
        classicIdentity r @ [(''raw'', r)])))"

text \<open>The object of a predicate, as the discriminated union of \<^verbatim>\<open>claimPredicate.ts\<close> declares it.\<close>

fun predicate_value :: "claim_predicate \<Rightarrow> js_value" where
  "predicate_value PUnconditional = JObj [(''type'', JStr ''unconditional'')]"
| "predicate_value (PNot p) = JObj [(''type'', JStr ''not''), (''predicate'', predicate_value p)]"
| "predicate_value (PAnd ps) = JObj [(''type'', JStr ''and''), (''predicates'', JArr (map predicate_value ps))]"
| "predicate_value (POr ps) = JObj [(''type'', JStr ''or''), (''predicates'', JArr (map predicate_value ps))]"
| "predicate_value (PAbsBefore t) = JObj [(''type'', JStr ''abs_before''), (''timestamp'', JStr t)]"
| "predicate_value (PRelBefore s) = JObj [(''type'', JStr ''rel_before''), (''seconds'', JStr s)]"

definition claimant_value :: "js_value \<Rightarrow> (normalize_error, js_value) result" where
  "claimant_value c =
     (case normalizeClaimPredicate (js_field ''predicate'' c) of
        Inl e \<Rightarrow> Inl (NPredicate e)
      | Inr p \<Rightarrow> Inr (JObj [(''destination'', js_field ''destination'' c), (''predicate'', predicate_value p)]))"

definition normalizeCreateClaimableBalance :: "js_value \<Rightarrow> normalize_result" where
  "normalizeCreateClaimableBalance r =
     (if \<not> list_all (\<lambda>f. nonempty_str (js_field f r)) [''source_account'', ''created_at'', ''amount'', ''balance_id'']
      then Inr NDropped
      else case js_field ''claimants'' r of
          JArr claimants \<Rightarrow>
            if claimants = [] \<or>
               \<not> list_all (\<lambda>c. js_typeof_object c \<and> c \<noteq> JNull \<and> nonempty_str (js_field ''destination'' c)) claimants
            then Inr NDropped
            else bind_result (traverse claimant_value claimants) (\<lambda>cs.
              Inr (NEvent (JObj (
                [(''type'', JStr ''claimable.created''), (''sponsor'', js_field ''source_account'' r),
                 (''balanceId'', js_field ''balance_id'' r), (''claimants'', JArr cs), (''asset'', asset_of [] r),
                 (''amount'', js_field ''amount'' r), (''timestamp'', js_field ''created_at'' r)] @
                classicIdentity r @ [(''raw'', r)]))))
        | _ \<Rightarrow> Inr NDropped)"

definition normalizeClaimClaimableBalance :: "js_value \<Rightarrow> normalized" where
  "normalizeClaimClaimableBalance r =
     (if \<not> list_all (\<lambda>f. nonempty_str (js_field f r)) [''source_account'', ''created_at'', ''balance_id''] then NDropped
      else NEvent (JObj (
        [(''type'', JStr ''claimable.claimed''), (''claimant'', js_field ''source_account'' r),
         (''balanceId'', js_field ''balance_id'' r), (''timestamp'', js_field ''created_at'' r)] @
        classicIdentity r @ [(''raw'', r)])))"

definition is_arr :: "js_value \<Rightarrow> bool" where
  "is_arr v = (case v of JArr _ \<Rightarrow> True | _ \<Rightarrow> False)"

definition normalizeLiquidityPoolDeposit :: "js_value \<Rightarrow> normalized" where
  "normalizeLiquidityPoolDeposit r =
     (if \<not> list_all (\<lambda>f. nonempty_str (js_field f r)) [''source_account'', ''created_at'', ''liquidity_pool_id'', ''shares_received'']
      then NDropped
      else if \<not> is_arr (js_field ''reserves_deposited'' r) then NDropped
      else NEvent (JObj (
        [(''type'', JStr ''lp.deposited''), (''source'', js_field ''source_account'' r),
         (''pool_id'', js_field ''liquidity_pool_id'' r), (''reserves_deposited'', js_field ''reserves_deposited'' r),
         (''shares_received'', js_field ''shares_received'' r), (''timestamp'', js_field ''created_at'' r)] @
        classicIdentity r @ [(''raw'', r)])))"

definition normalizeLiquidityPoolWithdraw :: "js_value \<Rightarrow> normalized" where
  "normalizeLiquidityPoolWithdraw r =
     (if \<not> list_all (\<lambda>f. nonempty_str (js_field f r)) [''source_account'', ''created_at'', ''liquidity_pool_id'', ''shares'']
      then NDropped
      else if \<not> is_arr (js_field ''reserves_received'' r) then NDropped
      else NEvent (JObj (
        [(''type'', JStr ''lp.withdrawn''), (''source'', js_field ''source_account'' r),
         (''pool_id'', js_field ''liquidity_pool_id'' r), (''reserves_received'', js_field ''reserves_received'' r),
         (''shares_redeemed'', js_field ''shares'' r), (''timestamp'', js_field ''created_at'' r)] @
        classicIdentity r @ [(''raw'', r)])))"

definition trust_auth_event :: "bool \<Rightarrow> js_value \<Rightarrow> js_value \<Rightarrow> string \<Rightarrow> js_value \<Rightarrow> normalized" where
  "trust_auth_event authorize trustor issuer operation r =
     NEvent (JObj (
       [(''type'', JStr (if authorize then ''trustline.authorized'' else ''trustline.deauthorized'')),
        (''trustor'', trustor), (''issuer'', issuer), (''asset'', asset_of [] r),
        (''timestamp'', js_field ''created_at'' r), (''operation'', JStr operation)] @
       classicIdentity r @ [(''raw'', r)]))"

definition normalizeAllowTrust :: "js_value \<Rightarrow> normalized" where
  "normalizeAllowTrust r =
     (let trustor = js_field ''trustor'' r; issuer = coalesce (js_field ''trustee'' r) (js_field ''source_account'' r)
      in if \<not> nonempty_str trustor then NDropped
         else if \<not> nonempty_str issuer then NDropped
         else case js_field ''authorize'' r of
             JBool authorize \<Rightarrow>
               if \<not> is_str (js_field ''created_at'' r) then NDropped
               else trust_auth_event authorize trustor issuer ''allow_trust'' r
           | _ \<Rightarrow> NDropped)"

text \<open>\<open>flags?.includes('authorized') ?? false\<close> on a value that was only cast to an array of strings.\<close>

definition flags_include_authorized :: "js_value \<Rightarrow> (normalize_error, bool) result" where
  "flags_include_authorized v =
     (case v of
        JUndefined \<Rightarrow> Inr False
      | JNull \<Rightarrow> Inr False
      | JArr xs \<Rightarrow> Inr (JStr ''authorized'' \<in> set xs)
      | JStr s \<Rightarrow> Inr (str_includes s ''authorized'')
      | _ \<Rightarrow> Inl NTypeError)"

definition normalizeSetTrustLineFlags :: "js_value \<Rightarrow> normalize_result" where
  "normalizeSetTrustLineFlags r =
     (let trustor = js_field ''trustor'' r; issuer = js_field ''source_account'' r
      in if \<not> nonempty_str trustor then Inr NDropped
         else if \<not> nonempty_str issuer then Inr NDropped
         else if \<not> is_str (js_field ''created_at'' r) then Inr NDropped
         else
           bind_result (flags_include_authorized (js_field ''set_flags_s'' r)) (\<lambda>isSettingAuth.
           bind_result (flags_include_authorized (js_field ''clear_flags_s'' r)) (\<lambda>isClearingAuth.
             Inr (if isSettingAuth = isClearingAuth then NDropped
                  else trust_auth_event isSettingAuth trustor issuer ''set_trust_line_flags'' r))))"

definition normalizeContractInvoked :: "js_value \<Rightarrow> normalized" where
  "normalizeContractInvoked r =
     (if \<not> nonempty_str (js_field ''contract_id'' r) then NDropped
      else if \<not> is_str (js_field ''function'' r) then NDropped
      else if \<not> is_str (js_field ''created_at'' r) then NDropped
      else NEvent (JObj (
        [(''type'', JStr ''contract.invoked''), (''contractId'', js_field ''contract_id'' r),
         (''function'', js_field ''function'' r),
         (''args'', if is_arr (js_field ''args'' r) then js_field ''args'' r else JArr [])] @
        (if is_num (js_field ''ledger'' r) then [(''ledger'', js_field ''ledger'' r)] else []) @
        (if is_str (js_field ''txHash'' r) then [(''txHash'', js_field ''txHash'' r)] else []) @
        [(''timestamp'', js_field ''created_at'' r), (''raw'', r)])))"

text \<open>The first of two fields that is a string.\<close>

definition string_of_either :: "string \<Rightarrow> string \<Rightarrow> string \<Rightarrow> js_value \<Rightarrow> (string \<times> js_value) list" where
  "string_of_either out k1 k2 r =
     (if is_str (js_field k1 r) then [(out, js_field k1 r)]
      else if is_str (js_field k2 r) then [(out, js_field k2 r)] else [])"

definition normalizeContractEmitted :: "resolve_semantic \<Rightarrow> js_value \<Rightarrow> normalized" where
  "normalizeContractEmitted resolveSemantic r =
     (case js_field ''contract_id'' r of
        JStr contract_id \<Rightarrow>
          if contract_id = [] then NDropped
          else if \<not> is_str (js_field ''created_at'' r) then NDropped
          else let topics = (case js_field ''topics'' r of JArr ts \<Rightarrow> ts | _ \<Rightarrow> []);
                   semantic = resolveSemantic contract_id topics (js_field ''data'' r)
            in NEvent (JObj (
              [(''type'', JStr ''contract.emitted''), (''contractId'', JStr contract_id), (''topics'', JArr topics),
               (''data'', coalesce (js_field ''data'' r) JNull), (''decodedData'', js_field ''decodedData'' r)] @
              (case semantic of Some s \<Rightarrow> [(''semantic'', s)] | None \<Rightarrow> []) @
              (if is_num (js_field ''ledger'' r) then [(''ledger'', js_field ''ledger'' r)] else []) @
              string_of_either ''eventId'' ''eventId'' ''event_id'' r @
              string_of_either ''txHash'' ''txHash'' ''tx_hash'' r @
              [(''inSuccessfulContractCall'',
                 JBool (js_Boolean (coalesce (js_field ''inSuccessfulContractCall'' r) (js_field ''in_successful_contract_call'' r)))),
               (''timestamp'', js_field ''created_at'' r), (''raw'', r)]))
      | _ \<Rightarrow> NDropped)"

definition normalize :: "resolve_semantic \<Rightarrow> js_value \<Rightarrow> normalize_result" where
  "normalize resolveSemantic record =
     (if nullish record then Inl NTypeError
      else let t = js_field ''type'' record
        in if t = JStr ''payment'' then Inr (normalizePayment record)
           else if t = JStr ''set_options'' then Inr (normalizeSetOptions record)
           else if t = JStr ''create_account'' then Inr (normalizeCreateAccount record)
           else if t = JStr ''manage_sell_offer'' \<or> t = JStr ''manage_buy_offer'' then Inr (normalizeOffer record)
           else if t = JStr ''bump_sequence'' then Inr (normalizeBumpSequence record)
           else if t = JStr ''manage_data'' then Inr (normalizeManageData record)
           else if t = JStr ''change_trust'' then Inr (normalizeChangeTrust record)
           else if t = JStr ''account_merge'' then Inr (normalizeAccountMerge record)
           else if t = JStr ''create_claimable_balance'' then normalizeCreateClaimableBalance record
           else if t = JStr ''claim_claimable_balance'' then Inr (normalizeClaimClaimableBalance record)
           else if t = JStr ''liquidity_pool_deposit'' then Inr (normalizeLiquidityPoolDeposit record)
           else if t = JStr ''liquidity_pool_withdraw'' then Inr (normalizeLiquidityPoolWithdraw record)
           else if t = JStr ''allow_trust'' then Inr (normalizeAllowTrust record)
           else if t = JStr ''set_trust_line_flags'' then normalizeSetTrustLineFlags record
           else if t = JStr ''contract_invocation'' then Inr (normalizeContractInvoked record)
           else if t = JStr ''contract_event'' then Inr (normalizeContractEmitted resolveSemantic record)
           else Inr (NUnrecognized (js_String t)))"

section \<open>What normalisation guarantees\<close>







text \<open>The string-valued fields the declarations of \<^verbatim>\<open>index.ts\<close> promise and the normalisers check.\<close>

definition event_schema :: "(string, string list) js_map" where
  "event_schema =
     [(''unknown'', [''to'', ''from'', ''amount'', ''asset'', ''timestamp'']),
      (''account.created'', [''funder'', ''account'', ''starting_balance'', ''timestamp'']),
      (''offer.created'', [''offer_id'', ''source'', ''buying_asset'', ''selling_asset'', ''amount'', ''timestamp'']),
      (''offer.updated'', [''offer_id'', ''source'', ''buying_asset'', ''selling_asset'', ''amount'', ''timestamp'']),
      (''offer.deleted'', [''offer_id'', ''source'', ''buying_asset'', ''selling_asset'', ''amount'', ''timestamp'']),
      (''account.bump_sequence'', [''source'', ''timestamp'']),
      (''data.set'', [''source'', ''name'', ''value'', ''timestamp'']),
      (''data.cleared'', [''source'', ''name'', ''timestamp'']),
      (''trustline.added'', [''account'', ''asset'', ''limit'', ''timestamp'']),
      (''trustline.removed'', [''account'', ''asset'', ''limit'', ''timestamp'']),
      (''trustline.updated'', [''account'', ''asset'', ''limit'', ''timestamp'']),
      (''claimable.created'', [''sponsor'', ''balanceId'', ''asset'', ''amount'', ''timestamp'']),
      (''claimable.claimed'', [''claimant'', ''balanceId'', ''timestamp'']),
      (''lp.deposited'', [''source'', ''pool_id'', ''shares_received'', ''timestamp'']),
      (''lp.withdrawn'', [''source'', ''pool_id'', ''shares_redeemed'', ''timestamp'']),
      (''trustline.authorized'', [''trustor'', ''issuer'', ''asset'', ''timestamp'', ''operation'']),
      (''trustline.deauthorized'', [''trustor'', ''issuer'', ''asset'', ''timestamp'', ''operation'']),
      (''contract.invoked'', [''contractId'', ''function'', ''timestamp'']),
      (''contract.emitted'', [''contractId'', ''timestamp''])]"

definition event_typed :: "js_value \<Rightarrow> bool" where
  "event_typed e \<longleftrightarrow>
     (case js_field ''type'' e of
        JStr t \<Rightarrow> (case map_get event_schema t of
                     Some fs \<Rightarrow> list_all (\<lambda>f. is_str (js_field f e)) fs
                   | None \<Rightarrow> False)
      | _ \<Rightarrow> False)"



lemma is_str_JStr [simp]: "is_str (JStr s)"
  by (simp add: is_str_def)

lemma is_str_asset [simp]: "is_str (asset_of p r)"
  by (simp add: asset_of_def)

lemma schema_entry: "map_get event_schema t = Some fs \<Longrightarrow> js_field ''type'' e = JStr t \<Longrightarrow>
    list_all (\<lambda>f. is_str (js_field f e)) fs \<Longrightarrow> event_typed e"
  by (simp add: event_typed_def)




























text \<open>
  the unchecked casts. A merge record with no fields at all becomes an event whose source,
  destination and timestamp are \<open>undefined\<close>, although the type declares them as strings.
\<close>

theorem merge_unchecked:
  "\<exists>e. normalize sem (JObj [(''type'', JStr ''account_merge'')]) = Inr (NEvent e) \<and> js_field ''source'' e = JUndefined \<and>
       js_field ''destination'' e = JUndefined \<and> js_field ''timestamp'' e = JUndefined"
  by (simp add: normalize_def nullish_def normalizeAccountMerge_def Let_def)

lemma traverse_Inl: "traverse f xs = Inl e \<Longrightarrow> \<exists>x \<in> set xs. f x = Inl e"
  by (induction xs) (auto simp: bind_result_Inl)

lemma claimable_throws:
  "normalizeCreateClaimableBalance r = Inl e \<Longrightarrow>
   \<exists>claimants c p. js_field ''claimants'' r = JArr claimants \<and> c \<in> set claimants \<and>
     normalizeClaimPredicate (js_field ''predicate'' c) = Inl p \<and> e = NPredicate p"
  by (auto simp: normalizeCreateClaimableBalance_def bind_result_Inl claimant_value_def
      dest!: traverse_Inl split: if_splits js_value.splits sum.splits)

lemma flags_throws: "normalizeSetTrustLineFlags r = Inl e \<Longrightarrow>
    e = NTypeError \<and> (\<exists>k \<in> {''set_flags_s'', ''clear_flags_s''}. \<not> is_str (js_field k r) \<and> \<not> is_arr (js_field k r))"
  by (auto simp: normalizeSetTrustLineFlags_def Let_def bind_result_Inl flags_include_authorized_def is_str_def is_arr_def
      split: if_splits js_value.splits)

lemma no_throw_if: "b \<noteq> Inl e \<Longrightarrow> (if c then (Inr a :: normalize_result) else b) \<noteq> Inl e"
  by simp

lemma no_throw_skip: "\<not> c \<Longrightarrow> b \<noteq> Inl e \<Longrightarrow> (if c then a else (b :: normalize_result)) \<noteq> Inl e"
  by simp

text \<open>
  the normaliser throws in exactly these places: a record that is \<open>null\<close> or \<open>undefined\<close>, a claimant
  whose predicate is malformed, and a flag list that is neither an array nor a string. Every other record is turned
  into an event, dropped, or reported as unrecognised.
\<close>

theorem normalize_throws:
  assumes "normalize sem r = Inl e"
  shows "nullish r \<and> e = NTypeError \<or>
    js_field ''type'' r = JStr ''create_claimable_balance'' \<and>
      (\<exists>claimants c p. js_field ''claimants'' r = JArr claimants \<and> c \<in> set claimants \<and>
         normalizeClaimPredicate (js_field ''predicate'' c) = Inl p \<and> e = NPredicate p) \<or>
    js_field ''type'' r = JStr ''set_trust_line_flags'' \<and> e = NTypeError \<and>
      (\<exists>k \<in> {''set_flags_s'', ''clear_flags_s''}. \<not> is_str (js_field k r) \<and> \<not> is_arr (js_field k r))"
proof (cases "nullish r \<or> js_field ''type'' r = JStr ''create_claimable_balance'' \<or> js_field ''type'' r = JStr ''set_trust_line_flags''")
  case True
  then consider "nullish r" | "\<not> nullish r" "js_field ''type'' r = JStr ''create_claimable_balance''"
    | "\<not> nullish r" "js_field ''type'' r = JStr ''set_trust_line_flags''" by blast
  then show ?thesis
  proof cases
    case 1
    with assms show ?thesis by (simp add: normalize_def)
  next
    case 2
    with assms have "normalizeCreateClaimableBalance r = Inl e" by (simp add: normalize_def)
    from claimable_throws [OF this] 2 show ?thesis by blast
  next
    case 3
    with assms have "normalizeSetTrustLineFlags r = Inl e" by (simp add: normalize_def)
    from flags_throws [OF this] 3 show ?thesis by blast
  qed
next
  case False
  then have n: "\<not> nullish r" and c: "js_field ''type'' r \<noteq> JStr ''create_claimable_balance''"
    and f: "js_field ''type'' r \<noteq> JStr ''set_trust_line_flags''" by auto
  have "normalize sem r \<noteq> Inl e"
    unfolding normalize_def Let_def
    by (rule no_throw_if | rule no_throw_skip, rule n c f)+ simp
  with assms show ?thesis by blast
qed

theorem normalize_throws_witness:
  "normalize (\<lambda>_ _ _. None) JNull = Inl NTypeError \<and> nullish JNull"
  using normalize_throws [of "\<lambda>_ _ _. None" JNull NTypeError] by (simp add: normalize_def nullish_def)

section \<open>Amounts decide the event type\<close>

lemma fromBigInt_inject: "fromBigInt x = fromBigInt y \<longleftrightarrow> x = y"
  by (metis toBigInt_fromBigInt sum.inject(2))

lemma digit_chars:
  "digit_char 0 = CHR ''0''" "digit_char (Suc 0) = CHR ''1''" "digit_char 2 = CHR ''2''" "digit_char 3 = CHR ''3''"
  "digit_char 4 = CHR ''4''" "digit_char 5 = CHR ''5''" "digit_char 6 = CHR ''6''" "digit_char 7 = CHR ''7''"
  "digit_char 8 = CHR ''8''" "digit_char 9 = CHR ''9''"
  by (simp_all add: digit_char_def char_of_def bit_iff_odd)

lemma show_nat_steps:
  "n < 10 \<Longrightarrow> show_nat n = [digit_char n]"
  "\<not> n < 10 \<Longrightarrow> show_nat n = show_nat (n div 10) @ [digit_char (n mod 10)]"
  by (simp_all add: show_nat.simps [of n])

lemma fromBigInt_zero: "fromBigInt 0 = ''0.0000000''"
proof -
  have "replicate 6 CHR ''0'' = ''000000''" by (simp add: numeral_eq_Suc)
  then show ?thesis by (simp add: fromBigInt_def STROOPS_def padStart_def show_nat_steps digit_chars)
qed

lemma fromBigInt_max: "fromBigInt 9223372036854775807 = ''922337203685.4775807''"
  by (simp add: fromBigInt_def STROOPS_def padStart_def show_nat_steps digit_chars)

lemma fromBigInt_parts:
  assumes "0 \<le> x"
  defines "w \<equiv> show_nat (nat x div STROOPS)" and "f \<equiv> padStart 7 CHR ''0'' (show_nat (nat x mod STROOPS))"
  shows "fromBigInt x = w @ CHR ''.'' # f" "CHR ''.'' \<notin> set w" "CHR ''.'' \<notin> set f"
    "read_nat w 0 = nat x div STROOPS" "read_nat f 0 = nat x mod STROOPS"
proof -
  have d: "all_digits w" "all_digits f" unfolding w_def f_def by (simp_all add: all_digits_show_nat all_digits_padStart)
  then show "CHR ''.'' \<notin> set w" "CHR ''.'' \<notin> set f" using dot_not_digit by (auto simp: all_digits_def list_all_iff)
  show "fromBigInt x = w @ CHR ''.'' # f" using assms by (simp add: fromBigInt_def Let_def)
  show "read_nat w 0 = nat x div STROOPS" by (simp add: w_def read_show_nat)
  show "read_nat f 0 = nat x mod STROOPS"
    unfolding f_def using padStart_show_nat [of "nat x mod STROOPS"] by (simp add: STROOPS_def)
qed

lemma isZero_fromBigInt: "isZeroTrustlineLimit (fromBigInt x) \<longleftrightarrow> x = 0"
proof
  assume z: "isZeroTrustlineLimit (fromBigInt x)"
  then obtain rest where r: "fromBigInt x = ''0'' \<or> fromBigInt x = CHR ''0'' # CHR ''.'' # rest \<and> list_all (\<lambda>c. c = CHR ''0'') rest"
    by (auto simp: isZeroTrustlineLimit_def is_prefix_iff)
  then have pos: "0 \<le> x" by (auto simp: fromBigInt_def Let_def split: if_splits)
  note parts = fromBigInt_parts [OF pos]
  have eq: "fromBigInt x = ''0'' @ CHR ''.'' # rest" and zs: "list_all (\<lambda>c. c = CHR ''0'') rest"
    using r parts(1) by (auto simp: append_eq_Cons_conv)
  have "CHR ''.'' \<notin> set rest"
  proof
    assume "CHR ''.'' \<in> set rest"
    with zs have "CHR ''.'' = CHR ''0''" unfolding list_all_iff by blast
    then show False by simp
  qed
  then have "split_on CHR ''.'' (''0'' @ CHR ''.'' # rest) = [''0'', rest]" by (intro split_on_one) simp_all
  then have "[''0'', rest] = [show_nat (nat x div STROOPS), padStart 7 CHR ''0'' (show_nat (nat x mod STROOPS))]"
    using split_on_one [OF parts(2,3)] parts(1) eq by metis
  moreover have "rest = replicate (length rest) CHR ''0''"
    using zs unfolding list_all_iff by (intro replicate_eqI) blast+
  ultimately have "nat x div STROOPS = read_nat ''0'' 0" "nat x mod STROOPS = read_nat (replicate (length rest) CHR ''0'') 0"
    using parts(4,5) by (metis list.inject)+
  then have "nat x div STROOPS = 0" "nat x mod STROOPS = 0" using read_nat_zeros [of "length rest" "[]"] by simp_all
  with pos show "x = 0" using div_mult_mod_eq [of "nat x" STROOPS] by simp
qed (simp add: fromBigInt_zero isZeroTrustlineLimit_def is_prefix_def)

text \<open>
  the event type of a trustline or an offer is decided by the amount, not by its notation: on any
  number of stroops in Horizon's format a zero limit is a removal, the largest limit an addition and everything
  else an update; an offer is deleted exactly when its amount is zero.
\<close>

theorem amounts_decide_type:
  "resolveTrustlineEventType (fromBigInt x) =
     (if x = 0 then ''trustline.removed'' else if x = 9223372036854775807 then ''trustline.added'' else ''trustline.updated'') \<and>
   offer_type offer_id (fromBigInt x) =
     (if x = 0 then ''offer.deleted'' else if offer_id = ''0'' then ''offer.created'' else ''offer.updated'')"
proof -
  have "fromBigInt x = ''922337203685.4775807'' \<longleftrightarrow> x = 9223372036854775807"
    using fromBigInt_inject [of x 9223372036854775807] by (simp add: fromBigInt_max)
  moreover have "fromBigInt x = ''0.0000000'' \<longleftrightarrow> x = 0" using fromBigInt_inject [of x 0] by (simp add: fromBigInt_zero)
  moreover have "fromBigInt x \<noteq> ''0''"
    using fromBigInt_parts(1) [of x] by (cases "0 \<le> x") (auto simp: append_eq_Cons_conv fromBigInt_def Let_def)
  ultimately show ?thesis
    by (simp add: resolveTrustlineEventType_def offer_type_def isZero_fromBigInt)
qed

end
