(* ===== verification/Dedupe.thy ===== *)
theory Dedupe
  imports Orbital_Prelude
begin

text \<open>
  Duplicate suppression of \<^verbatim>\<open>packages/pulse-core/src/dedupe.ts\<close>: the key of an operation and the bounded
  window of recently seen keys, each with the transports that observed it. The window is an
  insertion-ordered map, as the JavaScript \<open>Map\<close> is, so its first key is the oldest one.
\<close>

datatype DedupeTransport = Horizon | Unified

record DedupeEventRef =
  ref_txHash :: string
  ref_index :: string

definition deriveDedupeKey :: "DedupeEventRef \<Rightarrow> string" where
  "deriveDedupeKey ref = ref_txHash ref @ '':'' @ ref_index ref"

record DedupeWindow =
  win_capacity :: int
  win_seen :: "(string, DedupeTransport list) js_map"

datatype dedupe_error = InvalidDedupeWindowCapacityError int

definition newDedupeWindow :: "int \<Rightarrow> (dedupe_error, DedupeWindow) result" where
  "newDedupeWindow capacity =
     (if capacity < 1 then Inl (InvalidDedupeWindowCapacityError capacity)
      else Inr \<lparr>win_capacity = capacity, win_seen = []\<rparr>)"

definition win_size :: "DedupeWindow \<Rightarrow> nat" where
  "win_size w = length (win_seen w)"

definition win_record :: "string \<Rightarrow> DedupeTransport list \<Rightarrow> DedupeWindow \<Rightarrow> DedupeWindow" where
  "win_record key transports w =
     (let seen = map_set key transports (win_seen w)
      in w\<lparr>win_seen :=
           (if int (length seen) > win_capacity w
            then case seen of [] \<Rightarrow> seen | (oldest, _) # _ \<Rightarrow> map_del oldest seen
            else seen)\<rparr>)"

definition seenBefore :: "string \<Rightarrow> DedupeWindow \<Rightarrow> bool \<times> DedupeWindow" where
  "seenBefore key w =
     (case map_get (win_seen w) key of
        Some _ \<Rightarrow> (True, w)
      | None \<Rightarrow> (False, win_record key [] w))"

definition seenFrom :: "string \<Rightarrow> DedupeTransport \<Rightarrow> DedupeWindow \<Rightarrow> bool \<times> DedupeWindow" where
  "seenFrom key transport w =
     (case map_get (win_seen w) key of
        None \<Rightarrow> (False, win_record key [transport] w)
      | Some transports \<Rightarrow>
          if transport \<in> set transports then (False, w)
          else (True, w\<lparr>win_seen := map_set key (transports @ [transport]) (win_seen w)\<rparr>))"

text \<open>A stream of observations: the delivered ones, in order, and the window after them.\<close>

type_synonym observation = "string \<times> DedupeTransport"

fun observe :: "observation list \<Rightarrow> DedupeWindow \<Rightarrow> observation list \<times> DedupeWindow" where
  "observe [] w = ([], w)"
| "observe ((k, t) # os) w =
     (let (dup, w1) = seenFrom k t w; (ds, w2) = observe os w1
      in (if dup then ds else (k, t) # ds, w2))"

abbreviation delivered :: "observation list \<Rightarrow> DedupeWindow \<Rightarrow> observation list" where
  "delivered os w \<equiv> fst (observe os w)"

definition win_inv :: "DedupeWindow \<Rightarrow> bool" where
  "win_inv w \<longleftrightarrow> 1 \<le> win_capacity w \<and> map_wf (win_seen w) \<and> int (win_size w) \<le> win_capacity w"

section \<open>Keys\<close>

lemma colon_split:
  "xs @ CHR '':'' # s = ys @ CHR '':'' # t \<Longrightarrow> CHR '':'' \<notin> set xs \<Longrightarrow> CHR '':'' \<notin> set ys \<Longrightarrow> xs = ys \<and> s = t"
proof (induction xs arbitrary: ys)
  case Nil
  then show ?case by (cases ys) auto
next
  case (Cons x xs)
  then obtain y ys' where "ys = y # ys'" by (cases ys) auto
  with Cons show ?case by auto
qed

lemma deriveDedupeKey_inj:
  "CHR '':'' \<notin> set (ref_txHash r) \<Longrightarrow> CHR '':'' \<notin> set (ref_txHash r') \<Longrightarrow>
   deriveDedupeKey r = deriveDedupeKey r' \<longleftrightarrow> ref_txHash r = ref_txHash r' \<and> ref_index r = ref_index r'"
  using colon_split [of "ref_txHash r" "ref_index r" "ref_txHash r'" "ref_index r'"] by (auto simp: deriveDedupeKey_def)

section \<open>The window stays bounded\<close>

lemma map_del_hd: "map_wf ((k, v) # m) \<Longrightarrow> map_del k ((k, v) # m) = m"
  by (force simp: map_wf_def AList.delete_eq filter_id_conv)

lemma map_set_new: "map_get m k = None \<Longrightarrow> map_set k v m = m @ [(k, v)]"
  by (induction m) (auto split: if_splits)

lemma map_wf_snoc: "map_wf m \<Longrightarrow> map_get m k = None \<Longrightarrow> map_wf (m @ [(k, v)])"
  by (auto simp: map_wf_def map_of_eq_None_iff)

lemma map_wf_tl: "map_wf m \<Longrightarrow> map_wf (tl m)"
  by (cases m) (auto simp: map_wf_def)

lemma map_get_tl_None: "map_get m k = None \<Longrightarrow> map_get (tl m) k = None"
  by (cases m) (auto split: if_splits)

text \<open>Recording a new key appends it and drops the oldest when the window is full.\<close>

lemma win_record_new:
  assumes "win_inv w" "map_get (win_seen w) key = None"
  shows "win_seen (win_record key ts w) =
           (if int (win_size w) = win_capacity w then tl (win_seen w) @ [(key, ts)] else win_seen w @ [(key, ts)])"
proof -
  have seen: "map_set key ts (win_seen w) = win_seen w @ [(key, ts)]" using assms by (simp only: map_set_new)
  have wf: "map_wf (win_seen w @ [(key, ts)])" using assms by (intro map_wf_snoc) (simp_all add: win_inv_def)
  show ?thesis
  proof (cases "win_seen w")
    case Nil
    with assms show ?thesis by (simp add: win_record_def win_inv_def win_size_def)
  next
    case (Cons e m)
    obtain k0 v0 where e: "e = (k0, v0)" by (cases e)
    have "map_del k0 (win_seen w @ [(key, ts)]) = m @ [(key, ts)]"
      using map_del_hd [of k0 v0 "m @ [(key, ts)]"] wf Cons e by simp
    then show ?thesis
      using assms(1) Cons e unfolding win_record_def seen by (simp add: win_inv_def win_size_def Let_def)
  qed
qed

lemma win_record_capacity [simp]: "win_capacity (win_record key ts w) = win_capacity w"
  by (simp add: win_record_def Let_def)

lemma win_inv_record:
  assumes "win_inv w" "map_get (win_seen w) key = None"
  shows "win_inv (win_record key ts w)"
proof -
  have "map_wf (tl (win_seen w) @ [(key, ts)])" "map_wf (win_seen w @ [(key, ts)])"
    using assms by (auto simp: win_inv_def intro!: map_wf_snoc map_wf_tl map_get_tl_None)
  moreover have "length (tl (win_seen w) @ [(key, ts)]) \<le> Suc (length (win_seen w) - 1)" by simp
  ultimately show ?thesis
    using assms by (auto simp: win_inv_def win_size_def win_record_new)
qed

lemma win_inv_update:
  "win_inv w \<Longrightarrow> map_get (win_seen w) key = Some ts \<Longrightarrow> win_inv (w\<lparr>win_seen := map_set key ts' (win_seen w)\<rparr>)"
  by (simp add: win_inv_def win_size_def length_map_set)

lemma win_inv_seenFrom: "win_inv w \<Longrightarrow> win_inv (snd (seenFrom key t w))"
  by (auto simp: seenFrom_def win_inv_record win_inv_update split: option.splits)

lemma win_inv_seenBefore: "win_inv w \<Longrightarrow> win_inv (snd (seenBefore key w))"
  by (auto simp: seenBefore_def win_inv_record split: option.splits)

lemma observe_snd: "snd (observe os w) = fold (\<lambda>(k, t) w. snd (seenFrom k t w)) os w"
  by (induction os arbitrary: w) (auto simp: Let_def case_prod_beta)

lemma win_inv_observe: "win_inv w \<Longrightarrow> win_inv (snd (observe os w))"
  unfolding observe_snd by (induction os arbitrary: w) (auto simp: win_inv_seenFrom)

lemma seenFrom_capacity [simp]: "win_capacity (snd (seenFrom k t w)) = win_capacity w"
  by (simp add: seenFrom_def split: option.splits)

section \<open>Exactly the cross-transport duplicate is dropped\<close>

text \<open>Room for every key of the stream: then nothing is evicted.\<close>

definition win_room :: "observation list \<Rightarrow> DedupeWindow \<Rightarrow> bool" where
  "win_room os w \<longleftrightarrow> win_inv w \<and> int (card (fst ` set (win_seen w) \<union> fst ` set os)) \<le> win_capacity w"

lemma card_keys: "map_wf m \<Longrightarrow> card (fst ` set m) = length m"
  unfolding map_wf_def using distinct_card [of "map fst m"] by simp

lemma room_record:
  assumes "win_room ((k, t) # os) w" "map_get (win_seen w) k = None"
  shows "win_seen (win_record k ts w) = win_seen w @ [(k, ts)]"
proof -
  from assms have inv: "win_inv w" and wf: "map_wf (win_seen w)" by (auto simp: win_room_def win_inv_def)
  have "k \<notin> fst ` set (win_seen w)" using assms(2) by (simp add: map_of_eq_None_iff)
  then have "card (insert k (fst ` set (win_seen w))) = Suc (length (win_seen w))" by (simp add: card_keys [OF wf])
  moreover have "card (insert k (fst ` set (win_seen w))) \<le> card (fst ` set (win_seen w) \<union> fst ` set ((k, t) # os))"
    by (intro card_mono) auto
  ultimately have "int (win_size w) \<noteq> win_capacity w" using assms(1) by (auto simp: win_room_def win_size_def)
  with win_record_new [OF inv assms(2)] show ?thesis by simp
qed

lemma seenFrom_seen:
  assumes "win_room ((k, t) # os) w"
  shows "map_get (win_seen (snd (seenFrom k t w))) k' =
           (if k' = k then (case map_get (win_seen w) k of
                              None \<Rightarrow> Some [t]
                            | Some ts \<Rightarrow> Some (if t \<in> set ts then ts else ts @ [t]))
            else map_get (win_seen w) k')"
  using room_record [OF assms] by (auto simp: seenFrom_def map_add_def split: option.splits)

lemma seenFrom_keys:
  assumes "win_room ((k, t) # os) w"
  shows "fst ` set (win_seen (snd (seenFrom k t w))) = insert k (fst ` set (win_seen w))"
  using room_record [OF assms] map_get_mem [of "win_seen w" k]
  by (force simp: seenFrom_def keys_set split: option.splits)

lemma room_step: "win_room ((k, t) # os) w \<Longrightarrow> win_room os (snd (seenFrom k t w))"
  using seenFrom_keys [of k t os w] by (simp add: win_room_def win_inv_seenFrom)

abbreviation of_key :: "string \<Rightarrow> observation list \<Rightarrow> nat" where
  "of_key k os \<equiv> length (filter (\<lambda>p. fst p = k) os)"

lemma transport_cases:
  fixes t :: DedupeTransport
  shows "ts \<noteq> [] \<Longrightarrow> t \<notin> set ts \<Longrightarrow> t' \<in> set (ts @ [t])"
  by (cases ts; cases "hd ts"; cases t; cases t') auto

lemma delivered_Cons:
  "delivered ((k, t) # os) w =
     (if fst (seenFrom k t w) then [] else [(k, t)]) @ delivered os (snd (seenFrom k t w))"
  by (simp add: Let_def case_prod_beta)

lemma delivered_known:
  "win_room os w \<Longrightarrow> map_get (win_seen w) k = Some ts \<Longrightarrow> ts \<noteq> [] \<Longrightarrow>
   of_key k os = of_key k (delivered os w) + (if \<exists>t. (k, t) \<in> set os \<and> t \<notin> set ts then 1 else 0)"
proof (induction os arbitrary: w ts)
  case (Cons p os)
  obtain k' t where p: "p = (k', t)" by (cases p)
  let ?w = "snd (seenFrom k' t w)"
  have room: "win_room os ?w" using Cons.prems(1) p by (simp add: room_step)
  have seen: "map_get (win_seen ?w) k = Some (if k' = k \<and> t \<notin> set ts then ts @ [t] else ts)"
    using seenFrom_seen [of k' t os w k] Cons.prems p by auto
  have fst: "k' = k \<Longrightarrow> fst (seenFrom k' t w) \<longleftrightarrow> t \<notin> set ts"
    using Cons.prems by (auto simp: seenFrom_def)
  show ?case
  proof (cases "k' = k \<and> t \<notin> set ts")
    case True
    then have "of_key k os = of_key k (delivered os ?w) + (if \<exists>t'. (k, t') \<in> set os \<and> t' \<notin> set (ts @ [t]) then 1 else 0)"
      using Cons.IH [OF room seen] by simp
    then show ?thesis
      using True transport_cases [OF Cons.prems(3), of t] fst unfolding p delivered_Cons by auto
  next
    case False
    then show ?thesis
      using Cons.IH [OF room seen] Cons.prems(3) fst unfolding p delivered_Cons by auto
  qed
qed simp

lemma delivered_fresh:
  "win_room os w \<Longrightarrow> map_get (win_seen w) k = None \<Longrightarrow>
   of_key k os = of_key k (delivered os w) + (if (k, Horizon) \<in> set os \<and> (k, Unified) \<in> set os then 1 else 0)"
proof (induction os arbitrary: w)
  case (Cons p os)
  obtain k' t where p: "p = (k', t)" by (cases p)
  let ?w = "snd (seenFrom k' t w)"
  have room: "win_room os ?w" using Cons.prems(1) p by (simp add: room_step)
  have seen: "map_get (win_seen ?w) k = (if k' = k then Some [t] else None)"
    using seenFrom_seen [of k' t os w k] Cons.prems p by auto
  show ?case
  proof (cases "k' = k")
    case True
    have "\<not> fst (seenFrom k t w)" using Cons.prems(2) by (simp add: seenFrom_def)
    then show ?thesis
      using delivered_known [OF room, of k "[t]"] seen True unfolding p delivered_Cons
      by (cases t) (auto, (metis DedupeTransport.exhaust)+)
  next
    case False
    with Cons.IH [OF room] seen show ?thesis unfolding p delivered_Cons by auto
  qed
qed simp

lemma newDedupeWindow_room:
  "newDedupeWindow capacity = Inr w \<Longrightarrow> int (card (fst ` set os)) \<le> capacity \<Longrightarrow>
   win_room os w \<and> win_seen w = [] \<and> win_capacity w = capacity"
  by (auto simp: newDedupeWindow_def win_room_def win_inv_def win_size_def split: if_splits)

lemma newDedupeWindow_inv: "newDedupeWindow capacity = Inr w \<Longrightarrow> win_inv w \<and> win_capacity w = capacity"
  by (auto simp: newDedupeWindow_def win_inv_def win_size_def split: if_splits)

lemma observe_capacity: "win_capacity (snd (observe os w)) = win_capacity w"
  unfolding observe_snd by (induction os arbitrary: w) auto

text \<open>
  in every interleaving of the two transports whose operations fit in the window, an operation
  seen on both transports has exactly one observation suppressed, an operation seen on one transport
  has none: with \<open>N\<close> unified events and one Horizon record the watcher gets \<open>N\<close> events, whichever
  transport came first.
\<close>

theorem dedupe_exact:
  assumes "newDedupeWindow capacity = Inr w" "int (card (fst ` set os)) \<le> capacity"
  shows "of_key k os = of_key k (delivered os w) + (if (k, Horizon) \<in> set os \<and> (k, Unified) \<in> set os then 1 else 0)"
  using newDedupeWindow_room [OF assms] by (simp add: delivered_fresh)

theorem dedupe_exact_witness:
  "of_key ''a'' [(''a'', Unified), (''b'', Horizon), (''a'', Horizon), (''a'', Unified)] =
   of_key ''a'' (delivered [(''a'', Unified), (''b'', Horizon), (''a'', Horizon), (''a'', Unified)]
     \<lparr>win_capacity = 2, win_seen = []\<rparr>) + 1"
proof -
  let ?os = "[(''a'', Unified), (''b'', Horizon), (''a'', Horizon), (''a'', Unified)]"
  have "fst ` set ?os = {''a'', ''b''}" by auto
  then have "card (fst ` set ?os) = 2" by simp
  then show ?thesis
    using dedupe_exact [of 2 "\<lparr>win_capacity = 2, win_seen = []\<rparr>" ?os "''a''"] by (simp add: newDedupeWindow_def)
qed

text \<open>
  the window never holds more keys than its capacity, whatever is observed; when it is full, a
  new key evicts the one that was added first and no other.
\<close>

theorem dedupe_bounded:
  assumes "newDedupeWindow capacity = Inr w0" and w: "w = snd (observe os w0)"
  shows "int (win_size w) \<le> capacity \<and>
         (int (win_size w) = capacity \<longrightarrow> map_get (win_seen w) k = None \<longrightarrow>
            seenFrom k t w = (False, w\<lparr>win_seen := tl (win_seen w) @ [(k, [t])]\<rparr>))"
proof -
  have inv: "win_inv w" "win_capacity w = capacity"
    using newDedupeWindow_inv [OF assms(1)] unfolding w by (simp_all add: win_inv_observe observe_capacity)
  moreover have "win_record k [t] w = w\<lparr>win_seen := win_seen (win_record k [t] w)\<rparr>"
    by (simp add: win_record_def Let_def)
  ultimately show ?thesis
    using win_record_new [OF inv(1), of k "[t]"] by (auto simp: seenFrom_def win_inv_def)
qed

theorem dedupe_bounded_witness:
  "win_size (snd (observe [(''a'', Unified), (''b'', Horizon)] \<lparr>win_capacity = 1, win_seen = []\<rparr>)) \<le> 1"
  using dedupe_bounded [of 1 "\<lparr>win_capacity = 1, win_seen = []\<rparr>" _ "[(''a'', Unified), (''b'', Horizon)]"]
  by (simp add: newDedupeWindow_def)

end
