(* ===== verification/Event_Engine.thy ===== *)
theory Event_Engine
  imports Event_Normalize Dedupe Contract_Filters "HOL-Library.Char_ord" "HOL-Library.List_Lexorder"
begin

text \<open>
  The state of one single-network \<open>EventEngine\<close> (\<^verbatim>\<open>packages/pulse-core/src/EventEngine.ts\<close>), the watchers it hands
  out (\<^verbatim>\<open>Watcher.ts\<close>) and the three subscription registries with their reference counts.

  Watchers are shared mutable objects: \<open>en_watchers\<close> is the heap of all watchers ever created and a
  registry holds indices into it. The stop handler of a watcher is a closure over the registry entry it
  clears; it is represented by the constructor that names that entry. \<open>en_emitted\<close> records every call of
  \<open>super.emit\<close>, in order, with the watcher, the event type and the event. The logger, the subscription
  options' pass-through to other networks and the listeners behind \<open>super.emit\<close> are not part of the state.
\<close>

section \<open>State\<close>

datatype source = SHorizon | SSoroban

datatype stop_handler = HAddress string | HContract string | HConfig string

record event_watcher =
  w_address :: string
  w_stopped :: bool
  w_stopHandlers :: "stop_handler list"

type_synonym event_filter = "js_value \<Rightarrow> (unit, bool) result"

record sub_filter =
  cf_type :: "string option"
  cf_contractIds :: "string list option"
  cf_topicFilters :: "string option list option"

record ContractFilter =
  rf_type :: "string option"
  rf_contractIds :: "string list option"
  rf_topics :: "string list list option"

datatype queue_policy = PolicyPause | DropOldest | DropNewest

type_synonym queued_event = "js_value \<times> (string \<times> DedupeTransport) option"

type_synonym emission = "nat \<times> string \<times> js_value"

record engine =
  en_watchers :: "event_watcher list"
  en_registry :: "(string, nat) js_map"
  en_contractRegistry :: "(string, nat \<times> sub_filter list) js_map"
  en_contractConfigRegistry :: "(string, nat) js_map"
  en_refCounts :: "(string, int) js_map"
  en_subscriptionNames :: "(string, string) js_map"
  en_filters :: "(string, event_filter) js_map"
  en_emitted :: "emission list"
  en_isRunning :: bool
  en_sorobanSubscriber :: "bool option"
  en_pausedSources :: "source list"
  en_dedupeWindow :: DedupeWindow
  en_abiRegistry :: bool
  en_pendingSpecs :: "js_value list"
  en_eventQueue :: "queued_event list"
  en_queueHighWaterMark :: int
  en_queueLowWaterMark :: int
  en_queuePolicy :: queue_policy
  en_inBackpressure :: bool
  en_wePausedSources :: bool
  en_processingQueue :: bool

section \<open>Watcher\<close>

definition new_watcher :: "string \<Rightarrow> event_watcher" where
  "new_watcher address = \<lparr>w_address = address, w_stopped = False, w_stopHandlers = []\<rparr>"

definition watcher_emit :: "nat \<Rightarrow> string \<Rightarrow> js_value \<Rightarrow> engine \<Rightarrow> engine" where
  "watcher_emit w eventType event e =
     (if w_stopped (en_watchers e ! w) then e else e\<lparr>en_emitted := en_emitted e @ [(w, eventType, event)]\<rparr>)"

definition refKey_address :: "string \<Rightarrow> string" where "refKey_address a = ''addr:'' @ a"
definition refKey_contract :: "string \<Rightarrow> string" where "refKey_contract c = ''contract:'' @ c"
definition refKey_config :: "string \<Rightarrow> string" where "refKey_config k = ''config:'' @ k"

text \<open>The stop handlers that \<open>subscribe\<close> and the two forms of \<open>subscribeContract\<close> register.\<close>

fun run_stop_handler :: "stop_handler \<Rightarrow> engine \<Rightarrow> engine" where
  "run_stop_handler (HAddress a) e =
     e\<lparr>en_registry := map_del a (en_registry e),
       en_refCounts := map_del (refKey_address a) (en_refCounts e),
       en_filters := map_del a (en_filters e),
       en_subscriptionNames := map_del a (en_subscriptionNames e)\<rparr>"
| "run_stop_handler (HContract c) e =
     (let e = e\<lparr>en_contractRegistry := map_del c (en_contractRegistry e),
                en_refCounts := map_del (refKey_contract c) (en_refCounts e),
                en_subscriptionNames := map_del c (en_subscriptionNames e),
                en_filters := map_del c (en_filters e)\<rparr>
      in if en_contractRegistry e = [] \<and> en_sorobanSubscriber e \<noteq> None
         then e\<lparr>en_sorobanSubscriber := Some False\<rparr> else e)"
| "run_stop_handler (HConfig k) e =
     e\<lparr>en_contractConfigRegistry := map_del k (en_contractConfigRegistry e),
       en_refCounts := map_del (refKey_config k) (en_refCounts e)\<rparr>"

definition addStopHandler :: "nat \<Rightarrow> stop_handler \<Rightarrow> engine \<Rightarrow> engine" where
  "addStopHandler w h e =
     (if w_stopped (en_watchers e ! w) then run_stop_handler h e
      else e\<lparr>en_watchers := (en_watchers e)[w := (en_watchers e ! w)\<lparr>w_stopHandlers := w_stopHandlers (en_watchers e ! w) @ [h]\<rparr>]\<rparr>)"

definition watcher_stop :: "nat \<Rightarrow> engine \<Rightarrow> engine" where
  "watcher_stop w e =
     (let x = en_watchers e ! w
      in if w_stopped x then e
         else fold run_stop_handler (w_stopHandlers x)
           (e\<lparr>en_watchers := (en_watchers e)[w := x\<lparr>w_stopped := True, w_stopHandlers := []\<rparr>]\<rparr>))"

section \<open>Reference counts\<close>

definition retain :: "string \<Rightarrow> engine \<Rightarrow> engine" where
  "retain key e =
     e\<lparr>en_refCounts := map_set key ((case map_get (en_refCounts e) key of Some n \<Rightarrow> n | None \<Rightarrow> 0) + 1) (en_refCounts e)\<rparr>"

definition release :: "string \<Rightarrow> engine \<Rightarrow> bool \<times> engine" where
  "release key e =
     (case map_get (en_refCounts e) key of
        None \<Rightarrow> (True, e)
      | Some n \<Rightarrow>
          if n \<le> 1 then (True, e\<lparr>en_refCounts := map_del key (en_refCounts e)\<rparr>)
          else (False, e\<lparr>en_refCounts := map_set key (n - 1) (en_refCounts e)\<rparr>))"

section \<open>Subscriptions\<close>

record SubscribeOptions =
  so_filter :: "event_filter option"
  so_name :: "string option"

definition set_opt :: "string \<Rightarrow> 'v option \<Rightarrow> (string, 'v) js_map \<Rightarrow> (string, 'v) js_map" where
  "set_opt k v m = (case v of Some x \<Rightarrow> map_set k x m | None \<Rightarrow> m)"

definition alloc_watcher :: "string \<Rightarrow> engine \<Rightarrow> nat \<times> engine" where
  "alloc_watcher address e = (length (en_watchers e), e\<lparr>en_watchers := en_watchers e @ [new_watcher address]\<rparr>)"

definition subscribe :: "string \<Rightarrow> SubscribeOptions \<Rightarrow> engine \<Rightarrow> nat \<times> engine" where
  "subscribe address options e =
     (case map_get (en_registry e) address of
        Some w \<Rightarrow> (w, retain (refKey_address address) e)
      | None \<Rightarrow>
          (let (w, e) = alloc_watcher address e;
               e = retain (refKey_address address) e;
               e = e\<lparr>en_subscriptionNames := set_opt address (so_name options) (en_subscriptionNames e)\<rparr>;
               e = e\<lparr>en_filters := set_opt address (so_filter options) (en_filters e)\<rparr>;
               e = addStopHandler w (HAddress address) e
           in (w, e\<lparr>en_registry := map_set address w (en_registry e)\<rparr>)))"

definition unsubscribe :: "string \<Rightarrow> engine \<Rightarrow> engine" where
  "unsubscribe address e =
     (case map_get (en_registry e) address of
        None \<Rightarrow> e
      | Some w \<Rightarrow> (let (last, e) = release (refKey_address address) e in if last then watcher_stop w e else e))"

definition unsubscribeAll :: "engine \<Rightarrow> engine" where
  "unsubscribeAll e = fold (\<lambda>(_, w). watcher_stop w) (en_registry e) e"

definition config_filter_value :: "ContractFilter \<Rightarrow> js_value" where
  "config_filter_value f =
     JObj [(''type'', case rf_type f of Some t \<Rightarrow> JStr t | None \<Rightarrow> JUndefined),
           (''contractIds'', case rf_contractIds f of Some cs \<Rightarrow> JArr (map JStr cs) | None \<Rightarrow> JUndefined),
           (''topics'', case rf_topics f of Some ts \<Rightarrow> JArr (map (\<lambda>t. JArr (map JStr t)) ts) | None \<Rightarrow> JUndefined)]"

text \<open>\<open>sort()\<close> without a comparator orders strings by their code units.\<close>

definition stableFilterKey :: "ContractFilter list \<Rightarrow> string" where
  "stableFilterKey filters =
     json_stringify (JArr (map (\<lambda>f. config_filter_value (f\<lparr>rf_contractIds := map_option sort (rf_contractIds f)\<rparr>)) filters))"

datatype subscribe_error = InvalidContractSubscriptionConfig "filter_error list"

definition subscribeConfig :: "ContractFilter list \<Rightarrow> engine \<Rightarrow> (subscribe_error, nat \<times> engine) result" where
  "subscribeConfig filters e =
     (case validateContractFilters (JArr (map config_filter_value filters)) of
        Some errors \<Rightarrow> Inl (InvalidContractSubscriptionConfig errors)
      | None \<Rightarrow>
          (let key = stableFilterKey filters
           in case map_get (en_contractConfigRegistry e) key of
                Some w \<Rightarrow> Inr (w, retain (refKey_config key) e)
              | None \<Rightarrow>
                  (let (w, e) = alloc_watcher key e;
                       e = retain (refKey_config key) e;
                       e = addStopHandler w (HConfig key) e
                   in Inr (w, e\<lparr>en_contractConfigRegistry := map_set key w (en_contractConfigRegistry e)\<rparr>))))"

definition subscribeContract :: "string \<Rightarrow> sub_filter list \<Rightarrow> SubscribeOptions \<Rightarrow> engine \<Rightarrow> nat \<times> engine" where
  "subscribeContract cid filters options e =
     (case map_get (en_contractRegistry e) cid of
        Some (w, _) \<Rightarrow> (w, retain (refKey_contract cid) e)
      | None \<Rightarrow>
          (let (w, e) = alloc_watcher cid e;
               e = retain (refKey_contract cid) e;
               e = e\<lparr>en_subscriptionNames := set_opt cid (so_name options) (en_subscriptionNames e)\<rparr>;
               e = e\<lparr>en_filters := set_opt cid (so_filter options) (en_filters e)\<rparr>;
               e = addStopHandler w (HContract cid) e;
               e = e\<lparr>en_contractRegistry := map_set cid (w, filters) (en_contractRegistry e)\<rparr>
           in (w, if en_isRunning e \<and> en_sorobanSubscriber e \<noteq> None then e\<lparr>en_sorobanSubscriber := Some True\<rparr> else e)))"

definition unsubscribeContract :: "string \<Rightarrow> engine \<Rightarrow> engine" where
  "unsubscribeContract cid e =
     (case map_get (en_contractRegistry e) cid of
        None \<Rightarrow> e
      | Some (w, _) \<Rightarrow> (let (last, e) = release (refKey_contract cid) e in if last then watcher_stop w e else e))"

definition unsubscribeConfig :: "ContractFilter list \<Rightarrow> engine \<Rightarrow> engine" where
  "unsubscribeConfig filters e =
     (let key = stableFilterKey filters
      in case map_get (en_contractConfigRegistry e) key of
           None \<Rightarrow> e
         | Some w \<Rightarrow> (let (last, e) = release (refKey_config key) e in if last then watcher_stop w e else e))"

definition notification :: "string \<Rightarrow> int \<Rightarrow> (string \<times> js_value) list \<Rightarrow> js_value" where
  "notification t attempt fs = JObj ([(''type'', JStr t), (''attempt'', JNum attempt)] @ fs)"

definition with_name :: "string option \<Rightarrow> js_value \<Rightarrow> js_value" where
  "with_name name v = (case (name, v) of (Some n, JObj fs) \<Rightarrow> JObj (map_set ''name'' (JStr n) fs) | _ \<Rightarrow> v)"

text \<open>
  A \<open>Map\<close> may lose entries while it is iterated: the loop over \<open>contractRegistry\<close> visits each entry once,
  its watcher's stop handler deletes only that entry. \<open>now\<close> is the time of the call.
\<close>

definition unsubscribeAllContracts :: "string \<Rightarrow> engine \<Rightarrow> engine" where
  "unsubscribeAllContracts now e =
     (let e1 = fold (\<lambda>(cid, w, _) e.
              watcher_stop w (watcher_emit w ''engine.stopped''
                (with_name (map_get (en_subscriptionNames e) cid) (notification ''engine.stopped'' 0 [(''emittedAt'', JStr now)])) e))
            (en_contractRegistry e) e
      in fold (\<lambda>(_, w) e. watcher_stop w (watcher_emit w ''engine.stopped''
            (notification ''engine.stopped'' 0 [(''emittedAt'', JStr now)]) e))
           (en_contractConfigRegistry e1) e1)"

definition notifyWatchers :: "string \<Rightarrow> js_value \<Rightarrow> engine \<Rightarrow> engine" where
  "notifyWatchers eventType event e =
     (let e1 = fold (\<lambda>(a, w) e. watcher_emit w eventType (with_name (map_get (en_subscriptionNames e) a) event) e) (en_registry e) e
      in fold (\<lambda>(cid, w, _) e. watcher_emit w eventType (with_name (map_get (en_subscriptionNames e) cid) event) e)
           (en_contractRegistry e1) e1)"

section \<open>One key space for the three registries\<close>

datatype sub_key = KAddr string | KContract string | KConfig string

fun sub_ref :: "sub_key \<Rightarrow> string" where
  "sub_ref (KAddr a) = refKey_address a"
| "sub_ref (KContract c) = refKey_contract c"
| "sub_ref (KConfig f) = refKey_config f"

fun sub_handler :: "sub_key \<Rightarrow> stop_handler" where
  "sub_handler (KAddr a) = HAddress a"
| "sub_handler (KContract c) = HContract c"
| "sub_handler (KConfig f) = HConfig f"

fun sub_watcher :: "engine \<Rightarrow> sub_key \<Rightarrow> nat option" where
  "sub_watcher e (KAddr a) = map_get (en_registry e) a"
| "sub_watcher e (KContract c) = map_option fst (map_get (en_contractRegistry e) c)"
| "sub_watcher e (KConfig f) = map_get (en_contractConfigRegistry e) f"

definition sub_count :: "engine \<Rightarrow> sub_key \<Rightarrow> int option" where
  "sub_count e k = map_get (en_refCounts e) (sub_ref k)"

lemma sub_ref_inj [simp]: "sub_ref k = sub_ref k' \<longleftrightarrow> k = k'"
  by (cases k; cases k') (auto simp: refKey_address_def refKey_contract_def refKey_config_def)

text \<open>
  The registry invariant, on the watchers, the registries and the counts: a registered watcher is live and clears
  exactly its own entry when it stops, an entry has a positive count, and a live watcher is registered.
\<close>

definition reg_inv :: "event_watcher list \<Rightarrow> (sub_key \<Rightarrow> nat option) \<Rightarrow> (sub_key \<Rightarrow> int option) \<Rightarrow> bool" where
  "reg_inv ws S R \<longleftrightarrow>
     (\<forall>k w. S k = Some w \<longrightarrow> w < length ws \<and> \<not> w_stopped (ws ! w) \<and> w_stopHandlers (ws ! w) = [sub_handler k]) \<and>
     (\<forall>k. S k = None \<longleftrightarrow> R k = None) \<and> (\<forall>k n. R k = Some n \<longrightarrow> 1 \<le> n) \<and>
     (\<forall>w < length ws. \<not> w_stopped (ws ! w) \<longrightarrow> (\<exists>k. S k = Some w))"

definition eng_inv :: "engine \<Rightarrow> bool" where
  "eng_inv e \<longleftrightarrow> reg_inv (en_watchers e) (sub_watcher e) (sub_count e) \<and>
     map_wf (en_registry e) \<and> map_wf (en_contractRegistry e) \<and> map_wf (en_contractConfigRegistry e)"

abbreviation reg_wf :: "engine \<Rightarrow> bool" where
  "reg_wf e \<equiv> map_wf (en_registry e) \<and> map_wf (en_contractRegistry e) \<and> map_wf (en_contractConfigRegistry e)"

lemma sub_handler_inj: "sub_handler k = sub_handler k' \<longleftrightarrow> k = k'"
  by (cases k; cases k') auto

lemma reg_invD:
  assumes "reg_inv ws S R"
  shows "S k = Some w \<Longrightarrow> w < length ws" "S k = Some w \<Longrightarrow> \<not> w_stopped (ws ! w)"
    "S k = Some w \<Longrightarrow> w_stopHandlers (ws ! w) = [sub_handler k]" "S k = None \<longleftrightarrow> R k = None"
    "R k = Some n \<Longrightarrow> 1 \<le> n" "w < length ws \<Longrightarrow> \<not> w_stopped (ws ! w) \<Longrightarrow> \<exists>k. S k = Some w"
  using assms unfolding reg_inv_def by blast+

lemma reg_invI:
  assumes "\<And>k w. S k = Some w \<Longrightarrow> w < length ws \<and> \<not> w_stopped (ws ! w) \<and> w_stopHandlers (ws ! w) = [sub_handler k]"
    and "\<And>k. S k = None \<longleftrightarrow> R k = None" and "\<And>k n. R k = Some n \<Longrightarrow> 1 \<le> n"
    and "\<And>w. w < length ws \<Longrightarrow> \<not> w_stopped (ws ! w) \<Longrightarrow> \<exists>k. S k = Some w"
  shows "reg_inv ws S R"
  using assms unfolding reg_inv_def by blast

lemma reg_inv_unique: "reg_inv ws S R \<Longrightarrow> S k = Some w \<Longrightarrow> S k' = Some w \<Longrightarrow> k' = k"
  using reg_invD(3) [of ws S R k w] reg_invD(3) [of ws S R k' w] by (simp add: sub_handler_inj)

lemma reg_inv_new:
  assumes "reg_inv ws S R" "S k = None" "\<not> w_stopped x" "w_stopHandlers x = [sub_handler k]"
  shows "reg_inv (ws @ [x]) (S(k \<mapsto> length ws)) (R(k \<mapsto> 1))"
proof (rule reg_invI)
  fix w assume "w < length (ws @ [x])" "\<not> w_stopped ((ws @ [x]) ! w)"
  then show "\<exists>k'. (S(k \<mapsto> length ws)) k' = Some w"
    using reg_invD(6) [OF assms(1), of w] assms(2) by (cases "w < length ws") (auto simp: nth_append, metis option.distinct(1))
next
  fix k' w assume "(S(k \<mapsto> length ws)) k' = Some w"
  then show "w < length (ws @ [x]) \<and> \<not> w_stopped ((ws @ [x]) ! w) \<and> w_stopHandlers ((ws @ [x]) ! w) = [sub_handler k']"
    using reg_invD(1-3) [OF assms(1), of k' w] assms(3,4) by (auto simp: nth_append split: if_splits)
qed (use reg_invD(4,5) [OF assms(1)] in \<open>auto split: if_splits\<close>)

lemma reg_inv_count:
  "reg_inv ws S R \<Longrightarrow> S k \<noteq> None \<Longrightarrow> 1 \<le> n \<Longrightarrow> reg_inv ws S (R(k \<mapsto> n))"
  unfolding reg_inv_def by auto

lemma reg_inv_stop:
  assumes inv: "reg_inv ws S R" and k: "S k = Some w" and x: "w_stopped x"
  shows "reg_inv (ws[w := x]) (S(k := None)) (R(k := None))"
proof (rule reg_invI)
  fix k' v assume "(S(k := None)) k' = Some v"
  then have "S k' = Some v" "k' \<noteq> k" by (auto split: if_splits)
  moreover from this have "v \<noteq> w" using reg_inv_unique [OF inv k, of k'] by auto
  ultimately show "v < length (ws[w := x]) \<and> \<not> w_stopped (ws[w := x] ! v) \<and> w_stopHandlers (ws[w := x] ! v) = [sub_handler k']"
    using reg_invD(1-3) [OF inv, of k' v] by simp
next
  fix v assume v: "v < length (ws[w := x])" "\<not> w_stopped (ws[w := x] ! v)"
  then have "v \<noteq> w" using x by auto
  with v obtain k' where "S k' = Some v" using reg_invD(6) [OF inv, of v] by auto
  with \<open>v \<noteq> w\<close> k have "(S(k := None)) k' = Some v" by auto
  then show "\<exists>k'. (S(k := None)) k' = Some v" ..
qed (use reg_invD(4,5) [OF inv] in \<open>auto split: if_splits\<close>)

section \<open>What each operation does to the registries\<close>

lemma emit_view [simp]:
  "en_watchers (watcher_emit w t v e) = en_watchers e" "sub_watcher (watcher_emit w t v e) = sub_watcher e"
  "sub_count (watcher_emit w t v e) = sub_count e" "eng_inv (watcher_emit w t v e) = eng_inv e"
proof -
  have "sub_watcher (watcher_emit w t v e) k = sub_watcher e k" for k by (cases k) (simp_all add: watcher_emit_def)
  then show s: "sub_watcher (watcher_emit w t v e) = sub_watcher e" by blast
  show c: "sub_count (watcher_emit w t v e) = sub_count e" by (simp add: fun_eq_iff sub_count_def watcher_emit_def)
  show ws: "en_watchers (watcher_emit w t v e) = en_watchers e" by (simp add: watcher_emit_def)
  show "eng_inv (watcher_emit w t v e) = eng_inv e" unfolding eng_inv_def s c ws by (simp add: watcher_emit_def)
qed

lemma handler_view:
  "en_watchers (run_stop_handler (sub_handler k) e) = en_watchers e"
  "sub_watcher (run_stop_handler (sub_handler k) e) = (sub_watcher e)(k := None)"
  "sub_count (run_stop_handler (sub_handler k) e) = (sub_count e)(k := None)"
  "reg_wf e \<Longrightarrow> reg_wf (run_stop_handler (sub_handler k) e)"
proof -
  have c: "en_contractRegistry (run_stop_handler (HContract c) e) = map_del c (en_contractRegistry e)" for c
    by (simp add: Let_def)
  have f: "en_registry (run_stop_handler (HContract c) e) = en_registry e"
    "en_contractConfigRegistry (run_stop_handler (HContract c) e) = en_contractConfigRegistry e" for c
    by (simp_all add: Let_def)
  have "sub_watcher (run_stop_handler (sub_handler k) e) k' = ((sub_watcher e)(k := None)) k'" for k'
    by (cases k; cases k') (simp_all add: c f del: run_stop_handler.simps(2))
  then show "sub_watcher (run_stop_handler (sub_handler k) e) = (sub_watcher e)(k := None)" by blast
  have "en_refCounts (run_stop_handler (sub_handler k) e) = map_del (sub_ref k) (en_refCounts e)"
    by (cases k) (simp_all add: Let_def)
  then show "sub_count (run_stop_handler (sub_handler k) e) = (sub_count e)(k := None)"
    by (simp add: fun_eq_iff sub_count_def)
qed (cases k; simp add: Let_def)+

lemma watcher_stop_view:
  assumes "eng_inv e" "sub_watcher e k = Some w"
  shows "sub_watcher (watcher_stop w e) = (sub_watcher e)(k := None)"
    "sub_count (watcher_stop w e) = (sub_count e)(k := None)" "eng_inv (watcher_stop w e)"
proof -
  let ?x = "(en_watchers e ! w)\<lparr>w_stopped := True, w_stopHandlers := []\<rparr>"
  let ?e = "e\<lparr>en_watchers := (en_watchers e)[w := ?x]\<rparr>"
  have "\<not> w_stopped (en_watchers e ! w)" "w_stopHandlers (en_watchers e ! w) = [sub_handler k]"
    using assms by (auto simp: eng_inv_def reg_inv_def)
  then have stop: "watcher_stop w e = run_stop_handler (sub_handler k) ?e" by (simp add: watcher_stop_def)
  have "sub_watcher ?e k' = sub_watcher e k'" for k' by (cases k') simp_all
  then have same: "sub_watcher ?e = sub_watcher e" "sub_count ?e = sub_count e" by (auto simp: fun_eq_iff sub_count_def)
  show S: "sub_watcher (watcher_stop w e) = (sub_watcher e)(k := None)"
    and R: "sub_count (watcher_stop w e) = (sub_count e)(k := None)"
    unfolding stop by (simp_all add: handler_view same)
  have "reg_inv ((en_watchers e)[w := ?x]) ((sub_watcher e)(k := None)) ((sub_count e)(k := None))"
    using assms by (intro reg_inv_stop) (simp_all add: eng_inv_def)
  moreover have "en_watchers (watcher_stop w e) = (en_watchers e)[w := ?x]" unfolding stop by (simp add: handler_view)
  moreover have "reg_wf (watcher_stop w e)" unfolding stop using assms(1) handler_view(4) [of ?e k] by (simp add: eng_inv_def)
  ultimately show "eng_inv (watcher_stop w e)" by (simp add: eng_inv_def S R)
qed

lemma retain_view:
  "en_watchers (retain (sub_ref k) e) = en_watchers e" "sub_watcher (retain (sub_ref k) e) = sub_watcher e"
  "sub_count (retain (sub_ref k) e) = (sub_count e)(k \<mapsto> (case sub_count e k of Some n \<Rightarrow> n | None \<Rightarrow> 0) + 1)"
  "reg_wf (retain (sub_ref k) e) = reg_wf e"
proof -
  have "sub_watcher (retain (sub_ref k) e) k' = sub_watcher e k'" for k' by (cases k') (simp_all add: retain_def)
  then show "sub_watcher (retain (sub_ref k) e) = sub_watcher e" by blast
qed (simp_all add: retain_def sub_count_def fun_eq_iff)

text \<open>How many callers hold a subscription.\<close>

definition holders :: "engine \<Rightarrow> sub_key \<Rightarrow> nat" where
  "holders e k = (case sub_count e k of Some n \<Rightarrow> nat n | None \<Rightarrow> 0)"

lemma retain_holds:
  assumes "eng_inv e" "sub_watcher e k = Some w"
  shows "eng_inv (retain (sub_ref k) e)" "holders (retain (sub_ref k) e) = (holders e)(k := Suc (holders e k))"
proof -
  obtain n where n: "sub_count e k = Some n" "1 \<le> n"
    using assms reg_invD(4,5) [of "en_watchers e" "sub_watcher e" "sub_count e" k] by (cases "sub_count e k") (auto simp: eng_inv_def)
  then show "holders (retain (sub_ref k) e) = (holders e)(k := Suc (holders e k))"
    by (auto simp: holders_def fun_eq_iff retain_view)
  have "reg_inv (en_watchers e) (sub_watcher e) ((sub_count e)(k \<mapsto> n + 1))"
    using assms n by (intro reg_inv_count) (auto simp: eng_inv_def)
  with assms n show "eng_inv (retain (sub_ref k) e)" unfolding eng_inv_def retain_view by simp
qed

text \<open>A new watcher is registered with one holder.\<close>

lemma fresh_holds:
  assumes inv: "eng_inv e" and k: "sub_watcher e k = None"
    and ws: "en_watchers e' = en_watchers e @ [\<lparr>w_address = ad, w_stopped = False, w_stopHandlers = [sub_handler k]\<rparr>]" and S: "sub_watcher e' = (sub_watcher e)(k \<mapsto> length (en_watchers e))"
    and R: "sub_count e' = (sub_count e)(k \<mapsto> 1)" and wf: "reg_wf e'"
  shows "eng_inv e'" "holders e' = (holders e)(k := Suc (holders e k))"
proof -
  have "sub_count e k = None" using inv k reg_invD(4) [of "en_watchers e" "sub_watcher e" "sub_count e" k] by (simp add: eng_inv_def)
  then show "holders e' = (holders e)(k := Suc (holders e k))" by (simp add: holders_def fun_eq_iff R)
  have "reg_inv (en_watchers e') ((sub_watcher e)(k \<mapsto> length (en_watchers e))) ((sub_count e)(k \<mapsto> 1))"
    unfolding ws using inv k by (intro reg_inv_new) (auto simp: eng_inv_def)
  with wf show "eng_inv e'" by (simp add: eng_inv_def S R)
qed

lemma fresh_count: "eng_inv e \<Longrightarrow> sub_watcher e k = None \<Longrightarrow> map_get (en_refCounts e) (sub_ref k) = None"
  using reg_invD(4) [of "en_watchers e" "sub_watcher e" "sub_count e" k] by (simp add: eng_inv_def sub_count_def)

lemma sub_count_set:
  "sub_count e' = (sub_count e)(k \<mapsto> n)" if "en_refCounts e' = map_set (sub_ref k) n (en_refCounts e)"
  using that by (simp add: fun_eq_iff sub_count_def)

lemmas new_sub_defs = alloc_watcher_def retain_def addStopHandler_def new_watcher_def Let_def

lemma subscribe_holds:
  assumes "eng_inv e"
  shows "eng_inv (snd (subscribe a opts e)) \<and> holders (snd (subscribe a opts e)) = (holders e)(KAddr a := Suc (holders e (KAddr a)))"
proof (cases "map_get (en_registry e) a")
  case (Some w)
  with retain_holds [OF assms, of "KAddr a" w] show ?thesis by (simp add: subscribe_def)
next
  case None
  let ?e = "snd (subscribe a opts e)"
  have r: "map_get (en_refCounts e) (refKey_address a) = None" using fresh_count [OF assms, of "KAddr a"] None by simp
  have "sub_watcher ?e k = ((sub_watcher e)(KAddr a \<mapsto> length (en_watchers e))) k" for k
    using None by (cases k) (simp_all add: subscribe_def new_sub_defs)
  then have S: "sub_watcher ?e = (sub_watcher e)(KAddr a \<mapsto> length (en_watchers e))" by blast
  have R: "sub_count ?e = (sub_count e)(KAddr a \<mapsto> 1)"
    using None r by (intro sub_count_set) (simp add: subscribe_def new_sub_defs)
  have ws: "en_watchers ?e = en_watchers e @ [\<lparr>w_address = a, w_stopped = False, w_stopHandlers = [sub_handler (KAddr a)]\<rparr>]" and wf: "reg_wf ?e"
    using None assms by (simp_all add: subscribe_def new_sub_defs eng_inv_def)
  from fresh_holds [OF assms _ ws S R wf] None show ?thesis by simp
qed

lemma subscribeContract_holds:
  assumes "eng_inv e"
  shows "eng_inv (snd (subscribeContract c fs opts e)) \<and>
         holders (snd (subscribeContract c fs opts e)) = (holders e)(KContract c := Suc (holders e (KContract c)))"
proof (cases "map_get (en_contractRegistry e) c")
  case (Some wf)
  with retain_holds [OF assms, of "KContract c" "fst wf"] show ?thesis by (simp add: subscribeContract_def split_beta)
next
  case None
  let ?e = "snd (subscribeContract c fs opts e)"
  have r: "map_get (en_refCounts e) (refKey_contract c) = None" using fresh_count [OF assms, of "KContract c"] None by simp
  have "sub_watcher ?e k = ((sub_watcher e)(KContract c \<mapsto> length (en_watchers e))) k" for k
    using None by (cases k) (simp_all add: subscribeContract_def new_sub_defs)
  then have S: "sub_watcher ?e = (sub_watcher e)(KContract c \<mapsto> length (en_watchers e))" by blast
  have R: "sub_count ?e = (sub_count e)(KContract c \<mapsto> 1)"
    using None r by (intro sub_count_set) (simp add: subscribeContract_def new_sub_defs)
  have ws: "en_watchers ?e = en_watchers e @ [\<lparr>w_address = c, w_stopped = False, w_stopHandlers = [sub_handler (KContract c)]\<rparr>]" and wf: "reg_wf ?e"
    using None assms by (simp_all add: subscribeContract_def new_sub_defs eng_inv_def)
  from fresh_holds [OF assms _ ws S R wf] None show ?thesis by simp
qed

lemma subscribeConfig_holds:
  assumes "eng_inv e" "subscribeConfig fs e = Inr (w', e')"
  defines "key \<equiv> stableFilterKey fs"
  shows "eng_inv e' \<and> holders e' = (holders e)(KConfig key := Suc (holders e (KConfig key)))"
proof (cases "map_get (en_contractConfigRegistry e) key")
  case (Some w)
  with retain_holds [OF assms(1), of "KConfig key" w] assms(2) show ?thesis
    by (auto simp: subscribeConfig_def key_def Let_def split: option.splits)
next
  case None
  have r: "map_get (en_refCounts e) (refKey_config key) = None" using fresh_count [OF assms(1), of "KConfig key"] None by simp
  have e': "e' = e\<lparr>en_watchers := en_watchers e @ [\<lparr>w_address = key, w_stopped = False, w_stopHandlers = [HConfig key]\<rparr>],
      en_refCounts := map_set (refKey_config key) 1 (en_refCounts e),
      en_contractConfigRegistry := map_set key (length (en_watchers e)) (en_contractConfigRegistry e)\<rparr>"
    using assms(2) None r by (auto simp: subscribeConfig_def key_def new_sub_defs split: option.splits)
  have "sub_watcher e' k = ((sub_watcher e)(KConfig key \<mapsto> length (en_watchers e))) k" for k
    by (cases k) (simp_all add: e')
  then have S: "sub_watcher e' = (sub_watcher e)(KConfig key \<mapsto> length (en_watchers e))" by blast
  have R: "sub_count e' = (sub_count e)(KConfig key \<mapsto> 1)" by (intro sub_count_set) (simp add: e')
  have ws: "en_watchers e' = en_watchers e @ [\<lparr>w_address = key, w_stopped = False, w_stopHandlers = [sub_handler (KConfig key)]\<rparr>]" and wf: "reg_wf e'"
    using assms(1) by (simp_all add: e' eng_inv_def)
  from fresh_holds [OF assms(1) _ ws S R wf] None show ?thesis by simp
qed

lemma handler_after_release:
  "run_stop_handler (sub_handler k) (e\<lparr>en_refCounts := map_del (sub_ref k) (en_refCounts e)\<rparr>) = run_stop_handler (sub_handler k) e"
  by (cases k) (simp_all add: Let_def delete_idem)

lemma upd_swap: "(e :: engine)\<lparr>en_refCounts := r, en_watchers := ws\<rparr> = e\<lparr>en_watchers := ws, en_refCounts := r\<rparr>"
  by (cases e) simp

definition unsub :: "sub_key \<Rightarrow> nat \<Rightarrow> engine \<Rightarrow> engine" where
  "unsub k w e = (let (last, e) = release (sub_ref k) e in if last then watcher_stop w e else e)"

lemma stop_holds:
  assumes "eng_inv e" "sub_watcher e k = Some w"
  shows "eng_inv (watcher_stop w e)" "holders (watcher_stop w e) = (holders e)(k := 0)"
  using watcher_stop_view [OF assms] by (simp_all add: holders_def fun_eq_iff)

text \<open>Releasing stops the watcher exactly when the caller was its last holder.\<close>

lemma unsub_holds:
  assumes inv: "eng_inv e" and w: "sub_watcher e k = Some w"
  shows "eng_inv (unsub k w e)" "holders (unsub k w e) = (holders e)(k := holders e k - 1)"
    "w_stopped (en_watchers (unsub k w e) ! w) \<longleftrightarrow> holders e k = 1"
proof -
  note R = inv [unfolded eng_inv_def, THEN conjunct1]
  obtain n where n: "sub_count e k = Some n" "1 \<le> n"
    using w reg_invD(4,5) [OF R, of k] by (cases "sub_count e k") auto
  have h: "holders e k = nat n" using n by (simp add: holders_def)
  have live: "\<not> w_stopped (en_watchers e ! w)" "w < length (en_watchers e)" "w_stopHandlers (en_watchers e ! w) = [sub_handler k]"
    using reg_invD(1-3) [OF R w] by auto
  show "eng_inv (unsub k w e)" "holders (unsub k w e) = (holders e)(k := holders e k - 1)"
    "w_stopped (en_watchers (unsub k w e) ! w) \<longleftrightarrow> holders e k = 1"
  proof (atomize (full), cases "n = 1")
    case True
    let ?x = "(en_watchers e ! w)\<lparr>w_stopped := True, w_stopHandlers := []\<rparr>"
    have "unsub k w e = watcher_stop w (e\<lparr>en_refCounts := map_del (sub_ref k) (en_refCounts e)\<rparr>)"
      using n True by (simp add: unsub_def release_def sub_count_def)
    also have "\<dots> = watcher_stop w e"
      using live handler_after_release [of k "e\<lparr>en_watchers := (en_watchers e)[w := ?x]\<rparr>"] by (simp add: watcher_stop_def upd_swap)
    finally have u: "unsub k w e = watcher_stop w e" .
    have "w_stopped (en_watchers (watcher_stop w e) ! w)"
      using live by (simp add: watcher_stop_def handler_view)
    with stop_holds [OF inv w] True h show "eng_inv (unsub k w e) \<and> holders (unsub k w e) = (holders e)(k := holders e k - 1) \<and>
        w_stopped (en_watchers (unsub k w e) ! w) = (holders e k = 1)" by (simp add: u)
  next
    case False
    let ?e = "e\<lparr>en_refCounts := map_set (sub_ref k) (n - 1) (en_refCounts e)\<rparr>"
    have u: "unsub k w e = ?e" using n False by (simp add: unsub_def release_def sub_count_def)
    have "sub_watcher ?e k' = sub_watcher e k'" for k' by (cases k') simp_all
    then have S: "sub_watcher ?e = sub_watcher e" by blast
    have C: "sub_count ?e = (sub_count e)(k \<mapsto> n - 1)" by (rule sub_count_set) simp
    have "reg_inv (en_watchers e) (sub_watcher e) ((sub_count e)(k \<mapsto> n - 1))"
      using R w n False by (intro reg_inv_count) auto
    with inv have "eng_inv ?e" by (simp add: eng_inv_def S C)
    moreover have "holders ?e = (holders e)(k := holders e k - 1)" using n h by (auto simp: holders_def C fun_eq_iff)
    ultimately show "eng_inv (unsub k w e) \<and> holders (unsub k w e) = (holders e)(k := holders e k - 1) \<and>
        w_stopped (en_watchers (unsub k w e) ! w) = (holders e k = 1)" using False n h live by (simp add: u)
  qed
qed

lemma holders_none:
  assumes "eng_inv e"
  shows "holders e k = 0 \<longleftrightarrow> sub_watcher e k = None"
proof -
  note R = assms [unfolded eng_inv_def, THEN conjunct1]
  show ?thesis using reg_invD(4) [OF R, of k] reg_invD(5) [OF R, of k] by (cases "sub_count e k") (auto simp: holders_def)
qed

lemma unsubscribe_unsub:
  "unsubscribe a e = (case sub_watcher e (KAddr a) of None \<Rightarrow> e | Some w \<Rightarrow> unsub (KAddr a) w e)"
  "unsubscribeContract c e = (case sub_watcher e (KContract c) of None \<Rightarrow> e | Some w \<Rightarrow> unsub (KContract c) w e)"
  "unsubscribeConfig fs e =
     (case sub_watcher e (KConfig (stableFilterKey fs)) of None \<Rightarrow> e | Some w \<Rightarrow> unsub (KConfig (stableFilterKey fs)) w e)"
  by (simp_all add: unsubscribe_def unsubscribeContract_def unsubscribeConfig_def unsub_def Let_def split: option.splits prod.splits)

lemma release_case:
  assumes "eng_inv e"
  shows "eng_inv (case sub_watcher e k of None \<Rightarrow> e | Some w \<Rightarrow> unsub k w e) \<and>
    holders (case sub_watcher e k of None \<Rightarrow> e | Some w \<Rightarrow> unsub k w e) = (holders e)(k := holders e k - 1)"
proof (cases "sub_watcher e k")
  case None
  with holders_none [OF assms, of k] have "(holders e)(k := holders e k - 1) = holders e" by (auto simp: fun_eq_iff)
  with None assms show ?thesis by simp
next
  case (Some w)
  with unsub_holds [OF assms, of k w] show ?thesis by simp
qed

text \<open>Tearing down a list of registered watchers, with emissions in between.\<close>

lemma stop_all_holds:
  assumes "\<And>k w e. eng_inv (f k w e) = eng_inv e" "\<And>k w e. sub_watcher (f k w e) = sub_watcher e" "\<And>k w e. sub_count (f k w e) = sub_count e"
  shows "eng_inv e \<Longrightarrow> distinct (map fst ps) \<Longrightarrow> \<forall>(k, w) \<in> set ps. sub_watcher e k = Some w \<Longrightarrow>
    eng_inv (fold (\<lambda>(k, w) e. watcher_stop w (f k w e)) ps e) \<and>
    holders (fold (\<lambda>(k, w) e. watcher_stop w (f k w e)) ps e) = (\<lambda>k. if k \<in> fst ` set ps then 0 else holders e k) \<and>
    (\<forall>k. k \<notin> fst ` set ps \<longrightarrow> sub_watcher (fold (\<lambda>(k, w) e. watcher_stop w (f k w e)) ps e) k = sub_watcher e k)"
proof (induction ps arbitrary: e)
  case (Cons p ps)
  obtain k w where p: "p = (k, w)" by (cases p)
  let ?e = "watcher_stop w (f k w e)"
  have hyp: "eng_inv (f k w e)" "sub_watcher (f k w e) k = Some w" using Cons.prems p assms by auto
  note v = watcher_stop_view [OF hyp]
  have h: "holders ?e = (holders e)(k := 0)" by (simp add: holders_def fun_eq_iff v assms)
  have "\<forall>(k', w') \<in> set ps. sub_watcher ?e k' = Some w'"
    using Cons.prems p by (force simp: v assms image_iff)
  with Cons.IH [OF v(3)] Cons.prems p show ?case
    by (auto simp: h v assms fun_eq_iff)
qed simp

lemma unsubscribeAll_holds:
  assumes "eng_inv e"
  shows "eng_inv (unsubscribeAll e) \<and>
         holders (unsubscribeAll e) = (\<lambda>k. case k of KAddr _ \<Rightarrow> 0 | _ \<Rightarrow> holders e k)"
proof -
  let ?ps = "map (\<lambda>(a, w). (KAddr a, w)) (en_registry e)"
  have wf: "distinct (map fst (en_registry e))" using assms by (simp add: eng_inv_def map_wf_def)
  then have d: "distinct (map fst ?ps)" by (simp add: case_prod_beta comp_def distinct_map inj_on_def)
  have r: "\<forall>(k, w) \<in> set ?ps. sub_watcher e k = Some w" using wf by auto
  have f: "unsubscribeAll e = fold (\<lambda>(k, w) e. watcher_stop w e) ?ps e"
    by (simp add: unsubscribeAll_def fold_map comp_def case_prod_unfold)
  have "k \<in> fst ` set ?ps \<longleftrightarrow> (\<exists>a. k = KAddr a \<and> sub_watcher e (KAddr a) \<noteq> None)" for k
    using wf by (force simp: map_of_eq_None_iff)
  then have k: "(if k \<in> fst ` set ?ps then 0 else holders e k) = (case k of KAddr _ \<Rightarrow> 0 | _ \<Rightarrow> holders e k)" for k
    using holders_none [OF assms, of k] by (cases k) auto
  show ?thesis
    using stop_all_holds [of "\<lambda>_ _ e. e", OF refl refl refl assms d r] unfolding f by (simp only: k)
qed

lemma unsubscribeAllContracts_holds:
  assumes inv: "eng_inv e"
  shows "eng_inv (unsubscribeAllContracts now e) \<and>
         holders (unsubscribeAllContracts now e) = (\<lambda>k. case k of KAddr _ \<Rightarrow> holders e k | _ \<Rightarrow> 0)"
proof -
  define f where "f = (\<lambda>k w e. watcher_emit w ''engine.stopped''
     (case k of KContract c \<Rightarrow> with_name (map_get (en_subscriptionNames e) c) (notification ''engine.stopped'' 0 [(''emittedAt'', JStr now)])
      | _ \<Rightarrow> notification ''engine.stopped'' 0 [(''emittedAt'', JStr now)]) e)"
  let ?stop = "\<lambda>ps. fold (\<lambda>(k, w) e. watcher_stop w (f k w e)) ps"
  have f: "eng_inv (f k w e) = eng_inv e" "sub_watcher (f k w e) = sub_watcher e" "sub_count (f k w e) = sub_count e" for k w e
    by (simp_all add: f_def)
  let ?ps = "map (\<lambda>(c, w, _). (KContract c, w)) (en_contractRegistry e)"
  have wf: "distinct (map fst (en_contractRegistry e))" using inv by (simp add: eng_inv_def map_wf_def)
  then have d: "distinct (map fst ?ps)" by (simp add: case_prod_beta comp_def distinct_map inj_on_def)
  have r: "\<forall>(k, w) \<in> set ?ps. sub_watcher e k = Some w" using wf by auto
  define e1 where "e1 = ?stop ?ps e"
  have s1: "eng_inv e1" "holders e1 = (\<lambda>k. if k \<in> fst ` set ?ps then 0 else holders e k)"
    using stop_all_holds [OF f inv d r] by (auto simp: e1_def)
  let ?qs = "map (\<lambda>(c, w). (KConfig c, w)) (en_contractConfigRegistry e1)"
  have wf1: "distinct (map fst (en_contractConfigRegistry e1))" using s1 by (simp add: eng_inv_def map_wf_def)
  then have d1: "distinct (map fst ?qs)" by (simp add: case_prod_beta comp_def distinct_map inj_on_def)
  have r1: "\<forall>(k, w) \<in> set ?qs. sub_watcher e1 k = Some w" using wf1 by auto
  have u: "unsubscribeAllContracts now e = ?stop ?qs e1"
    by (simp add: unsubscribeAllContracts_def e1_def f_def fold_map comp_def case_prod_unfold Let_def)
  have k1: "k \<in> fst ` set ?ps \<longleftrightarrow> (\<exists>c. k = KContract c \<and> sub_watcher e (KContract c) \<noteq> None)" for k
    using wf by (force simp: map_of_eq_None_iff)
  have k2: "k \<in> fst ` set ?qs \<longleftrightarrow> (\<exists>c. k = KConfig c \<and> sub_watcher e1 (KConfig c) \<noteq> None)" for k
    using wf1 by (force simp: map_of_eq_None_iff)
  have "(if k \<in> fst ` set ?qs then 0 else holders e1 k) = (case k of KAddr _ \<Rightarrow> holders e k | _ \<Rightarrow> 0)" for k
    using holders_none [OF inv, of k] holders_none [OF s1(1), of k] k1 [of k] k2 [of k] s1(2) by (cases k) auto
  then show ?thesis using stop_all_holds [OF f s1(1) d1 r1] unfolding u by (simp only: fun_eq_iff) simp
qed

section \<open>Refinement of the holder counts\<close>

text \<open>Any sequence of calls, including a holder stopping its watcher directly.\<close>

datatype sub_op =
    OSubscribe string SubscribeOptions
  | OUnsubscribe string
  | OUnsubscribeAll
  | OSubscribeContract string "sub_filter list" SubscribeOptions
  | OUnsubscribeContract string
  | OSubscribeConfig "ContractFilter list"
  | OUnsubscribeConfig "ContractFilter list"
  | OUnsubscribeAllContracts string
  | OStop sub_key

fun sub_step :: "sub_op \<Rightarrow> engine \<Rightarrow> engine" where
  "sub_step (OSubscribe a opts) e = snd (subscribe a opts e)"
| "sub_step (OUnsubscribe a) e = unsubscribe a e"
| "sub_step OUnsubscribeAll e = unsubscribeAll e"
| "sub_step (OSubscribeContract c fs opts) e = snd (subscribeContract c fs opts e)"
| "sub_step (OUnsubscribeContract c) e = unsubscribeContract c e"
| "sub_step (OSubscribeConfig fs) e = (case subscribeConfig fs e of Inl _ \<Rightarrow> e | Inr (_, e') \<Rightarrow> e')"
| "sub_step (OUnsubscribeConfig fs) e = unsubscribeConfig fs e"
| "sub_step (OUnsubscribeAllContracts now) e = unsubscribeAllContracts now e"
| "sub_step (OStop k) e = (case sub_watcher e k of None \<Rightarrow> e | Some w \<Rightarrow> watcher_stop w e)"

text \<open>The specification: a number of holders per subscription.\<close>

fun sub_spec :: "sub_op \<Rightarrow> (sub_key \<Rightarrow> nat) \<Rightarrow> (sub_key \<Rightarrow> nat)" where
  "sub_spec (OSubscribe a _) h = h(KAddr a := Suc (h (KAddr a)))"
| "sub_spec (OUnsubscribe a) h = h(KAddr a := h (KAddr a) - 1)"
| "sub_spec OUnsubscribeAll h = (\<lambda>k. case k of KAddr _ \<Rightarrow> 0 | _ \<Rightarrow> h k)"
| "sub_spec (OSubscribeContract c _ _) h = h(KContract c := Suc (h (KContract c)))"
| "sub_spec (OUnsubscribeContract c) h = h(KContract c := h (KContract c) - 1)"
| "sub_spec (OSubscribeConfig fs) h =
     (if validateContractFilters (JArr (map config_filter_value fs)) = None
      then h(KConfig (stableFilterKey fs) := Suc (h (KConfig (stableFilterKey fs)))) else h)"
| "sub_spec (OUnsubscribeConfig fs) h = h(KConfig (stableFilterKey fs) := h (KConfig (stableFilterKey fs)) - 1)"
| "sub_spec (OUnsubscribeAllContracts _) h = (\<lambda>k. case k of KAddr _ \<Rightarrow> h k | _ \<Rightarrow> 0)"
| "sub_spec (OStop k) h = h(k := 0)"

lemma subscribeConfig_valid:
  "(\<exists>w e'. subscribeConfig fs e = Inr (w, e')) \<longleftrightarrow> validateContractFilters (JArr (map config_filter_value fs)) = None"
  by (auto simp: subscribeConfig_def Let_def case_prod_beta split: option.splits)

lemma sub_step_refines:
  assumes "eng_inv e"
  shows "eng_inv (sub_step op e) \<and> holders (sub_step op e) = sub_spec op (holders e)"
proof (cases op)
  case (OSubscribeConfig fs)
  show ?thesis
  proof (cases "subscribeConfig fs e")
    case (Inl err)
    with subscribeConfig_valid [of fs e] assms OSubscribeConfig show ?thesis by auto
  next
    case (Inr we)
    obtain w e' where we: "we = (w, e')" by (cases we)
    have "validateContractFilters (JArr (map config_filter_value fs)) = None" using subscribeConfig_valid [of fs e] Inr we by blast
    with subscribeConfig_holds [OF assms, of fs w e'] Inr we OSubscribeConfig show ?thesis by simp
  qed
next
  case (OStop k)
  have "sub_watcher e k = None \<Longrightarrow> (holders e)(k := 0) = holders e" using holders_none [OF assms, of k] by auto
  with OStop stop_holds [OF assms, of k] assms show ?thesis by (auto split: option.splits)
qed (use assms subscribe_holds subscribeContract_holds unsubscribeAll_holds unsubscribeAllContracts_holds release_case
    in \<open>simp_all add: unsubscribe_unsub del: sub_watcher.simps\<close>)

definition sub_fresh :: "engine \<Rightarrow> bool" where
  "sub_fresh e \<longleftrightarrow> en_watchers e = [] \<and> en_registry e = [] \<and> en_contractRegistry e = [] \<and>
     en_contractConfigRegistry e = [] \<and> en_refCounts e = []"

lemma sub_fresh_inv: "sub_fresh e \<Longrightarrow> eng_inv e \<and> holders e = (\<lambda>_. 0)"
proof -
  assume f: "sub_fresh e"
  then have "sub_watcher e k = None" for k by (cases k) (simp_all add: sub_fresh_def)
  moreover from f have "sub_count e k = None" for k by (simp add: sub_fresh_def sub_count_def)
  ultimately show ?thesis using f by (auto simp: eng_inv_def reg_inv_def holders_def sub_fresh_def)
qed

lemma sub_run_refines:
  "eng_inv e \<Longrightarrow> eng_inv (fold sub_step ops e) \<and> holders (fold sub_step ops e) = fold sub_spec ops (holders e)"
proof (induction ops arbitrary: e)
  case (Cons op ops)
  with sub_step_refines [of e op] Cons.IH [of "sub_step op e"] show ?case by simp
qed simp

text \<open>
  C6: reference counting is right. After any sequence of subscribe, unsubscribe, teardown and direct
  stop calls, over all three kinds of subscription, the count of each subscription is the number of
  its holders, a subscription is registered exactly while somebody holds it, and the live watchers are exactly
  the registered ones.
\<close>

theorem subscriptions_refine:
  assumes "sub_fresh e0" and e: "e = fold sub_step ops e0"
  shows "holders e k = fold sub_spec ops (\<lambda>_. 0) k \<and>
         (sub_watcher e k \<noteq> None \<longleftrightarrow> 0 < fold sub_spec ops (\<lambda>_. 0) k) \<and>
         (w < length (en_watchers e) \<longrightarrow> (\<not> w_stopped (en_watchers e ! w) \<longleftrightarrow> (\<exists>k'. sub_watcher e k' = Some w)))"
proof -
  have inv: "eng_inv e" "holders e = fold sub_spec ops (\<lambda>_. 0)"
    using sub_run_refines [of e0 ops] sub_fresh_inv [OF assms(1)] e by auto
  note R = inv(1) [unfolded eng_inv_def, THEN conjunct1]
  show ?thesis
    using inv holders_none [OF inv(1), of k] reg_invD(2) [OF R] reg_invD(6) [OF R] by auto
qed

definition no_options :: SubscribeOptions where
  "no_options = \<lparr>so_filter = None, so_name = None\<rparr>"

definition idle_engine :: engine where
  "idle_engine =
     \<lparr>en_watchers = [], en_registry = [], en_contractRegistry = [], en_contractConfigRegistry = [], en_refCounts = [],
      en_subscriptionNames = [], en_filters = [], en_emitted = [], en_isRunning = False, en_sorobanSubscriber = None,
      en_pausedSources = [], en_dedupeWindow = \<lparr>win_capacity = 1024, win_seen = []\<rparr>, en_abiRegistry = False,
      en_pendingSpecs = [], en_eventQueue = [], en_queueHighWaterMark = 10000, en_queueLowWaterMark = 5000,
      en_queuePolicy = PolicyPause, en_inBackpressure = False, en_wePausedSources = False, en_processingQueue = False\<rparr>"

theorem subscriptions_refine_witness:
  "holders (fold sub_step [OSubscribe ''G'' no_options, OSubscribe ''G'' no_options, OUnsubscribe ''G''] idle_engine) (KAddr ''G'') = 1"
  using subscriptions_refine [OF _ refl, of idle_engine "[OSubscribe ''G'' no_options, OSubscribe ''G'' no_options, OUnsubscribe ''G'']"
      "KAddr ''G''" 0]
  by (simp add: sub_fresh_def idle_engine_def)

text \<open>
  C7: one holder leaving never silences another. While a subscription has \<open>n > 1\<close> holders, releasing one leaves the shared
  watcher live and registered; the release of the last holder stops it.
\<close>

theorem release_stops_last:
  assumes "eng_inv e" "sub_watcher e (KAddr a) = Some w"
  shows "w_stopped (en_watchers (unsubscribe a e) ! w) \<longleftrightarrow> holders e (KAddr a) = 1"
  using unsub_holds(3) [OF assms] assms(2) unfolding unsubscribe_unsub by simp

theorem release_stops_last_witness:
  "w_stopped (en_watchers (unsubscribe ''G'' (snd (subscribe ''G'' no_options idle_engine))) ! 0)"
proof -
  have inv: "eng_inv idle_engine" "holders idle_engine (KAddr ''G'') = 0"
    using sub_fresh_inv [of idle_engine] by (simp_all add: sub_fresh_def idle_engine_def)
  have "sub_watcher (snd (subscribe ''G'' no_options idle_engine)) (KAddr ''G'') = Some 0"
    by (simp add: subscribe_def new_sub_defs idle_engine_def)
  with release_stops_last [of "snd (subscribe ''G'' no_options idle_engine)" "''G''" 0]
    subscribe_holds [OF inv(1), of "''G''" no_options] inv(2)
  show ?thesis by simp
qed

lemma sort_perm: "mset xs = mset ys \<Longrightarrow> sort xs = sort ys"
  by (metis properties_for_sort mset_sort sorted_sort)

text \<open>
  the key of a filter list ignores the order of the contract ids inside a filter and nothing else:
  the documented order independence does not extend to the order of the filters, so two configurations
  with the same filters in another order get different watchers.
\<close>

theorem filter_key_order:
  "(mset xs = mset ys \<longrightarrow>
     stableFilterKey (fs @ f\<lparr>rf_contractIds := Some xs\<rparr> # gs) = stableFilterKey (fs @ f\<lparr>rf_contractIds := Some ys\<rparr> # gs)) \<and>
   stableFilterKey [\<lparr>rf_type = Some ''contract'', rf_contractIds = None, rf_topics = None\<rparr>,
                    \<lparr>rf_type = Some ''system'', rf_contractIds = None, rf_topics = None\<rparr>] \<noteq>
   stableFilterKey [\<lparr>rf_type = Some ''system'', rf_contractIds = None, rf_topics = None\<rparr>,
                    \<lparr>rf_type = Some ''contract'', rf_contractIds = None, rf_topics = None\<rparr>]"
  using sort_perm [of xs ys]
  by (simp add: stableFilterKey_def config_filter_value_def json_string_def json_escape_char_def Let_def)

theorem filter_key_order_witness:
  "stableFilterKey [\<lparr>rf_type = None, rf_contractIds = Some [''B'', ''A''], rf_topics = None\<rparr>] =
   stableFilterKey [\<lparr>rf_type = None, rf_contractIds = Some [''A'', ''B''], rf_topics = None\<rparr>]"
  using filter_key_order [of "[''B'', ''A'']" "[''A'', ''B'']" "[]" "\<lparr>rf_type = None, rf_contractIds = None, rf_topics = None\<rparr>" "[]"]
  by simp

end
