(* ===== verification/Event_Routing.thy ===== *)
theory Event_Routing
  imports Event_Engine
begin

text \<open>
  Routing of normalised events to watchers: \<open>route\<close>, the contract dispatch and its filters, the ABI
  enrichment of \<open>contract.emitted\<close> events, Soroban events and the choice of the transport, all of
  \<^verbatim>\<open>packages/pulse-core/src/EventEngine.ts\<close>. An event travels with the dedupe key that the \<open>WeakMap\<close>
  \<open>dedupeKeyByEvent\<close> associates with it. A lookup of the ABI registry is pending in \<open>en_pendingSpecs\<close> until
  \<open>settleSpec\<close> is given its outcome; registry and decoder are outside this component.
\<close>

section \<open>Filters\<close>

definition passesFilter :: "string \<Rightarrow> js_value \<Rightarrow> engine \<Rightarrow> bool" where
  "passesFilter address event e =
     (case map_get (en_filters e) address of
        None \<Rightarrow> True
      | Some f \<Rightarrow> (case f event of Inr b \<Rightarrow> b | Inl _ \<Rightarrow> False))"

definition topic_at :: "js_value \<Rightarrow> nat \<Rightarrow> js_value" where
  "topic_at event i = (case js_field ''topics'' event of JArr ts \<Rightarrow> if i < length ts then ts ! i else JUndefined | _ \<Rightarrow> JUndefined)"

definition matches_topics :: "string option list \<Rightarrow> js_value \<Rightarrow> bool" where
  "matches_topics patterns event \<longleftrightarrow>
     list_all (\<lambda>(i, p). case p of None \<Rightarrow> True | Some t \<Rightarrow> topic_at event i = JStr t) (enumerate 0 patterns)"

definition matches_filter :: "js_value \<Rightarrow> sub_filter \<Rightarrow> bool" where
  "matches_filter event f =
     (if (case cf_type f of Some t \<Rightarrow> js_field ''type'' event \<noteq> JStr t | None \<Rightarrow> False) then False
      else if (case cf_contractIds f of Some cs \<Rightarrow> js_field ''contractId'' event \<notin> JStr ` set cs | None \<Rightarrow> False) then False
      else case cf_topicFilters f of
          None \<Rightarrow> True
        | Some patterns \<Rightarrow>
            if js_field ''type'' event = JStr ''contract.emitted'' then matches_topics patterns event else False)"

definition matchesContractFilters :: "js_value \<Rightarrow> sub_filter list \<Rightarrow> bool" where
  "matchesContractFilters event filters = (if filters = [] then True else list_ex (matches_filter event) filters)"

section \<open>Dispatch\<close>

definition emit_both :: "nat \<Rightarrow> js_value \<Rightarrow> engine \<Rightarrow> engine" where
  "emit_both w event e = watcher_emit w ''*'' event (watcher_emit w (js_String (js_field ''type'' event)) event e)"

definition dispatchContractEvent :: "js_value \<Rightarrow> engine \<Rightarrow> engine" where
  "dispatchContractEvent event e =
     fold (\<lambda>(cid, w, filters) e'.
         if matchesContractFilters event filters \<and> passesFilter cid event e' then emit_both w event e' else e')
       (en_contractRegistry e) e"

definition emitUnrecognizedOperationType :: "string \<Rightarrow> js_value \<Rightarrow> engine \<Rightarrow> engine" where
  "emitUnrecognizedOperationType operationType record e =
     (let n = JObj [(''type'', JStr ''engine.unrecognized_operation_type''), (''operationType'', JStr operationType), (''record'', record)];
          e1 = fold (\<lambda>(_, w). watcher_emit w ''engine.unrecognized_operation_type'' n) (en_registry e) e
      in fold (\<lambda>(_, w, _). watcher_emit w ''engine.unrecognized_operation_type'' n) (en_contractRegistry e1) e1)"

definition emitDecodeFailed :: "js_value \<Rightarrow> string \<Rightarrow> engine \<Rightarrow> engine" where
  "emitDecodeFailed event err e =
     (let n = JObj [(''type'', JStr ''event.decode_failed''), (''contractId'', js_field ''contractId'' event),
                    (''eventId'', js_field ''eventId'' event), (''error'', JStr err)]
      in fold (\<lambda>(cid, w, filters) e'.
            if matchesContractFilters event filters \<and> passesFilter cid event e'
            then watcher_emit w ''event.decode_failed'' n e' else e')
          (en_contractRegistry e) e)"

text \<open>A watcher found in \<open>registry\<close> under an address field, if its filter lets the event pass.\<close>

definition deliver :: "js_value \<Rightarrow> js_value \<Rightarrow> engine \<Rightarrow> engine" where
  "deliver address event e =
     (case address of
        JStr a \<Rightarrow>
          (case map_get (en_registry e) a of
             Some w \<Rightarrow> if passesFilter a event e then emit_both w event e else e
           | None \<Rightarrow> e)
      | _ \<Rightarrow> e)"

fun set_field :: "string \<Rightarrow> js_value \<Rightarrow> js_value \<Rightarrow> js_value" where
  "set_field k v (JObj fs) = JObj (map_set k v fs)"
| "set_field k v w = w"

definition withResolvedType :: "js_value \<Rightarrow> string \<Rightarrow> js_value" where
  "withResolvedType event t = set_field ''type'' (JStr t) event"

definition claimant_destinations :: "js_value \<Rightarrow> js_value list" where
  "claimant_destinations event =
     (case js_field ''claimants'' event of JArr cs \<Rightarrow> map (js_field ''destination'') cs | _ \<Rightarrow> [])"

text \<open>The loop over the claimants, with the set of destinations notified so far.\<close>

definition route_claimant :: "js_value \<Rightarrow> js_value \<Rightarrow> js_value list \<times> engine \<Rightarrow> js_value list \<times> engine" where
  "route_claimant event destination acc =
     (case acc of (notified, e) \<Rightarrow>
        case destination of
          JStr a \<Rightarrow>
            (case map_get (en_registry e) a of
               Some w \<Rightarrow>
                 if destination \<notin> set notified \<and> passesFilter a event e
                 then (notified @ [destination], emit_both w event e) else (notified, e)
             | None \<Rightarrow> (notified, e))
        | _ \<Rightarrow> (notified, e))"

definition is_contract_event :: "js_value \<Rightarrow> bool" where
  "is_contract_event event \<longleftrightarrow> js_field ''type'' event = JStr ''contract.invoked'' \<or> js_field ''type'' event = JStr ''contract.emitted''"

definition route_payment :: "js_value \<Rightarrow> engine \<Rightarrow> engine" where
  "route_payment event e =
     (let from = js_field ''from'' event; to = js_field ''to'' event
      in if from = to then deliver to (withResolvedType event ''payment.self'') e
         else deliver from (withResolvedType event ''payment.sent'')
                (deliver to (withResolvedType event ''payment.received'') e))"

definition route_classic :: "js_value \<Rightarrow> engine \<Rightarrow> engine" where
  "route_classic event e =
     (let t = js_field ''type'' event; f = (\<lambda>k. js_field k event)
      in if t = JStr ''account.created'' then
           (let e = deliver (f ''funder'') event e in if f ''account'' \<noteq> f ''funder'' then deliver (f ''account'') event e else e)
         else if t = JStr ''account.options_changed'' then deliver (f ''source'') event e
         else if t \<in> {JStr ''offer.created'', JStr ''offer.updated'', JStr ''offer.deleted''} then deliver (f ''source'') event e
         else if t \<in> {JStr ''trustline.added'', JStr ''trustline.removed'', JStr ''trustline.updated''} then deliver (f ''account'') event e
         else if t = JStr ''account.merged'' then deliver (f ''destination'') event (deliver (f ''source'') event e)
         else if t = JStr ''account.bump_sequence'' then deliver (f ''source'') event e
         else if t \<in> {JStr ''data.set'', JStr ''data.cleared''} then deliver (f ''source'') event e
         else if t = JStr ''claimable.created'' then
           (let (notified, e) = fold (route_claimant event) (claimant_destinations event) ([], e)
            in if f ''sponsor'' \<in> set notified then e else deliver (f ''sponsor'') event e)
         else if t = JStr ''claimable.claimed'' then deliver (f ''claimant'') event e
         else if t \<in> {JStr ''lp.deposited'', JStr ''lp.withdrawn''} then deliver (f ''source'') event e
         else if t \<in> {JStr ''trustline.authorized'', JStr ''trustline.deauthorized''} then
           (let e = deliver (f ''issuer'') event e in if f ''trustor'' \<noteq> f ''issuer'' then deliver (f ''trustor'') event e else e)
         else if t \<noteq> JStr ''unknown'' then e
         else route_payment event e)"

definition route_contract :: "js_value \<Rightarrow> engine \<Rightarrow> engine" where
  "route_contract event e =
     (if js_field ''type'' event = JStr ''contract.emitted'' \<and> en_abiRegistry e
      then e\<lparr>en_pendingSpecs := en_pendingSpecs e @ [event]\<rparr>
      else dispatchContractEvent event e)"

definition dedupe_check :: "(string \<times> DedupeTransport) option \<Rightarrow> engine \<Rightarrow> bool \<times> engine" where
  "dedupe_check tag e =
     (case tag of
        None \<Rightarrow> (False, e)
      | Some (key, transport) \<Rightarrow>
          (let (dup, w) = seenFrom key transport (en_dedupeWindow e) in (dup, e\<lparr>en_dedupeWindow := w\<rparr>)))"

definition route :: "queued_event \<Rightarrow> engine \<Rightarrow> engine" where
  "route q e =
     (case q of (event, tag) \<Rightarrow>
        let (dup, e) = dedupe_check tag e
        in if dup then e
           else if is_contract_event event \<and> SSoroban \<in> set (en_pausedSources e) then e
           else if \<not> is_contract_event event \<and> SHorizon \<in> set (en_pausedSources e) then e
           else if is_contract_event event then route_contract event e
           else route_classic event e)"

text \<open>The outcomes of a lookup: a decoded payload, a decoding error, no spec, or a rejected promise.\<close>

datatype spec_outcome = SpecDecoded js_value | SpecDecodeError string | SpecMissing | SpecRejected string

definition no_spec_message :: "js_value \<Rightarrow> string" where
  "no_spec_message event =
     ''No ABI spec found for contract '' @ js_String (js_field ''contractId'' event) @
     ''; publish an ABI spec through the registry or follow issue #8.1 for guidance.''"

definition settleSpec :: "nat \<Rightarrow> spec_outcome \<Rightarrow> engine \<Rightarrow> engine" where
  "settleSpec i outcome e =
     (if i < length (en_pendingSpecs e) then
        let event = en_pendingSpecs e ! i;
            e = e\<lparr>en_pendingSpecs := take i (en_pendingSpecs e) @ drop (Suc i) (en_pendingSpecs e)\<rparr>;
            plain = set_field ''decodedData'' JUndefined event
        in case outcome of
             SpecDecoded d \<Rightarrow> dispatchContractEvent (set_field ''decodedData'' d event) e
           | SpecDecodeError err \<Rightarrow> dispatchContractEvent plain (emitDecodeFailed plain err e)
           | SpecMissing \<Rightarrow> dispatchContractEvent plain (emitDecodeFailed plain (no_spec_message event) e)
           | SpecRejected err \<Rightarrow> dispatchContractEvent plain (emitDecodeFailed plain err e)
      else e)"

definition defined_field :: "string \<Rightarrow> js_value \<Rightarrow> (string \<times> js_value) list" where
  "defined_field k event = (if js_field k event \<noteq> JUndefined then [(k, js_field k event)] else [])"

definition handleSorobanEvent :: "resolve_semantic \<Rightarrow> string \<Rightarrow> js_value \<Rightarrow> engine \<Rightarrow> engine" where
  "handleSorobanEvent resolveSemantic now event e =
     (if \<not> js_Boolean (js_field ''contractId'' event) then e
      else let timestamp = coalesce (js_field ''ledgerClosedAt'' event) (JStr now)
        in if js_field ''type'' event = JStr ''contract.invoked'' then
             route (JObj (
               [(''type'', JStr ''contract.invoked''), (''contractId'', js_field ''contractId'' event),
                (''function'', coalesce (js_field ''function'' event) (JStr '''')),
                (''args'', coalesce (js_field ''args'' event) (JArr []))] @
               defined_field ''ledger'' event @ defined_field ''txHash'' event @
               [(''timestamp'', timestamp), (''raw'', event)]), None) e
           else if js_field ''type'' event = JStr ''contract.emitted'' then
             (let topics = (case js_field ''topic'' event of JArr ts \<Rightarrow> ts | _ \<Rightarrow> []);
                  semantic = resolveSemantic (js_String (js_field ''contractId'' event)) topics (js_field ''value'' event)
              in route (JObj (
                [(''type'', JStr ''contract.emitted''), (''contractId'', js_field ''contractId'' event),
                 (''topics'', js_field ''topic'' event),
                 (''data'', coalesce (js_field ''decodedData'' event) (js_field ''value'' event)),
                 (''decodedData'', js_field ''decodedData'' event)] @
                (case semantic of Some s \<Rightarrow> [(''semantic'', s)] | None \<Rightarrow> []) @
                defined_field ''ledger'' event @
                [(''eventId'', js_field ''id'' event)] @
                defined_field ''txHash'' event @
                [(''inSuccessfulContractCall'', coalesce (js_field ''inSuccessfulContractCall'' event) (JBool False)),
                 (''timestamp'', timestamp), (''raw'', event)]), None) e)
           else e)"

section \<open>Choice of the transport\<close>

datatype event_family =
    FPayment | FTrustlineAuth | FTrustlineLimit | FAccountCreated | FAccountOptions | FAccountMerge | FOffer
  | FBumpSequence | FManageData | FClaimableBalance | FLiquidityPool

datatype transport = TUnified | THorizon

definition UNIFIED_EQUIVALENT_FAMILIES :: "event_family list" where
  "UNIFIED_EQUIVALENT_FAMILIES = [FPayment, FTrustlineAuth]"

definition resolveFamilyTransport :: "event_family \<Rightarrow> transport \<Rightarrow> transport" where
  "resolveFamilyTransport family mode =
     (if mode = THorizon then THorizon
      else if family \<in> set UNIFIED_EQUIVALENT_FAMILIES then TUnified else THorizon)"

definition HORIZON_OP_TYPE_TO_FAMILY :: "(string, event_family) js_map" where
  "HORIZON_OP_TYPE_TO_FAMILY =
     [(''payment'', FPayment), (''create_account'', FAccountCreated), (''set_options'', FAccountOptions),
      (''manage_sell_offer'', FOffer), (''manage_buy_offer'', FOffer), (''bump_sequence'', FBumpSequence),
      (''manage_data'', FManageData), (''change_trust'', FTrustlineLimit), (''account_merge'', FAccountMerge),
      (''create_claimable_balance'', FClaimableBalance), (''claim_claimable_balance'', FClaimableBalance),
      (''liquidity_pool_deposit'', FLiquidityPool), (''liquidity_pool_withdraw'', FLiquidityPool),
      (''allow_trust'', FTrustlineAuth), (''set_trust_line_flags'', FTrustlineAuth)]"

definition horizonEventFamily :: "js_value \<Rightarrow> event_family option" where
  "horizonEventFamily record =
     (if \<not> js_typeof_object record \<or> record = JNull then None
      else case js_field ''type'' record of JStr t \<Rightarrow> map_get HORIZON_OP_TYPE_TO_FAMILY t | _ \<Rightarrow> None)"

datatype ingestion_mode = MUnified | MHorizon | MAuto

definition resolveEffectiveIngestion :: "ingestion_mode \<Rightarrow> bool \<Rightarrow> bool \<Rightarrow> transport" where
  "resolveEffectiveIngestion ingestion unifiedRpc supportsUnified =
     (if ingestion = MHorizon then THorizon
      else if \<not> unifiedRpc then THorizon
      else if ingestion = MUnified then TUnified
      else if supportsUnified then TUnified else THorizon)"

definition deriveHorizonDedupeRef :: "js_value \<Rightarrow> DedupeEventRef option" where
  "deriveHorizonDedupeRef record =
     (if \<not> js_typeof_object record \<or> record = JNull then None
      else case (js_field ''transaction_hash'' record, js_field ''id'' record) of
          (JStr txHash, JStr rid) \<Rightarrow>
            map_option (\<lambda>n. \<lparr>ref_txHash = txHash, ref_index = show_int n\<rparr>) (parse_bigint rid)
        | _ \<Rightarrow> None)"

definition deriveUnifiedDedupeRef :: "js_value \<Rightarrow> string \<Rightarrow> DedupeEventRef option" where
  "deriveUnifiedDedupeRef txHash rid =
     (case txHash of
        JStr h \<Rightarrow> map_option (\<lambda>n. \<lparr>ref_txHash = h, ref_index = show_int n\<rparr>) (parse_bigint (hd (split_on CHR ''-'' rid)))
      | _ \<Rightarrow> None)"

section \<open>The reference: who gets what\<close>

text \<open>The involved addresses of an event, each once, with the event as that address sees it.\<close>

definition recipients :: "js_value \<Rightarrow> (js_value \<times> js_value) list" where
  "recipients event =
     (let t = js_field ''type'' event; f = (\<lambda>k. js_field k event); all = map (\<lambda>a. (a, event))
      in if t = JStr ''account.created'' then all (uniq [f ''funder'', f ''account''])
         else if t \<in> {JStr ''account.options_changed'', JStr ''offer.created'', JStr ''offer.updated'', JStr ''offer.deleted'',
                      JStr ''account.bump_sequence'', JStr ''data.set'', JStr ''data.cleared'', JStr ''lp.deposited'', JStr ''lp.withdrawn''}
           then all [f ''source'']
         else if t \<in> {JStr ''trustline.added'', JStr ''trustline.removed'', JStr ''trustline.updated''} then all [f ''account'']
         else if t = JStr ''account.merged'' then all [f ''source'', f ''destination'']
         else if t = JStr ''claimable.created'' then all (uniq (claimant_destinations event @ [f ''sponsor'']))
         else if t = JStr ''claimable.claimed'' then all [f ''claimant'']
         else if t \<in> {JStr ''trustline.authorized'', JStr ''trustline.deauthorized''} then all (uniq [f ''issuer'', f ''trustor''])
         else if t = JStr ''unknown'' then
           (if f ''from'' = f ''to'' then [(f ''to'', withResolvedType event ''payment.self'')]
            else [(f ''to'', withResolvedType event ''payment.received''), (f ''from'', withResolvedType event ''payment.sent'')])
         else [])"

text \<open>What one address gets: the event under its type and under the wildcard.\<close>

definition deliveries :: "engine \<Rightarrow> js_value \<Rightarrow> js_value \<Rightarrow> emission list" where
  "deliveries e address event =
     (case address of
        JStr a \<Rightarrow>
          (case map_get (en_registry e) a of
             Some w \<Rightarrow> if passesFilter a event e then [(w, js_String (js_field ''type'' event), event), (w, ''*'', event)] else []
           | None \<Rightarrow> [])
      | _ \<Rightarrow> [])"

definition accepts :: "engine \<Rightarrow> js_value \<Rightarrow> js_value \<Rightarrow> bool" where
  "accepts e event address \<longleftrightarrow> deliveries e address event \<noteq> []"

abbreviation emitting :: "engine \<Rightarrow> emission list \<Rightarrow> engine" where
  "emitting e ms \<equiv> e\<lparr>en_emitted := en_emitted e @ ms\<rparr>"

lemma passesFilter_emitting [simp]: "passesFilter a v (e\<lparr>en_emitted := ms\<rparr>) = passesFilter a v e"
  by (simp add: passesFilter_def)

lemma deliveries_emitting [simp]: "deliveries (e\<lparr>en_emitted := ms\<rparr>) a v = deliveries e a v"
  by (simp add: deliveries_def split: js_value.splits option.splits)

text \<open>No registered address watcher is stopped.\<close>

definition live_registry :: "engine \<Rightarrow> bool" where
  "live_registry e \<longleftrightarrow> (\<forall>a w. map_get (en_registry e) a = Some w \<longrightarrow> \<not> w_stopped (en_watchers e ! w))"

lemma live_emitting [simp]: "live_registry (e\<lparr>en_emitted := ms\<rparr>) = live_registry e"
  by (simp add: live_registry_def)

lemma eng_inv_live: "eng_inv e \<Longrightarrow> live_registry e"
  unfolding live_registry_def eng_inv_def
  using reg_invD(2) [of "en_watchers e" "sub_watcher e" "sub_count e" "KAddr _"] by (metis sub_watcher.simps(1))

lemma emit_both_live: "\<not> w_stopped (en_watchers e ! w) \<Longrightarrow>
    emit_both w v e = emitting e [(w, js_String (js_field ''type'' v), v), (w, ''*'', v)]"
  by (simp add: emit_both_def watcher_emit_def)

lemma emitting_emitting [simp]: "emitting (emitting e xs) ys = emitting e (xs @ ys)"
  by simp

lemma emitting_Nil [simp]: "emitting e [] = e"
  by simp

lemma deliver_emits: "live_registry e \<Longrightarrow> deliver a v e = emitting e (deliveries e a v)"
  by (auto simp: deliver_def deliveries_def live_registry_def emit_both_live split: js_value.splits option.splits)

lemma route_claimant_emits:
  "live_registry e \<Longrightarrow>
   route_claimant v d (N, e) =
     (if accepts e v d \<and> d \<notin> set N then (N @ [d], emitting e (deliveries e d v)) else (N, e))"
  by (auto simp: route_claimant_def accepts_def deliveries_def live_registry_def emit_both_live split: js_value.splits option.splits)

lemma concat_skip: "f d = [] \<Longrightarrow> concat (map f (filter (\<lambda>y. y \<noteq> d) xs)) = concat (map f xs)"
  by (induction xs) auto

lemma claimants_loop:
  "live_registry e \<Longrightarrow>
   fold (route_claimant v) ds (N, e) =
     (let X = filter (\<lambda>d. d \<notin> set N) (uniq ds)
      in (N @ filter (accepts e v) X, emitting e (concat (map (\<lambda>d. deliveries e d v) X))))"
proof (induction ds arbitrary: N e)
  case (Cons d ds)
  let ?X = "\<lambda>N. filter (\<lambda>d. d \<notin> set N) (uniq ds)"
  show ?case
  proof (cases "accepts e v d \<and> d \<notin> set N")
    case True
    have x: "filter (\<lambda>x. x \<notin> set (N @ [d])) (uniq ds) = filter (\<lambda>x. x \<notin> set N) (filter (\<lambda>y. y \<noteq> d) (uniq ds))"
      by (auto intro: filter_cong)
    have a: "accepts (emitting e ms) v = accepts e v" for ms by (simp add: accepts_def fun_eq_iff)
    show ?thesis
      using Cons.IH [of "emitting e (deliveries e d v)" "N @ [d]"] Cons.prems True x a
      by (simp add: route_claimant_emits Let_def)
  next
    case False
    have "fold (route_claimant v) (d # ds) (N, e) = fold (route_claimant v) ds (N, e)"
      using False Cons.prems by (auto simp: route_claimant_emits)
    moreover have "filter (accepts e v) (filter (\<lambda>x. x \<notin> set N) (uniq (d # ds))) = filter (accepts e v) (?X N)"
      using False by (auto intro: filter_cong)
    moreover have "concat (map (\<lambda>d. deliveries e d v) (filter (\<lambda>x. x \<notin> set N) (uniq (d # ds)))) =
        concat (map (\<lambda>d. deliveries e d v) (?X N))"
    proof (cases "d \<in> set N")
      case True
      then have "filter (\<lambda>x. x \<notin> set N) (uniq (d # ds)) = ?X N" by (auto intro: filter_cong)
      then show ?thesis by simp
    next
      case notin: False
      with False have "deliveries e d v = []" by (simp add: accepts_def)
      with notin show ?thesis
        using concat_skip [of "\<lambda>d. deliveries e d v" d "?X N"] by (simp add: conj_commute)
    qed
    ultimately show ?thesis using Cons.IH [OF Cons.prems, of N] by (simp add: Let_def del: uniq.simps)
  qed
qed simp


lemma route_claimable:
  assumes "live_registry e" "js_field ''type'' v = JStr ''claimable.created''"
  shows "route_classic v e = emitting e (concat (map (\<lambda>(a, v). deliveries e a v) (recipients v)))"
proof -
  let ?ds = "claimant_destinations v" and ?s = "js_field ''sponsor'' v"
  let ?all = "concat (map (\<lambda>d. deliveries e d v) (uniq ?ds))"
  have "route_classic v e =
      (if ?s \<in> set (filter (accepts e v) (uniq ?ds)) then emitting e ?all else deliver ?s v (emitting e ?all))"
    using assms claimants_loop [OF assms(1), of v ?ds "[]"] by (simp add: route_classic_def route_payment_def Let_def)
  also have "\<dots> = emitting e (concat (map (\<lambda>d. deliveries e d v) (uniq (?ds @ [?s]))))"
    using assms(1) by (auto simp: uniq_snoc deliver_emits accepts_def)
  finally show ?thesis using assms(2) by (simp add: recipients_def Let_def comp_def)
qed

lemma route_classic_emits:
  assumes live: "live_registry e"
  shows "route_classic v e = emitting e (concat (map (\<lambda>(a, v). deliveries e a v) (recipients v)))"
proof -
  let ?t = "js_field ''type'' v"
  consider "?t = JStr ''claimable.created''" | "?t = JStr ''account.created''"
    | "?t \<in> {JStr ''account.options_changed'', JStr ''offer.created'', JStr ''offer.updated'', JStr ''offer.deleted'',
             JStr ''account.bump_sequence'', JStr ''data.set'', JStr ''data.cleared'', JStr ''lp.deposited'', JStr ''lp.withdrawn''}"
    | "?t \<in> {JStr ''trustline.added'', JStr ''trustline.removed'', JStr ''trustline.updated''}"
    | "?t = JStr ''account.merged''" | "?t = JStr ''claimable.claimed''"
    | "?t \<in> {JStr ''trustline.authorized'', JStr ''trustline.deauthorized''}" | "?t = JStr ''unknown''"
    | "?t \<notin> {JStr ''claimable.created'', JStr ''account.created'', JStr ''account.options_changed'', JStr ''offer.created'',
        JStr ''offer.updated'', JStr ''offer.deleted'', JStr ''account.bump_sequence'', JStr ''data.set'', JStr ''data.cleared'',
        JStr ''lp.deposited'', JStr ''lp.withdrawn'', JStr ''trustline.added'', JStr ''trustline.removed'', JStr ''trustline.updated'',
        JStr ''account.merged'', JStr ''claimable.claimed'', JStr ''trustline.authorized'', JStr ''trustline.deauthorized'', JStr ''unknown''}"
    by blast
  then show ?thesis
  proof cases
    case 1
    with live show ?thesis by (rule route_claimable)
  next
    case 3
    then show ?thesis by (elim insertE emptyE) (simp_all add: route_classic_def route_payment_def recipients_def deliver_emits live)
  next
    case 4
    then show ?thesis by (elim insertE emptyE) (simp_all add: route_classic_def route_payment_def recipients_def deliver_emits live)
  next
    case 7
    then show ?thesis by (elim insertE emptyE) (simp_all add: route_classic_def route_payment_def recipients_def deliver_emits live)
  qed (simp_all add: route_classic_def route_payment_def recipients_def deliver_emits live Let_def)
qed

section \<open>Delivery of classic events\<close>

lemma dedupe_fields [simp]:
  "en_registry (snd (dedupe_check tag e)) = en_registry e" "en_filters (snd (dedupe_check tag e)) = en_filters e"
  "en_watchers (snd (dedupe_check tag e)) = en_watchers e" "en_pausedSources (snd (dedupe_check tag e)) = en_pausedSources e"
  "en_emitted (snd (dedupe_check tag e)) = en_emitted e" "en_contractRegistry (snd (dedupe_check tag e)) = en_contractRegistry e"
  by (auto simp: dedupe_check_def split: option.splits prod.splits)

lemma dedupe_deliveries [simp]: "deliveries (snd (dedupe_check tag e)) a v = deliveries e a v"
  by (simp add: deliveries_def passesFilter_def split: js_value.splits option.splits)

lemma dedupe_live [simp]: "live_registry (snd (dedupe_check tag e)) = live_registry e"
  by (simp add: live_registry_def)

lemma route_emits:
  assumes "eng_inv e" "\<not> is_contract_event v" "\<not> fst (dedupe_check tag e)" "SHorizon \<notin> set (en_pausedSources e)"
  shows "en_emitted (route (v, tag) e) = en_emitted e @ concat (map (\<lambda>(a, v). deliveries e a v) (recipients v))"
  using assms eng_inv_live [OF assms(1)] route_classic_emits [of "snd (dedupe_check tag e)" v]
  by (simp add: route_def case_prod_beta)

text \<open>
  C4: every involved address gets the event. For a classic event that is not a cross-transport duplicate and
  whose source is not paused, what \<open>route\<close> emits is exactly this: for each involved address, in order, if
  it is watched and its filter passes, the event under its type and under the wildcard. A payment reaches the recipient as received, the sender as
  sent, and a payment to oneself arrives once as such.
\<close>

theorem route_delivers:
  assumes "eng_inv e" "\<not> is_contract_event v" "\<not> fst (dedupe_check tag e)" "SHorizon \<notin> set (en_pausedSources e)"
  shows "en_emitted (route (v, tag) e) = en_emitted e @ concat (map (\<lambda>(a, v). deliveries e a v) (recipients v))"
  by (rule route_emits [OF assms])

definition pending_payment :: "string \<Rightarrow> string \<Rightarrow> js_value" where
  "pending_payment from to = JObj [(''type'', JStr ''unknown''), (''to'', JStr to), (''from'', JStr from)]"

theorem route_delivers_witness:
  "map (\<lambda>(w, t, _). (w, t)) (en_emitted (route (pending_payment ''A'' ''B'', None)
     (fold sub_step [OSubscribe ''A'' no_options, OSubscribe ''B'' no_options] idle_engine))) =
   [(1, ''payment.received''), (1, ''*''), (0, ''payment.sent''), (0, ''*'')]"
proof -
  define e where "e = fold sub_step [OSubscribe ''A'' no_options, OSubscribe ''B'' no_options] idle_engine"
  have "sub_fresh idle_engine" by (simp add: sub_fresh_def idle_engine_def)
  then have inv: "eng_inv e" unfolding e_def using sub_run_refines sub_fresh_inv by blast
  have r: "en_registry e = [(''A'', 0), (''B'', 1)]" "en_filters e = []" "en_emitted e = []" "en_pausedSources e = []"
    by (simp_all add: e_def subscribe_def new_sub_defs idle_engine_def no_options_def set_opt_def)
  have "en_emitted (route (pending_payment ''A'' ''B'', None) e) =
      concat (map (\<lambda>(a, v). deliveries e a v) (recipients (pending_payment ''A'' ''B'')))"
    using route_delivers [OF inv, of "pending_payment ''A'' ''B''" None] r(3,4)
    by (simp add: is_contract_event_def pending_payment_def dedupe_check_def)
  then have "map (\<lambda>(w, t, _). (w, t)) (en_emitted (route (pending_payment ''A'' ''B'', None) e)) =
      [(1, ''payment.received''), (1, ''*''), (0, ''payment.sent''), (0, ''*'')]"
    by (simp add: r(1,2) recipients_def pending_payment_def deliveries_def passesFilter_def withResolvedType_def)
  then show ?thesis by (simp only: e_def)
qed

lemma distinct_if: "(c \<Longrightarrow> distinct (map f a)) \<Longrightarrow> (\<not> c \<Longrightarrow> distinct (map f b)) \<Longrightarrow> distinct (map f (if c then a else b))"
  by simp

lemma recipients_distinct:
  assumes m: "js_field ''type'' v = JStr ''account.merged'' \<Longrightarrow> js_field ''source'' v \<noteq> js_field ''destination'' v"
  shows "distinct (map fst (recipients v))"
proof -
  have u: "distinct (map fst (map (\<lambda>a. (a, v)) xs)) = distinct xs" for xs :: "js_value list" by (simp add: comp_def)
  show ?thesis unfolding recipients_def Let_def
    by (rule distinct_if | simp only: u distinct_uniq | simp add: m | (simp, fail))+
qed

text \<open>What a watcher has received so far.\<close>

definition received :: "nat \<Rightarrow> engine \<Rightarrow> emission list" where
  "received w e = filter (\<lambda>m. fst m = w) (en_emitted e)"

abbreviation pair_of :: "nat \<Rightarrow> js_value \<Rightarrow> emission list" where
  "pair_of w v \<equiv> [(w, js_String (js_field ''type'' v), v), (w, ''*'', v)]"

lemma deliveries_watcher: "m \<in> set (deliveries e a v) \<Longrightarrow> \<exists>s. a = JStr s \<and> map_get (en_registry e) s = Some (fst m)"
  by (auto simp: deliveries_def split: js_value.splits option.splits if_splits)

lemma deliveries_filter:
  "filter (\<lambda>m. fst m = w) (deliveries e a v) =
     (if deliveries e a v \<noteq> [] \<and> (\<exists>s. a = JStr s \<and> map_get (en_registry e) s = Some w) then pair_of w v else [])"
  by (auto simp: deliveries_def split: js_value.splits option.splits)

lemma one_delivery:
  assumes inv: "eng_inv e" and d: "distinct (map fst ps)"
  shows "(\<exists>v. filter (\<lambda>m. fst m = w) (concat (map (\<lambda>(a, v). deliveries e a v) ps)) \<in> {[], pair_of w v}) \<and>
    ((\<forall>s. map_get (en_registry e) s = Some w \<longrightarrow> JStr s \<notin> fst ` set ps) \<longrightarrow>
       filter (\<lambda>m. fst m = w) (concat (map (\<lambda>(a, v). deliveries e a v) ps)) = [])"
  using d
proof (induction ps)
  case (Cons p ps)
  obtain a v where p: "p = (a, v)" by (cases p)
  let ?F = "\<lambda>ps. filter (\<lambda>m. fst m = w) (concat (map (\<lambda>(a, v). deliveries e a v) ps))"
  have F: "?F (p # ps) = filter (\<lambda>m. fst m = w) (deliveries e a v) @ ?F ps" by (simp add: p)
  note R = inv [unfolded eng_inv_def, THEN conjunct1]
  show ?case
  proof (cases "\<exists>s. a = JStr s \<and> map_get (en_registry e) s = Some w")
    case True
    then obtain s where s: "a = JStr s" "map_get (en_registry e) s = Some w" by blast
    have "s' = s" if "map_get (en_registry e) s' = Some w" for s'
      using reg_inv_unique [OF R, of "KAddr s" w "KAddr s'"] s(2) that by simp
    with Cons.prems s(1) p have "\<forall>s. map_get (en_registry e) s = Some w \<longrightarrow> JStr s \<notin> fst ` set ps" by auto
    with Cons.IH Cons.prems have "?F ps = []" by simp
    with F s show ?thesis by (auto simp: deliveries_filter p)
  next
    case False
    then have "?F (p # ps) = ?F ps" unfolding F by (auto simp: deliveries_filter)
    with Cons show ?thesis by (auto simp: p)
  qed
qed simp

text \<open>
  no watcher gets an event twice. A routed classic event adds to what a watcher has received either nothing or one
  copy under its type followed by the same copy under the wildcard, even when the address appears in several roles.
\<close>

theorem route_once:
  assumes "eng_inv e" "\<not> is_contract_event v"
    and "js_field ''type'' v = JStr ''account.merged'' \<Longrightarrow> js_field ''source'' v \<noteq> js_field ''destination'' v"
  shows "\<exists>v'. received w (route (v, tag) e) \<in> {received w e, received w e @ pair_of w v'}"
proof -
  let ?e = "snd (dedupe_check tag e)"
  have "en_emitted (route (v, tag) e) \<in> {en_emitted e, en_emitted (route_classic v ?e)}"
    using assms(2) by (simp add: route_def case_prod_beta)
  moreover have "en_emitted (route_classic v ?e) = en_emitted e @ concat (map (\<lambda>(a, v). deliveries e a v) (recipients v))"
    using route_classic_emits [of ?e v] eng_inv_live [OF assms(1)] by (simp add: case_prod_beta)
  ultimately show ?thesis
    using one_delivery [OF assms(1) recipients_distinct [of v], of w] assms(3) by (auto simp: received_def)
qed

theorem route_once_witness:
  "\<exists>v'. received 0 (route (pending_payment ''A'' ''A'', None) (snd (subscribe ''A'' no_options idle_engine))) \<in>
     {received 0 (snd (subscribe ''A'' no_options idle_engine)), received 0 (snd (subscribe ''A'' no_options idle_engine)) @ pair_of 0 v'}"
proof (rule route_once)
  have "eng_inv idle_engine" using sub_fresh_inv [of idle_engine] by (simp add: sub_fresh_def idle_engine_def)
  then show "eng_inv (snd (subscribe ''A'' no_options idle_engine))" by (simp add: subscribe_holds)
qed (simp_all add: is_contract_event_def pending_payment_def)

section \<open>Contract watchers\<close>

lemma received_emit: "w' \<noteq> w \<Longrightarrow> received w (watcher_emit w' t v e) = received w e"
  by (simp add: received_def watcher_emit_def)

lemma received_emit_both: "w' \<noteq> w \<Longrightarrow> received w (emit_both w' v e) = received w e"
  by (simp add: emit_both_def received_emit)

lemma received_fold: "(\<And>p e. p \<in> set ps \<Longrightarrow> received w (f p e) = received w e) \<Longrightarrow> received w (fold f ps e) = received w e"
  by (induction ps arbitrary: e) auto

lemma received_upd [simp]:
  "received w (e\<lparr>en_pendingSpecs := x\<rparr>) = received w e" "received w (snd (dedupe_check tag e)) = received w e"
  by (simp_all add: received_def)

text \<open>Watchers that are in neither of the two registries that the dispatch loops iterate.\<close>

definition unreached :: "nat \<Rightarrow> engine \<Rightarrow> bool" where
  "unreached w e \<longleftrightarrow> w \<notin> snd ` set (en_registry e) \<and> w \<notin> (fst \<circ> snd) ` set (en_contractRegistry e)"

lemma unreached_dispatch: "unreached w e \<Longrightarrow> received w (dispatchContractEvent v e) = received w e"
  unfolding dispatchContractEvent_def
  by (rule received_fold) (force simp: unreached_def case_prod_beta received_emit_both)

lemma unreached_decode: "unreached w e \<Longrightarrow> received w (emitDecodeFailed v err e) = received w e"
  unfolding emitDecodeFailed_def Let_def
  by (rule received_fold) (force simp: unreached_def case_prod_beta received_emit)

lemma emit_registries [simp]:
  "en_contractRegistry (watcher_emit w t v e) = en_contractRegistry e" "en_registry (watcher_emit w t v e) = en_registry e"
  by (simp_all add: watcher_emit_def)

lemma fold_registries:
  "(\<And>p e. en_contractRegistry (f p e) = en_contractRegistry e \<and> en_registry (f p e) = en_registry e) \<Longrightarrow>
   en_contractRegistry (fold f ps e) = en_contractRegistry e \<and> en_registry (fold f ps e) = en_registry e"
  by (induction ps arbitrary: e) auto

lemma unreached_emitDecodeFailed [simp]: "unreached w (emitDecodeFailed v err e) = unreached w e"
  using fold_registries [of "\<lambda>(cid, w, filters) e'. if matchesContractFilters v filters \<and> passesFilter cid v e'
      then watcher_emit w ''event.decode_failed'' (JObj [(''type'', JStr ''event.decode_failed''), (''contractId'', js_field ''contractId'' v),
                    (''eventId'', js_field ''eventId'' v), (''error'', JStr err)]) e' else e'" "en_contractRegistry e" e]
  by (auto simp: unreached_def emitDecodeFailed_def case_prod_beta)

lemma unreached_settle: "unreached w e \<Longrightarrow> received w (settleSpec i outcome e) = received w e"
proof -
  assume u: "unreached w e"
  let ?e = "e\<lparr>en_pendingSpecs := take i (en_pendingSpecs e) @ drop (Suc i) (en_pendingSpecs e)\<rparr>"
  have "unreached w ?e" using u by (simp add: unreached_def)
  then show ?thesis
    by (simp add: settleSpec_def Let_def unreached_dispatch unreached_decode split: spec_outcome.splits)
qed

lemma deliveries_unreached: "unreached w e \<Longrightarrow> filter (\<lambda>m. fst m = w) (deliveries e a v) = []"
  by (force simp: deliveries_filter unreached_def dest: map_get_mem)

lemma unreached_classic:
  assumes "live_registry e" "unreached w e"
  shows "received w (route_classic v e) = received w e"
proof -
  have "filter (\<lambda>m. fst m = w) (concat (map (\<lambda>(a, v). deliveries e a v) ps)) = []" for ps
    by (induction ps) (auto simp: deliveries_unreached [OF assms(2)])
  then show ?thesis by (simp add: received_def route_classic_emits [OF assms(1)])
qed

lemma unreached_dedupe [simp]: "unreached w (snd (dedupe_check tag e)) = unreached w e"
  by (simp add: unreached_def)

lemma unreached_route: "live_registry e \<Longrightarrow> unreached w e \<Longrightarrow> received w (route q e) = received w e"
  by (simp add: route_def case_prod_beta route_contract_def unreached_dispatch unreached_classic split: prod.splits)

lemma unreached_notify: "unreached w e \<Longrightarrow> received w (notifyWatchers t v e) = received w e"
proof -
  assume u: "unreached w e"
  let ?f = "\<lambda>(a, w') e. watcher_emit w' t (with_name (map_get (en_subscriptionNames e) a) v) e"
  let ?e = "fold ?f (en_registry e) e"
  have "received w ?e = received w e" by (rule received_fold) (use u in \<open>force simp: unreached_def case_prod_beta received_emit\<close>)
  moreover have "en_contractRegistry ?e = en_contractRegistry e"
    using fold_registries [of ?f "en_registry e" e] by (simp add: case_prod_beta)
  moreover have "received w (notifyWatchers t v e) = received w ?e"
    unfolding notifyWatchers_def Let_def
    by (rule received_fold) (use u calculation(2) in \<open>force simp: unreached_def case_prod_beta received_emit\<close>)
  ultimately show ?thesis by simp
qed

lemma config_unreached:
  assumes "eng_inv e" "sub_watcher e (KConfig k) = Some w"
  shows "unreached w e"
proof -
  note R = assms(1) [unfolded eng_inv_def, THEN conjunct1]
  have wf: "map_wf (en_registry e)" "map_wf (en_contractRegistry e)" using assms(1) by (simp_all add: eng_inv_def)
  have "(a, w) \<notin> set (en_registry e)" for a
    using reg_inv_unique [OF R assms(2), of "KAddr a"] wf(1) by (auto simp: map_wf_def)
  moreover have "(c, w, fs) \<notin> set (en_contractRegistry e)" for c fs
    using reg_inv_unique [OF R assms(2), of "KContract c"] wf(2) by (auto simp: map_wf_def)
  ultimately show ?thesis by (force simp: unreached_def)
qed

text \<open>
  a configuration subscription is never served. Whatever event is routed, whatever ABI lookup
  settles and whatever notification is sent, the watcher that \<open>subscribeContract(config)\<close> returned receives
  nothing: the dispatch loops iterate \<open>registry\<close> and \<open>contractRegistry\<close> only.
\<close>

theorem config_watchers_silent:
  assumes "eng_inv e" "sub_watcher e (KConfig k) = Some w"
  shows "received w (route q e) = received w e \<and> received w (settleSpec i outcome e) = received w e \<and>
         received w (notifyWatchers t v e) = received w e"
  using config_unreached [OF assms] eng_inv_live [OF assms(1)]
  by (simp add: unreached_route unreached_settle unreached_notify)

definition contract_event :: "string \<Rightarrow> js_value" where
  "contract_event c = JObj [(''type'', JStr ''contract.emitted''), (''contractId'', JStr c), (''topics'', JArr [])]"

theorem config_watchers_silent_witness:
  "\<exists>e. subscribeConfig [] idle_engine = Inr (0, e) \<and> received 0 (route (contract_event ''C'', None) e) = []"
proof -
  have inv: "eng_inv idle_engine" using sub_fresh_inv [of idle_engine] by (simp add: sub_fresh_def idle_engine_def)
  have v: "validateContractFilters (JArr []) = None" by (simp add: validateContractFilters_def collect_def)
  obtain e where e: "subscribeConfig [] idle_engine = Inr (0, e)" "sub_watcher e (KConfig (stableFilterKey [])) = Some 0" "en_emitted e = []"
    by (simp add: subscribeConfig_def v new_sub_defs idle_engine_def)
  have "eng_inv e" using subscribeConfig_holds [OF inv e(1)] by simp
  then have "received 0 (route (contract_event ''C'', None) e) = received 0 e"
    using config_watchers_silent [of e "stableFilterKey []" 0] e(2) by blast
  with e show ?thesis by (auto simp: received_def)
qed

lemma dispatch_emits:
  assumes "\<And>c w fs. (c, w, fs) \<in> set ps \<Longrightarrow> \<not> w_stopped (en_watchers e ! w)"
  shows "fold (\<lambda>(cid, w, filters) e'. if matchesContractFilters v filters \<and> passesFilter cid v e' then emit_both w v e' else e') ps e =
    emitting e (concat (map (\<lambda>(cid, w, filters). if matchesContractFilters v filters \<and> passesFilter cid v e then pair_of w v else []) ps))"
  using assms
proof (induction ps arbitrary: e)
  case (Cons p ps)
  obtain c w fs where p: "p = (c, w, fs)" by (cases p)
  have live: "\<not> w_stopped (en_watchers e ! w)" and ps: "\<And>c w fs. (c, w, fs) \<in> set ps \<Longrightarrow> \<not> w_stopped (en_watchers e ! w)"
    using Cons.prems p by auto
  show ?case
  proof (cases "matchesContractFilters v fs \<and> passesFilter c v e")
    case True
    then show ?thesis
      using Cons.IH [of "emitting e (pair_of w v)"] ps p live by (simp add: emit_both_live case_prod_beta)
  next
    case False
    then show ?thesis using Cons.IH [of e] ps p by (auto simp: case_prod_beta)
  qed
qed simp

text \<open>
  a contract event reaches exactly the id-based subscriptions with a matching filter (or none) whose predicate accepts it, in
  registration order, once under its type and once under the wildcard.
\<close>

theorem contract_dispatch:
  assumes "eng_inv e"
  shows "en_emitted (dispatchContractEvent v e) = en_emitted e @
    concat (map (\<lambda>(cid, w, filters). if matchesContractFilters v filters \<and> passesFilter cid v e then pair_of w v else [])
      (en_contractRegistry e))"
proof -
  note R = assms [unfolded eng_inv_def, THEN conjunct1]
  have "\<not> w_stopped (en_watchers e ! w)" if "(c, w, fs) \<in> set (en_contractRegistry e)" for c w fs
    using reg_invD(2) [OF R, of "KContract c" w] that assms by (simp add: eng_inv_def map_wf_def)
  from dispatch_emits [of "en_contractRegistry e" e v, OF this] show ?thesis by (simp add: dispatchContractEvent_def)
qed

theorem contract_dispatch_witness:
  "en_emitted (dispatchContractEvent (contract_event ''C'') (snd (subscribeContract ''s'' [] no_options idle_engine))) =
   pair_of 0 (contract_event ''C'')"
proof -
  let ?e = "snd (subscribeContract ''s'' [] no_options idle_engine)"
  have "eng_inv idle_engine" using sub_fresh_inv [of idle_engine] by (simp add: sub_fresh_def idle_engine_def)
  then have inv: "eng_inv ?e" by (simp add: subscribeContract_holds)
  have "en_emitted ?e = []" "en_contractRegistry ?e = [(''s'', 0, [])]" "en_filters ?e = []"
    by (simp_all add: subscribeContract_def new_sub_defs idle_engine_def no_options_def set_opt_def)
  with contract_dispatch [OF inv, of "contract_event ''C''"] show ?thesis
    by (simp add: matchesContractFilters_def passesFilter_def)
qed

section \<open>One transport per event\<close>

lemma dash_not_digit: "CHR ''-'' \<notin> set (replicate z CHR ''0'' @ show_nat n)"
  using show_nat_digits [of "CHR ''-''" n] minus_not_digit by auto

text \<open>
  both transports derive the same dedupe key for an operation. The Horizon record carries the operation's
  total-order id unpadded, the unified event the same id padded with any number of zeros and followed by an event index;
  two operations have the same key only if transaction and id agree.
\<close>

theorem dedupe_keys_agree:
  "deriveHorizonDedupeRef (JObj [(''transaction_hash'', JStr h), (''id'', JStr (show_nat n))]) =
     deriveUnifiedDedupeRef (JStr h) (replicate z CHR ''0'' @ show_nat n @ ''-'' @ idx) \<and>
   (deriveHorizonDedupeRef (JObj [(''transaction_hash'', JStr h), (''id'', JStr (show_nat n))]) =
      deriveUnifiedDedupeRef (JStr h') (replicate z CHR ''0'' @ show_nat m @ ''-'' @ idx) \<longleftrightarrow> h = h' \<and> n = m)"
proof -
  have u: "deriveUnifiedDedupeRef (JStr h) (replicate z CHR ''0'' @ show_nat n @ ''-'' @ idx) =
      Some \<lparr>ref_txHash = h, ref_index = show_int (int n)\<rparr>" for h n
    using split_on_first [OF dash_not_digit, of z n idx] by (simp add: deriveUnifiedDedupeRef_def parse_bigint_padded)
  have v: "deriveHorizonDedupeRef (JObj [(''transaction_hash'', JStr h), (''id'', JStr (show_nat n))]) =
      Some \<lparr>ref_txHash = h, ref_index = show_int (int n)\<rparr>" for h n
    using parse_bigint_padded [of 0 n] by (simp add: deriveHorizonDedupeRef_def)
  show ?thesis unfolding u v by (auto dest: show_int_inject)
qed

theorem dedupe_keys_agree_witness:
  "deriveHorizonDedupeRef (JObj [(''transaction_hash'', JStr ''h''), (''id'', JStr (show_nat 42))]) =
   deriveUnifiedDedupeRef (JStr ''h'') (replicate 3 CHR ''0'' @ show_nat 42 @ ''-'' @ ''1'')"
  using dedupe_keys_agree [of "''h''" 42 3 "''1''" "''h''" 42] by simp

text \<open>
  pausing loses events of the other transport. A payment that \<open>route\<close> drops because its source is
  paused is nevertheless recorded as seen: after the source resumes, the copy of the same operation that the
  other transport delivers is suppressed as a duplicate, and no watcher ever sees the movement.
\<close>

theorem paused_event_suppresses_copy:
  assumes "\<not> is_contract_event v" "SHorizon \<in> set (en_pausedSources e)" "map_get (win_seen (en_dedupeWindow e)) key = None"
    and "win_inv (en_dedupeWindow e)"
    and e': "e' = (route (v, Some (key, Horizon)) e)\<lparr>en_pausedSources := []\<rparr>"
  shows "en_emitted e' = en_emitted e \<and> en_emitted (route (v', Some (key, Unified)) e') = en_emitted e"
proof -
  have "route (v, Some (key, Horizon)) e = e\<lparr>en_dedupeWindow := win_record key [Horizon] (en_dedupeWindow e)\<rparr>"
    using assms(1-3) by (simp add: route_def dedupe_check_def seenFrom_def)
  moreover have "map_get (win_seen (win_record key [Horizon] (en_dedupeWindow e))) key = Some [Horizon]"
  proof -
    have "map_get (tl (win_seen (en_dedupeWindow e))) key = None" using assms(3) by (rule map_get_tl_None)
    then show ?thesis using win_record_new [OF assms(4,3), of "[Horizon]"] assms(3) by (simp add: map_add_def)
  qed
  ultimately show ?thesis by (simp add: e' route_def dedupe_check_def seenFrom_def)
qed

theorem paused_event_suppresses_copy_witness:
  "en_emitted (route (pending_payment ''A'' ''B'', Some (''k'', Unified))
     ((route (pending_payment ''A'' ''B'', Some (''k'', Horizon)) (idle_engine\<lparr>en_pausedSources := [SHorizon]\<rparr>))\<lparr>en_pausedSources := []\<rparr>)) = []"
  using paused_event_suppresses_copy [OF _ _ _ _ refl, of "pending_payment ''A'' ''B''" "idle_engine\<lparr>en_pausedSources := [SHorizon]\<rparr>" "''k''"
      "pending_payment ''A'' ''B''"]
  by (simp add: is_contract_event_def pending_payment_def idle_engine_def win_inv_def win_size_def)

end
