(* ===== verification/Event_Queue.thy ===== *)
theory Event_Queue
  imports Event_Routing
begin

text \<open>
  The bounded event queue of \<^verbatim>\<open>packages/pulse-core/src/EventEngine.ts\<close>: \<open>pauseSource\<close>, \<open>resumeSource\<close>,
  \<open>enqueueEvent\<close> with its three overflow policies, and the drain loop \<open>processQueue\<close>.

  \<open>processQueue\<close> has no \<open>await\<close>: a call that is not re-entrant drains the queue before it returns
  (\<open>processQueue\<close> below). Records that arrive while a handler runs find \<open>processingQueue\<close> set and are only
  queued; to cover every such interleaving the loop body is also available in its two halves, \<open>queue_take\<close>
  (shift and route) and \<open>queue_settle\<close> (the low-water check), between which arrivals may happen.
\<close>

definition makeQueueConfig :: "int option \<Rightarrow> int option \<Rightarrow> int \<times> int" where
  "makeQueueConfig high low =
     (let h = max 1 (case high of Some n \<Rightarrow> n | None \<Rightarrow> 10000)
      in (h, max 1 (case low of Some n \<Rightarrow> n | None \<Rightarrow> h div 2)))"

definition pauseSource :: "source \<Rightarrow> engine \<Rightarrow> engine" where
  "pauseSource s e = (if s \<in> set (en_pausedSources e) then e else e\<lparr>en_pausedSources := en_pausedSources e @ [s]\<rparr>)"

definition resumeSource :: "source \<Rightarrow> engine \<Rightarrow> engine" where
  "resumeSource s e = (if s \<notin> set (en_pausedSources e) then e else e\<lparr>en_pausedSources := removeAll s (en_pausedSources e)\<rparr>)"

definition sourceOf :: "js_value \<Rightarrow> source" where
  "sourceOf event = (if is_contract_event event then SSoroban else SHorizon)"

definition policy_name :: "queue_policy \<Rightarrow> string" where
  "policy_name p = (case p of PolicyPause \<Rightarrow> ''pause'' | DropOldest \<Rightarrow> ''drop-oldest'' | DropNewest \<Rightarrow> ''drop-newest'')"

definition notifyBackpressure :: "string \<Rightarrow> bool \<Rightarrow> engine \<Rightarrow> engine" where
  "notifyBackpressure now active e =
     notifyWatchers ''engine.backpressure''
       (notification ''engine.backpressure'' 0
          [(''emittedAt'', JStr now), (''active'', JBool active), (''queued'', JNum (int (length (en_eventQueue e)))),
           (''policy'', JStr (policy_name (en_queuePolicy e)))]) e"

text \<open>\<open>enqueueEvent\<close> up to the call of \<open>processQueue\<close>; the flag says whether it reaches that call.\<close>

definition queue_push :: "string \<Rightarrow> queued_event \<Rightarrow> engine \<Rightarrow> bool \<times> engine" where
  "queue_push now q e =
     (if sourceOf (fst q) \<in> set (en_pausedSources e) then (False, e)
      else if int (length (en_eventQueue e)) \<ge> en_queueHighWaterMark e then
        (case en_queuePolicy e of
           PolicyPause \<Rightarrow>
             (let e = (if en_inBackpressure e then e
                       else notifyBackpressure now True
                         ((pauseSource SSoroban (pauseSource SHorizon (e\<lparr>en_inBackpressure := True\<rparr>)))\<lparr>en_wePausedSources := True\<rparr>))
              in (True, e\<lparr>en_eventQueue := en_eventQueue e @ [q]\<rparr>))
         | DropOldest \<Rightarrow>
             (let e = e\<lparr>en_eventQueue := tl (en_eventQueue e) @ [q]\<rparr>
              in (True, if en_inBackpressure e then e else notifyBackpressure now True (e\<lparr>en_inBackpressure := True\<rparr>)))
         | DropNewest \<Rightarrow>
             (False, if en_inBackpressure e then e else notifyBackpressure now True (e\<lparr>en_inBackpressure := True\<rparr>)))
      else (True, e\<lparr>en_eventQueue := en_eventQueue e @ [q]\<rparr>))"

definition queue_take :: "engine \<Rightarrow> engine" where
  "queue_take e = (case en_eventQueue e of [] \<Rightarrow> e | q # qs \<Rightarrow> route q (e\<lparr>en_eventQueue := qs\<rparr>))"

definition queue_settle :: "string \<Rightarrow> engine \<Rightarrow> engine" where
  "queue_settle now e =
     (if en_inBackpressure e \<and> int (length (en_eventQueue e)) \<le> en_queueLowWaterMark e then
        let e = e\<lparr>en_inBackpressure := False\<rparr>;
            e = (if en_wePausedSources e
                 then (resumeSource SSoroban (resumeSource SHorizon e))\<lparr>en_wePausedSources := False\<rparr> else e)
        in notifyBackpressure now False e
      else e)"

text \<open>The loop; every iteration shortens the queue, so its length is enough fuel.\<close>

fun queue_drain :: "nat \<Rightarrow> string \<Rightarrow> engine \<Rightarrow> engine" where
  "queue_drain 0 now e = e"
| "queue_drain (Suc n) now e =
     (if en_eventQueue e = [] then e else queue_drain n now (queue_settle now (queue_take e)))"

definition processQueue :: "string \<Rightarrow> engine \<Rightarrow> engine" where
  "processQueue now e =
     (if en_processingQueue e then e
      else (queue_drain (length (en_eventQueue e)) now (e\<lparr>en_processingQueue := True\<rparr>))\<lparr>en_processingQueue := False\<rparr>)"

definition enqueueEvent :: "string \<Rightarrow> queued_event \<Rightarrow> engine \<Rightarrow> engine" where
  "enqueueEvent now q e = (let (kick, e) = queue_push now q e in if kick then processQueue now e else e)"

section \<open>Frame lemmas\<close>

text \<open>The part of the state that the queue works on; emitting and routing leave it alone.\<close>

definition queue_view where
  "queue_view e = (en_eventQueue e, en_queueHighWaterMark e, en_queueLowWaterMark e, en_queuePolicy e, en_inBackpressure e,
     en_wePausedSources e, en_pausedSources e, en_processingQueue e)"

lemma view_emit: "queue_view (watcher_emit w t v e) = queue_view e"
  by (simp add: queue_view_def watcher_emit_def)

lemma view_emit_both: "queue_view (emit_both w v e) = queue_view e"
  by (simp add: emit_both_def view_emit)

lemma view_fold: "(\<And>p e. queue_view (f p e) = queue_view e) \<Longrightarrow> queue_view (fold f ps e) = queue_view e"
  by (induction ps arbitrary: e) auto

lemma view_deliver: "queue_view (deliver a v e) = queue_view e"
  by (simp add: deliver_def view_emit_both split: js_value.splits option.splits)

lemma view_claimants: "queue_view (snd (fold (route_claimant v) ds acc)) = queue_view (snd acc)"
proof (induction ds arbitrary: acc)
  case (Cons d ds)
  have "queue_view (snd (route_claimant v d acc)) = queue_view (snd acc)"
    by (cases acc) (simp add: route_claimant_def view_emit_both split: js_value.splits option.splits)
  with Cons show ?case by simp
qed simp

lemma view_classic: "queue_view (route_classic v e) = queue_view e"
proof -
  have "queue_view (case fold (route_claimant v) ds ([], e) of (n, e') \<Rightarrow> if s \<in> set n then e' else deliver s v e') = queue_view e" for ds s
    using view_claimants [of v ds "([], e)"] by (simp add: case_prod_beta view_deliver)
  then show ?thesis by (simp add: route_classic_def route_payment_def Let_def view_deliver)
qed

lemma view_dispatch: "queue_view (dispatchContractEvent v e) = queue_view e"
  unfolding dispatchContractEvent_def by (rule view_fold) (simp add: case_prod_beta view_emit_both)

lemma view_dedupe: "queue_view (snd (dedupe_check tag e)) = queue_view e"
  by (simp add: dedupe_check_def queue_view_def case_prod_beta split: option.splits)

lemma view_route: "queue_view (route q e) = queue_view e"
proof -
  have "queue_view (route_contract v e) = queue_view e" for v e
    by (simp add: route_contract_def view_dispatch) (simp add: queue_view_def)
  then show ?thesis by (simp add: route_def case_prod_beta view_classic view_dedupe split: prod.splits)
qed

lemma view_notify: "queue_view (notifyWatchers t v e) = queue_view e"
proof -
  let ?f = "\<lambda>(a, w) e. watcher_emit w t (with_name (map_get (en_subscriptionNames e) a) v) e"
  have "queue_view (fold ?f ps e) = queue_view e" for ps e by (rule view_fold) (simp add: case_prod_beta view_emit)
  moreover have "queue_view (fold (\<lambda>(cid, w, _) e. watcher_emit w t (with_name (map_get (en_subscriptionNames e) cid) v) e) ps e) = queue_view e"
    for ps :: "(string \<times> nat \<times> sub_filter list) list" and e
    by (rule view_fold) (simp add: case_prod_beta view_emit)
  ultimately show ?thesis by (simp add: notifyWatchers_def Let_def)
qed

lemma view_backpressure: "queue_view (notifyBackpressure now a e) = queue_view e"
  by (simp add: notifyBackpressure_def view_notify)

lemma view_fields:
  assumes "queue_view e = queue_view e'"
  shows "en_eventQueue e = en_eventQueue e'" "en_queueHighWaterMark e = en_queueHighWaterMark e'"
    "en_queueLowWaterMark e = en_queueLowWaterMark e'" "en_queuePolicy e = en_queuePolicy e'"
    "en_inBackpressure e = en_inBackpressure e'" "en_wePausedSources e = en_wePausedSources e'"
    "en_pausedSources e = en_pausedSources e'" "en_processingQueue e = en_processingQueue e'"
  using assms by (simp_all add: queue_view_def)

lemmas route_fields [simp] = view_fields [OF view_route]
lemmas backpressure_fields [simp] = view_fields [OF view_backpressure]

section \<open>Bounds\<close>

datatype queue_op = QArrive string queued_event | QTake | QSettle string

fun queue_step :: "queue_op \<Rightarrow> engine \<Rightarrow> engine" where
  "queue_step (QArrive now q) e = snd (queue_push now q e)"
| "queue_step QTake e = queue_take e"
| "queue_step (QSettle now) e = queue_settle now e"

definition queue_limit :: "engine \<Rightarrow> int" where
  "queue_limit e = (if en_queuePolicy e = PolicyPause
     then max (en_queueHighWaterMark e) (en_queueLowWaterMark e) + 1 else en_queueHighWaterMark e)"

definition queue_inv :: "engine \<Rightarrow> bool" where
  "queue_inv e \<longleftrightarrow> 1 \<le> en_queueHighWaterMark e \<and> int (length (en_eventQueue e)) \<le> queue_limit e \<and>
     (en_queuePolicy e = PolicyPause \<longrightarrow>
        (en_inBackpressure e \<longrightarrow> SHorizon \<in> set (en_pausedSources e) \<and> SSoroban \<in> set (en_pausedSources e)) \<and>
        (int (length (en_eventQueue e)) = queue_limit e \<longrightarrow> en_inBackpressure e))"

lemma pause_both:
  "set (en_pausedSources (pauseSource s e)) = insert s (set (en_pausedSources e))"
  "set (en_pausedSources (resumeSource s e)) = set (en_pausedSources e) - {s}"
  by (auto simp: pauseSource_def resumeSource_def)

lemma pause_fields [simp]:
  "en_eventQueue (pauseSource s e) = en_eventQueue e" "en_queuePolicy (pauseSource s e) = en_queuePolicy e"
  "en_queueHighWaterMark (pauseSource s e) = en_queueHighWaterMark e" "en_queueLowWaterMark (pauseSource s e) = en_queueLowWaterMark e"
  "en_inBackpressure (pauseSource s e) = en_inBackpressure e" "en_emitted (pauseSource s e) = en_emitted e"
  "en_processingQueue (pauseSource s e) = en_processingQueue e" "en_wePausedSources (pauseSource s e) = en_wePausedSources e"
  by (simp_all add: pauseSource_def)

lemma resume_fields [simp]:
  "en_eventQueue (resumeSource s e) = en_eventQueue e" "en_queuePolicy (resumeSource s e) = en_queuePolicy e"
  "en_queueHighWaterMark (resumeSource s e) = en_queueHighWaterMark e" "en_queueLowWaterMark (resumeSource s e) = en_queueLowWaterMark e"
  "en_inBackpressure (resumeSource s e) = en_inBackpressure e" "en_emitted (resumeSource s e) = en_emitted e"
  "en_processingQueue (resumeSource s e) = en_processingQueue e" "en_wePausedSources (resumeSource s e) = en_wePausedSources e"
  by (simp_all add: resumeSource_def)

lemma source_cases: "s = SHorizon \<or> s = SSoroban"
  by (cases s) auto

lemma queue_inv_push: "queue_inv e \<Longrightarrow> queue_inv (snd (queue_push now q e))"
proof (cases "en_queuePolicy e")
  case PolicyPause
  moreover assume "queue_inv e"
  ultimately show ?thesis
    using source_cases [of "sourceOf (fst q)"]
    by (auto simp: queue_push_def queue_inv_def queue_limit_def pause_both Let_def)
next
  case DropOldest
  moreover assume "queue_inv e"
  ultimately show ?thesis by (auto simp: queue_push_def queue_inv_def queue_limit_def Let_def)
next
  case DropNewest
  moreover assume "queue_inv e"
  ultimately show ?thesis by (auto simp: queue_push_def queue_inv_def queue_limit_def Let_def)
qed

lemma queue_inv_take: "queue_inv e \<Longrightarrow> queue_inv (queue_take e)"
  by (auto simp: queue_take_def queue_inv_def queue_limit_def split: list.splits)

lemma queue_inv_settle: "queue_inv e \<Longrightarrow> queue_inv (queue_settle now e)"
  by (auto simp: queue_settle_def queue_inv_def queue_limit_def Let_def)

lemma queue_inv_step: "queue_inv e \<Longrightarrow> queue_inv (queue_step op e)"
  by (cases op) (simp_all add: queue_inv_push queue_inv_take queue_inv_settle)

lemma queue_inv_run: "queue_inv e \<Longrightarrow> queue_inv (fold queue_step ops e)"
  by (induction ops arbitrary: e) (simp_all add: queue_inv_step)

lemma queue_step_config:
  "en_queueHighWaterMark (queue_step op e) = en_queueHighWaterMark e \<and> en_queueLowWaterMark (queue_step op e) = en_queueLowWaterMark e \<and>
   en_queuePolicy (queue_step op e) = en_queuePolicy e"
  by (cases op) (auto simp: queue_push_def queue_take_def queue_settle_def Let_def split: queue_policy.splits list.splits)

lemma queue_limit_run: "queue_limit (fold queue_step ops e) = queue_limit e"
proof -
  have "queue_limit (queue_step op e) = queue_limit e" for op e using queue_step_config [of op e] by (simp add: queue_limit_def)
  then show ?thesis by (induction ops arbitrary: e) simp_all
qed

text \<open>
  the queue is bounded under every policy. Whatever records arrive while handlers run, between any two
  iterations of the drain loop, the queue holds at most the high-water mark, or one more than the larger mark
  under the pause policy.
\<close>

theorem queue_bounded:
  assumes "1 \<le> en_queueHighWaterMark e0" "en_eventQueue e0 = []" "\<not> en_inBackpressure e0"
  shows "int (length (en_eventQueue (fold queue_step ops e0))) \<le>
    (if en_queuePolicy e0 = PolicyPause then max (en_queueHighWaterMark e0) (en_queueLowWaterMark e0) + 1 else en_queueHighWaterMark e0)"
proof -
  have "queue_inv e0" using assms by (auto simp: queue_inv_def queue_limit_def max_def)
  from queue_inv_run [OF this, of ops] have "int (length (en_eventQueue (fold queue_step ops e0))) \<le> queue_limit e0"
    using queue_limit_run [of ops e0] by (simp add: queue_inv_def)
  then show ?thesis by (simp only: queue_limit_def)
qed

theorem queue_bounded_witness:
  "int (length (en_eventQueue (fold queue_step [QArrive ''t'' (pending_payment ''A'' ''B'', None)] idle_engine))) \<le> 10001"
  using queue_bounded [of idle_engine "[QArrive ''t'' (pending_payment ''A'' ''B'', None)]"] by (simp add: idle_engine_def)

section \<open>Draining\<close>

lemma length_step: "en_eventQueue e \<noteq> [] \<Longrightarrow> length (en_eventQueue (queue_settle now (queue_take e))) = length (en_eventQueue e) - 1"
  by (auto simp: queue_settle_def queue_take_def Let_def split: list.splits)

lemma drain_empties: "length (en_eventQueue e) \<le> n \<Longrightarrow> en_eventQueue (queue_drain n now e) = []"
proof (induction n arbitrary: e)
  case (Suc n)
  show ?case
  proof (cases "en_eventQueue e = []")
    case False
    with length_step [OF False, of now] Suc.prems have "length (en_eventQueue (queue_settle now (queue_take e))) \<le> n" by simp
    with Suc.IH False show ?thesis by simp
  qed simp
qed simp

lemma enqueue_once:
  assumes "en_eventQueue e = []" "\<not> en_inBackpressure e" "\<not> en_processingQueue e" "1 \<le> en_queueHighWaterMark e"
    and "sourceOf (fst q) \<notin> set (en_pausedSources e)"
  shows "en_eventQueue (enqueueEvent now q e) = [] \<and> en_emitted (enqueueEvent now q e) = en_emitted (route q (e\<lparr>en_processingQueue := True\<rparr>))"
proof -
  have p: "queue_push now q e = (True, e\<lparr>en_eventQueue := [q]\<rparr>)" using assms by (simp add: queue_push_def)
  have s: "e\<lparr>en_processingQueue := True, en_eventQueue := []\<rparr> = e\<lparr>en_processingQueue := True\<rparr>" using assms(1) by (cases e) simp
  show ?thesis using assms by (simp add: enqueueEvent_def p processQueue_def queue_take_def queue_settle_def s)
qed

text \<open>
  a record that does not arrive inside a handler is routed before \<open>enqueueEvent\<close> returns. From an empty queue
  outside backpressure the result is the state \<open>route\<close> leaves, with the queue empty again, so the marks and
  policies act on re-entrant arrivals only.
\<close>

theorem enqueue_routes:
  assumes "en_eventQueue e = []" "\<not> en_inBackpressure e" "\<not> en_processingQueue e" "1 \<le> en_queueHighWaterMark e"
    and "sourceOf (fst q) \<notin> set (en_pausedSources e)"
  shows "en_eventQueue (enqueueEvent now q e) = [] \<and> en_emitted (enqueueEvent now q e) = en_emitted (route q (e\<lparr>en_processingQueue := True\<rparr>))"
  by (rule enqueue_once [OF assms])

theorem enqueue_routes_witness:
  "en_eventQueue (enqueueEvent ''t'' (pending_payment ''A'' ''B'', None) idle_engine) = []"
  using enqueue_routes [of idle_engine "(pending_payment ''A'' ''B'', None)" "''t''"] by (simp add: idle_engine_def)

section \<open>What backpressure loses\<close>

lemma paused_take:
  assumes "en_eventQueue e = q # qs" "SHorizon \<in> set (en_pausedSources e)" "SSoroban \<in> set (en_pausedSources e)"
  shows "en_emitted (queue_take e) = en_emitted e" "en_eventQueue (queue_take e) = qs"
    "en_pausedSources (queue_take e) = en_pausedSources e" "en_inBackpressure (queue_take e) = en_inBackpressure e"
    "en_queueLowWaterMark (queue_take e) = en_queueLowWaterMark e"
proof -
  show "en_emitted (queue_take e) = en_emitted e"
    using assms by (simp add: queue_take_def route_def case_prod_beta split: prod.splits)
qed (use assms in \<open>simp_all add: queue_take_def\<close>)

text \<open>
  the pause policy discards the backlog. While the engine is in backpressure both sources are
  paused, and \<open>route\<close> drops every event of a paused source: all queued events down to the low-water mark are shifted off the
  queue and reach no watcher, although they were accepted and their cursors persisted.
\<close>

theorem backpressure_discards:
  assumes "SHorizon \<in> set (en_pausedSources e)" "SSoroban \<in> set (en_pausedSources e)"
    and "int n < int (length (en_eventQueue e)) - en_queueLowWaterMark e" "0 \<le> en_queueLowWaterMark e"
  shows "en_emitted (((\<lambda>e. queue_settle now (queue_take e)) ^^ n) e) = en_emitted e \<and>
         en_eventQueue (((\<lambda>e. queue_settle now (queue_take e)) ^^ n) e) = drop n (en_eventQueue e) \<and>
         en_emitted (queue_take (((\<lambda>e. queue_settle now (queue_take e)) ^^ n) e)) = en_emitted e"
proof -
  let ?g = "\<lambda>e. queue_settle now (queue_take e)"
  have "en_emitted ((?g ^^ n) e) = en_emitted e \<and> en_eventQueue ((?g ^^ n) e) = drop n (en_eventQueue e) \<and>
      en_pausedSources ((?g ^^ n) e) = en_pausedSources e \<and> en_queueLowWaterMark ((?g ^^ n) e) = en_queueLowWaterMark e"
    using assms(3)
  proof (induction n)
    case (Suc n)
    let ?e = "(?g ^^ n) e"
    have IH: "en_emitted ?e = en_emitted e" "en_eventQueue ?e = drop n (en_eventQueue e)" "en_pausedSources ?e = en_pausedSources e"
      "en_queueLowWaterMark ?e = en_queueLowWaterMark e" using Suc by auto
    have "n < length (en_eventQueue e)" using Suc.prems assms(4) by linarith
    then obtain q where q: "en_eventQueue ?e = q # drop (Suc n) (en_eventQueue e)" using IH(2) by (metis Cons_nth_drop_Suc)
    note t = paused_take [OF q] 
    have "int (length (drop (Suc n) (en_eventQueue e))) > en_queueLowWaterMark e" using Suc.prems assms(4) by simp
    with t assms(1,2) IH show ?case by (simp add: queue_settle_def)
  qed simp
  moreover from this have "en_eventQueue ((?g ^^ n) e) \<noteq> []" using assms(3,4) by simp
  then obtain q qs where "en_eventQueue ((?g ^^ n) e) = q # qs" by (meson neq_Nil_conv)
  ultimately show ?thesis using paused_take(1) [of "(?g ^^ n) e" q qs] assms(1,2) by simp
qed

definition choked_engine :: engine where
  "choked_engine = (snd (subscribe ''A'' no_options idle_engine))
     \<lparr>en_pausedSources := [SHorizon, SSoroban], en_inBackpressure := True, en_queueLowWaterMark := 1,
      en_eventQueue := replicate 3 (pending_payment ''A'' ''B'', None)\<rparr>"

theorem backpressure_discards_witness:
  "en_emitted (queue_take (((\<lambda>e. queue_settle ''t'' (queue_take e)) ^^ 1) choked_engine)) = en_emitted choked_engine"
  using backpressure_discards [of choked_engine 1 "''t''"] by (simp add: choked_engine_def)

text \<open>
  leaving backpressure resumes a source the user had paused. If the caller paused Soroban before the queue
  filled up, the drain resumes it together with Horizon.
\<close>

theorem resume_overrides_user:
  assumes "SSoroban \<in> set (en_pausedSources e)" "SHorizon \<notin> set (en_pausedSources e)" "\<not> en_inBackpressure e"
    and "en_queuePolicy e = PolicyPause" "sourceOf (fst q) = SHorizon"
    and "int (length (en_eventQueue e)) \<ge> en_queueHighWaterMark e" "int (length (en_eventQueue e)) \<le> en_queueLowWaterMark e"
    and "en_eventQueue e \<noteq> []"
  shows "SSoroban \<notin> set (en_pausedSources (queue_settle now (queue_take (snd (queue_push now q e)))))"
proof -
  let ?e = "snd (queue_push now q e)"
  have p: "en_inBackpressure ?e" "en_wePausedSources ?e" "en_queueLowWaterMark ?e = en_queueLowWaterMark e"
    "en_eventQueue ?e = en_eventQueue e @ [q]"
    using assms by (simp_all add: queue_push_def Let_def)
  obtain q0 qs where q0: "en_eventQueue e = q0 # qs" using assms(8) by (cases "en_eventQueue e") auto
  have "en_inBackpressure (queue_take ?e)" "en_wePausedSources (queue_take ?e)"
    "int (length (en_eventQueue (queue_take ?e))) \<le> en_queueLowWaterMark (queue_take ?e)"
    using p q0 assms(7) by (simp_all add: queue_take_def)
  then show ?thesis by (simp add: queue_settle_def Let_def pause_both)
qed

theorem resume_overrides_user_witness:
  "SSoroban \<notin> set (en_pausedSources (queue_settle ''t'' (queue_take (snd (queue_push ''t'' (pending_payment ''A'' ''B'', None)
     (idle_engine\<lparr>en_pausedSources := [SSoroban], en_queueHighWaterMark := 1, en_queueLowWaterMark := 1,
        en_eventQueue := [(pending_payment ''A'' ''B'', None)]\<rparr>))))))"
  using resume_overrides_user [of "idle_engine\<lparr>en_pausedSources := [SSoroban], en_queueHighWaterMark := 1, en_queueLowWaterMark := 1,
        en_eventQueue := [(pending_payment ''A'' ''B'', None)]\<rparr>" "(pending_payment ''A'' ''B'', None)" "''t''"]
  by (simp add: idle_engine_def sourceOf_def is_contract_event_def pending_payment_def)

text \<open>
  a resume in the middle of backpressure removes the bound. Once the caller resumes a paused source while
  the queue is over its mark, every further arrival is queued: the policy pauses only on entering backpressure.
\<close>

theorem resume_unbounded:
  assumes "en_queuePolicy e = PolicyPause" "en_inBackpressure e" "\<forall>q \<in> set qs. sourceOf (fst q) \<notin> set (en_pausedSources e)"
  shows "en_eventQueue (fold (\<lambda>q. queue_step (QArrive now q)) qs e) = en_eventQueue e @ qs"
  using assms
proof (induction qs arbitrary: e)
  case (Cons q qs)
  have "queue_step (QArrive now q) e = e\<lparr>en_eventQueue := en_eventQueue e @ [q]\<rparr>"
    using Cons.prems by (simp add: queue_push_def)
  with Cons.IH [of "e\<lparr>en_eventQueue := en_eventQueue e @ [q]\<rparr>"] Cons.prems show ?case by simp
qed simp

theorem resume_unbounded_witness:
  "length (en_eventQueue (fold (\<lambda>q. queue_step (QArrive ''t'' q)) (replicate 50 (pending_payment ''A'' ''B'', None))
     (resumeSource SHorizon choked_engine))) = 53"
proof -
  have "sourceOf (pending_payment ''A'' ''B'') = SHorizon" by (simp add: sourceOf_def is_contract_event_def pending_payment_def)
  then have "en_eventQueue (fold (\<lambda>q. queue_step (QArrive ''t'' q)) (replicate 50 (pending_payment ''A'' ''B'', None))
      (resumeSource SHorizon choked_engine)) = en_eventQueue (resumeSource SHorizon choked_engine) @ replicate 50 (pending_payment ''A'' ''B'', None)"
    by (intro resume_unbounded)
      (auto simp: choked_engine_def resumeSource_def subscribe_def new_sub_defs idle_engine_def)
  then show ?thesis by (simp add: choked_engine_def resumeSource_def)
qed

end
