(* ===== verification/Engine_Stream.thy ===== *)
theory Engine_Stream
  imports Event_Queue Retry
begin

text \<open>
  The Horizon stream of the engine: \<open>start\<close>, \<open>stop\<close>, \<open>openStream\<close> with its message handler, reconnection
  with backoff and rate limiting, cursor persistence, the health check and the activation waiters of contract
  subscriptions (\<^verbatim>\<open>packages/pulse-core/src/EventEngine.ts\<close>).

  Promises are explicit: \<open>ls_pendingOpens\<close> holds the epochs of the cursor lookups that openings of the stream
  are waiting for, \<open>ls_pendingWrites\<close> the cursor writes in flight, and \<open>ls_reconnectTimer\<close> the delay of the armed
  timer. \<open>ls_streams\<close> counts the open server streams. A stream that was closed calls back no more. The wall
  clock, \<open>Math.random\<close> and the parser of dates are arguments.
\<close>

record lifecycle =
  ls_engine :: engine
  ls_stopStream :: bool
  ls_streams :: nat
  ls_reconnectTimer :: "int option"
  ls_reconnectAttempt :: int
  ls_pendingReconnectSuccess :: "int option"
  ls_initialDelayMs :: rat
  ls_maxDelayMs :: rat
  ls_maxRetries :: "int option"
  ls_streamEpoch :: nat
  ls_pendingOpens :: "nat list"
  ls_stopGeneration :: nat
  ls_lastEventAt :: "js_value option"
  ls_horizonCursor :: "string option"
  ls_cursorStore :: bool
  ls_stored :: "string option"
  ls_pendingWrites :: "string list"
  ls_cursorFailureThreshold :: int
  ls_consecutiveCursorFailures :: int
  ls_isCursorStoreUnhealthy :: bool
  ls_effectiveIngestion :: transport

abbreviation upd_engine :: "(engine \<Rightarrow> engine) \<Rightarrow> lifecycle \<Rightarrow> lifecycle" where
  "upd_engine f s \<equiv> s\<lparr>ls_engine := f (ls_engine s)\<rparr>"

abbreviation is_running :: "lifecycle \<Rightarrow> bool" where
  "is_running s \<equiv> en_isRunning (ls_engine s)"

section \<open>Opening and closing\<close>

definition closeStream :: "lifecycle \<Rightarrow> lifecycle" where
  "closeStream s = (if ls_stopStream s then s\<lparr>ls_stopStream := False, ls_streams := ls_streams s - 1\<rparr> else s)"

definition clearReconnectTimer :: "lifecycle \<Rightarrow> lifecycle" where
  "clearReconnectTimer s = s\<lparr>ls_reconnectTimer := None\<rparr>"

definition openServerStream :: "lifecycle \<Rightarrow> lifecycle" where
  "openServerStream s = s\<lparr>ls_stopStream := True, ls_streams := Suc (ls_streams s)\<rparr>"

definition openStream :: "bool \<Rightarrow> lifecycle \<Rightarrow> lifecycle" where
  "openStream isReconnect s =
     (let s = clearReconnectTimer (closeStream s);
          s = (upd_engine (\<lambda>e. e\<lparr>en_isRunning := True\<rparr>) s)
                \<lparr>ls_horizonCursor := Some ''now'',
                 ls_pendingReconnectSuccess := (if isReconnect then Some (ls_reconnectAttempt s) else None),
                 ls_streamEpoch := Suc (ls_streamEpoch s)\<rparr>
      in if \<not> ls_cursorStore s then openServerStream s
         else s\<lparr>ls_pendingOpens := ls_pendingOpens s @ [ls_streamEpoch s]\<rparr>)"

text \<open>\<open>resolveStreamCursor\<close> settles for one pending opening; \<open>None\<close> is a store without a cursor or a failing read.\<close>

definition streamCursorResolved :: "nat \<Rightarrow> string option \<Rightarrow> lifecycle \<Rightarrow> lifecycle" where
  "streamCursorResolved epoch cursor s =
     (if epoch \<in> set (ls_pendingOpens s) then
        let s = s\<lparr>ls_pendingOpens := removeAll epoch (ls_pendingOpens s)\<rparr>
        in if epoch \<noteq> ls_streamEpoch s \<or> \<not> is_running s then s
           else openServerStream (s\<lparr>ls_horizonCursor := Some (case cursor of Some c \<Rightarrow> c | None \<Rightarrow> ''now'')\<rparr>)
      else s)"

datatype start_error = EngineAlreadyStarted | NetworkMismatch string string

definition start :: "bool \<Rightarrow> string option \<Rightarrow> string \<Rightarrow> lifecycle \<Rightarrow> (start_error, bool \<times> lifecycle) result" where
  "start strict cachedPassphrase expected s =
     (if is_running s \<or> ls_reconnectTimer s \<noteq> None then
        (if strict then Inl EngineAlreadyStarted else Inr (False, s))
      else case cachedPassphrase of
          Some p \<Rightarrow>
            if p \<noteq> expected then Inl (NetworkMismatch expected p) else Inr (True, openStream False s)
        | None \<Rightarrow> Inr (True, openStream False s))"

text \<open>\<open>stop\<close>, with the awaited shutdown of the Soroban subscriber.\<close>

definition stop :: "string \<Rightarrow> lifecycle \<Rightarrow> lifecycle" where
  "stop now s =
     (let s = clearReconnectTimer (s\<lparr>ls_stopGeneration := Suc (ls_stopGeneration s)\<rparr>);
          s = closeStream (s\<lparr>ls_pendingReconnectSuccess := None, ls_reconnectAttempt := 0, ls_lastEventAt := None\<rparr>);
          s = upd_engine (\<lambda>e. e\<lparr>en_isRunning := False, en_pausedSources := [],
                en_sorobanSubscriber := map_option (\<lambda>_. False) (en_sorobanSubscriber e)\<rparr>) (s\<lparr>ls_horizonCursor := None\<rparr>);
          s = upd_engine (notifyWatchers ''engine.stopped'' (notification ''engine.stopped'' 0 [(''emittedAt'', JStr now)])) s
      in upd_engine (\<lambda>e. fold (\<lambda>(_, w). watcher_stop w) (en_registry e) e) s)"

section \<open>Reconnection\<close>

definition getNumericField :: "js_value \<Rightarrow> string \<Rightarrow> int option" where
  "getNumericField record f = (case js_field f record of JNum n \<Rightarrow> Some n | _ \<Rightarrow> None)"

definition getStringField :: "js_value \<Rightarrow> string \<Rightarrow> string option" where
  "getStringField record f = (case js_field f record of JStr x \<Rightarrow> Some x | _ \<Rightarrow> None)"

definition isRecord :: "js_value \<Rightarrow> bool" where
  "isRecord v \<longleftrightarrow> js_typeof_object v \<and> v \<noteq> JNull"

definition or_else :: "'a option \<Rightarrow> 'a option \<Rightarrow> 'a option" where
  "or_else a b = (case a of Some x \<Rightarrow> Some x | None \<Rightarrow> b)"

definition extractStatus :: "js_value \<Rightarrow> int option" where
  "extractStatus err =
     (if \<not> isRecord err then None
      else or_else (getNumericField err ''status'')
        (or_else (getNumericField err ''statusCode'')
          (if isRecord (js_field ''response'' err)
           then or_else (getNumericField (js_field ''response'' err) ''status'') (getNumericField (js_field ''response'' err) ''statusCode'')
           else None)))"

definition isRateLimitError :: "js_value \<Rightarrow> bool" where
  "isRateLimitError err \<longleftrightarrow> extractStatus err = Some 429"

text \<open>A headers value with a \<open>get\<close> method is known by the argument \<open>header_map\<close>, every other by its fields.\<close>

type_synonym header_map = "js_value \<Rightarrow> (string \<Rightarrow> string option) option"

definition nonempty_opt :: "string option \<Rightarrow> string option" where
  "nonempty_opt s = (if s = Some [] then None else s)"

definition getHeaderValueFromHeaders :: "header_map \<Rightarrow> js_value \<Rightarrow> string \<Rightarrow> string option" where
  "getHeaderValueFromHeaders header_map headers headerName =
     (case header_map headers of
        Some get \<Rightarrow> or_else (get headerName) (get (toLowerCase headerName))
      | None \<Rightarrow>
          if \<not> isRecord headers then None
          else or_else (getStringField headers headerName) (getStringField headers (toLowerCase headerName)))"

definition getHeaderValue :: "header_map \<Rightarrow> js_value \<Rightarrow> string \<Rightarrow> string option" where
  "getHeaderValue header_map err headerName =
     (if \<not> isRecord err then None
      else let response = js_field ''response'' err;
               responseHeaders = (if isRecord response \<and> isRecord (js_field ''headers'' response) then js_field ''headers'' response else JUndefined)
        in or_else (nonempty_opt (or_else (getStringField err headerName) (getStringField err (toLowerCase headerName))))
             (or_else (nonempty_opt (getHeaderValueFromHeaders header_map (js_field ''headers'' err) headerName))
               (nonempty_opt (getHeaderValueFromHeaders header_map responseHeaders headerName))))"

definition parseRetryAfterMs :: "header_map \<Rightarrow> (string \<Rightarrow> int option) \<Rightarrow> int \<Rightarrow> js_value \<Rightarrow> int option" where
  "parseRetryAfterMs header_map parse_date now err =
     (case getHeaderValue header_map err ''Retry-After'' of
        None \<Rightarrow> None
      | Some header \<Rightarrow>
          (case parseInt header of
             Some seconds \<Rightarrow> Some (seconds * 1000)
           | None \<Rightarrow> map_option (\<lambda>date. max (date - now) 0) (parse_date header)))"

record environment =
  env_header_map :: header_map
  env_parse_date :: "string \<Rightarrow> int option"
  env_now :: int
  env_now_iso :: string
  env_random :: rat

definition handleStreamError :: "environment \<Rightarrow> js_value \<Rightarrow> lifecycle \<Rightarrow> lifecycle" where
  "handleStreamError env err s =
     (if ls_reconnectTimer s \<noteq> None then s
      else let s = (upd_engine (\<lambda>e. e\<lparr>en_isRunning := False\<rparr>) (closeStream s))\<lparr>ls_pendingReconnectSuccess := None\<rparr>;
               nextAttempt = ls_reconnectAttempt s + 1
        in if (case ls_maxRetries s of Some m \<Rightarrow> nextAttempt > m | None \<Rightarrow> False) then s
           else let s = s\<lparr>ls_reconnectAttempt := nextAttempt\<rparr>;
                    limited = isRateLimitError err;
                    delayMs = (if limited
                               then (case parseRetryAfterMs (env_header_map env) (env_parse_date env) (env_now env) err of Some d \<Rightarrow> d | None \<Rightarrow> 60000)
                               else fullJitterBackoffMs (env_random env) nextAttempt (ls_initialDelayMs s) (ls_maxDelayMs s));
                    t = (if limited then ''engine.rate_limited'' else ''engine.reconnecting'');
                    s = upd_engine (notifyWatchers t (notification t nextAttempt
                          [(''delayMs'', JNum delayMs), (''source'', JStr ''horizon''), (''emittedAt'', JStr (env_now_iso env))])) s
             in s\<lparr>ls_reconnectTimer := Some delayMs\<rparr>)"

definition reconnectTimerFires :: "lifecycle \<Rightarrow> lifecycle" where
  "reconnectTimerFires s = (if ls_reconnectTimer s = None then s else openStream True (s\<lparr>ls_reconnectTimer := None\<rparr>))"

section \<open>Cursors\<close>

definition getHorizonCursor :: "js_value \<Rightarrow> string option" where
  "getHorizonCursor record =
     (if \<not> isRecord record then None else or_else (getStringField record ''paging_token'') (getStringField record ''pagingToken''))"

text \<open>\<open>persistHorizonCursor\<close> up to its \<open>await\<close>, and the two ways the write can settle.\<close>

definition persistHorizonCursor :: "string \<Rightarrow> lifecycle \<Rightarrow> lifecycle" where
  "persistHorizonCursor cursor s =
     (if \<not> ls_cursorStore s then s
      else if ls_isCursorStoreUnhealthy s then s
      else s\<lparr>ls_pendingWrites := ls_pendingWrites s @ [cursor]\<rparr>)"

definition remove_at :: "nat \<Rightarrow> 'a list \<Rightarrow> 'a list" where
  "remove_at i xs = take i xs @ drop (Suc i) xs"

definition cursorWritten :: "nat \<Rightarrow> lifecycle \<Rightarrow> lifecycle" where
  "cursorWritten i s =
     (if i < length (ls_pendingWrites s)
      then s\<lparr>ls_stored := Some (ls_pendingWrites s ! i), ls_pendingWrites := remove_at i (ls_pendingWrites s),
             ls_consecutiveCursorFailures := 0, ls_isCursorStoreUnhealthy := False\<rparr>
      else s)"

definition handleCursorFailure :: "string \<Rightarrow> lifecycle \<Rightarrow> lifecycle" where
  "handleCursorFailure now s =
     (let s = s\<lparr>ls_consecutiveCursorFailures := ls_consecutiveCursorFailures s + 1\<rparr>
      in if ls_consecutiveCursorFailures s \<ge> ls_cursorFailureThreshold s
         then upd_engine (notifyWatchers ''engine.cursor_store_unhealthy''
                (notification ''engine.cursor_store_unhealthy'' 0 [(''emittedAt'', JStr now)]))
              (s\<lparr>ls_isCursorStoreUnhealthy := True\<rparr>)
         else s)"

definition cursorWriteFailed :: "string \<Rightarrow> nat \<Rightarrow> lifecycle \<Rightarrow> lifecycle" where
  "cursorWriteFailed now i s =
     (if i < length (ls_pendingWrites s)
      then handleCursorFailure now (s\<lparr>ls_pendingWrites := remove_at i (ls_pendingWrites s)\<rparr>) else s)"

section \<open>Messages\<close>

definition message_accepted :: "js_value \<Rightarrow> lifecycle \<Rightarrow> bool" where
  "message_accepted record s \<longleftrightarrow>
     (case horizonEventFamily record of Some f \<Rightarrow> resolveFamilyTransport f (ls_effectiveIngestion s) \<noteq> TUnified | None \<Rightarrow> True)"

definition message_tag :: "js_value \<Rightarrow> (string \<times> DedupeTransport) option" where
  "message_tag record =
     (if horizonEventFamily record \<in> {Some FPayment, Some FTrustlineAuth}
      then map_option (\<lambda>ref. (deriveDedupeKey ref, Horizon)) (deriveHorizonDedupeRef record) else None)"

text \<open>The handler; a thrown exception leaves the state it had reached.\<close>

definition onmessage :: "resolve_semantic \<Rightarrow> string \<Rightarrow> js_value \<Rightarrow> lifecycle \<Rightarrow> normalize_error option \<times> lifecycle" where
  "onmessage sem now record s =
     (let s = s\<lparr>ls_lastEventAt := Some (JStr now)\<rparr>;
          s = (case ls_pendingReconnectSuccess s of
                 None \<Rightarrow> s
               | Some attempt \<Rightarrow>
                   upd_engine (notifyWatchers ''engine.reconnected'' (notification ''engine.reconnected'' attempt [(''emittedAt'', JStr now)]))
                     (s\<lparr>ls_pendingReconnectSuccess := None, ls_reconnectAttempt := 0\<rparr>));
          s = (case getHorizonCursor record of
                 None \<Rightarrow> s
               | Some cursor \<Rightarrow> persistHorizonCursor cursor (s\<lparr>ls_horizonCursor := Some cursor\<rparr>))
      in case normalize sem record of
           Inl err \<Rightarrow> (Some err, s)
         | Inr NDropped \<Rightarrow> (None, s)
         | Inr (NUnrecognized t) \<Rightarrow> (None, upd_engine (emitUnrecognizedOperationType t record) s)
         | Inr (NEvent event) \<Rightarrow>
             (let s = s\<lparr>ls_lastEventAt := Some (js_field ''timestamp'' event)\<rparr>
              in if \<not> message_accepted record s then (None, s)
                 else (None, upd_engine (enqueueEvent now (event, message_tag record)) s)))"

section \<open>Health\<close>

definition stale_reason :: "string \<Rightarrow> int \<Rightarrow> int \<Rightarrow> string" where
  "stale_reason source age threshold =
     source @ '': last event was '' @ show_int (age div 1000) @ ''s ago (threshold '' @ show_int (threshold div 1000) @ ''s)''"

text \<open>\<open>new Date(x).getTime()\<close> is \<open>None\<close> for \<open>NaN\<close>, which is larger than no threshold.\<close>

definition freshness :: "(string \<Rightarrow> int option) \<Rightarrow> int \<Rightarrow> int \<Rightarrow> string \<Rightarrow> js_value option \<Rightarrow> string list" where
  "freshness parse_date now threshold source lastEventAt =
     (case lastEventAt of
        None \<Rightarrow> [source @ '': no events received yet'']
      | Some v \<Rightarrow>
          (case parse_date (js_String v) of
             Some at_ms \<Rightarrow> if now - at_ms > threshold then [stale_reason source (now - at_ms) threshold] else []
           | None \<Rightarrow> []))"

definition healthCheck ::
  "(string \<Rightarrow> int option) \<Rightarrow> int \<Rightarrow> int \<Rightarrow> js_value option \<Rightarrow> string option \<Rightarrow> lifecycle \<Rightarrow> bool \<times> string list"
where
  "healthCheck parse_date now threshold sorobanLastEventAt pingError s =
     (let reasons =
        (if \<not> is_running s then [''horizon source is not running''] else []) @
        freshness parse_date now threshold ''horizon source'' (ls_lastEventAt s) @
        (case en_sorobanSubscriber (ls_engine s) of
           None \<Rightarrow> []
         | Some running \<Rightarrow>
             (if \<not> running then [''soroban subscriber is not running''] else []) @
             freshness parse_date now threshold ''soroban subscriber'' sorobanLastEventAt) @
        (case pingError of Some msg \<Rightarrow> [''cursorStore: '' @ msg] | None \<Rightarrow> [])
      in (reasons = [], reasons))"

section \<open>Waiting for a contract subscription\<close>

record waiter =
  wt_id :: nat
  wt_topics :: "string list option"

type_synonym waiters = "(string, waiter list) js_map"

definition awaitContractSubscriptionActive :: "string \<Rightarrow> waiter \<Rightarrow> waiters \<Rightarrow> waiters" where
  "awaitContractSubscriptionActive contractId w m =
     map_set contractId ((case map_get m contractId of Some ws \<Rightarrow> ws | None \<Rightarrow> []) @ [w]) m"

definition clearContractWaiter :: "string \<Rightarrow> nat \<Rightarrow> waiters \<Rightarrow> waiters" where
  "clearContractWaiter contractId wid m =
     (case map_get m contractId of
        None \<Rightarrow> m
      | Some ws \<Rightarrow>
          (let ws' = (case List.find (\<lambda>w. wt_id w = wid) ws of Some w \<Rightarrow> remove1 w ws | None \<Rightarrow> ws)
           in if ws' = [] then map_del contractId m else map_set contractId ws' m))"

definition waiter_covered :: "string list option \<Rightarrow> waiter \<Rightarrow> bool" where
  "waiter_covered polled w =
     (case wt_topics w of
        None \<Rightarrow> True
      | Some [] \<Rightarrow> True
      | Some want \<Rightarrow> (case polled of None \<Rightarrow> True | Some [] \<Rightarrow> True | Some ps \<Rightarrow> list_all (\<lambda>t. t \<in> set ps) want))"

text \<open>The waiters resolved, in order, and the map after it.\<close>

definition notifyContractPolled :: "string \<Rightarrow> string list option \<Rightarrow> waiters \<Rightarrow> nat list \<times> waiters" where
  "notifyContractPolled contractId polled m =
     (case map_get m contractId of
        None \<Rightarrow> ([], m)
      | Some ws \<Rightarrow>
          fold (\<lambda>w (done_ids, m). if waiter_covered polled w then (done_ids @ [wt_id w], clearContractWaiter contractId (wt_id w) m) else (done_ids, m))
            ws ([], m))"

section \<open>At most one stream\<close>

datatype stream_op =
    LStart bool "string option" string
  | LStop string
  | LError environment js_value
  | LTimer
  | LResolved nat "string option"
  | LMessage resolve_semantic string js_value
  | LWritten nat
  | LWriteFailed string nat

fun stream_step :: "stream_op \<Rightarrow> lifecycle \<Rightarrow> lifecycle" where
  "stream_step (LStart strict cached expected) s = (case start strict cached expected s of Inr (_, s') \<Rightarrow> s' | Inl _ \<Rightarrow> s)"
| "stream_step (LStop now) s = stop now s"
| "stream_step (LError env err) s = handleStreamError env err s"
| "stream_step LTimer s = reconnectTimerFires s"
| "stream_step (LResolved epoch cursor) s = streamCursorResolved epoch cursor s"
| "stream_step (LMessage sem now record) s = snd (onmessage sem now record s)"
| "stream_step (LWritten i) s = cursorWritten i s"
| "stream_step (LWriteFailed now i) s = cursorWriteFailed now i s"

definition stream_inv :: "lifecycle \<Rightarrow> bool" where
  "stream_inv s \<longleftrightarrow>
     ls_streams s = (if ls_stopStream s then 1 else 0) \<and>
     (ls_stopStream s \<longrightarrow> is_running s) \<and>
     (ls_reconnectTimer s \<noteq> None \<longrightarrow> \<not> is_running s) \<and>
     (\<forall>x \<in> set (ls_pendingOpens s). x \<le> ls_streamEpoch s) \<and>
     (ls_stopStream s \<longrightarrow> ls_streamEpoch s \<notin> set (ls_pendingOpens s))"

text \<open>What the engine's own operations leave alone.\<close>

lemma emit_isRunning [simp]: "en_isRunning (watcher_emit w t v e) = en_isRunning e"
  by (simp add: watcher_emit_def)

lemma fold_isRunning: "(\<And>p e. en_isRunning (f p e) = en_isRunning e) \<Longrightarrow> en_isRunning (fold f ps e) = en_isRunning e"
  by (induction ps arbitrary: e) auto

lemma notify_isRunning [simp]: "en_isRunning (notifyWatchers t v e) = en_isRunning e"
  unfolding notifyWatchers_def Let_def
  by (subst fold_isRunning, simp add: case_prod_beta, subst fold_isRunning, simp add: case_prod_beta, simp)

lemma unrecognized_isRunning [simp]: "en_isRunning (emitUnrecognizedOperationType t v e) = en_isRunning e"
  unfolding emitUnrecognizedOperationType_def Let_def
  by (subst fold_isRunning, simp add: case_prod_beta, subst fold_isRunning, simp add: case_prod_beta, simp)

lemma handler_isRunning [simp]: "en_isRunning (run_stop_handler h e) = en_isRunning e"
  by (cases h) (simp_all add: Let_def)

lemma stop_isRunning [simp]: "en_isRunning (watcher_stop w e) = en_isRunning e"
  by (simp add: watcher_stop_def Let_def fold_isRunning)

lemma deliver_isRunning [simp]: "en_isRunning (deliver a v e) = en_isRunning e"
  by (simp add: deliver_def emit_both_def split: js_value.splits option.splits)

lemma claimants_isRunning: "en_isRunning (snd (fold (route_claimant v) ds acc)) = en_isRunning (snd acc)"
proof (induction ds arbitrary: acc)
  case (Cons d ds)
  have "en_isRunning (snd (route_claimant v d acc)) = en_isRunning (snd acc)"
    by (cases acc) (simp add: route_claimant_def emit_both_def split: js_value.splits option.splits)
  with Cons show ?case by simp
qed simp

lemma classic_isRunning [simp]: "en_isRunning (route_classic v e) = en_isRunning e"
proof -
  have "en_isRunning (case fold (route_claimant v) ds ([], e) of (n, e') \<Rightarrow> if s \<in> set n then e' else deliver s v e') = en_isRunning e" for ds s
    using claimants_isRunning [of v ds "([], e)"] by (simp add: case_prod_beta)
  then show ?thesis by (simp add: route_classic_def route_payment_def Let_def)
qed

lemma route_isRunning [simp]: "en_isRunning (route q e) = en_isRunning e"
proof -
  have "en_isRunning (dispatchContractEvent v e) = en_isRunning e" for v e
    unfolding dispatchContractEvent_def by (rule fold_isRunning) (simp add: case_prod_beta emit_both_def)
  moreover have "en_isRunning (snd (dedupe_check tag e)) = en_isRunning e" for tag e
    by (simp add: dedupe_check_def case_prod_beta split: option.splits)
  ultimately show ?thesis by (simp add: route_def route_contract_def case_prod_beta split: prod.splits)
qed

lemma queue_isRunning [simp]:
  "en_isRunning (queue_settle now e) = en_isRunning e" "en_isRunning (queue_take e) = en_isRunning e"
  "en_isRunning (snd (queue_push now q e)) = en_isRunning e"
  by (auto simp: queue_settle_def queue_take_def queue_push_def notifyBackpressure_def resumeSource_def pauseSource_def Let_def
      split: list.splits queue_policy.splits)

lemma drain_isRunning: "en_isRunning (queue_drain n now e) = en_isRunning e"
  by (induction n arbitrary: e) simp_all

lemma enqueue_isRunning [simp]: "en_isRunning (enqueueEvent now q e) = en_isRunning e"
  by (simp add: enqueueEvent_def processQueue_def case_prod_beta drain_isRunning)

lemma message_stream_fields:
  "ls_streams (snd (onmessage sem now r s)) = ls_streams s" "ls_stopStream (snd (onmessage sem now r s)) = ls_stopStream s"
  "is_running (snd (onmessage sem now r s)) = is_running s" "ls_reconnectTimer (snd (onmessage sem now r s)) = ls_reconnectTimer s"
  "ls_pendingOpens (snd (onmessage sem now r s)) = ls_pendingOpens s" "ls_streamEpoch (snd (onmessage sem now r s)) = ls_streamEpoch s"
  "ls_maxRetries (snd (onmessage sem now r s)) = ls_maxRetries s"
  "ls_reconnectAttempt (snd (onmessage sem now r s)) = (if ls_pendingReconnectSuccess s = None then ls_reconnectAttempt s else 0)"
  "ls_pendingReconnectSuccess (snd (onmessage sem now r s)) = None"
  by (auto simp: onmessage_def Let_def persistHorizonCursor_def split: option.splits sum.splits normalized.splits)

lemma fold_stop_isRunning [simp]: "en_isRunning (fold (\<lambda>(_, w). watcher_stop w) ps e) = en_isRunning e"
  by (rule fold_isRunning) (simp add: case_prod_beta)

lemma stream_inv_step: "stream_inv s \<Longrightarrow> stream_inv (stream_step op s)"
proof (cases op)
  case (LStart strict cached expected)
  assume "stream_inv s"
  with LStart show ?thesis
    by (auto simp: start_def openStream_def openServerStream_def closeStream_def clearReconnectTimer_def stream_inv_def Let_def
        split: option.splits if_splits)
next
  case LTimer
  assume "stream_inv s"
  with LTimer show ?thesis
    by (auto simp: reconnectTimerFires_def openStream_def openServerStream_def closeStream_def clearReconnectTimer_def stream_inv_def Let_def)
next
  case (LMessage sem now r)
  assume "stream_inv s"
  with LMessage show ?thesis by (simp add: stream_inv_def message_stream_fields)
next
  case (LWriteFailed now i)
  assume "stream_inv s"
  with LWriteFailed show ?thesis by (auto simp: cursorWriteFailed_def handleCursorFailure_def stream_inv_def Let_def)
qed (auto simp: stop_def handleStreamError_def streamCursorResolved_def openServerStream_def closeStream_def clearReconnectTimer_def
      cursorWritten_def stream_inv_def Let_def)

lemma stream_inv_run: "stream_inv s \<Longrightarrow> stream_inv (fold stream_step ops s)"
  by (induction ops arbitrary: s) (simp_all add: stream_inv_step)

definition stream_fresh :: "lifecycle \<Rightarrow> bool" where
  "stream_fresh s \<longleftrightarrow> \<not> ls_stopStream s \<and> ls_streams s = 0 \<and> ls_reconnectTimer s = None \<and> ls_pendingOpens s = [] \<and>
     ls_reconnectAttempt s = 0 \<and> ls_pendingReconnectSuccess s = None"

text \<open>
  C9: the engine never has two streams. In every interleaving of starts, stops, messages, errors, timer firings
  and late cursor lookups at most one server stream is open, an armed reconnect timer excludes an
  open stream, and an open stream means that the engine is running.
\<close>

theorem at_most_one_stream:
  assumes "stream_fresh s0" and s: "s = fold stream_step ops s0"
  shows "ls_streams s \<le> 1 \<and> (ls_reconnectTimer s \<noteq> None \<longrightarrow> ls_streams s = 0 \<and> \<not> is_running s) \<and> (ls_streams s = 1 \<longrightarrow> is_running s)"
proof -
  have "stream_inv s0" using assms(1) by (simp add: stream_fresh_def stream_inv_def)
  from stream_inv_run [OF this, of ops] show ?thesis unfolding s [symmetric] by (auto simp: stream_inv_def split: if_splits)
qed

definition idle_lifecycle :: lifecycle where
  "idle_lifecycle =
     \<lparr>ls_engine = idle_engine, ls_stopStream = False, ls_streams = 0, ls_reconnectTimer = None, ls_reconnectAttempt = 0,
      ls_pendingReconnectSuccess = None, ls_initialDelayMs = 1000, ls_maxDelayMs = 30000, ls_maxRetries = Some 2,
      ls_streamEpoch = 0, ls_pendingOpens = [], ls_stopGeneration = 0, ls_lastEventAt = None, ls_horizonCursor = None,
      ls_cursorStore = True, ls_stored = None, ls_pendingWrites = [], ls_cursorFailureThreshold = 5,
      ls_consecutiveCursorFailures = 0, ls_isCursorStoreUnhealthy = False, ls_effectiveIngestion = THorizon\<rparr>"

theorem at_most_one_stream_witness:
  "ls_streams (fold stream_step [LStart False None ''n'', LStop ''t'', LStart False None ''n'', LResolved 1 None, LResolved 2 None] idle_lifecycle) \<le> 1"
  using at_most_one_stream [OF _ refl, of idle_lifecycle "[LStart False None ''n'', LStop ''t'', LStart False None ''n'', LResolved 1 None, LResolved 2 None]"]
  by (simp add: stream_fresh_def idle_lifecycle_def)

section \<open>Retries\<close>

lemma error_fields:
  assumes "ls_reconnectTimer s = None" "ls_maxRetries s = Some m"
  shows "ls_reconnectAttempt s < m \<Longrightarrow> ls_reconnectAttempt (handleStreamError env err s) = ls_reconnectAttempt s + 1 \<and>
           ls_reconnectTimer (handleStreamError env err s) \<noteq> None"
    "\<not> ls_reconnectAttempt s < m \<Longrightarrow> ls_reconnectTimer (handleStreamError env err s) = None \<and> \<not> is_running (handleStreamError env err s) \<and>
       ls_reconnectAttempt (handleStreamError env err s) = ls_reconnectAttempt s"
    "ls_maxRetries (handleStreamError env err s) = Some m"
  using assms by (auto simp: handleStreamError_def closeStream_def Let_def)

lemma timer_fields:
  "ls_reconnectTimer (reconnectTimerFires s) = None" "ls_maxRetries (reconnectTimerFires s) = ls_maxRetries s"
  "ls_reconnectAttempt (reconnectTimerFires s) = ls_reconnectAttempt s"
  "ls_reconnectTimer s \<noteq> None \<Longrightarrow> is_running (reconnectTimerFires s)"
  by (auto simp: reconnectTimerFires_def openStream_def openServerStream_def closeStream_def clearReconnectTimer_def Let_def)

definition retry_cycle :: "environment \<times> js_value \<Rightarrow> lifecycle \<Rightarrow> lifecycle" where
  "retry_cycle p s = reconnectTimerFires (handleStreamError (fst p) (snd p) s)"

lemma retry_cycles:
  "ls_reconnectTimer s = None \<Longrightarrow> ls_maxRetries s = Some m \<Longrightarrow> ls_reconnectAttempt s + int (length ps) \<le> m \<Longrightarrow>
   ls_reconnectAttempt (fold retry_cycle ps s) = ls_reconnectAttempt s + int (length ps) \<and>
   ls_reconnectTimer (fold retry_cycle ps s) = None \<and> ls_maxRetries (fold retry_cycle ps s) = Some m \<and>
   (ps \<noteq> [] \<longrightarrow> is_running (fold retry_cycle ps s))"
proof (induction ps arbitrary: s)
  case (Cons p ps)
  let ?s = "retry_cycle p s"
  note e = error_fields [OF Cons.prems(1,2), of "fst p" "snd p"]
  have less: "ls_reconnectAttempt s < m" using Cons.prems(3) by simp
  have t: "ls_reconnectTimer ?s = None" "ls_maxRetries ?s = Some m" "ls_reconnectAttempt ?s = ls_reconnectAttempt s + 1" "is_running ?s"
    using e(1) [OF less] e(3) by (auto simp: retry_cycle_def timer_fields)
  from Cons.IH [OF t(1,2)] Cons.prems(3) t show ?case by (cases ps) auto
qed simp

text \<open>
  reconnection is attempted exactly \<open>maxRetries\<close> times in a row. While errors follow each other without a
  message, each of the first \<open>m\<close> arms the timer and reopens the stream; the next one leaves the engine
  stopped with no timer.
\<close>

theorem retries_bounded:
  assumes "ls_reconnectTimer s = None" "ls_maxRetries s = Some (int m)" "ls_reconnectAttempt s = 0" "length ps = m"
  shows "ls_reconnectAttempt (fold retry_cycle ps s) = int m \<and> (0 < m \<longrightarrow> is_running (fold retry_cycle ps s)) \<and>
         ls_reconnectTimer (handleStreamError env err (fold retry_cycle ps s)) = None \<and>
         \<not> is_running (handleStreamError env err (fold retry_cycle ps s))"
proof -
  note c = retry_cycles [OF assms(1,2), of ps]
  have "ls_reconnectAttempt (fold retry_cycle ps s) = int m" "ls_reconnectTimer (fold retry_cycle ps s) = None"
    "ls_maxRetries (fold retry_cycle ps s) = Some (int m)" "0 < m \<longrightarrow> is_running (fold retry_cycle ps s)"
    using c assms(3,4) by auto
  with error_fields(2) [of "fold retry_cycle ps s" "int m" env err] show ?thesis by simp
qed

definition sample_env :: environment where
  "sample_env = \<lparr>env_header_map = (\<lambda>_. None), env_parse_date = (\<lambda>_. None), env_now = 0, env_now_iso = ''t'', env_random = 0\<rparr>"

theorem retries_bounded_witness:
  "\<not> is_running (handleStreamError sample_env JNull (fold retry_cycle [(sample_env, JNull), (sample_env, JNull)] idle_lifecycle))"
  using retries_bounded [of idle_lifecycle 2 "[(sample_env, JNull), (sample_env, JNull)]" sample_env JNull]
  by (simp add: idle_lifecycle_def)

text \<open>
  after giving up, a restarted engine does not retry. \<open>start\<close> keeps the exhausted attempt counter, and a message
  resets it only on a reconnected stream: the first error after the restart is final, however many
  messages the new stream delivered.
\<close>

theorem restart_never_retries:
  assumes "ls_reconnectTimer s = None" "\<not> is_running s" "ls_maxRetries s = Some m" "ls_reconnectAttempt s = m"
    and st: "start strict None expected s = Inr (True, s1)"
    and s2: "s2 = fold (\<lambda>(sem, now, r) s. snd (onmessage sem now r s)) msgs s1"
  shows "is_running s1 \<and> ls_reconnectTimer (handleStreamError env err s2) = None \<and> \<not> is_running (handleStreamError env err s2)"
proof -
  have s1: "s1 = openStream False s" using st assms(1,2) by (simp add: start_def)
  have f: "is_running s1" "ls_reconnectTimer s1 = None" "ls_maxRetries s1 = Some m" "ls_reconnectAttempt s1 = m" "ls_pendingReconnectSuccess s1 = None"
    using assms by (auto simp: s1 openStream_def openServerStream_def closeStream_def clearReconnectTimer_def Let_def)
  have "ls_reconnectTimer s2 = None \<and> ls_maxRetries s2 = Some m \<and> ls_reconnectAttempt s2 = m"
    using f(2-) unfolding s2
    by (induction msgs arbitrary: s1) (auto simp: message_stream_fields)
  then show ?thesis using f(1) error_fields(2) [of s2 m env err] by simp
qed

theorem restart_never_retries_witness:
  "\<exists>s1. start False None ''n'' (idle_lifecycle\<lparr>ls_reconnectAttempt := 2\<rparr>) = Inr (True, s1) \<and>
     ls_reconnectTimer (handleStreamError sample_env JNull s1) = None"
proof -
  obtain s1 where s1: "start False None ''n'' (idle_lifecycle\<lparr>ls_reconnectAttempt := 2\<rparr>) = Inr (True, s1)"
    by (simp add: start_def idle_lifecycle_def idle_engine_def)
  with restart_never_retries [OF _ _ _ _ s1, of 2 s1 "[]" sample_env JNull] show ?thesis
    by (auto simp: idle_lifecycle_def idle_engine_def)
qed

text \<open>
  backoff delays are bounded. A delay that no \<open>Retry-After\<close> header sets lies between zero and the smaller of
  the exponential delay and the configured maximum.
\<close>

theorem backoff_bounded:
  assumes "0 \<le> random" "random < 1" "0 < initialDelayMs" "0 < maxDelayMs"
  shows "0 \<le> fullJitterBackoffMs random attempt initialDelayMs maxDelayMs \<and>
         rat_of_int (fullJitterBackoffMs random attempt initialDelayMs maxDelayMs) \<le> initialDelayMs * 2 powi (attempt - 1) \<and>
         rat_of_int (fullJitterBackoffMs random attempt initialDelayMs maxDelayMs) < maxDelayMs"
proof -
  let ?d = "min (initialDelayMs * 2 powi (attempt - 1)) maxDelayMs"
  have pos: "0 < ?d" using assms by (simp add: power_int_def)
  have f: "rat_of_int \<lfloor>random * ?d\<rfloor> \<le> random * ?d" by (rule of_int_floor_le)
  have "random * ?d < ?d" using mult_strict_right_mono [OF assms(2) pos] by (simp only: mult_1)
  with f have lt: "rat_of_int \<lfloor>random * ?d\<rfloor> < ?d" by linarith
  moreover have "0 \<le> \<lfloor>random * ?d\<rfloor>" using assms(1) pos by simp
  ultimately show ?thesis by (auto simp: fullJitterBackoffMs_def Let_def min_def split: if_splits)
qed

theorem backoff_bounded_witness:
  "fullJitterBackoffMs (1/2) 3 1000 30000 \<ge> 0"
  using backoff_bounded [of "1/2" 1000 30000 3] by simp

section \<open>Cursor persistence\<close>

lemma message_cursor_fields:
  "ls_isCursorStoreUnhealthy (snd (onmessage sem now r s)) = ls_isCursorStoreUnhealthy s"
  "ls_stored (snd (onmessage sem now r s)) = ls_stored s" "ls_cursorStore (snd (onmessage sem now r s)) = ls_cursorStore s"
  "ls_pendingWrites (snd (onmessage sem now r s)) = ls_pendingWrites s @
     (case getHorizonCursor r of Some c \<Rightarrow> if ls_cursorStore s \<and> \<not> ls_isCursorStoreUnhealthy s then [c] else [] | None \<Rightarrow> [])"
  by (auto simp: onmessage_def Let_def persistHorizonCursor_def split: option.splits sum.splits normalized.splits)

lemma unhealthy_step:
  assumes "ls_isCursorStoreUnhealthy s" "ls_pendingWrites s = []"
  shows "ls_isCursorStoreUnhealthy (stream_step op s) \<and> ls_pendingWrites (stream_step op s) = [] \<and> ls_stored (stream_step op s) = ls_stored s"
proof (cases op)
  case (LMessage sem now r)
  with assms show ?thesis by (simp add: message_cursor_fields split: option.splits)
qed (use assms in \<open>auto simp: start_def stop_def handleStreamError_def reconnectTimerFires_def streamCursorResolved_def openStream_def
    openServerStream_def closeStream_def clearReconnectTimer_def cursorWritten_def cursorWriteFailed_def Let_def split: option.splits\<close>)

text \<open>
  an unhealthy cursor store is never used again. Once the failure threshold is reached and no write is
  in flight, nothing clears the flag: through any number of messages, reconnects, stops and restarts no cursor is written.
\<close>

theorem unhealthy_is_permanent:
  assumes "ls_isCursorStoreUnhealthy s" "ls_pendingWrites s = []"
  shows "ls_isCursorStoreUnhealthy (fold stream_step ops s) \<and> ls_stored (fold stream_step ops s) = ls_stored s"
  using assms
proof (induction ops arbitrary: s)
  case (Cons op ops)
  with unhealthy_step [OF Cons.prems, of op] Cons.IH [of "stream_step op s"] show ?case by simp
qed simp

theorem unhealthy_is_permanent_witness:
  "ls_stored (fold stream_step [LStop ''t'', LStart False None ''n'', LMessage (\<lambda>_ _ _. None) ''t'' (JObj [(''paging_token'', JStr ''7'')])]
     (idle_lifecycle\<lparr>ls_isCursorStoreUnhealthy := True\<rparr>)) = None"
  using unhealthy_is_permanent [of "idle_lifecycle\<lparr>ls_isCursorStoreUnhealthy := True\<rparr>"
      "[LStop ''t'', LStart False None ''n'', LMessage (\<lambda>_ _ _. None) ''t'' (JObj [(''paging_token'', JStr ''7'')])]"]
  by (simp add: idle_lifecycle_def)

text \<open>
  concurrent cursor writes can move the cursor back. The writes of two consecutive messages are not
  serialised; when the store completes them in the other order, the older cursor is the one that stays.
\<close>

theorem cursor_moves_back:
  assumes "ls_cursorStore s" "\<not> ls_isCursorStoreUnhealthy s" "ls_pendingWrites s = []"
    and "getHorizonCursor r1 = Some c1" "getHorizonCursor r2 = Some c2"
    and s': "s' = snd (onmessage sem now2 r2 (snd (onmessage sem now1 r1 s)))"
  shows "ls_stored (cursorWritten 0 (cursorWritten 1 s')) = Some c1 \<and> ls_stored (cursorWritten 0 (cursorWritten 0 s')) = Some c2"
proof -
  have "ls_pendingWrites s' = [c1, c2]" using assms by (simp add: message_cursor_fields)
  then show ?thesis by (simp add: cursorWritten_def remove_at_def)
qed

theorem cursor_moves_back_witness:
  "ls_stored (cursorWritten 0 (cursorWritten 1 (snd (onmessage (\<lambda>_ _ _. None) ''t'' (JObj [(''paging_token'', JStr ''8'')])
     (snd (onmessage (\<lambda>_ _ _. None) ''t'' (JObj [(''paging_token'', JStr ''7'')]) idle_lifecycle)))))) = Some ''7''"
  using cursor_moves_back [OF _ _ _ _ _ refl, of idle_lifecycle "JObj [(''paging_token'', JStr ''7'')]" "''7''" "JObj [(''paging_token'', JStr ''8'')]" "''8''"
      "\<lambda>_ _ _. None" "''t''" "''t''"]
  by (simp add: idle_lifecycle_def getHorizonCursor_def isRecord_def getStringField_def or_else_def)

section \<open>From the record to the watcher\<close>



section \<open>Stopping\<close>

lemma notify_view:
  "sub_watcher (notifyWatchers t v e) = sub_watcher e" "eng_inv (notifyWatchers t v e) = eng_inv e"
  "en_registry (notifyWatchers t v e) = en_registry e" "holders (notifyWatchers t v e) = holders e"
proof -
  have f: "sub_watcher (fold g ps e) = sub_watcher e \<and> sub_count (fold g ps e) = sub_count e \<and> eng_inv (fold g ps e) = eng_inv e \<and>
      en_registry (fold g ps e) = en_registry e"
    if "\<And>p e. \<exists>w v'. g p e = watcher_emit w t v' e" for ps g e
    using that
  proof (induction ps arbitrary: e)
    case (Cons p ps)
    obtain w v' where "g p e = watcher_emit w t v' e" using Cons.prems by blast
    with Cons show ?case by simp
  qed simp
  let ?g = "\<lambda>(a, w) e. watcher_emit w t (with_name (map_get (en_subscriptionNames e) a) v) e"
  let ?h = "\<lambda>(a, w, _) e. watcher_emit w t (with_name (map_get (en_subscriptionNames e) a) v) e"
  have g: "\<exists>w v'. ?g p e = watcher_emit w t v' e" "\<exists>w v'. ?h q e = watcher_emit w t v' e"
    for p e and q :: "string \<times> nat \<times> sub_filter list" by (auto simp: case_prod_beta)
  have n: "notifyWatchers t v e = fold ?h (en_contractRegistry (fold ?g (en_registry e) e)) (fold ?g (en_registry e) e)"
    by (simp add: notifyWatchers_def Let_def)
  show "sub_watcher (notifyWatchers t v e) = sub_watcher e" "eng_inv (notifyWatchers t v e) = eng_inv e"
    "en_registry (notifyWatchers t v e) = en_registry e" "holders (notifyWatchers t v e) = holders e"
    unfolding n using f [of ?g, OF g(1)] f [of ?h, OF g(2)] by (simp_all add: holders_def fun_eq_iff)
qed

lemma stop_engine:
  "ls_engine (stop now s) = unsubscribeAll (notifyWatchers ''engine.stopped'' (notification ''engine.stopped'' 0 [(''emittedAt'', JStr now)])
     ((ls_engine s)\<lparr>en_isRunning := False, en_pausedSources := [],
        en_sorobanSubscriber := map_option (\<lambda>_. False) (en_sorobanSubscriber (ls_engine s))\<rparr>))"
  by (simp add: stop_def unsubscribeAll_def closeStream_def clearReconnectTimer_def Let_def)

lemma eng_inv_flags:
  "eng_inv (e\<lparr>en_isRunning := b, en_pausedSources := ps, en_sorobanSubscriber := ss\<rparr>) = eng_inv e"
  "holders (e\<lparr>en_isRunning := b, en_pausedSources := ps, en_sorobanSubscriber := ss\<rparr>) = holders e"
proof -
  let ?e = "e\<lparr>en_isRunning := b, en_pausedSources := ps, en_sorobanSubscriber := ss\<rparr>"
  have "sub_watcher ?e k = sub_watcher e k" for k by (cases k) simp_all
  then have S: "sub_watcher ?e = sub_watcher e" by blast
  have C: "sub_count ?e = sub_count e" by (simp add: fun_eq_iff sub_count_def)
  show "eng_inv ?e = eng_inv e" "holders ?e = holders e" by (simp_all add: eng_inv_def holders_def fun_eq_iff S C)
qed

text \<open>
  \<open>stop\<close> tears down the address watchers and only those. After it no address is watched, no stream is open and
  no timer is armed; every contract subscription, of either form, keeps its holders and its live watcher.
\<close>

theorem stop_spares_contracts:
  assumes "eng_inv (ls_engine s)" "stream_inv s"
  shows "holders (ls_engine (stop now s)) = (\<lambda>k. case k of KAddr _ \<Rightarrow> 0 | _ \<Rightarrow> holders (ls_engine s) k) \<and>
         eng_inv (ls_engine (stop now s)) \<and> ls_streams (stop now s) = 0 \<and> ls_reconnectTimer (stop now s) = None"
proof -
  have "ls_streams (stop now s) = 0" "ls_reconnectTimer (stop now s) = None"
    using assms(2) by (auto simp: stop_def closeStream_def clearReconnectTimer_def stream_inv_def Let_def)
  with unsubscribeAll_holds [of "notifyWatchers ''engine.stopped'' (notification ''engine.stopped'' 0 [(''emittedAt'', JStr now)])
     ((ls_engine s)\<lparr>en_isRunning := False, en_pausedSources := [],
        en_sorobanSubscriber := map_option (\<lambda>_. False) (en_sorobanSubscriber (ls_engine s))\<rparr>)"] assms(1)
  show ?thesis unfolding stop_engine by (auto simp: notify_view eng_inv_flags fun_eq_iff split: sub_key.splits)
qed

theorem stop_spares_contracts_witness:
  "holders (ls_engine (stop ''t'' (upd_engine (\<lambda>e. snd (subscribeContract ''c'' [] no_options e)) idle_lifecycle))) (KContract ''c'') = 1"
proof -
  have inv: "eng_inv idle_engine" "holders idle_engine = (\<lambda>_. 0)" using sub_fresh_inv [of idle_engine] by (simp_all add: sub_fresh_def idle_engine_def)
  let ?s = "upd_engine (\<lambda>e. snd (subscribeContract ''c'' [] no_options e)) idle_lifecycle"
  have e: "ls_engine ?s = snd (subscribeContract ''c'' [] no_options idle_engine)" by (simp add: idle_lifecycle_def)
  have "stream_inv ?s" by (simp add: stream_inv_def idle_lifecycle_def)
  with stop_spares_contracts [of ?s "''t''"] subscribeContract_holds [OF inv(1), of "''c''" "[]" no_options] inv(2)
  show ?thesis unfolding e by simp
qed

section \<open>Activation waiters\<close>

lemma remove_waiter:
  assumes "distinct (map wt_id (pre @ w # rest))" "map_get m c = Some (pre @ w # rest)"
  shows "map_get (clearContractWaiter c (wt_id w) m) c = (if pre @ rest = [] then None else Some (pre @ rest))"
proof -
  have pre: "\<forall>x \<in> set pre. wt_id x \<noteq> wt_id w" using assms(1) by (force simp: image_iff)
  then have "List.find (\<lambda>x. wt_id x = wt_id w) (pre @ w # rest) = Some w" by (induction pre) auto
  moreover have "w \<notin> set pre" using pre by auto
  then have "remove1 w (pre @ w # rest) = pre @ rest" by (simp add: remove1_append)
  ultimately show ?thesis using assms(2) by (simp add: clearContractWaiter_def Let_def)
qed

lemma polled_fold:
  "distinct (map wt_id (pre @ rest)) \<Longrightarrow> map_get m c = (if pre @ rest = [] then None else Some (pre @ rest)) \<Longrightarrow>
   (let (ids, m') = fold (\<lambda>w (done_ids, m). if waiter_covered polled w then (done_ids @ [wt_id w], clearContractWaiter c (wt_id w) m) else (done_ids, m))
          rest (ds, m)
    in ids = ds @ map wt_id (filter (waiter_covered polled) rest) \<and>
       map_get m' c = (let r = pre @ filter (\<lambda>w. \<not> waiter_covered polled w) rest in if r = [] then None else Some r))"
proof (induction rest arbitrary: pre m ds)
  case (Cons w rest)
  show ?case
  proof (cases "waiter_covered polled w")
    case True
    have "map_get (clearContractWaiter c (wt_id w) m) c = (if pre @ rest = [] then None else Some (pre @ rest))"
      using Cons.prems by (intro remove_waiter) simp_all
    with Cons.IH [of pre "clearContractWaiter c (wt_id w) m" "ds @ [wt_id w]"] Cons.prems True show ?thesis by (simp add: case_prod_beta Let_def)
  next
    case False
    with Cons.IH [of "pre @ [w]" m ds] Cons.prems show ?thesis by (simp add: case_prod_beta Let_def)
  qed
qed (simp add: Let_def)

text \<open>
  a poll resolves exactly the waiters it covers. Every waiter without topics, and every waiter whose topics the poll
  included, is resolved, in the order they were registered; every other one keeps waiting, and the contract's entry
  disappears with its last waiter.
\<close>

theorem poll_resolves_covered:
  assumes "map_get m c = Some ws" "ws \<noteq> []" "distinct (map wt_id ws)"
  shows "fst (notifyContractPolled c polled m) = map wt_id (filter (waiter_covered polled) ws) \<and>
         map_get (snd (notifyContractPolled c polled m)) c =
           (if list_all (waiter_covered polled) ws then None else Some (filter (\<lambda>w. \<not> waiter_covered polled w) ws))"
  using polled_fold [of "[]" ws m c polled "[]"] assms
  by (auto simp: notifyContractPolled_def case_prod_beta Let_def list_all_iff filter_empty_conv split: if_splits)

theorem poll_resolves_covered_witness:
  "fst (notifyContractPolled ''c'' (Some [''a'']) [(''c'', [\<lparr>wt_id = 1, wt_topics = Some [''a'']\<rparr>, \<lparr>wt_id = 2, wt_topics = Some [''b'']\<rparr>])]) = [1]"
  using poll_resolves_covered [of "[(''c'', [\<lparr>wt_id = 1, wt_topics = Some [''a'']\<rparr>, \<lparr>wt_id = 2, wt_topics = Some [''b'']\<rparr>])]" "''c''"
      "[\<lparr>wt_id = 1, wt_topics = Some [''a'']\<rparr>, \<lparr>wt_id = 2, wt_topics = Some [''b'']\<rparr>]" "Some [''a'']"]
  by (simp add: waiter_covered_def)

end
