(* ===== verification/Reputation.thy ===== *)
theory Reputation
  imports Complex_Main Orbital_Prelude
begin

text \<open>
  Operator reputation, \<^verbatim>\<open>packages/worker-core/src/reputation\<close>: \<^verbatim>\<open>window.ts\<close> and
  \<^verbatim>\<open>score.ts\<close>. Numbers are reals, so rounding of floating point is not modelled; a quotient whose
  divisor is zero is written out, with \<open>None\<close> for \<open>NaN\<close>. Verdict times are integer milliseconds.
\<close>

section \<open>Windows and metrics\<close>

datatype verdict_outcome = VSuccess | VMiss

record verdict =
  vd_id :: string
  vd_operatorId :: string
  vd_at :: int
  vd_outcome :: verdict_outcome
  vd_latencyMs :: real

record window_selection =
  sel_operatorId :: string
  sel_windowStart :: int
  sel_windowEnd :: int
  sel_verdicts :: "verdict list"

record window_metrics =
  wm_operatorId :: string
  wm_windowStart :: int
  wm_windowEnd :: int
  wm_total :: nat
  wm_successes :: nat
  wm_misses :: nat
  wm_uptime :: real
  wm_missRate :: real
  wm_latencyP50Ms :: "real option"
  wm_latencyP95Ms :: "real option"

definition selectWindow :: "verdict list \<Rightarrow> string \<Rightarrow> int \<Rightarrow> int \<Rightarrow> window_selection" where
  "selectWindow verdicts operatorId windowMs asOf =
     (let windowStart = asOf - windowMs;
          inWindow = filter (\<lambda>v. vd_operatorId v = operatorId \<and> windowStart \<le> vd_at v \<and> vd_at v \<le> asOf) verdicts
      in \<lparr>sel_operatorId = operatorId, sel_windowStart = windowStart, sel_windowEnd = asOf,
          sel_verdicts = sort_key vd_at inWindow\<rparr>)"

datatype percentile_error = EmptyArray | BadPercentile

definition percentile :: "real list \<Rightarrow> real \<Rightarrow> (percentile_error, real) result" where
  "percentile xs p =
     (let n = length xs in
      if n = 0 then Inl EmptyArray
      else if p < 0 \<or> p > 1 then Inl BadPercentile
      else if n = 1 then Inr (xs ! 0)
      else let idx = p * real (n - 1); lo = nat \<lfloor>idx\<rfloor>; hi = nat \<lceil>idx\<rceil>;
               loVal = xs ! lo; hiVal = xs ! hi
           in if lo = hi then Inr loVal
              else let frac = idx - real lo in Inr (loVal + frac * (hiVal - loVal)))"

text \<open>The calls of \<open>percentile\<close> in the metrics are on non-empty arrays with constant ranks, so they do not throw.\<close>

definition latency_rank :: "real list \<Rightarrow> real \<Rightarrow> real option" where
  "latency_rank latencies p =
     (if length latencies = 0 then None else case percentile latencies p of Inl _ \<Rightarrow> None | Inr x \<Rightarrow> Some x)"

definition computeWindowMetrics :: "window_selection \<Rightarrow> window_metrics" where
  "computeWindowMetrics sel =
     (let total = length (sel_verdicts sel);
          successes = length (filter (\<lambda>v. vd_outcome v = VSuccess) (sel_verdicts sel));
          misses = length (filter (\<lambda>v. vd_outcome v \<noteq> VSuccess) (sel_verdicts sel));
          latencies = sort (map vd_latencyMs (filter (\<lambda>v. vd_outcome v = VSuccess) (sel_verdicts sel)))
      in \<lparr>wm_operatorId = sel_operatorId sel, wm_windowStart = sel_windowStart sel, wm_windowEnd = sel_windowEnd sel,
          wm_total = total, wm_successes = successes, wm_misses = misses,
          wm_uptime = (if total = 0 then 0 else real successes / real total),
          wm_missRate = (if total = 0 then 0 else real misses / real total),
          wm_latencyP50Ms = latency_rank latencies (1 / 2), wm_latencyP95Ms = latency_rank latencies (95 / 100)\<rparr>)"

section \<open>Scores\<close>

definition SCORE_FORMULA_VERSION :: string where "SCORE_FORMULA_VERSION = ''1.0.0''"

record score_weights =
  sw_availability :: real
  sw_latency :: real

definition DEFAULT_WEIGHTS :: score_weights where
  "DEFAULT_WEIGHTS = \<lparr>sw_availability = 7 / 10, sw_latency = 3 / 10\<rparr>"

record score_config =
  sc_formulaVersion :: string
  sc_windowMs :: int
  sc_halfLifeMs :: int
  sc_minSamples :: int
  sc_latencyTargetMs :: real
  sc_weights :: "score_weights option"

datatype contributor_reason = RMiss | RSlow

record score_contributor =
  sk_verdict :: verdict
  sk_reason :: contributor_reason
  sk_impact :: "real option"

record score_components =
  cp_availability :: real
  cp_missRate :: real
  cp_latencyP50Ms :: "real option"
  cp_latencyP95Ms :: "real option"
  cp_latencyQuality :: "real option"

datatype operator_score =
    InsufficientData string string int int nat int
  | Scored string string "int option" int int nat score_components "score_contributor list"

datatype score_error = FormulaMismatch string string

definition clamp01 :: "real \<Rightarrow> real" where
  "clamp01 x = (if x < 0 then 0 else if x > 1 then 1 else x)"

definition clampScore :: "real \<Rightarrow> real" where
  "clampScore x = (if x < 0 then 0 else if x > 1000 then 1000 else x)"

definition recencyWeight :: "int \<Rightarrow> int \<Rightarrow> real" where
  "recencyWeight ageMs halfLifeMs =
     (if ageMs \<le> 0 then 1 else if halfLifeMs = 0 then 0 else (1 / 2) powr (real_of_int ageMs / real_of_int halfLifeMs))"

text \<open>\<open>Math.round\<close>: the nearest integer, halves upwards.\<close>

definition math_round :: "real \<Rightarrow> int" where
  "math_round x = \<lfloor>x + 1 / 2\<rfloor>"

definition latency_quality :: "real option \<Rightarrow> real \<Rightarrow> real option" where
  "latency_quality p95 target =
     (case p95 of
        None \<Rightarrow> Some 0
      | Some p \<Rightarrow>
          if target = 0 then (if max 0 (p - target) = 0 then None else Some 0)
          else Some (clamp01 (1 - max 0 (p - target) / target)))"

definition weight_sum :: "score_config \<Rightarrow> int \<Rightarrow> verdict list \<Rightarrow> real" where
  "weight_sum config asOf vs = sum_list (map (\<lambda>v. recencyWeight (asOf - vd_at v) (sc_halfLifeMs config)) vs)"

definition miss_contributors :: "score_config \<Rightarrow> int \<Rightarrow> real \<Rightarrow> real \<Rightarrow> verdict list \<Rightarrow> score_contributor list" where
  "miss_contributors config asOf missWeight missPenaltyPoints vs =
     (if missWeight > 0 then
        map (\<lambda>v. \<lparr>sk_verdict = v, sk_reason = RMiss,
            sk_impact = Some (- (recencyWeight (asOf - vd_at v) (sc_halfLifeMs config) / missWeight * missPenaltyPoints))\<rparr>)
          (filter (\<lambda>v. vd_outcome v \<noteq> VSuccess) vs)
      else [])"

definition slow_contributors ::
  "score_config \<Rightarrow> real option \<Rightarrow> real \<Rightarrow> real option \<Rightarrow> verdict list \<Rightarrow> score_contributor list"
where
  "slow_contributors config p95 latencyScale latencyQuality vs =
     (let slowVerdicts = (if p95 = None then []
            else filter (\<lambda>v. vd_outcome v = VSuccess \<and> vd_latencyMs v > sc_latencyTargetMs config) vs)
      in map (\<lambda>v. \<lparr>sk_verdict = v, sk_reason = RSlow,
            sk_impact = map_option (\<lambda>q. - (1000 * latencyScale * (1 - q) / real (length slowVerdicts))) latencyQuality\<rparr>)
          slowVerdicts)"

definition scoreOperator :: "verdict list \<Rightarrow> string \<Rightarrow> score_config \<Rightarrow> int \<Rightarrow> (score_error, operator_score) result" where
  "scoreOperator verdicts operatorId config asOf =
     (if sc_formulaVersion config \<noteq> SCORE_FORMULA_VERSION
      then Inl (FormulaMismatch (sc_formulaVersion config) SCORE_FORMULA_VERSION)
      else let selection = selectWindow verdicts operatorId (sc_windowMs config) asOf;
               metrics = computeWindowMetrics selection
           in if int (wm_total metrics) < sc_minSamples config
              then Inr (InsufficientData operatorId SCORE_FORMULA_VERSION (sel_windowStart selection) (sel_windowEnd selection)
                          (wm_total metrics) (sc_minSamples config))
              else let
                weights = (case sc_weights config of Some w \<Rightarrow> w | None \<Rightarrow> DEFAULT_WEIGHTS);
                totalWeightScale = sw_availability weights + sw_latency weights;
                availScale = (if totalWeightScale = 0 then 0 else sw_availability weights / totalWeightScale);
                latencyScale = (if totalWeightScale = 0 then 0 else sw_latency weights / totalWeightScale);
                vs = sel_verdicts selection;
                successWeight = weight_sum config asOf (filter (\<lambda>v. vd_outcome v = VSuccess) vs);
                missWeight = weight_sum config asOf (filter (\<lambda>v. vd_outcome v \<noteq> VSuccess) vs);
                totalWeight = successWeight + missWeight;
                availability = (if totalWeight = 0 then 0 else successWeight / totalWeight);
                missRate = (if totalWeight = 0 then 0 else missWeight / totalWeight);
                p95 = wm_latencyP95Ms metrics;
                latencyQuality = latency_quality p95 (sc_latencyTargetMs config);
                base = map_option (\<lambda>q. clampScore (1000 * (availScale * availability + latencyScale * q))) latencyQuality
              in Inr (Scored operatorId SCORE_FORMULA_VERSION (map_option math_round base)
                   (sel_windowStart selection) (sel_windowEnd selection) (wm_total metrics)
                   \<lparr>cp_availability = availability, cp_missRate = missRate, cp_latencyP50Ms = wm_latencyP50Ms metrics,
                    cp_latencyP95Ms = p95, cp_latencyQuality = latencyQuality\<rparr>
                   (miss_contributors config asOf missWeight (1000 * availScale * (1 - availability)) vs @
                    slow_contributors config p95 latencyScale latencyQuality vs)))"

fun attributableDrop :: "operator_score \<Rightarrow> operator_score \<Rightarrow> verdict list" where
  "attributableDrop (Scored _ _ _ _ _ _ _ before) (Scored _ _ _ _ _ _ _ after) =
     map sk_verdict (filter (\<lambda>c. vd_id (sk_verdict c) \<notin> set (map (\<lambda>c. vd_id (sk_verdict c)) before)) after)"
| "attributableDrop _ _ = []"

section \<open>Percentiles\<close>

definition rank_value :: "real list \<Rightarrow> real \<Rightarrow> real" where
  "rank_value xs idx = xs ! nat \<lfloor>idx\<rfloor> + (idx - real (nat \<lfloor>idx\<rfloor>)) * (xs ! nat \<lceil>idx\<rceil> - xs ! nat \<lfloor>idx\<rfloor>)"

lemma percentile_rank:
  assumes "xs \<noteq> []" "0 \<le> p" "p \<le> 1"
  shows "percentile xs p = Inr (rank_value xs (p * real (length xs - 1)))"
  using assms by (auto simp: percentile_def rank_value_def Let_def)

lemma rank_bounds:
  assumes "0 \<le> idx" "idx \<le> real (length xs - 1)" "xs \<noteq> []"
  shows "nat \<lfloor>idx\<rfloor> \<le> nat \<lceil>idx\<rceil>" "nat \<lceil>idx\<rceil> < length xs" "0 \<le> idx - real (nat \<lfloor>idx\<rfloor>)" "idx - real (nat \<lfloor>idx\<rfloor>) \<le> 1"
    "nat \<lceil>idx\<rceil> \<le> Suc (nat \<lfloor>idx\<rfloor>)"
proof -
  show "nat \<lfloor>idx\<rfloor> \<le> nat \<lceil>idx\<rceil>" by (simp add: nat_mono)
  have "\<lceil>idx\<rceil> \<le> int (length xs - 1)" using assms(2) by (simp add: ceiling_le_iff)
  moreover have "0 < length xs" using assms(3) by simp
  ultimately show "nat \<lceil>idx\<rceil> < length xs" by linarith
  have f: "real (nat \<lfloor>idx\<rfloor>) = of_int \<lfloor>idx\<rfloor>" using assms(1) by simp
  then show "0 \<le> idx - real (nat \<lfloor>idx\<rfloor>)" by simp
  show "idx - real (nat \<lfloor>idx\<rfloor>) \<le> 1" unfolding f using real_of_int_floor_add_one_ge [of idx] by linarith
  show "nat \<lceil>idx\<rceil> \<le> Suc (nat \<lfloor>idx\<rfloor>)" using assms(1) by linarith
qed

lemma rank_value_between:
  assumes "sorted xs" "0 \<le> idx" "idx \<le> real (length xs - 1)" "xs \<noteq> []"
  shows "xs ! nat \<lfloor>idx\<rfloor> \<le> rank_value xs idx" "rank_value xs idx \<le> xs ! nat \<lceil>idx\<rceil>"
proof -
  note b = rank_bounds [OF assms(2-4)]
  have d: "0 \<le> xs ! nat \<lceil>idx\<rceil> - xs ! nat \<lfloor>idx\<rfloor>" using sorted_nth_mono [OF assms(1) b(1,2)] by simp
  show "xs ! nat \<lfloor>idx\<rfloor> \<le> rank_value xs idx" using mult_nonneg_nonneg [OF b(3) d] by (simp add: rank_value_def)
  show "rank_value xs idx \<le> xs ! nat \<lceil>idx\<rceil>" using mult_right_mono [OF b(4) d] by (simp add: rank_value_def)
qed

lemma rank_value_mono:
  assumes "sorted xs" "0 \<le> i" "i \<le> j" "j \<le> real (length xs - 1)" "xs \<noteq> []"
  shows "rank_value xs i \<le> rank_value xs j"
proof (cases "\<lfloor>i\<rfloor> = \<lfloor>j\<rfloor>")
  case True
  have bi: "i \<le> real (length xs - 1)" and bj: "0 \<le> j" using assms by linarith+
  note rj = rank_bounds [OF bj assms(4,5)]
  show ?thesis
  proof (cases "of_int \<lfloor>i\<rfloor> = i")
    case True
    then have "\<lceil>i\<rceil> = \<lfloor>i\<rfloor>" by (metis ceiling_of_int)
    then have "rank_value xs i = xs ! nat \<lfloor>j\<rfloor>" using \<open>\<lfloor>i\<rfloor> = \<lfloor>j\<rfloor>\<close> by (simp add: rank_value_def)
    then show ?thesis using rank_value_between(1) [OF assms(1) bj assms(4,5)] by simp
  next
    case False
    have "of_int \<lfloor>j\<rfloor> \<noteq> j"
    proof
      assume "of_int \<lfloor>j\<rfloor> = j"
      with \<open>\<lfloor>i\<rfloor> = \<lfloor>j\<rfloor>\<close> \<open>i \<le> j\<close> of_int_floor_le [of i] False show False by linarith
    qed
    with False have "\<lceil>i\<rceil> = \<lceil>j\<rceil>" using \<open>\<lfloor>i\<rfloor> = \<lfloor>j\<rfloor>\<close> by (simp add: ceiling_altdef)
    moreover have "0 \<le> xs ! nat \<lceil>j\<rceil> - xs ! nat \<lfloor>j\<rfloor>" using sorted_nth_mono [OF assms(1) rj(1,2)] by simp
    ultimately show ?thesis
      using \<open>\<lfloor>i\<rfloor> = \<lfloor>j\<rfloor>\<close> \<open>i \<le> j\<close> by (simp add: rank_value_def mult_right_mono)
  qed
next
  case False
  have bi: "i \<le> real (length xs - 1)" and bj: "0 \<le> j" using assms by linarith+
  have "\<lfloor>i\<rfloor> < \<lfloor>j\<rfloor>" using False floor_mono [OF assms(3)] by linarith
  then have "nat \<lceil>i\<rceil> \<le> nat \<lfloor>j\<rfloor>" using assms(2) by linarith
  moreover have "nat \<lfloor>j\<rfloor> < length xs" using rank_bounds(1,2) [OF bj assms(4,5)] by linarith
  ultimately have "xs ! nat \<lceil>i\<rceil> \<le> xs ! nat \<lfloor>j\<rfloor>" by (rule sorted_nth_mono [OF assms(1)])
  with rank_value_between(2) [OF assms(1,2) bi assms(5)] rank_value_between(1) [OF assms(1) bj assms(4,5)]
  show ?thesis by linarith
qed

lemma rank_in_range: "xs \<noteq> [] \<Longrightarrow> 0 \<le> p \<Longrightarrow> p \<le> 1 \<Longrightarrow> 0 \<le> p * real (length xs - 1) \<and> p * real (length xs - 1) \<le> real (length xs - 1)"
  by (simp add: mult_left_le_one_le)

text \<open>
  percentiles of a sorted, non-empty array lie between its least and greatest element and grow with the
  rank; the ranks 0 and 1 give those elements.
\<close>

theorem percentile_monotone:
  assumes "sorted xs" "xs \<noteq> []" "0 \<le> p" "p \<le> q" "q \<le> 1"
  shows "\<exists>x y. percentile xs p = Inr x \<and> percentile xs q = Inr y \<and> hd xs \<le> x \<and> x \<le> y \<and> y \<le> last xs \<and>
    percentile xs 0 = Inr (hd xs) \<and> percentile xs 1 = Inr (last xs)"
proof -
  let ?v = "\<lambda>p. rank_value xs (p * real (length xs - 1))"
  have mono: "?v a \<le> ?v b" if "0 \<le> a" "a \<le> b" "b \<le> 1" for a b
    using that assms(1,2) rank_in_range [of xs b] by (intro rank_value_mono) (auto intro: mult_right_mono)
  have ends: "?v 0 = hd xs" "?v 1 = last xs"
    using assms(2) by (simp_all add: rank_value_def hd_conv_nth last_conv_nth)
  have "percentile xs r = Inr (?v r)" if "0 \<le> r" "r \<le> 1" for r using percentile_rank [OF assms(2)] that by simp
  with mono [of 0 p] mono [of p q] mono [of q 1] assms(3-5) ends show ?thesis by simp
qed

theorem percentile_monotone_witness:
  "\<exists>x y. percentile [10, 20, 40] (1 / 2) = Inr x \<and> percentile [10, 20, 40] (95 / 100) = Inr y \<and> 10 \<le> x \<and> x \<le> y \<and> y \<le> 40"
  using percentile_monotone [of "[10, 20, 40]" "1 / 2" "95 / 100"] by auto

section \<open>Scores are reproducible\<close>

fun score_summary :: "operator_score \<Rightarrow> operator_score" where
  "score_summary (Scored operatorId version sc start stop n comps _) = Scored operatorId version sc start stop n comps []"
| "score_summary s = s"

fun contributors_of :: "operator_score \<Rightarrow> score_contributor list" where
  "contributors_of (Scored _ _ _ _ _ _ _ cs) = cs"
| "contributors_of _ = []"

lemma sort_mset: "mset xs = mset ys \<Longrightarrow> sort xs = sort (ys :: 'a :: linorder list)"
  by (metis mset_sort sorted_list_of_multiset_mset)

lemma mset_select: "mset xs = mset ys \<Longrightarrow> mset (sel_verdicts (selectWindow xs o' w a)) = mset (sel_verdicts (selectWindow ys o' w a))"
  by (simp add: selectWindow_def Let_def)

lemma metrics_mset:
  assumes "mset (sel_verdicts s) = mset (sel_verdicts s')" "sel_operatorId s = sel_operatorId s'"
    "sel_windowStart s = sel_windowStart s'" "sel_windowEnd s = sel_windowEnd s'"
  shows "computeWindowMetrics s = computeWindowMetrics s'"
proof -
  have f: "mset (filter P (sel_verdicts s)) = mset (filter P (sel_verdicts s'))" for P using assms(1) by simp
  then have "length (filter P (sel_verdicts s)) = length (filter P (sel_verdicts s'))" for P by (metis size_mset)
  moreover have "length (sel_verdicts s) = length (sel_verdicts s')" using assms(1) by (metis size_mset)
  moreover have "sort (map vd_latencyMs (filter P (sel_verdicts s))) = sort (map vd_latencyMs (filter P (sel_verdicts s')))" for P
    by (rule sort_mset) (simp add: assms(1))
  ultimately show ?thesis using assms(2-4) by (simp add: computeWindowMetrics_def Let_def)
qed

lemma weight_sum_mset: "mset xs = mset ys \<Longrightarrow> weight_sum c a xs = weight_sum c a ys"
  by (simp add: weight_sum_def flip: sum_mset_sum_list)

lemma contributors_mset:
  assumes "mset xs = mset ys"
  shows "mset (miss_contributors c a m p xs) = mset (miss_contributors c a m p ys)"
    and "mset (slow_contributors c q l lq xs) = mset (slow_contributors c q l lq ys)"
proof -
  have f: "length (filter P xs) = length (filter P ys)" for P using assms by (metis mset_filter size_mset)
  show "mset (miss_contributors c a m p xs) = mset (miss_contributors c a m p ys)"
    using assms by (simp add: miss_contributors_def)
  show "mset (slow_contributors c q l lq xs) = mset (slow_contributors c q l lq ys)"
    using assms f by (cases q) (simp_all add: slow_contributors_def Let_def)
qed

text \<open>
  C28: a score is reproducible from the stored verdicts alone. Any two arrays with the same verdicts, in whatever order a
  store returns them, give the same score, window and components, and the same contributors as a multiset.
\<close>

theorem score_reproducible:
  assumes "mset verdicts = mset verdicts'" "scoreOperator verdicts operatorId config asOf = Inr s"
  shows "\<exists>s'. scoreOperator verdicts' operatorId config asOf = Inr s' \<and> score_summary s' = score_summary s \<and>
    mset (contributors_of s') = mset (contributors_of s)"
proof -
  let ?S = "\<lambda>vs. selectWindow vs operatorId (sc_windowMs config) asOf"
  note m = mset_select [OF assms(1), of operatorId "sc_windowMs config" asOf]
  have metrics: "computeWindowMetrics (?S verdicts) = computeWindowMetrics (?S verdicts')"
    by (rule metrics_mset [OF m]) (simp_all add: selectWindow_def Let_def)
  have w: "weight_sum config asOf (filter P (sel_verdicts (?S verdicts))) = weight_sum config asOf (filter P (sel_verdicts (?S verdicts')))" for P
    by (rule weight_sum_mset) (simp add: m)
  have ends: "sel_windowStart (?S verdicts) = sel_windowStart (?S verdicts')" "sel_windowEnd (?S verdicts) = sel_windowEnd (?S verdicts')"
    by (simp_all add: selectWindow_def Let_def)
  show ?thesis
    using assms(2) unfolding scoreOperator_def Let_def metrics w ends
    by (auto simp: contributors_mset [OF m] split: if_splits)
qed

definition sample_verdict :: "string \<Rightarrow> int \<Rightarrow> verdict_outcome \<Rightarrow> real \<Rightarrow> verdict" where
  "sample_verdict i t out latency = \<lparr>vd_id = i, vd_operatorId = ''op'', vd_at = t, vd_outcome = out, vd_latencyMs = latency\<rparr>"

definition sample_config :: score_config where
  "sample_config = \<lparr>sc_formulaVersion = ''1.0.0'', sc_windowMs = 100, sc_halfLifeMs = 10, sc_minSamples = 1,
     sc_latencyTargetMs = 50, sc_weights = None\<rparr>"

lemmas sample_score_simps = scoreOperator_def SCORE_FORMULA_VERSION_def sample_config_def selectWindow_def
  computeWindowMetrics_def sample_verdict_def weight_sum_def recencyWeight_def latency_rank_def percentile_def
  latency_quality_def DEFAULT_WEIGHTS_def clampScore_def clamp01_def math_round_def Let_def

theorem score_reproducible_witness:
  "\<exists>s. scoreOperator [sample_verdict ''b'' 100 VMiss 0, sample_verdict ''a'' 100 VSuccess 40] ''op'' sample_config 100 = Inr s \<and>
     score_summary s = Scored ''op'' ''1.0.0'' (Some 650) 0 100 2
       \<lparr>cp_availability = 1 / 2, cp_missRate = 1 / 2, cp_latencyP50Ms = Some 40, cp_latencyP95Ms = Some 40, cp_latencyQuality = Some 1\<rparr> []"
proof -
  have "\<exists>s. scoreOperator [sample_verdict ''a'' 100 VSuccess 40, sample_verdict ''b'' 100 VMiss 0] ''op'' sample_config 100 = Inr s \<and>
     score_summary s = Scored ''op'' ''1.0.0'' (Some 650) 0 100 2
       \<lparr>cp_availability = 1 / 2, cp_missRate = 1 / 2, cp_latencyP50Ms = Some 40, cp_latencyP95Ms = Some 40, cp_latencyQuality = Some 1\<rparr> []"
    by (simp add: sample_score_simps)
  then show ?thesis
    using score_reproducible [of "[sample_verdict ''a'' 100 VSuccess 40, sample_verdict ''b'' 100 VMiss 0]"
      "[sample_verdict ''b'' 100 VMiss 0, sample_verdict ''a'' 100 VSuccess 40]" "''op''" sample_config 100] by fastforce
qed

section \<open>Attribution\<close>

lemma sum_shares: "sum_list (map (\<lambda>v. - (f v / m * p)) xs) = - (sum_list (map f xs) / m * (p :: real))"
  by (induction xs) (simp_all add: algebra_simps add_divide_distrib)

lemma weight_pos: "0 < h \<Longrightarrow> 0 < recencyWeight a h"
  by (simp add: recencyWeight_def)

lemma weight_sum_pos: "0 < sc_halfLifeMs c \<Longrightarrow> 0 \<le> weight_sum c a xs \<and> (weight_sum c a xs = 0 \<longleftrightarrow> xs = [])"
proof (induction xs)
  case (Cons x xs)
  then show ?case using weight_pos [OF Cons.prems, of "a - vd_at x"] by (auto simp: weight_sum_def)
qed (simp add: weight_sum_def)

definition impact_sum :: "score_contributor list \<Rightarrow> real" where
  "impact_sum cs = sum_list (map (\<lambda>c. the (sk_impact c)) cs)"

lemma miss_impact:
  assumes "0 < sc_halfLifeMs c" and m_def: "m = weight_sum c a (filter (\<lambda>v. vd_outcome v \<noteq> VSuccess) vs)"
  shows "impact_sum (miss_contributors c a m p vs) = (if m = 0 then 0 else - p)"
proof (cases "m = 0")
  case False
  let ?vs = "filter (\<lambda>v. vd_outcome v \<noteq> VSuccess) vs"
  have pos: "0 < m" using weight_sum_pos [OF assms(1), of a ?vs] False by (simp add: m_def)
  then have "impact_sum (miss_contributors c a m p vs) =
      sum_list (map (\<lambda>v. - (recencyWeight (a - vd_at v) (sc_halfLifeMs c) / m * p)) ?vs)"
    by (simp add: miss_contributors_def impact_sum_def comp_def)
  also have "\<dots> = - (m / m * p)"
    unfolding sum_shares by (simp only: m_def weight_sum_def)
  finally show ?thesis using pos by simp
qed (simp add: miss_contributors_def impact_sum_def)

lemma slow_impact:
  "impact_sum (slow_contributors c p95 l (Some q) vs) =
     (if p95 = None \<or> filter (\<lambda>v. vd_outcome v = VSuccess \<and> vd_latencyMs v > sc_latencyTargetMs c) vs = [] then 0
      else - (1000 * l * (1 - q)))"
  by (auto simp: slow_contributors_def impact_sum_def comp_def Let_def sum_list_triv)

lemma p95_slow:
  assumes "wm_latencyP95Ms (computeWindowMetrics s) = Some p" "t < p"
  shows "\<exists>v \<in> set (sel_verdicts s). vd_outcome v = VSuccess \<and> t < vd_latencyMs v"
proof -
  let ?l = "sort (map vd_latencyMs (filter (\<lambda>v. vd_outcome v = VSuccess) (sel_verdicts s)))"
  have ne: "?l \<noteq> []" and p: "percentile ?l (95 / 100) = Inr p"
    using assms(1) by (auto simp: computeWindowMetrics_def latency_rank_def Let_def split: if_splits sum.splits)
  let ?i = "95 / 100 * real (length ?l - 1)"
  note r = rank_in_range [OF ne, of "95 / 100"]
  have "p \<le> ?l ! nat \<lceil>?i\<rceil>"
    using rank_value_between(2) [of ?l ?i] r ne percentile_rank [OF ne, of "95 / 100"] p by simp
  moreover have "?l ! nat \<lceil>?i\<rceil> \<in> set ?l" by (rule nth_mem [OF rank_bounds(2) [OF conjunct1 [OF r] conjunct2 [OF r] ne]]) simp_all
  ultimately show ?thesis using assms(2) by (auto simp del: nth_mem)
qed

lemma p95_success:
  assumes "wm_latencyP95Ms (computeWindowMetrics s) \<noteq> None"
  shows "filter (\<lambda>v. vd_outcome v = VSuccess) (sel_verdicts s) \<noteq> []"
  using assms by (auto simp: computeWindowMetrics_def latency_rank_def Let_def)

lemma quality_bounds:
  assumes "latency_quality (Some p) t = Some q" "0 < t"
  shows "0 \<le> q" "q \<le> 1" "p \<le> t \<Longrightarrow> q = 1"
  using assms by (auto simp: latency_quality_def clamp01_def split: if_splits)

text \<open>
  every point lost is attributed. With valid weights, half-life and target, and at least one success in
  the window, each contributor's impact is not positive and the score is 1000 plus the sum of the impacts, rounded.
\<close>

theorem score_attributed:
  assumes "scoreOperator verdicts operatorId config asOf = Inr (Scored operatorId version (Some score) start stop n comps cs)"
    and "0 < sc_halfLifeMs config" "0 < sc_latencyTargetMs config" "cp_latencyP95Ms comps \<noteq> None"
    and w: "sc_weights config = Some w" "0 \<le> sw_availability w" "0 \<le> sw_latency w" "0 < sw_availability w + sw_latency w"
  shows "score = math_round (1000 + impact_sum cs)"
proof -
  define s where "s = selectWindow verdicts operatorId (sc_windowMs config) asOf"
  define vs where "vs = sel_verdicts s"
  define A L where "A = sw_availability w / (sw_availability w + sw_latency w)" and "L = sw_latency w / (sw_availability w + sw_latency w)"
  define S M where "S = weight_sum config asOf (filter (\<lambda>v. vd_outcome v = VSuccess) vs)"
    and "M = weight_sum config asOf (filter (\<lambda>v. vd_outcome v \<noteq> VSuccess) vs)"
  define p95 where "p95 = wm_latencyP95Ms (computeWindowMetrics s)"
  have nz: "sw_availability w + sw_latency w \<noteq> 0" using w(4) by simp
  have R: "comps = \<lparr>cp_availability = (if S + M = 0 then 0 else S / (S + M)), cp_missRate = (if S + M = 0 then 0 else M / (S + M)),
        cp_latencyP50Ms = wm_latencyP50Ms (computeWindowMetrics s), cp_latencyP95Ms = p95, cp_latencyQuality = latency_quality p95 (sc_latencyTargetMs config)\<rparr>"
    "Some score = map_option math_round (map_option (\<lambda>q. clampScore (1000 * (A * cp_availability comps + L * q))) (latency_quality p95 (sc_latencyTargetMs config)))"
    "cs = miss_contributors config asOf M (1000 * A * (1 - cp_availability comps)) vs @
       slow_contributors config p95 L (latency_quality p95 (sc_latencyTargetMs config)) vs"
    using assms(1) nz unfolding scoreOperator_def w(1) option.case s_def [symmetric] vs_def [symmetric] S_def [symmetric] M_def [symmetric]
      p95_def [symmetric] A_def [symmetric] L_def [symmetric] Let_def
    by (auto split: if_splits)
  obtain p where p: "p95 = Some p" using assms(4) R(1) by auto
  obtain q where q: "latency_quality p95 (sc_latencyTargetMs config) = Some q"
    using R(2) by (cases "latency_quality p95 (sc_latencyTargetMs config)") simp_all
  note qb = quality_bounds [OF q [unfolded p] assms(3)]
  have S: "0 < S" "0 \<le> M"
    using weight_sum_pos [OF assms(2)] p95_success [of s] p by (auto simp: S_def M_def vs_def p95_def less_le)
  define av where "av = S / (S + M)"
  have av: "cp_availability comps = av" "0 \<le> av" "av \<le> 1" "M = 0 \<Longrightarrow> av = 1"
    using S R(1) by (auto simp: av_def)
  have AL: "0 \<le> A" "0 \<le> L" "A + L = 1" using w by (auto simp: A_def L_def add_divide_distrib [symmetric])
  have slow: "filter (\<lambda>v. vd_outcome v = VSuccess \<and> vd_latencyMs v > sc_latencyTargetMs config) vs = [] \<Longrightarrow> q = 1"
    using p95_slow [of s p "sc_latencyTargetMs config"] p qb(3) by (force simp: p95_def vs_def filter_empty_conv)
  have "impact_sum cs = (if M = 0 then 0 else - (1000 * A * (1 - av))) +
      impact_sum (slow_contributors config p95 L (Some q) vs)"
    using R(3) q av(1) miss_impact [OF assms(2) M_def, of "1000 * A * (1 - av)"] by (simp add: impact_sum_def)
  then have sum: "1000 + impact_sum cs = 1000 - 1000 * A * (1 - av) - 1000 * L * (1 - q)"
    using slow av(4) p by (auto simp: slow_impact)
  also have "\<dots> = 1000 * (A * av + L * q)" unfolding eq_diff_eq [THEN iffD2, OF AL(3) [unfolded add.commute [of A]]] by (simp add: algebra_simps)
  finally have sum: "1000 + impact_sum cs = 1000 * (A * av + L * q)" .
  have "A * av + L * q \<le> A * 1 + L * 1" using AL av qb by (intro add_mono mult_left_mono) auto
  then have "0 \<le> A * av + L * q" "A * av + L * q \<le> 1" using AL av qb by auto
  then have "clampScore (1000 * (A * av + L * q)) = 1000 * (A * av + L * q)" by (simp add: clampScore_def)
  then show ?thesis using R(2) q av(1) sum by simp
qed

theorem score_attributed_witness:
  "math_round (1000 + impact_sum [\<lparr>sk_verdict = sample_verdict ''b'' 100 VMiss 0, sk_reason = RMiss, sk_impact = Some (- 350)\<rparr>]) = 650"
proof -
  let ?c = "sample_config\<lparr>sc_weights := Some \<lparr>sw_availability = 7 / 10, sw_latency = 3 / 10\<rparr>\<rparr>"
  have "scoreOperator [sample_verdict ''a'' 100 VSuccess 40, sample_verdict ''b'' 100 VMiss 0] ''op'' ?c 100 =
    Inr (Scored ''op'' ''1.0.0'' (Some 650) 0 100 2
      \<lparr>cp_availability = 1 / 2, cp_missRate = 1 / 2, cp_latencyP50Ms = Some 40, cp_latencyP95Ms = Some 40, cp_latencyQuality = Some 1\<rparr>
      [\<lparr>sk_verdict = sample_verdict ''b'' 100 VMiss 0, sk_reason = RMiss, sk_impact = Some (- 350)\<rparr>])"
    by (simp add: sample_score_simps miss_contributors_def slow_contributors_def)
  from score_attributed [OF this] show ?thesis by (simp add: sample_config_def)
qed

section \<open>A recent miss hurts more\<close>

lemma weight_antitone: "0 < h \<Longrightarrow> a \<le> b \<Longrightarrow> recencyWeight b h \<le> recencyWeight a h"
proof -
  assume h: "0 < h" "a \<le> b"
  have "real_of_int a / real_of_int h \<le> real_of_int b / real_of_int h" using h by (simp add: divide_right_mono)
  then have "(1 / 2 :: real) powr (real_of_int b / real_of_int h) \<le> (1 / 2) powr (real_of_int a / real_of_int h)"
    by (simp add: powr_mono')
  moreover have "(1 / 2 :: real) powr (real_of_int b / real_of_int h) \<le> 1" if "0 < b"
    using h that powr_mono' [of 0 "real_of_int b / real_of_int h" "1 / 2"] by simp
  ultimately show ?thesis using h by (auto simp: recencyWeight_def)
qed

lemma weight_sum_append: "weight_sum c a (xs @ ys) = weight_sum c a xs + weight_sum c a ys"
  by (simp add: weight_sum_def)

lemma math_round_mono: "x \<le> y \<Longrightarrow> math_round x \<le> math_round y"
  by (simp add: math_round_def floor_mono)

lemma clampScore_mono: "x \<le> y \<Longrightarrow> clampScore x \<le> clampScore y"
  by (simp add: clampScore_def)

text \<open>The score in terms of the two weight sums and the metrics.\<close>

lemma score_value:
  assumes "scoreOperator vs o' c a = Inr (Scored o' ver (Some sc) st en n comps cs)"
  defines "s \<equiv> selectWindow vs o' (sc_windowMs c) a"
  defines "S \<equiv> weight_sum c a (filter (\<lambda>v. vd_outcome v = VSuccess) (sel_verdicts s))"
  defines "M \<equiv> weight_sum c a (filter (\<lambda>v. vd_outcome v \<noteq> VSuccess) (sel_verdicts s))"
  defines "w \<equiv> (case sc_weights c of Some w \<Rightarrow> w | None \<Rightarrow> DEFAULT_WEIGHTS)"
  defines "t \<equiv> sw_availability w + sw_latency w"
  shows "\<exists>q. latency_quality (wm_latencyP95Ms (computeWindowMetrics s)) (sc_latencyTargetMs c) = Some q \<and>
    sc = math_round (clampScore (1000 * ((if t = 0 then 0 else sw_availability w / t) * (if S + M = 0 then 0 else S / (S + M)) +
      (if t = 0 then 0 else sw_latency w / t) * q)))"
  using assms(1) unfolding scoreOperator_def Let_def s_def [symmetric] S_def [symmetric] M_def [symmetric] w_def [symmetric] t_def [symmetric]
  by (auto simp: mult_ac split: if_splits)

text \<open>
  the more recent a miss, the lower the score. Moving one miss of the window to a later time, all else equal, never
  raises the score, for any non-negative weights.
\<close>

theorem recent_miss_hurts_more:
  assumes old: "scoreOperator (xs @ v # ys) operatorId config asOf = Inr (Scored operatorId ver (Some score) st en n comps cs)"
    and new: "scoreOperator (xs @ v\<lparr>vd_at := later\<rparr> # ys) operatorId config asOf = Inr (Scored operatorId ver' (Some score') st' en' n' comps' cs')"
    and v: "vd_outcome v = VMiss" "vd_operatorId v = operatorId" "asOf - sc_windowMs config \<le> vd_at v" "vd_at v \<le> later" "later \<le> asOf"
    and h: "0 < sc_halfLifeMs config"
    and w: "\<And>w. sc_weights config = Some w \<Longrightarrow> 0 \<le> sw_availability w \<and> 0 \<le> sw_latency w"
  shows "score' \<le> score"
proof -
  let ?v = "v\<lparr>vd_at := later\<rparr>"
  define In :: "verdict \<Rightarrow> bool" where "In = (\<lambda>v. vd_operatorId v = operatorId \<and> asOf - sc_windowMs config \<le> vd_at v \<and> vd_at v \<le> asOf)"
  let ?S = "\<lambda>vs. selectWindow vs operatorId (sc_windowMs config) asOf"
  have sel: "mset (sel_verdicts (?S vs)) = mset (filter In vs)" for vs by (simp add: selectWindow_def In_def Let_def)
  have m: "filter In (xs @ v # ys) = filter In xs @ v # filter In ys" "filter In (xs @ ?v # ys) = filter In xs @ ?v # filter In ys"
    using v by (simp_all add: In_def)
  have suc: "mset (filter (\<lambda>v. vd_outcome v = VSuccess) (sel_verdicts (?S (xs @ v # ys)))) =
      mset (filter (\<lambda>v. vd_outcome v = VSuccess) (sel_verdicts (?S (xs @ ?v # ys))))"
    using v(1) by (simp only: mset_filter sel m) simp
  have "sort (map vd_latencyMs (filter (\<lambda>v. vd_outcome v = VSuccess) (sel_verdicts (?S (xs @ v # ys))))) =
      sort (map vd_latencyMs (filter (\<lambda>v. vd_outcome v = VSuccess) (sel_verdicts (?S (xs @ ?v # ys)))))"
    by (rule sort_mset) (simp only: mset_map suc)
  then have p95: "wm_latencyP95Ms (computeWindowMetrics (?S (xs @ v # ys))) = wm_latencyP95Ms (computeWindowMetrics (?S (xs @ ?v # ys)))"
    by (simp only: computeWindowMetrics_def Let_def window_metrics.simps)
  define S M M' where "S = weight_sum config asOf (filter (\<lambda>v. vd_outcome v = VSuccess) (sel_verdicts (?S (xs @ v # ys))))"
    and "M = weight_sum config asOf (filter (\<lambda>v. vd_outcome v \<noteq> VSuccess) (sel_verdicts (?S (xs @ v # ys))))"
    and "M' = weight_sum config asOf (filter (\<lambda>v. vd_outcome v \<noteq> VSuccess) (sel_verdicts (?S (xs @ ?v # ys))))"
  have S': "weight_sum config asOf (filter (\<lambda>v. vd_outcome v = VSuccess) (sel_verdicts (?S (xs @ ?v # ys)))) = S"
    unfolding S_def by (rule weight_sum_mset [OF suc [symmetric]])
  have pos: "0 \<le> S" "0 < M" "M \<le> M'"
  proof -
    show "0 \<le> S" using weight_sum_pos [OF h] by (simp add: S_def)
    have M: "M = weight_sum config asOf (filter (\<lambda>v. vd_outcome v \<noteq> VSuccess) (filter In xs @ v # filter In ys))"
      "M' = weight_sum config asOf (filter (\<lambda>v. vd_outcome v \<noteq> VSuccess) (filter In xs @ ?v # filter In ys))"
      unfolding M_def M'_def by (rule weight_sum_mset, simp only: mset_filter sel m)+
    have "filter (\<lambda>v. vd_outcome v \<noteq> VSuccess) (filter In xs @ v # filter In ys) \<noteq> []" using v(1) by simp
    then show "0 < M" using weight_sum_pos [OF h] unfolding M by (metis less_le)
    show "M \<le> M'" using v(1,4) h unfolding M by (simp add: weight_sum_def weight_antitone)
  qed
  define W where "W = (case sc_weights config of Some w \<Rightarrow> w | None \<Rightarrow> DEFAULT_WEIGHTS)"
  define t where "t = sw_availability W + sw_latency W"
  have W: "0 \<le> sw_availability W" "0 \<le> sw_latency W" using w by (auto simp: W_def DEFAULT_WEIGHTS_def split: option.splits)
  obtain q where sc: "score = math_round (clampScore (1000 * ((if t = 0 then 0 else sw_availability W / t) * (if S + M = 0 then 0 else S / (S + M)) +
      (if t = 0 then 0 else sw_latency W / t) * q)))" and q: "latency_quality (wm_latencyP95Ms (computeWindowMetrics (?S (xs @ v # ys)))) (sc_latencyTargetMs config) = Some q"
    using score_value [OF old] by (auto simp: S_def M_def W_def t_def)
  have sc': "score' = math_round (clampScore (1000 * ((if t = 0 then 0 else sw_availability W / t) * (if S + M' = 0 then 0 else S / (S + M')) +
      (if t = 0 then 0 else sw_latency W / t) * q)))"
    using score_value [OF new] q unfolding p95 S' M'_def [symmetric] W_def [symmetric] t_def [symmetric] by auto
  have "S / (S + M') \<le> S / (S + M)" using pos by (intro divide_left_mono) auto
  then have "(if S + M' = 0 then 0 else S / (S + M')) \<le> (if S + M = 0 then 0 else S / (S + M))" using pos by auto
  moreover have "0 \<le> (if t = 0 then 0 else sw_availability W / t)" using W by (simp add: t_def)
  ultimately show ?thesis unfolding sc sc'
    by (intro math_round_mono clampScore_mono mult_left_mono add_right_mono) auto
qed

theorem recent_miss_hurts_more_witness: "(650 :: int) \<le> 767"
proof -
  let ?a = "sample_verdict ''a'' 100 VSuccess 40" and ?b = "sample_verdict ''b'' 90 VMiss 0"
  have old: "scoreOperator ([?a] @ ?b # []) ''op'' sample_config 100 =
    Inr (Scored ''op'' ''1.0.0'' (Some 767) 0 100 2
      \<lparr>cp_availability = 2 / 3, cp_missRate = 1 / 3, cp_latencyP50Ms = Some 40, cp_latencyP95Ms = Some 40, cp_latencyQuality = Some 1\<rparr>
      [\<lparr>sk_verdict = ?b, sk_reason = RMiss, sk_impact = Some (- (700 / 3))\<rparr>])"
    by (simp add: sample_score_simps miss_contributors_def slow_contributors_def)
  have new: "scoreOperator ([?a] @ ?b\<lparr>vd_at := 100\<rparr> # []) ''op'' sample_config 100 =
    Inr (Scored ''op'' ''1.0.0'' (Some 650) 0 100 2
      \<lparr>cp_availability = 1 / 2, cp_missRate = 1 / 2, cp_latencyP50Ms = Some 40, cp_latencyP95Ms = Some 40, cp_latencyQuality = Some 1\<rparr>
      [\<lparr>sk_verdict = ?b\<lparr>vd_at := 100\<rparr>, sk_reason = RMiss, sk_impact = Some (- 350)\<rparr>])"
    by (simp add: sample_score_simps miss_contributors_def slow_contributors_def)
  show ?thesis
    by (rule recent_miss_hurts_more [OF old new]) (simp_all add: sample_verdict_def sample_config_def)
qed

text \<open>Without a success in the window the latency part of the score is lost without a contributor.\<close>

lemma unattributed_latency:
  "\<exists>comps cs. scoreOperator [sample_verdict ''b'' 100 VMiss 0] ''op'' sample_config 100 = Inr (Scored ''op'' ''1.0.0'' (Some 0) 0 100 1 comps cs) \<and>
     impact_sum cs = - 700"
  by (simp add: sample_score_simps miss_contributors_def slow_contributors_def impact_sum_def)

end
