(* ===== verification/Webhook_Queues.thy ===== *)
theory Webhook_Queues
  imports Retry
begin

text \<open>
  The stores of \<^verbatim>\<open>packages/pulse-webhooks/src\<close>: the retry queue interface (\<^verbatim>\<open>RetryQueue.ts\<close>) and its
  in-memory implementation (\<^verbatim>\<open>MemoryRetryQueue.ts\<close>), the in-memory dead-letter store with its health metrics
  (\<^verbatim>\<open>DeadLetterStore.ts\<close>, \<^verbatim>\<open>MemoryDeadLetterStore.ts\<close>) and the deduplicating receiver (\<^verbatim>\<open>dedup.ts\<close>). The
  clock and random ids are arguments. Copies made to protect a record from later mutation do not appear.
\<close>

section \<open>MemoryRetryQueue\<close>

record 'e webhook_retry =
  rr_id :: string
  rr_event :: 'e
  rr_url :: string
  rr_attempt :: int
  rr_nextRetryAt :: js_number
  rr_lastError :: "string option"
  rr_createdAt :: "int option"

text \<open>Queued entries carry their sequence number, in-flight entries their expiry.\<close>

record 'e webhook_queue =
  wq_queued :: "(string, 'e webhook_retry \<times> nat) js_map"
  wq_inFlight :: "(string, 'e webhook_retry \<times> rat) js_map"
  wq_visibilityTimeoutMs :: rat
  wq_seq :: nat

datatype webhook_queue_error = RecordIdRequired | NextRetryAtNotFinite

definition newWebhookQueue :: "rat option \<Rightarrow> 'e webhook_queue" where
  "newWebhookQueue visibilityTimeoutMs =
     \<lparr>wq_queued = [], wq_inFlight = [],
      wq_visibilityTimeoutMs = max 1 (of_int \<lfloor>case visibilityTimeoutMs of Some v \<Rightarrow> v | None \<Rightarrow> 30000\<rfloor>), wq_seq = 0\<rparr>"

definition assertRecord :: "'e webhook_retry \<Rightarrow> (webhook_queue_error, unit) result" where
  "assertRecord r =
     (if rr_id r = [] then Inl RecordIdRequired
      else case rr_nextRetryAt r of NotFinite \<Rightarrow> Inl NextRetryAtNotFinite | Finite _ \<Rightarrow> Inr ())"

definition put_queued :: "'e webhook_retry \<Rightarrow> 'e webhook_queue \<Rightarrow> 'e webhook_queue" where
  "put_queued r q = q\<lparr>wq_queued := map_set (rr_id r) (r, wq_seq q) (wq_queued q), wq_seq := Suc (wq_seq q)\<rparr>"

definition enqueue_wq :: "'e webhook_retry \<Rightarrow> 'e webhook_queue \<Rightarrow> (webhook_queue_error, 'e webhook_queue) result" where
  "enqueue_wq r q = (case assertRecord r of Inl e \<Rightarrow> Inl e | Inr _ \<Rightarrow> Inr (put_queued r q))"

text \<open>The due time of a stored record; only records with a finite time are stored.\<close>

definition due_at :: "'e webhook_retry \<Rightarrow> rat" where
  "due_at r = (case rr_nextRetryAt r of Finite t \<Rightarrow> t | NotFinite \<Rightarrow> 0)"

definition sooner :: "'e webhook_retry \<times> nat \<Rightarrow> 'e webhook_retry \<times> nat \<Rightarrow> bool" where
  "sooner a b \<longleftrightarrow> due_at (fst a) < due_at (fst b) \<or> due_at (fst a) = due_at (fst b) \<and> snd a < snd b"

fun reclaim_wq :: "rat \<Rightarrow> (string \<times> 'e webhook_retry \<times> rat) list \<Rightarrow> 'e webhook_queue \<Rightarrow> 'e webhook_queue" where
  "reclaim_wq now [] q = q"
| "reclaim_wq now ((k, r, expiresAt) # es) q =
     reclaim_wq now es
       (if expiresAt \<le> now
        then q\<lparr>wq_inFlight := map_del k (wq_inFlight q),
               wq_queued := map_set k (r\<lparr>rr_nextRetryAt := Finite now\<rparr>, wq_seq q) (wq_queued q), wq_seq := Suc (wq_seq q)\<rparr>
        else q)"

definition reclaimExpired_wq :: "rat \<Rightarrow> 'e webhook_queue \<Rightarrow> 'e webhook_queue" where
  "reclaimExpired_wq now q = reclaim_wq now (wq_inFlight q) q"

definition dequeue_wq :: "rat \<Rightarrow> 'e webhook_queue \<Rightarrow> 'e webhook_retry option \<times> 'e webhook_queue" where
  "dequeue_wq now q =
     (let q = reclaimExpired_wq now q in
      case fold (pick (\<lambda>x. \<not> due_at (fst x) > now) sooner) (map snd (wq_queued q)) None of
        None \<Rightarrow> (None, q)
      | Some (best, _) \<Rightarrow>
          (Some best, q\<lparr>wq_queued := map_del (rr_id best) (wq_queued q),
             wq_inFlight := map_set (rr_id best) (best, now + wq_visibilityTimeoutMs q) (wq_inFlight q)\<rparr>))"

definition ack_wq :: "string \<Rightarrow> 'e webhook_queue \<Rightarrow> 'e webhook_queue" where
  "ack_wq recordId q = q\<lparr>wq_inFlight := map_del recordId (wq_inFlight q)\<rparr>"

definition nack_wq :: "rat \<Rightarrow> string \<Rightarrow> js_number \<Rightarrow> 'e webhook_queue \<Rightarrow> (webhook_queue_error, 'e webhook_queue) result" where
  "nack_wq now recordId requeueDelayMs q =
     (case map_get (wq_inFlight q) recordId of
        None \<Rightarrow> Inr q
      | Some (r, _) \<Rightarrow>
          let q = q\<lparr>wq_inFlight := map_del recordId (wq_inFlight q)\<rparr>;
              delayMs = (case requeueDelayMs of Finite d \<Rightarrow> max 0 (of_int \<lfloor>d\<rfloor>) | NotFinite \<Rightarrow> 0)
          in enqueue_wq (r\<lparr>rr_nextRetryAt := Finite (now + delayMs)\<rparr>) q)"

definition evictNewest :: "'e webhook_queue \<Rightarrow> 'e webhook_retry option \<times> 'e webhook_queue" where
  "evictNewest q =
     (case fold (pick (\<lambda>_. True) (\<lambda>a b. sooner b a)) (map snd (wq_queued q)) None of
        None \<Rightarrow> (None, q)
      | Some (newest, _) \<Rightarrow> (Some newest, q\<lparr>wq_queued := map_del (rr_id newest) (wq_queued q)\<rparr>))"

definition size_wq :: "'e webhook_queue \<Rightarrow> nat" where
  "size_wq q = length (wq_queued q)"

section \<open>MemoryDeadLetterStore\<close>

record 'e dlq_entry =
  de_id :: string
  de_url :: string
  de_event :: 'e
  de_error :: string
  de_attempts :: int
  de_timestamp :: int
  de_replayedAt :: "int option"

record url_metrics =
  um_lastSuccess :: "int option"
  um_lastFailure :: "int option"
  um_successCount :: nat
  um_failureCount :: nat
  um_successes :: "int list"
  um_failures :: "int list"

record 'e dlq =
  dq_maxEntries :: int
  dq_entries :: "(string, 'e dlq_entry) js_map"
  dq_metrics :: "(string, url_metrics) js_map"

record dlq_filter =
  lf_url :: "string option"
  lf_since :: "int option"
  lf_until :: "int option"
  lf_limit :: "nat option"

record delivery_health =
  dh_healthy :: bool
  dh_lastSuccess :: "int option"
  dh_lastFailure :: "int option"
  dh_failureRate :: rat

definition newDlq :: "int option \<Rightarrow> 'e dlq" where
  "newDlq maxEntries =
     \<lparr>dq_maxEntries = (case maxEntries of Some n \<Rightarrow> n | None \<Rightarrow> 1000), dq_entries = [], dq_metrics = []\<rparr>"

text \<open>The counter is a variable of the module; \<open>rand\<close> is the random suffix.\<close>

definition dlq_id :: "nat \<Rightarrow> int \<Rightarrow> string \<Rightarrow> string" where
  "dlq_id counter timestamp rand = ''dlq_'' @ show_nat counter @ ''_'' @ show_int timestamp @ ''_'' @ rand"

definition store_entry :: "'e dlq_entry \<Rightarrow> 'e dlq \<Rightarrow> 'e dlq" where
  "store_entry e s =
     (let s = s\<lparr>dq_entries := map_set (de_id e) e (dq_entries s)\<rparr>
      in s\<lparr>dq_entries := evict_loop (dq_maxEntries s) (dq_entries s)\<rparr>)"

definition record_dlq ::
  "string \<Rightarrow> int \<Rightarrow> string \<Rightarrow> 'e \<Rightarrow> string \<Rightarrow> int \<Rightarrow> int option \<Rightarrow> nat \<times> 'e dlq \<Rightarrow> string \<times> nat \<times> 'e dlq" where
  "record_dlq rand now url event error attempts failedAt cs =
     (let timestamp = (case failedAt of Some t \<Rightarrow> t | None \<Rightarrow> now);
          counter = Suc (fst cs); i = dlq_id counter timestamp rand
      in (i, counter, store_entry \<lparr>de_id = i, de_url = url, de_event = event, de_error = error, de_attempts = attempts,
            de_timestamp = timestamp, de_replayedAt = None\<rparr> (snd cs)))"

definition add_dlq :: "string \<Rightarrow> int \<Rightarrow> string \<Rightarrow> 'e \<Rightarrow> string \<Rightarrow> int \<Rightarrow> nat \<times> 'e dlq \<Rightarrow> string \<times> nat \<times> 'e dlq" where
  "add_dlq rand now url event error attempts cs =
     (let counter = Suc (fst cs); i = dlq_id counter now rand
      in (i, counter, store_entry \<lparr>de_id = i, de_url = url, de_event = event, de_error = error, de_attempts = attempts,
            de_timestamp = now, de_replayedAt = None\<rparr> (snd cs)))"

definition list_dlq :: "dlq_filter \<Rightarrow> 'e dlq \<Rightarrow> 'e dlq_entry list" where
  "list_dlq f s =
     (let results = map snd (dq_entries s);
          results = opt_filter (lf_url f) (\<lambda>v e. de_url e = v) results;
          results = opt_filter (lf_since f) (\<lambda>v e. de_timestamp e \<ge> v) results;
          results = opt_filter (lf_until f) (\<lambda>v e. de_timestamp e \<le> v) results;
          results = sort_key de_timestamp results
      in case lf_limit f of Some n \<Rightarrow> take n results | None \<Rightarrow> results)"

datatype dlq_error = UnknownFailure string | ReplayUnconfigured | ReplayThrew string

text \<open>\<open>handler e = Some msg\<close> when the handler throws on the entry.\<close>

definition replay_dlq ::
  "('e dlq_entry \<Rightarrow> string option) option \<Rightarrow> int \<Rightarrow> string \<Rightarrow> 'e dlq \<Rightarrow> (dlq_error, unit) result \<times> 'e dlq"
where
  "replay_dlq handler now failureId s =
     (case map_get (dq_entries s) failureId of
        None \<Rightarrow> (Inl (UnknownFailure failureId), s)
      | Some entry \<Rightarrow>
          (case handler of
             None \<Rightarrow> (Inl ReplayUnconfigured, s)
           | Some h \<Rightarrow>
               (case h entry of
                  Some msg \<Rightarrow> (Inl (ReplayThrew msg), s)
                | None \<Rightarrow> (Inr (), s\<lparr>dq_entries := map_set failureId (entry\<lparr>de_replayedAt := Some now\<rparr>) (dq_entries s)\<rparr>))))"

text \<open>\<open>Math.round(x * 10000) / 100\<close>.\<close>

definition percent_of :: "rat \<Rightarrow> rat" where
  "percent_of x = of_int \<lfloor>x * 10000 + 1 / 2\<rfloor> / 100"

definition failureRate :: "int \<Rightarrow> string \<Rightarrow> int \<Rightarrow> 'e dlq \<Rightarrow> rat" where
  "failureRate now url windowMs s =
     (case map_get (dq_metrics s) url of
        None \<Rightarrow> 0
      | Some m \<Rightarrow>
          let cutoff = now - windowMs;
              recentFailures = filter (\<lambda>ts. ts > cutoff) (um_failures m);
              recentSuccesses = filter (\<lambda>ts. ts > cutoff) (um_successes m);
              totalEvents = length recentFailures + length recentSuccesses
          in if totalEvents = 0 then 0 else percent_of (of_nat (length recentFailures) / of_nat totalEvents))"

definition getOrCreateMetrics :: "string \<Rightarrow> 'e dlq \<Rightarrow> url_metrics" where
  "getOrCreateMetrics url s =
     (case map_get (dq_metrics s) url of
        Some m \<Rightarrow> m
      | None \<Rightarrow> \<lparr>um_lastSuccess = None, um_lastFailure = None, um_successCount = 0, um_failureCount = 0, um_successes = [], um_failures = []\<rparr>)"

definition pruneOldEntries :: "int \<Rightarrow> url_metrics \<Rightarrow> url_metrics" where
  "pruneOldEntries now m =
     (let cutoff = now - 60 * 60 * 1000
      in m\<lparr>um_successes := filter (\<lambda>ts. ts > cutoff) (um_successes m), um_failures := filter (\<lambda>ts. ts > cutoff) (um_failures m)\<rparr>)"

definition recordSuccess_dlq :: "int \<Rightarrow> string \<Rightarrow> int \<Rightarrow> 'e dlq \<Rightarrow> 'e dlq" where
  "recordSuccess_dlq now url timestamp s =
     (let m = getOrCreateMetrics url s;
          m = m\<lparr>um_lastSuccess := Some timestamp, um_successCount := Suc (um_successCount m), um_successes := um_successes m @ [timestamp]\<rparr>
      in s\<lparr>dq_metrics := map_set url (pruneOldEntries now m) (dq_metrics s)\<rparr>)"

definition recordFailure_dlq :: "int \<Rightarrow> string \<Rightarrow> int \<Rightarrow> 'e dlq \<Rightarrow> 'e dlq" where
  "recordFailure_dlq now url timestamp s =
     (let m = getOrCreateMetrics url s;
          m = m\<lparr>um_lastFailure := Some timestamp, um_failureCount := Suc (um_failureCount m), um_failures := um_failures m @ [timestamp]\<rparr>
      in s\<lparr>dq_metrics := map_set url (pruneOldEntries now m) (dq_metrics s)\<rparr>)"

definition getHealth :: "int \<Rightarrow> string \<Rightarrow> 'e dlq \<Rightarrow> delivery_health" where
  "getHealth now url s =
     (case map_get (dq_metrics s) url of
        None \<Rightarrow> \<lparr>dh_healthy = False, dh_lastSuccess = None, dh_lastFailure = None, dh_failureRate = 0\<rparr>
      | Some m \<Rightarrow>
          let oneHourAgo = now - 60 * 60 * 1000; fifteenMinutesAgo = now - 15 * 60 * 1000;
              recentFailures = filter (\<lambda>ts. ts > oneHourAgo) (um_failures m);
              recentSuccesses = filter (\<lambda>ts. ts > oneHourAgo) (um_successes m);
              totalEvents = length recentFailures + length recentSuccesses;
              rate = (if totalEvents > 0 then of_nat (length recentFailures) / of_nat totalEvents else 0 :: rat);
              recentSuccessExists = list_ex (\<lambda>ts. ts > fifteenMinutesAgo) recentSuccesses
          in \<lparr>dh_healthy = (rate < 5 / 100 \<and> recentSuccessExists), dh_lastSuccess = um_lastSuccess m,
              dh_lastFailure = um_lastFailure m, dh_failureRate = percent_of rate\<rparr>)"

definition get_dlq :: "string \<Rightarrow> 'e dlq \<Rightarrow> 'e dlq_entry option" where
  "get_dlq i s = map_get (dq_entries s) i"

definition remove_dlq :: "string \<Rightarrow> 'e dlq \<Rightarrow> bool \<times> 'e dlq" where
  "remove_dlq i s = (map_get (dq_entries s) i \<noteq> None, s\<lparr>dq_entries := map_del i (dq_entries s)\<rparr>)"

definition clear_dlq :: "'e dlq \<Rightarrow> 'e dlq" where
  "clear_dlq s = s\<lparr>dq_entries := [], dq_metrics := []\<rparr>"

definition size_dlq :: "'e dlq \<Rightarrow> nat" where
  "size_dlq s = length (dq_entries s)"

definition getAllUrls :: "'e dlq \<Rightarrow> string list" where
  "getAllUrls s = map fst (dq_metrics s)"

section \<open>dedupReceiver\<close>

text \<open>
  A call is split at its awaits: \<open>DSeen\<close> asks the store, \<open>DMark\<close> marks the id and runs the handler. \<open>dd_pending\<close>
  holds the calls that asked and got no, in order.
\<close>

record dedup_receiver =
  dd_ids :: "string list"
  dd_pending :: "string list"
  dd_handled :: "string list"

datatype dedup_op = DSeen string | DMark

fun dedup_step :: "dedup_op \<Rightarrow> dedup_receiver \<Rightarrow> dedup_receiver" where
  "dedup_step (DSeen i) s = (if i \<in> set (dd_ids s) then s else s\<lparr>dd_pending := dd_pending s @ [i]\<rparr>)"
| "dedup_step DMark s =
     (case dd_pending s of
        [] \<Rightarrow> s
      | i # rest \<Rightarrow> s\<lparr>dd_ids := (if i \<in> set (dd_ids s) then dd_ids s else dd_ids s @ [i]), dd_pending := rest, dd_handled := dd_handled s @ [i]\<rparr>)"

text \<open>A call that runs to its end before the next one starts.\<close>

definition receive_once :: "string \<Rightarrow> dedup_receiver \<Rightarrow> dedup_receiver" where
  "receive_once i s = (if i \<in> set (dd_ids s) then s else dedup_step DMark (dedup_step (DSeen i) s))"

section \<open>The queue invariant\<close>

definition wq_ok :: "'e webhook_queue \<Rightarrow> bool" where
  "wq_ok q \<longleftrightarrow> map_wf (wq_queued q) \<and> map_wf (wq_inFlight q) \<and> 1 \<le> wq_visibilityTimeoutMs q \<and>
     (\<forall>(k, r, s) \<in> set (wq_queued q). rr_id r = k \<and> k \<noteq> [] \<and> r\<lparr>rr_nextRetryAt := Finite (due_at r)\<rparr> = r \<and> s < wq_seq q) \<and>
     (\<forall>(k, r, e) \<in> set (wq_inFlight q). rr_id r = k \<and> k \<noteq> [])"

lemma newWebhookQueue_ok: "wq_ok (newWebhookQueue v)"
  by (simp add: wq_ok_def newWebhookQueue_def)

lemma wq_ok_put:
  assumes "wq_ok q" "rr_nextRetryAt r = Finite t" "rr_id r = k" "k \<noteq> []"
  shows "wq_ok (q\<lparr>wq_queued := map_set k (r, wq_seq q) (wq_queued q), wq_seq := Suc (wq_seq q)\<rparr>)"
proof -
  have wf: "map_wf (wq_queued q)" using assms(1) by (simp add: wq_ok_def)
  have "\<forall>(k, r, s) \<in> set (map_set k (r, wq_seq q) (wq_queued q)). rr_id r = k \<and> k \<noteq> [] \<and> r\<lparr>rr_nextRetryAt := Finite (due_at r)\<rparr> = r \<and> s < Suc (wq_seq q)"
    using assms unfolding wq_ok_def set_map_set [OF wf] by (fastforce simp: due_at_def)
  with assms(1) show ?thesis by (simp add: wq_ok_def)
qed

lemma wq_ok_del: "wq_ok q \<Longrightarrow> wq_ok (q\<lparr>wq_queued := map_del k (wq_queued q)\<rparr>)"
  "wq_ok q \<Longrightarrow> wq_ok (q\<lparr>wq_inFlight := map_del k (wq_inFlight q)\<rparr>)"
  by (auto simp: wq_ok_def set_map_del)

lemma put_queued_ok: "wq_ok q \<Longrightarrow> rr_nextRetryAt r = Finite t \<Longrightarrow> rr_id r \<noteq> [] \<Longrightarrow> wq_ok (put_queued r q)"
  by (simp add: put_queued_def wq_ok_put)

lemma enqueue_wq_ok: "wq_ok q \<Longrightarrow> enqueue_wq r q = Inr q' \<Longrightarrow> wq_ok q'"
  by (auto simp: enqueue_wq_def assertRecord_def put_queued_ok split: if_splits js_number.splits)

lemma reclaim_wq_ok:
  "wq_ok q \<Longrightarrow> \<forall>(k, r, e) \<in> set es. rr_id r = k \<and> k \<noteq> [] \<Longrightarrow> wq_ok (reclaim_wq now es q)"
proof (induction now es q rule: reclaim_wq.induct)
  case (2 now k r e es q)
  have "wq_ok (q\<lparr>wq_inFlight := map_del k (wq_inFlight q),
      wq_queued := map_set k (r\<lparr>rr_nextRetryAt := Finite now\<rparr>, wq_seq q) (wq_queued q), wq_seq := Suc (wq_seq q)\<rparr>)"
    using wq_ok_put [OF wq_ok_del(2) [OF 2(2), of k], of "r\<lparr>rr_nextRetryAt := Finite now\<rparr>" now k] 2(3) by simp
  with 2 show ?case by simp
qed simp

lemma reclaimExpired_ok: "wq_ok q \<Longrightarrow> wq_ok (reclaimExpired_wq now q)"
  unfolding reclaimExpired_wq_def by (rule reclaim_wq_ok) (auto simp: wq_ok_def)

lemma sooner_weak: "\<not> sooner a b \<Longrightarrow> \<not> sooner b c \<Longrightarrow> \<not> sooner a c"
  by (auto simp: sooner_def)

lemma sooner_asym: "sooner a b \<Longrightarrow> \<not> sooner b a"
  by (auto simp: sooner_def)

lemma pick_soonest:
  assumes "fold (pick P sooner) xs None = Some m"
  shows "m \<in> set xs \<and> P m \<and> (\<forall>x \<in> set xs. P x \<longrightarrow> \<not> sooner x m)"
proof -
  have "(None = Some m \<or> m \<in> set xs \<and> P m) \<and> (\<forall>x \<in> set xs. P x \<longrightarrow> \<not> sooner x m) \<and> (\<forall>b. None = Some b \<longrightarrow> \<not> sooner b m)"
    by (rule fold_pick_Some [OF _ _ assms]) (metis sooner_weak, metis sooner_asym)
  then show ?thesis by simp
qed

lemma pick_latest:
  assumes "fold (pick P (\<lambda>a b. sooner b a)) xs None = Some m"
  shows "m \<in> set xs \<and> P m \<and> (\<forall>x \<in> set xs. P x \<longrightarrow> \<not> sooner m x)"
proof -
  have "(None = Some m \<or> m \<in> set xs \<and> P m) \<and> (\<forall>x \<in> set xs. P x \<longrightarrow> \<not> sooner m x) \<and> (\<forall>b. None = Some b \<longrightarrow> \<not> sooner m b)"
    by (rule fold_pick_Some [OF _ _ assms]) (metis sooner_weak, metis sooner_asym)
  then show ?thesis by simp
qed

definition in_flight :: "'e webhook_queue \<Rightarrow> string \<Rightarrow> 'e webhook_retry option" where
  "in_flight q k = map_option fst (map_get (wq_inFlight q) k)"

definition waiting :: "'e webhook_queue \<Rightarrow> string \<Rightarrow> 'e webhook_retry option" where
  "waiting q k = map_option fst (map_get (wq_queued q) k)"

lemma dequeue_wq_some:
  assumes ok: "wq_ok q" and d: "dequeue_wq now q = (Some r, q')"
  defines "p \<equiv> reclaimExpired_wq now q"
  shows "\<exists>s. (rr_id r, r, s) \<in> set (wq_queued p) \<and> due_at r \<le> now \<and>
      (\<forall>(k, r', s') \<in> set (wq_queued p). due_at r' \<le> now \<longrightarrow> due_at r < due_at r' \<or> due_at r = due_at r' \<and> s \<le> s') \<and>
      q' = p\<lparr>wq_queued := map_del (rr_id r) (wq_queued p), wq_inFlight := map_set (rr_id r) (r, now + wq_visibilityTimeoutMs p) (wq_inFlight p)\<rparr>"
proof -
  let ?P = "\<lambda>x. \<not> due_at (fst x) > now"
  have okp: "wq_ok p" unfolding p_def by (rule reclaimExpired_ok [OF ok])
  obtain s where m: "fold (pick ?P sooner) (map snd (wq_queued p)) None = Some (r, s)"
    and q': "q' = p\<lparr>wq_queued := map_del (rr_id r) (wq_queued p), wq_inFlight := map_set (rr_id r) (r, now + wq_visibilityTimeoutMs p) (wq_inFlight p)\<rparr>"
    using d by (auto simp: dequeue_wq_def Let_def p_def split: option.splits)
  have best: "(r, s) \<in> snd ` set (wq_queued p)" "due_at r \<le> now"
    and le: "\<And>x. x \<in> snd ` set (wq_queued p) \<Longrightarrow> due_at (fst x) \<le> now \<Longrightarrow> \<not> sooner x (r, s)"
    using pick_soonest [OF m] by auto
  from best(1) okp have "(rr_id r, r, s) \<in> set (wq_queued p)" by (auto simp: wq_ok_def)
  moreover have "due_at r < due_at r' \<or> due_at r = due_at r' \<and> s \<le> s'" if "(k, r', s') \<in> set (wq_queued p)" "due_at r' \<le> now" for k r' s'
    using le [of "(r', s')"] that by (force simp: sooner_def)
  ultimately show ?thesis using best(2) q' by blast
qed

lemma dequeue_wq_none:
  "dequeue_wq now q = (None, q') \<longleftrightarrow> q' = reclaimExpired_wq now q \<and> (\<forall>(k, r, s) \<in> set (wq_queued q'). now < due_at r)"
proof -
  let ?p = "reclaimExpired_wq now q" and ?f = "fold (pick (\<lambda>x. \<not> due_at (fst x) > now) sooner)"
  have "?f (map snd (wq_queued ?p)) None = None \<longleftrightarrow> (\<forall>(k, r, s) \<in> set (wq_queued ?p). now < due_at r)"
    by (auto simp: fold_pick_None)
  then show ?thesis
    by (cases "?f (map snd (wq_queued ?p)) None") (auto simp: dequeue_wq_def Let_def split: prod.splits)
qed

lemma dequeue_wq_ok: "wq_ok q \<Longrightarrow> wq_ok (snd (dequeue_wq now q))"
proof -
  assume ok: "wq_ok q"
  note okp = reclaimExpired_ok [OF ok, of now]
  show ?thesis
  proof (cases "fst (dequeue_wq now q)")
    case None
    with okp show ?thesis using dequeue_wq_none [of now q "snd (dequeue_wq now q)"] by (cases "dequeue_wq now q") simp
  next
    case (Some r)
    then obtain q' where q': "dequeue_wq now q = (Some r, q')" by (cases "dequeue_wq now q") auto
    have wf: "map_wf (wq_inFlight (reclaimExpired_wq now q))" using okp by (simp add: wq_ok_def)
    let ?p = "reclaimExpired_wq now q"
    obtain s where s: "(rr_id r, r, s) \<in> set (wq_queued ?p)"
      and eq: "q' = ?p\<lparr>wq_queued := map_del (rr_id r) (wq_queued ?p), wq_inFlight := map_set (rr_id r) (r, now + wq_visibilityTimeoutMs ?p) (wq_inFlight ?p)\<rparr>"
      using dequeue_wq_some [OF ok q'] by blast
    have "rr_id r \<noteq> []" using okp s by (auto simp: wq_ok_def)
    then have "\<forall>(k, r, e) \<in> set (map_set (rr_id r) (r, now + wq_visibilityTimeoutMs ?p) (wq_inFlight ?p)). rr_id r = k \<and> k \<noteq> []"
      using okp unfolding set_map_set [OF wf] wq_ok_def by fastforce
    with okp wf show ?thesis unfolding q' eq by (auto simp: wq_ok_def set_map_del)
  qed
qed

section \<open>The interface of a retry queue\<close>

text \<open>What the delivery relies on: every record of the queue is a job with a fixed id, attempt and payload, which only changes its due time.\<close>

definition same_job :: "'e webhook_retry \<Rightarrow> 'e webhook_retry \<Rightarrow> bool" where
  "same_job r0 r \<longleftrightarrow> r = r0\<lparr>rr_nextRetryAt := rr_nextRetryAt r\<rparr>"

lemma same_job_refl [simp]: "same_job r r"
  by (simp add: same_job_def)

lemma same_job_update [simp]: "same_job r (r\<lparr>rr_nextRetryAt := t\<rparr>)"
  by (simp add: same_job_def)

lemma same_job_trans: "same_job a b \<Longrightarrow> same_job b c \<Longrightarrow> same_job a c"
  by (simp add: same_job_def) (metis webhook_retry.surjective webhook_retry.update_convs(5))

lemma same_job_attempt: "same_job a b \<Longrightarrow> rr_attempt b = rr_attempt a \<and> rr_id b = rr_id a \<and> rr_url b = rr_url a"
  by (simp add: same_job_def) (metis webhook_retry.select_convs(1,3,4) webhook_retry.surjective webhook_retry.update_convs(5))

locale webhook_retry_queue =
  fixes dequeue :: "rat \<Rightarrow> 'q \<Rightarrow> 'e webhook_retry option \<times> 'q"
    and ack :: "string \<Rightarrow> 'q \<Rightarrow> 'q"
    and nack :: "rat \<Rightarrow> string \<Rightarrow> js_number \<Rightarrow> 'q \<Rightarrow> (webhook_queue_error, 'q) result"
    and jobs :: "'q \<Rightarrow> string \<Rightarrow> 'e webhook_retry set"
    and taken :: "'q \<Rightarrow> string \<Rightarrow> 'e webhook_retry option"
    and ok :: "'q \<Rightarrow> bool"
  assumes dequeue_taken: "ok q \<Longrightarrow> dequeue now q = (Some r, q') \<Longrightarrow> taken q' (rr_id r) = Some r"
    and dequeue_ok: "ok q \<Longrightarrow> ok (snd (dequeue now q))"
    and dequeue_jobs: "ok q \<Longrightarrow> r \<in> jobs (snd (dequeue now q)) k \<Longrightarrow> \<exists>r0 \<in> jobs q k. same_job r0 r"
    and taken_job: "taken q k = Some r \<Longrightarrow> r \<in> jobs q k"
    and nack_waits: "ok q \<Longrightarrow> taken q k = Some r \<Longrightarrow> \<exists>q'. nack now k delay q = Inr q' \<and> ok q'"
    and nack_jobs: "ok q \<Longrightarrow> nack now k delay q = Inr q' \<Longrightarrow> r \<in> jobs q' j \<Longrightarrow> \<exists>r0 \<in> jobs q j. same_job r0 r"
    and dequeue_keeps: "ok q \<Longrightarrow> jobs q k \<noteq> {} \<Longrightarrow> jobs (snd (dequeue now q)) k \<noteq> {}"
    and nack_keeps: "ok q \<Longrightarrow> nack now j delay q = Inr q' \<Longrightarrow> jobs q k \<noteq> {} \<Longrightarrow> jobs q' k \<noteq> {}"
    and ack_ok: "ok q \<Longrightarrow> ok (ack k q)"
    and ack_jobs: "ok q \<Longrightarrow> jobs (ack k q) j \<subseteq> jobs q j"

text \<open>A consumer that takes whatever is due and gives it back, over and over: the delays are the ones it asks for.\<close>

fun nack_round ::
  "(rat \<Rightarrow> 'q \<Rightarrow> 'e webhook_retry option \<times> 'q) \<Rightarrow> (rat \<Rightarrow> string \<Rightarrow> js_number \<Rightarrow> 'q \<Rightarrow> (webhook_queue_error, 'q) result) \<Rightarrow>
   rat \<times> rat \<times> js_number \<Rightarrow> 'q \<Rightarrow> 'q"
where
  "nack_round dequeue nack (t, t', delay) q =
     (case dequeue t q of
        (None, q) \<Rightarrow> q
      | (Some r, q) \<Rightarrow> (case nack t' (rr_id r) delay q of Inl _ \<Rightarrow> q | Inr q \<Rightarrow> q))"

context webhook_retry_queue
begin

lemma dequeue_old: "ok q \<Longrightarrow> dequeue now q = (Some r, q') \<Longrightarrow> \<exists>r0 \<in> jobs q (rr_id r). same_job r0 r"
  using dequeue_jobs [of q r now "rr_id r"] taken_job [OF dequeue_taken [of q now r q']] by simp

lemma nack_round_keeps:
  assumes "ok q"
  shows "ok (nack_round dequeue nack x q)" "jobs q k \<noteq> {} \<Longrightarrow> jobs (nack_round dequeue nack x q) k \<noteq> {}"
    "r \<in> jobs (nack_round dequeue nack x q) k \<Longrightarrow> \<exists>r0 \<in> jobs q k. same_job r0 r"
proof -
  obtain t t' delay where x: "x = (t, t', delay)" by (cases x)
  obtain b q1 where d: "dequeue t q = (b, q1)" by (cases "dequeue t q")
  have q1: "ok q1" "jobs q k \<noteq> {} \<Longrightarrow> jobs q1 k \<noteq> {}" "r \<in> jobs q1 k \<Longrightarrow> \<exists>r0 \<in> jobs q k. same_job r0 r" for k r
    using dequeue_ok [OF assms, of t] dequeue_keeps [OF assms, of k t] dequeue_jobs [OF assms, of r t k] d by auto
  have *: "ok (nack_round dequeue nack x q) \<and> (jobs q k \<noteq> {} \<longrightarrow> jobs (nack_round dequeue nack x q) k \<noteq> {}) \<and>
      (r \<in> jobs (nack_round dequeue nack x q) k \<longrightarrow> (\<exists>r0 \<in> jobs q k. same_job r0 r))"
  proof (cases b)
    case None
    with q1 show ?thesis by (auto simp: x d)
  next
    case (Some r1)
    have "taken q1 (rr_id r1) = Some r1" using dequeue_taken [OF assms] d Some by blast
    from nack_waits [OF q1(1) this] obtain q2 where q2: "nack t' (rr_id r1) delay q1 = Inr q2" "ok q2" by blast
    have "r \<in> jobs q2 k \<Longrightarrow> \<exists>r0 \<in> jobs q k. same_job r0 r"
      using nack_jobs [OF q1(1) q2(1), of r k] q1(3) [of _ k] same_job_trans by blast
    with nack_keeps [OF q1(1) q2(1), of k] q1(2) [of k] q2 Some show ?thesis by (auto simp: x d)
  qed
  then show "ok (nack_round dequeue nack x q)" "jobs q k \<noteq> {} \<Longrightarrow> jobs (nack_round dequeue nack x q) k \<noteq> {}"
    "r \<in> jobs (nack_round dequeue nack x q) k \<Longrightarrow> \<exists>r0 \<in> jobs q k. same_job r0 r" by blast+
qed

end

definition wq_jobs :: "'e webhook_queue \<Rightarrow> string \<Rightarrow> 'e webhook_retry set" where
  "wq_jobs q k = {r. waiting q k = Some r \<or> in_flight q k = Some r}"

lemma wq_jobs_empty: "wq_jobs q k = {} \<longleftrightarrow> map_get (wq_queued q) k = None \<and> map_get (wq_inFlight q) k = None"
  by (cases "map_get (wq_queued q) k"; cases "map_get (wq_inFlight q) k") (auto simp: wq_jobs_def waiting_def in_flight_def)

lemma reclaim_wq_keeps: "wq_jobs q k \<noteq> {} \<Longrightarrow> wq_jobs (reclaim_wq now es q) k \<noteq> {}"
proof (induction now es q rule: reclaim_wq.induct)
  case (2 now j r e es q)
  let ?q = "q\<lparr>wq_inFlight := map_del j (wq_inFlight q), wq_queued := map_set j (r\<lparr>rr_nextRetryAt := Finite now\<rparr>, wq_seq q) (wq_queued q), wq_seq := Suc (wq_seq q)\<rparr>"
  have "wq_jobs ?q k \<noteq> {}" using 2(2) by (auto simp: wq_jobs_empty)
  with 2 show ?case by simp
qed simp

lemma dequeue_wq_keeps:
  assumes ok: "wq_ok q" and j: "wq_jobs q k \<noteq> {}"
  shows "wq_jobs (snd (dequeue_wq now q)) k \<noteq> {}"
proof -
  have p: "wq_jobs (reclaimExpired_wq now q) k \<noteq> {}" unfolding reclaimExpired_wq_def by (rule reclaim_wq_keeps [OF j])
  show ?thesis
  proof (cases "fst (dequeue_wq now q)")
    case None
    then show ?thesis using p dequeue_wq_none [of now q "snd (dequeue_wq now q)"] by (cases "dequeue_wq now q") simp
  next
    case (Some b)
    then obtain q' where q': "dequeue_wq now q = (Some b, q')" by (cases "dequeue_wq now q") auto
    show ?thesis using dequeue_wq_some [OF ok q'] p unfolding q' by (auto simp: wq_jobs_empty)
  qed
qed

lemma reclaim_wq_jobs:
  assumes "r \<in> wq_jobs (reclaim_wq now es q) k" "map_wf (wq_inFlight q)" "\<forall>(k, x, e) \<in> set es. \<exists>e'. (k, x, e') \<in> set es0"
  shows "\<exists>r0. (r0 \<in> wq_jobs q k \<or> (\<exists>e. (k, r0, e) \<in> set es0)) \<and> same_job r0 r"
  using assms
proof (induction now es q rule: reclaim_wq.induct)
  case (1 now q)
  then show ?case by (intro exI [of _ r]) simp
next
  case (2 now j x e es q)
  have es: "\<forall>(k, x, e) \<in> set es. \<exists>e'. (k, x, e') \<in> set es0" using 2(4) by simp
  show ?case
  proof (cases "e \<le> now")
    case True
    let ?q = "q\<lparr>wq_inFlight := map_del j (wq_inFlight q), wq_queued := map_set j (x\<lparr>rr_nextRetryAt := Finite now\<rparr>, wq_seq q) (wq_queued q), wq_seq := Suc (wq_seq q)\<rparr>"
    have "r \<in> wq_jobs (reclaim_wq now es ?q) k" "map_wf (wq_inFlight ?q)" using 2(2,3) True by simp_all
    with 2(1) es True obtain r0 where r0: "r0 \<in> wq_jobs ?q k \<or> (\<exists>e. (k, r0, e) \<in> set es0)" "same_job r0 r"
      by auto
    have "r0 \<in> wq_jobs q k \<or> k = j \<and> r0 = x\<lparr>rr_nextRetryAt := Finite now\<rparr>" if "r0 \<in> wq_jobs ?q k"
      using that by (auto simp: wq_jobs_def waiting_def in_flight_def split: if_splits)
    moreover have "\<exists>e'. (j, x, e') \<in> set es0" using 2(4) by simp
    ultimately show ?thesis using r0 same_job_trans [of x "x\<lparr>rr_nextRetryAt := Finite now\<rparr>" r] same_job_update [of x] by blast
  next
    case False
    with 2(1) [of] 2(2,3) es show ?thesis by simp
  qed
qed

lemma reclaimExpired_jobs:
  assumes "wq_ok q" "r \<in> wq_jobs (reclaimExpired_wq now q) k"
  shows "\<exists>r0 \<in> wq_jobs q k. same_job r0 r"
proof -
  have wf: "map_wf (wq_inFlight q)" using assms(1) by (simp add: wq_ok_def)
  from reclaim_wq_jobs [OF assms(2) [unfolded reclaimExpired_wq_def] wf, of "wq_inFlight q"]
  obtain r0 where "r0 \<in> wq_jobs q k \<or> (\<exists>e. (k, r0, e) \<in> set (wq_inFlight q))" "same_job r0 r" by auto
  moreover have "r0 \<in> wq_jobs q k" if "(k, r0, e) \<in> set (wq_inFlight q)" for e
    using that map_get_in_set [OF wf, of k] by (auto simp: wq_jobs_def in_flight_def)
  ultimately show ?thesis by blast
qed

lemma dequeue_wq_jobs:
  assumes ok: "wq_ok q" and r: "r \<in> wq_jobs (snd (dequeue_wq now q)) k"
  shows "\<exists>r0 \<in> wq_jobs q k. same_job r0 r"
proof -
  let ?p = "reclaimExpired_wq now q"
  have wf: "map_wf (wq_queued ?p)" using reclaimExpired_ok [OF ok] by (simp add: wq_ok_def)
  have "r \<in> wq_jobs ?p k"
  proof (cases "fst (dequeue_wq now q)")
    case None
    then show ?thesis using r dequeue_wq_none [of now q "snd (dequeue_wq now q)"] by (cases "dequeue_wq now q") simp
  next
    case (Some b)
    then obtain q' where q': "dequeue_wq now q = (Some b, q')" by (cases "dequeue_wq now q") auto
    obtain s where s: "(rr_id b, b, s) \<in> set (wq_queued ?p)"
      and eq: "q' = ?p\<lparr>wq_queued := map_del (rr_id b) (wq_queued ?p), wq_inFlight := map_set (rr_id b) (b, now + wq_visibilityTimeoutMs ?p) (wq_inFlight ?p)\<rparr>"
      using dequeue_wq_some [OF ok q'] by blast
    from r show ?thesis
      using map_get_in_set [OF wf, of "rr_id b" "(b, s)"] s unfolding q' snd_conv eq
      by (auto simp: wq_jobs_def waiting_def in_flight_def split: if_splits)
  qed
  from reclaimExpired_jobs [OF ok this] show ?thesis .
qed

lemma nack_wq_inr:
  assumes "wq_ok q" "map_get (wq_inFlight q) k = Some (r, e)"
  shows "\<exists>t. nack_wq now k delay q = Inr (put_queued (r\<lparr>rr_nextRetryAt := Finite t\<rparr>) (q\<lparr>wq_inFlight := map_del k (wq_inFlight q)\<rparr>)) \<and> rr_id r = k \<and> k \<noteq> []"
proof -
  have "rr_id r = k \<and> k \<noteq> []" using assms map_get_mem [of "wq_inFlight q" k "(r, e)"] by (auto simp: wq_ok_def)
  with assms(2) show ?thesis by (auto simp: nack_wq_def enqueue_wq_def assertRecord_def Let_def)
qed

interpretation webhook_queue: webhook_retry_queue dequeue_wq ack_wq nack_wq wq_jobs in_flight wq_ok
proof unfold_locales
  fix q q' :: "'e webhook_queue" and now r
  assume ok: "wq_ok q" and d: "dequeue_wq now q = (Some r, q')"
  then show "in_flight q' (rr_id r) = Some r" using dequeue_wq_some [OF ok d] by (auto simp: in_flight_def)
next
  fix q :: "'e webhook_queue" and now delay k r
  assume ok: "wq_ok q" and t: "in_flight q k = Some r"
  then obtain e where e: "map_get (wq_inFlight q) k = Some (r, e)" by (auto simp: in_flight_def)
  obtain t where n: "nack_wq now k delay q = Inr (put_queued (r\<lparr>rr_nextRetryAt := Finite t\<rparr>) (q\<lparr>wq_inFlight := map_del k (wq_inFlight q)\<rparr>))"
    and k: "rr_id r = k" "k \<noteq> []" using nack_wq_inr [OF ok e] by blast
  then show "\<exists>q'. nack_wq now k delay q = Inr q' \<and> wq_ok q'" using put_queued_ok [OF wq_ok_del(2) [OF ok, of k]] by simp
next
  fix q q' :: "'e webhook_queue" and now delay k j r
  assume ok: "wq_ok q" and n: "nack_wq now k delay q = Inr q'" and r: "r \<in> wq_jobs q' j"
  show "\<exists>r0 \<in> wq_jobs q j. same_job r0 r"
  proof (cases "map_get (wq_inFlight q) k")
    case None
    then have "q' = q" using n by (simp add: nack_wq_def)
    with r same_job_refl [of r] show ?thesis by blast
  next
    case (Some p)
    obtain x e where p: "p = (x, e)" by (cases p)
    obtain t where "nack_wq now k delay q = Inr (put_queued (x\<lparr>rr_nextRetryAt := Finite t\<rparr>) (q\<lparr>wq_inFlight := map_del k (wq_inFlight q)\<rparr>))"
      and k: "rr_id x = k" using nack_wq_inr [OF ok Some [unfolded p]] by blast
    with n have q': "q' = put_queued (x\<lparr>rr_nextRetryAt := Finite t\<rparr>) (q\<lparr>wq_inFlight := map_del k (wq_inFlight q)\<rparr>)" by simp
    have "r = x\<lparr>rr_nextRetryAt := Finite t\<rparr> \<and> j = k \<or> r \<in> wq_jobs q j"
      using r k by (auto simp: q' put_queued_def wq_jobs_def waiting_def in_flight_def split: if_splits)
    moreover have "x \<in> wq_jobs q k" using Some p by (simp add: wq_jobs_def in_flight_def)
    moreover have "same_job x (x\<lparr>rr_nextRetryAt := Finite t\<rparr>)" "same_job r r" by simp_all
    ultimately show ?thesis by blast
  qed
next
  fix q q' :: "'e webhook_queue" and now delay k j
  assume ok: "wq_ok q" and n: "nack_wq now j delay q = Inr q'" and r: "wq_jobs q k \<noteq> {}"
  show "wq_jobs q' k \<noteq> {}"
  proof (cases "map_get (wq_inFlight q) j")
    case None
    with n r show ?thesis by (simp add: nack_wq_def)
  next
    case (Some p)
    obtain x e where p: "p = (x, e)" by (cases p)
    show ?thesis using nack_wq_inr [OF ok Some [unfolded p], of now delay] n r by (auto simp: wq_jobs_empty put_queued_def)
  qed
next
  fix q :: "'e webhook_queue" and now r k
  assume "wq_ok q" "r \<in> wq_jobs (snd (dequeue_wq now q)) k"
  then show "\<exists>r0 \<in> wq_jobs q k. same_job r0 r" by (rule dequeue_wq_jobs)
next
  fix q :: "'e webhook_queue" and now k
  assume "wq_ok q" "wq_jobs q k \<noteq> {}"
  then show "wq_jobs (snd (dequeue_wq now q)) k \<noteq> {}" by (rule dequeue_wq_keeps)
qed (auto simp: dequeue_wq_ok wq_jobs_def ack_wq_def wq_ok_del in_flight_def waiting_def split: if_splits)

section \<open>Order, recovery, shedding\<close>

text \<open>
  \<open>dequeue\<close> serves the earliest due time first and equal times in the order of their insertion. It returns nothing
  exactly when nothing queued is due, where in-flight records whose visibility timeout has passed count as queued and due.
\<close>

theorem webhook_dequeue_first:
  assumes "wq_ok q" "dequeue_wq now q = (res, q')"
  shows "case res of
      None \<Rightarrow> \<forall>(k, r, s) \<in> set (wq_queued (reclaimExpired_wq now q)). now < due_at r
    | Some r \<Rightarrow> due_at r \<le> now \<and> (\<exists>s. (rr_id r, r, s) \<in> set (wq_queued (reclaimExpired_wq now q)) \<and>
        (\<forall>(k, r', s') \<in> set (wq_queued (reclaimExpired_wq now q)). due_at r' \<le> now \<longrightarrow> due_at r < due_at r' \<or> due_at r = due_at r' \<and> s \<le> s'))"
  using assms dequeue_wq_none [of now q q'] dequeue_wq_some [of q now _ q'] by (cases res) auto

definition sample_retry :: "string \<Rightarrow> rat \<Rightarrow> unit webhook_retry" where
  "sample_retry i t = \<lparr>rr_id = i, rr_event = (), rr_url = ''u'', rr_attempt = 2, rr_nextRetryAt = Finite t, rr_lastError = None, rr_createdAt = None\<rparr>"

theorem webhook_dequeue_first_witness:
  "due_at (sample_retry ''b'' 5) \<le> (7 :: rat)"
proof -
  define q where "q = put_queued (sample_retry ''b'' 5) (newWebhookQueue None)"
  have ok: "wq_ok q" using put_queued_ok [OF newWebhookQueue_ok, of "sample_retry ''b'' 5" 5] by (simp add: q_def sample_retry_def)
  have "fst (dequeue_wq 7 q) = Some (sample_retry ''b'' 5)"
    by (simp add: q_def put_queued_def newWebhookQueue_def dequeue_wq_def reclaimExpired_wq_def pick_def sample_retry_def due_at_def)
  then obtain q' where "dequeue_wq 7 q = (Some (sample_retry ''b'' 5), q')" by (cases "dequeue_wq 7 q") auto
  from webhook_dequeue_first [OF ok this] show ?thesis by simp
qed

lemma reclaim_wq_queued:
  assumes "(k, r, s) \<in> set (wq_queued (reclaim_wq now es q))" "map_wf (wq_queued q)"
  shows "(k, r, s) \<in> set (wq_queued q) \<or> (\<exists>x e. (k, x, e) \<in> set es \<and> e \<le> now \<and> r = x\<lparr>rr_nextRetryAt := Finite now\<rparr>)"
  using assms
proof (induction now es q rule: reclaim_wq.induct)
  case (2 now j x e es q)
  then show ?case by (cases "e \<le> now") (fastforce simp: set_map_set)+
qed simp

lemma reclaim_wq_get: "k \<notin> fst ` set es \<Longrightarrow> map_get (wq_queued (reclaim_wq now es q)) k = map_get (wq_queued q) k"
  by (induction now es q rule: reclaim_wq.induct) auto

lemma reclaim_wq_expired:
  assumes "distinct (map fst es)" "map_get es k = Some (r, e)" "e \<le> now"
  shows "\<exists>s. map_get (wq_queued (reclaim_wq now es q)) k = Some (r\<lparr>rr_nextRetryAt := Finite now\<rparr>, s)"
  using assms
proof (induction now es q rule: reclaim_wq.induct)
  case (2 now j x e' es q)
  show ?case
  proof (cases "k = j")
    case True
    with 2 show ?thesis by (auto simp: reclaim_wq_get)
  next
    case False
    with 2 show ?thesis by simp
  qed
qed simp

text \<open>
  C26: a consumer that crashes between \<open>dequeue\<close> and \<open>ack\<close> loses nothing. From the end of the visibility timeout on, the record
  is queued again, due at once, and the queue is not empty for \<open>dequeue\<close>.
\<close>

theorem webhook_crash_recovered:
  assumes ok: "wq_ok q" and d: "dequeue_wq now q = (Some r, q')" and later: "now + wq_visibilityTimeoutMs q' \<le> later"
  shows "\<exists>s. map_get (wq_queued (reclaimExpired_wq later q')) (rr_id r) = Some (r\<lparr>rr_nextRetryAt := Finite later\<rparr>, s) \<and>
    fst (dequeue_wq later q') \<noteq> None"
proof -
  let ?p = "reclaimExpired_wq now q"
  have eq: "q' = ?p\<lparr>wq_queued := map_del (rr_id r) (wq_queued ?p), wq_inFlight := map_set (rr_id r) (r, now + wq_visibilityTimeoutMs ?p) (wq_inFlight ?p)\<rparr>"
    using dequeue_wq_some [OF ok d] by blast
  have ok': "wq_ok q'" using dequeue_wq_ok [OF ok, of now] d by simp
  then have dist: "distinct (map fst (wq_inFlight q'))" by (simp add: wq_ok_def map_wf_def)
  have "map_get (wq_inFlight q') (rr_id r) = Some (r, now + wq_visibilityTimeoutMs q')" by (simp add: eq)
  from reclaim_wq_expired [OF dist this later, of q'] obtain s
    where s: "map_get (wq_queued (reclaimExpired_wq later q')) (rr_id r) = Some (r\<lparr>rr_nextRetryAt := Finite later\<rparr>, s)"
    by (auto simp: reclaimExpired_wq_def)
  then have "(rr_id r, r\<lparr>rr_nextRetryAt := Finite later\<rparr>, s) \<in> set (wq_queued (reclaimExpired_wq later q'))" by (rule map_get_mem)
  then have "fst (dequeue_wq later q') \<noteq> None"
    using dequeue_wq_none [of later q' "snd (dequeue_wq later q')"] by (cases "dequeue_wq later q'") (fastforce simp: due_at_def)
  with s show ?thesis by blast
qed

theorem webhook_crash_recovered_witness:
  "\<exists>q' s. map_get (wq_queued (reclaimExpired_wq 40000 q')) ''b'' = Some (sample_retry ''b'' 40000, s) \<and> fst (dequeue_wq 40000 q') \<noteq> None"
proof -
  define q where "q = put_queued (sample_retry ''b'' 5) (newWebhookQueue None)"
  have ok: "wq_ok q" using put_queued_ok [OF newWebhookQueue_ok, of "sample_retry ''b'' 5" 5] by (simp add: q_def sample_retry_def)
  have d: "fst (dequeue_wq 7 q) = Some (sample_retry ''b'' 5)" "wq_visibilityTimeoutMs (snd (dequeue_wq 7 q)) = 30000"
    by (simp_all add: q_def put_queued_def newWebhookQueue_def dequeue_wq_def reclaimExpired_wq_def pick_def sample_retry_def due_at_def)
  then obtain q' where q': "dequeue_wq 7 q = (Some (sample_retry ''b'' 5), q')" by (cases "dequeue_wq 7 q") auto
  from webhook_crash_recovered [OF ok this, of 40000] d(2) show ?thesis by (auto simp: q' sample_retry_def)
qed

section \<open>Health\<close>

text \<open>Outcomes recorded as they happen: the clock, the URL and whether the attempt succeeded.\<close>

fun health_step :: "int \<times> string \<times> bool \<Rightarrow> 'e dlq \<Rightarrow> 'e dlq" where
  "health_step (t, url, good) s = (if good then recordSuccess_dlq t url t s else recordFailure_dlq t url t s)"

definition outcomes :: "string \<Rightarrow> bool \<Rightarrow> (int \<times> string \<times> bool) list \<Rightarrow> int list" where
  "outcomes url good hist = map fst (filter (\<lambda>(t, u, g). u = url \<and> g = good) hist)"

lemma outcomes_snoc: "outcomes url good (hist @ [(t, u, g)]) = outcomes url good hist @ (if u = url \<and> g = good then [t] else [])"
  by (simp add: outcomes_def)

lemma outcomes_le: "sorted (map fst (hist @ [(t, u, g)])) \<Longrightarrow> ts \<in> set (outcomes url good hist) \<Longrightarrow> ts \<le> t"
  by (auto simp: outcomes_def sorted_append)

lemma health_run:
  fixes s0 :: "'e dlq"
  assumes "sorted (map fst hist)" "dq_metrics s0 = []" "hist \<noteq> [] \<longrightarrow> fst (last hist) - 3600000 \<le> c"
  defines "s \<equiv> fold health_step hist s0"
  shows "filter (\<lambda>ts. c < ts) (um_successes (getOrCreateMetrics url s)) = filter (\<lambda>ts. c < ts) (outcomes url True hist) \<and>
    filter (\<lambda>ts. c < ts) (um_failures (getOrCreateMetrics url s)) = filter (\<lambda>ts. c < ts) (outcomes url False hist)"
  using assms(1,3) unfolding s_def
proof (induction hist rule: rev_induct)
  case Nil
  then show ?case using assms(2) by (simp add: getOrCreateMetrics_def outcomes_def)
next
  case (snoc x hist)
  obtain t u g where x: "x = (t, u, g)" by (cases x) auto
  have le: "\<And>y. y \<in> set hist \<Longrightarrow> fst y \<le> t" and srt: "sorted (map fst hist)" using snoc.prems(1) x by (auto simp: sorted_append)
  have t: "t - 3600000 \<le> c" using snoc.prems(2) x by simp
  have "hist \<noteq> [] \<longrightarrow> fst (last hist) - 3600000 \<le> c" using le last_in_set [of hist] t by fastforce
  note IH = snoc.IH [OF srt this]
  have f: "filter (\<lambda>ts. c < ts) (filter (\<lambda>ts. t - 3600000 < ts) xs) = filter (\<lambda>ts. c < ts) xs" for xs
    using t by (auto intro!: filter_cong)
  show ?case using IH
    by (auto simp: x outcomes_snoc f getOrCreateMetrics_def recordSuccess_dlq_def recordFailure_dlq_def pruneOldEntries_def Let_def
        simp del: filter_filter split: option.splits)
qed

lemma failureRate_metrics:
  "failureRate now url w s =
     (let f = length (filter (\<lambda>ts. now - w < ts) (um_failures (getOrCreateMetrics url s)));
          g = length (filter (\<lambda>ts. now - w < ts) (um_successes (getOrCreateMetrics url s)))
      in if f + g = 0 then 0 else percent_of (of_nat f / of_nat (f + g)))"
  by (auto simp: failureRate_def getOrCreateMetrics_def Let_def split: option.splits)

lemma percent_of_values [simp]: "percent_of 0 = 0" "percent_of (1 / 2) = 50" "percent_of 1 = 100"
proof -
  have "\<lfloor>1 / 2 :: rat\<rfloor> = 0" "\<lfloor>10001 / 2 :: rat\<rfloor> = 5000" "\<lfloor>20001 / 2 :: rat\<rfloor> = 10000" by (simp_all add: floor_eq_iff)
  then show "percent_of 0 = 0" "percent_of (1 / 2) = 50" "percent_of 1 = 100" by (simp_all add: percent_of_def)
qed

text \<open>
  up to one hour the failure rate is exact. Although timestamps are pruned as they age, for any
  history recorded in time order and any window of at most an hour the rate is that of all outcomes ever recorded.
\<close>

theorem failure_rate_exact:
  assumes "sorted (map fst hist)" "\<forall>x \<in> set hist. fst x \<le> now" "windowMs \<le> 3600000"
  shows "failureRate now url windowMs (fold health_step hist (newDlq n :: 'e dlq)) =
    (let f = length (filter (\<lambda>ts. now - windowMs < ts) (outcomes url False hist)); g = length (filter (\<lambda>ts. now - windowMs < ts) (outcomes url True hist))
     in if f + g = 0 then 0 else percent_of (of_nat f / of_nat (f + g)))"
proof -
  have "fst (last hist) - 3600000 \<le> now - windowMs" if "hist \<noteq> []" using assms(2,3) last_in_set [OF that] by fastforce
  with health_run [OF assms(1), of "newDlq n :: 'e dlq" "now - windowMs" url]
  have "filter (\<lambda>ts. now - windowMs < ts) (um_successes (getOrCreateMetrics url (fold health_step hist (newDlq n :: 'e dlq)))) =
      filter (\<lambda>ts. now - windowMs < ts) (outcomes url True hist)"
    "filter (\<lambda>ts. now - windowMs < ts) (um_failures (getOrCreateMetrics url (fold health_step hist (newDlq n :: 'e dlq)))) =
      filter (\<lambda>ts. now - windowMs < ts) (outcomes url False hist)"
    by (simp_all add: newDlq_def)
  then show ?thesis by (simp only: failureRate_metrics)
qed

theorem failure_rate_exact_witness:
  "failureRate 10 ''u'' 3600000 (fold health_step [(1, ''u'', False), (2, ''u'', True)] (newDlq None)) = 50"
  using failure_rate_exact [of "[(1, ''u'', False), (2, ''u'', True)]" 10 3600000 "''u''" None]
  by (simp add: outcomes_def Let_def)

text \<open>
  beyond one hour the failure rate forgets. Any number of failures followed, an hour later, by one success give a
  rate of zero for every window length, also for one that covers all the failures.
\<close>

theorem long_window_forgets:
  assumes "\<forall>t \<in> set ts. t \<le> t1 - 3600000"
  shows "failureRate now url windowMs (fold health_step (map (\<lambda>t. (t, url, False)) ts @ [(t1, url, True)]) (newDlq n)) = 0"
proof -
  let ?s = "fold health_step (map (\<lambda>t. (t, url, False)) ts) (newDlq n) :: 'a dlq"
  have "set (um_failures (getOrCreateMetrics url (fold health_step (map (\<lambda>t. (t, url, False)) ts) s))) \<subseteq> set ts \<union> set (um_failures (getOrCreateMetrics url s))"
    for s :: "'a dlq"
    by (induction ts arbitrary: s) (force simp: getOrCreateMetrics_def recordFailure_dlq_def pruneOldEntries_def Let_def split: option.splits)+
  from this [of "newDlq n"] have "set (um_failures (getOrCreateMetrics url ?s)) \<subseteq> set ts" by (simp add: getOrCreateMetrics_def newDlq_def)
  then have "um_failures (getOrCreateMetrics url (recordSuccess_dlq t1 url t1 ?s)) = []"
    using assms by (fastforce simp: recordSuccess_dlq_def pruneOldEntries_def getOrCreateMetrics_def Let_def filter_empty_conv split: option.splits)
  then show ?thesis by (simp add: failureRate_metrics Let_def)
qed

theorem long_window_forgets_witness:
  "failureRate 3700000 ''u'' 86400000 (fold health_step (map (\<lambda>t. (t, ''u'', False)) [0, 1, 2] @ [(3600002, ''u'', True)]) (newDlq None)) = 0"
  by (rule long_window_forgets) simp

section \<open>At most once\<close>

text \<open>
  calls that do not overlap handle every id once, in the order of first arrival.
\<close>

theorem dedup_sequential:
  "dd_handled (fold receive_once ids \<lparr>dd_ids = [], dd_pending = [], dd_handled = []\<rparr>) = uniq ids"
proof -
  have "fold receive_once ids \<lparr>dd_ids = [], dd_pending = [], dd_handled = []\<rparr> = \<lparr>dd_ids = uniq ids, dd_pending = [], dd_handled = uniq ids\<rparr>"
    by (induction ids rule: rev_induct) (simp_all add: receive_once_def uniq_snoc)
  then show ?thesis by simp
qed

text \<open>
  overlapping calls break it. When a second call asks the store before the first has marked the id, both pass the check
  and the handler runs twice for one event.
\<close>

theorem dedup_race:
  assumes "i \<notin> set (dd_ids s)" "dd_pending s = []"
  shows "dd_handled (fold dedup_step [DSeen i, DSeen i, DMark, DMark] s) = dd_handled s @ [i, i]"
  using assms by simp

theorem dedup_race_witness:
  "dd_handled (fold dedup_step [DSeen ''e'', DSeen ''e'', DMark, DMark] \<lparr>dd_ids = [], dd_pending = [], dd_handled = []\<rparr>) = [''e'', ''e'']"
  using dedup_race [of "''e''" "\<lparr>dd_ids = [], dd_pending = [], dd_handled = []\<rparr>"] by simp

end
