(* ===== verification/Webhook_Guard.thy ===== *)
theory Webhook_Guard
  imports Stellar_Values "HOL-Library.Word"
begin

text \<open>
  The address guard of \<^verbatim>\<open>packages/pulse-webhooks/src\<close>: \<^verbatim>\<open>private-ip.ts\<close> and
  \<^verbatim>\<open>url-validator.ts\<close>. \<open>net.isIP\<close> is modelled by its two grammars. The WHATWG \<open>URL\<close> parser is the
  argument \<open>parse_url\<close>, with \<open>None\<close> where its constructor throws.
\<close>

section \<open>IP literals\<close>

definition v4_octet :: "string \<Rightarrow> bool" where
  "v4_octet s \<longleftrightarrow> all_digits s \<and> length s \<le> 3 \<and> (hd s = CHR ''0'' \<longrightarrow> length s = 1) \<and> read_nat s 0 \<le> 255"

definition isIPv4 :: "string \<Rightarrow> bool" where
  "isIPv4 s \<longleftrightarrow> length (split_on CHR ''.'' s) = 4 \<and> list_all v4_octet (split_on CHR ''.'' s)"

definition v6_segment :: "string \<Rightarrow> bool" where
  "v6_segment s \<longleftrightarrow> s \<noteq> [] \<and> length s \<le> 4 \<and> list_all (\<lambda>c. hex_value c \<noteq> None) s"

text \<open>The number of 16-bit groups of a colon-separated list whose last entry may be a dotted quad.\<close>

fun v6_groups :: "string list \<Rightarrow> nat option" where
  "v6_groups [] = Some 0"
| "v6_groups [s] = (if v6_segment s then Some 1 else if isIPv4 s then Some 2 else None)"
| "v6_groups (s # ss) = (if v6_segment s then map_option Suc (v6_groups ss) else None)"

text \<open>The text before and after the first double colon.\<close>

fun split_double_colon :: "string \<Rightarrow> (string \<times> string) option" where
  "split_double_colon (CHR '':'' # CHR '':'' # s) = Some ([], s)"
| "split_double_colon (c # s) = map_option (\<lambda>(l, r). (c # l, r)) (split_double_colon s)"
| "split_double_colon [] = None"

definition colon_parts :: "string \<Rightarrow> string list" where
  "colon_parts s = (if s = [] then [] else split_on CHR '':'' s)"

definition v6_address :: "string \<Rightarrow> bool" where
  "v6_address s =
     (case split_double_colon s of
        None \<Rightarrow> v6_groups (colon_parts s) = Some 8
      | Some (l, r) \<Rightarrow>
          list_all v6_segment (colon_parts l) \<and>
          (case v6_groups (colon_parts r) of None \<Rightarrow> False | Some n \<Rightarrow> length (colon_parts l) + n \<le> 7))"

definition zone_char :: "char \<Rightarrow> bool" where
  "zone_char c \<longleftrightarrow> (let n = of_char c :: nat in 48 \<le> n \<and> n \<le> 57 \<or> 65 \<le> n \<and> n \<le> 90 \<or> 97 \<le> n \<and> n \<le> 122) \<or> c \<in> set ''-.:''"

definition isIPv6 :: "string \<Rightarrow> bool" where
  "isIPv6 s =
     (case split_on CHR ''%'' s of
        [a] \<Rightarrow> v6_address a
      | [a, z] \<Rightarrow> v6_address a \<and> z \<noteq> [] \<and> list_all zone_char z
      | _ \<Rightarrow> False)"

definition isIP :: "string \<Rightarrow> nat" where
  "isIP s = (if isIPv4 s then 4 else if isIPv6 s then 6 else 0)"

definition isIpLiteral :: "string \<Rightarrow> bool" where
  "isIpLiteral hostname \<longleftrightarrow> isIP hostname \<noteq> 0"

section \<open>private-ip.ts\<close>

text \<open>\<open>Number.parseInt(g, 16)\<close> on a group of lower-case hexadecimal digits and dots: the longest hexadecimal prefix.\<close>

fun read_hex :: "string \<Rightarrow> nat \<Rightarrow> nat" where
  "read_hex [] acc = acc"
| "read_hex (c # s) acc = (case hex_value c of None \<Rightarrow> acc | Some d \<Rightarrow> read_hex s (16 * acc + d))"

definition parseInt16 :: "string \<Rightarrow> nat option" where
  "parseInt16 g = (case g of [] \<Rightarrow> None | c # _ \<Rightarrow> if hex_value c = None then None else Some (read_hex g 0))"

definition dotted :: "nat \<Rightarrow> nat \<Rightarrow> nat \<Rightarrow> nat \<Rightarrow> string" where
  "dotted a b c d = show_nat a @ ''.'' @ show_nat b @ ''.'' @ show_nat c @ ''.'' @ show_nat d"

definition embeddedIpv4 :: "string \<Rightarrow> string option" where
  "embeddedIpv4 tail =
     (if isIP tail = 4 then Some tail
      else case filter (\<lambda>g. g \<noteq> []) (split_on CHR '':'' tail) of
          [g, h] \<Rightarrow>
            (case (parseInt16 g, parseInt16 h) of
               (Some high, Some low) \<Rightarrow> Some (dotted (high div 256) (high mod 256) (low div 256) (low mod 256))
             | _ \<Rightarrow> None)
        | _ \<Rightarrow> None)"

text \<open>The capture group of the pattern for mapped and compatible addresses.\<close>

definition tail_char :: "char \<Rightarrow> bool" where
  "tail_char c \<longleftrightarrow> (let n = of_char c :: nat in 48 \<le> n \<and> n \<le> 57 \<or> 97 \<le> n \<and> n \<le> 102) \<or> c = CHR ''.'' \<or> c = CHR '':''"

definition mapped_tail :: "string \<Rightarrow> string option" where
  "mapped_tail hostname =
     (if \<not> is_prefix ''::'' hostname then None
      else let rest = drop 2 hostname; inner = drop 5 rest
           in if is_prefix ''ffff:'' rest \<and> inner \<noteq> [] \<and> list_all tail_char inner then Some inner
              else if rest \<noteq> [] \<and> list_all tail_char rest then Some rest else None)"

definition private_v4 :: "string \<Rightarrow> bool" where
  "private_v4 hostname =
     (case map (\<lambda>s. read_nat s 0) (split_on CHR ''.'' hostname) of
        a # b # _ \<Rightarrow>
          a = 0 \<or> a = 10 \<or> a = 127 \<or> a = 169 \<and> b = 254 \<or> a = 172 \<and> 16 \<le> b \<and> b \<le> 31 \<or>
          a = 192 \<and> b = 168 \<or> a = 192 \<and> b = 0 \<or> a = 100 \<and> 64 \<le> b \<and> b \<le> 127 \<or> 224 \<le> a
      | _ \<Rightarrow> False)"

text \<open>
  The recursive call on the embedded address is written out: four numbers joined by dots are an
  IPv4 literal or no literal at all.
\<close>

definition isPrivateIpLiteral :: "string \<Rightarrow> bool" where
  "isPrivateIpLiteral hostname =
     (if isIP hostname = 4 then private_v4 hostname
      else if isIP hostname = 6 then
        hostname = ''::'' \<or> hostname = ''::1'' \<or>
        is_prefix ''fc'' hostname \<or> is_prefix ''fd'' hostname \<or>
        is_prefix ''fe8'' hostname \<or> is_prefix ''fe9'' hostname \<or> is_prefix ''fea'' hostname \<or> is_prefix ''feb'' hostname \<or>
        (case Option.bind (mapped_tail hostname) embeddedIpv4 of
           None \<Rightarrow> False
         | Some embedded \<Rightarrow> isIP embedded = 4 \<and> private_v4 embedded)
      else False)"

definition ends_with :: "string \<Rightarrow> string \<Rightarrow> bool" where
  "ends_with suf s \<longleftrightarrow> is_prefix (rev suf) (rev s)"

definition isLoopbackHostname :: "string \<Rightarrow> bool" where
  "isLoopbackHostname hostname \<longleftrightarrow> hostname = ''localhost'' \<or> ends_with ''.localhost'' hostname"

definition normalizeHostname :: "string \<Rightarrow> string" where
  "normalizeHostname hostname =
     (let s = (if is_prefix ''['' hostname then drop 1 hostname else hostname);
          s = (if ends_with '']'' s then butlast s else s)
      in toLowerCase s)"

section \<open>url-validator.ts\<close>

record url_parts =
  url_protocol :: string
  url_username :: string
  url_password :: string
  url_hostname :: string

datatype validator_error = AsnBlockingRemoved

definition newUrlValidator :: "string list \<Rightarrow> (validator_error, unit) result" where
  "newUrlValidator blockedAsns = (if 0 < length blockedAsns then Inl AsnBlockingRemoved else Inr ())"

definition validate_url :: "(string \<Rightarrow> url_parts option) \<Rightarrow> string \<Rightarrow> string option" where
  "validate_url parse_url url =
     (case parse_url url of
        None \<Rightarrow> Some ''Invalid URL format''
      | Some u \<Rightarrow>
          if url_protocol u \<noteq> ''http:'' \<and> url_protocol u \<noteq> ''https:''
          then Some (''URL scheme '' @ url_protocol u @ '' is not allowed'')
          else if url_username u \<noteq> [] \<or> url_password u \<noteq> [] then Some ''URL must not contain credentials''
          else if isLoopbackHostname (normalizeHostname (url_hostname u)) then Some ''URL points to a loopback address''
          else if isPrivateIpLiteral (normalizeHostname (url_hostname u)) then Some ''URL points to a private IP address''
          else None)"

section \<open>Dotted quads\<close>

lemma show_nat_leading: "hd (show_nat n) = CHR ''0'' \<Longrightarrow> n = 0"
proof (induction n rule: show_nat.induct)
  case (1 n)
  show ?case
  proof (cases "n < 10")
    case True
    then have "(of_char (digit_char n) :: nat) = 48" using 1 by (simp add: show_nat.simps [of n])
    with True show ?thesis by (simp add: of_char_digit_char)
  next
    case False
    with 1 have "n div 10 = 0" by (simp add: show_nat.simps [of n] show_nat_nonempty)
    with False show ?thesis by simp
  qed
qed

lemma v4_octet_show: "a < 256 \<Longrightarrow> v4_octet (show_nat a)"
  using show_nat_leading [of a] length_show_nat [of a 3]
  by (auto simp: v4_octet_def all_digits_show_nat read_show_nat show_nat.simps [of 0])

lemma split_on_step: "c \<notin> set s \<Longrightarrow> split_on c (s @ c # t) = s # split_on c t"
  by (induction s) auto

lemma show_nat_no_sep: "CHR ''.'' \<notin> set (show_nat n)" "CHR '':'' \<notin> set (show_nat n)" "CHR ''%'' \<notin> set (show_nat n)"
  by (auto dest!: show_nat_digits simp: is_digit_def)

lemma split_dotted: "split_on CHR ''.'' (dotted a b c d) = [show_nat a, show_nat b, show_nat c, show_nat d]"
  by (simp add: dotted_def split_on_step split_on_no show_nat_no_sep)

lemma isIPv4_dotted: "a < 256 \<Longrightarrow> b < 256 \<Longrightarrow> c < 256 \<Longrightarrow> d < 256 \<Longrightarrow> isIPv4 (dotted a b c d)"
  by (simp add: isIPv4_def split_dotted v4_octet_show)

lemma private_dotted:
  assumes "a < 256" "b < 256" "c < 256" "d < 256"
  shows "isPrivateIpLiteral (dotted a b c d) = private_v4 (dotted a b c d)"
  using isIPv4_dotted [OF assms] by (simp add: isPrivateIpLiteral_def isIP_def)

section \<open>The blocked ranges of IPv4\<close>

text \<open>The reference: an address as a 32-bit word, and a range as a base address with a prefix length.\<close>

definition v4_word :: "nat \<Rightarrow> nat \<Rightarrow> nat \<Rightarrow> nat \<Rightarrow> 32 word" where
  "v4_word a b c d = of_nat (((a * 256 + b) * 256 + c) * 256 + d)"

definition in_range :: "32 word \<Rightarrow> 32 word \<times> nat \<Rightarrow> bool" where
  "in_range w r \<longleftrightarrow> drop_bit (32 - snd r) w = drop_bit (32 - snd r) (fst r)"

definition blocked_ranges :: "(32 word \<times> nat) list" where
  "blocked_ranges =
     [(v4_word 0 0 0 0, 8), (v4_word 10 0 0 0, 8), (v4_word 127 0 0 0, 8), (v4_word 169 254 0 0, 16), (v4_word 172 16 0 0, 12),
      (v4_word 192 168 0 0, 16), (v4_word 192 0 0 0, 16), (v4_word 100 64 0 0, 10), (v4_word 224 0 0 0, 3)]"

lemma unat_v4_word:
  assumes "a < 256" "b < 256" "c < 256" "d < 256"
  shows "unat (v4_word a b c d) = ((a * 256 + b) * 256 + c) * 256 + d"
  using assms by (simp add: v4_word_def unat_of_nat take_bit_nat_eq_self del: of_nat_add of_nat_mult)

lemma unat_drop: "unat (drop_bit n w) = unat w div 2 ^ n"
  by (subst unat_drop_bit_eq) (rule drop_bit_eq_div)

lemma in_range_div:
  assumes "a < 256" "b < 256" "c < 256" "d < 256" "a' < 256" "b' < 256" "n \<le> 16"
  shows "in_range (v4_word a b c d) (v4_word a' b' 0 0, n) \<longleftrightarrow> (a * 256 + b) div 2 ^ (16 - n) = (a' * 256 + b') div 2 ^ (16 - n)"
proof -
  have k: "(2::nat) ^ (32 - n) = 65536 * 2 ^ (16 - n)"
    using \<open>n \<le> 16\<close> power_add [of "2::nat" 16 "16 - n"] by simp
  have "(((x * 256 + y) * 256 + z) * 256 + u) div 65536 = x * 256 + y" if "z < 256" "u < 256" for x y z u :: nat
    using that by simp
  then have "unat (v4_word x y z u) div 2 ^ (32 - n) = (x * 256 + y) div 2 ^ (16 - n)"
    if "x < 256" "y < 256" "z < 256" "u < 256" for x y z u
    using that unfolding k by (simp only: div_mult2_eq unat_v4_word)
  with assms show ?thesis by (simp add: in_range_def word_unat_eq_iff unat_drop)
qed

lemma digits_eq:
  fixes m :: nat
  assumes "q < m" "y < m"
  shows "a * m + q = x * m + y \<longleftrightarrow> a = x \<and> q = y"
proof
  assume eq: "a * m + q = x * m + y"
  have "q = (a * m + q) mod m" "y = (x * m + y) mod m" using assms by simp_all
  with eq have "q = y" by simp
  with eq assms show "a = x \<and> q = y" by simp
qed simp

lemma in_blocked_range:
  assumes "a < 256" "b < 256" "c < 256" "d < 256"
  shows "x < 256 \<Longrightarrow> in_range (v4_word a b c d) (v4_word x 0 0 0, 8) \<longleftrightarrow> a = x"
    and "x < 256 \<Longrightarrow> y < 256 \<Longrightarrow> in_range (v4_word a b c d) (v4_word x y 0 0, 16) \<longleftrightarrow> a = x \<and> b = y"
    and "in_range (v4_word a b c d) (v4_word 172 16 0 0, 12) \<longleftrightarrow> a = 172 \<and> 16 \<le> b \<and> b \<le> 31"
    and "in_range (v4_word a b c d) (v4_word 100 64 0 0, 10) \<longleftrightarrow> a = 100 \<and> 64 \<le> b \<and> b \<le> 127"
    and "in_range (v4_word a b c d) (v4_word 224 0 0 0, 3) \<longleftrightarrow> 224 \<le> a"
proof -
  have div: "(a * 256 + b) div 16 = a * 16 + b div 16" "(a * 256 + b) div 64 = a * 4 + b div 64"
    "(a * 256 + b) div 8192 = a div 32"
    using \<open>b < 256\<close> by simp_all
  have quot: "n div m = k \<longleftrightarrow> m * k \<le> n \<and> n < m * Suc k" if "0 < m" for n m k :: nat
    using that dividend_less_times_div [of m n] div_nat_eqI [of m k n] by auto
  have bits: "b div 16 = 1 \<longleftrightarrow> 16 \<le> b \<and> b \<le> 31" "b div 64 = 1 \<longleftrightarrow> 64 \<le> b \<and> b \<le> 127" "a div 32 = 7 \<longleftrightarrow> 224 \<le> a"
    using quot [of 16 b 1] quot [of 64 b 1] quot [of 32 a 7] \<open>a < 256\<close> by auto
  have e: "a * 16 + b div 16 = 2753 \<longleftrightarrow> a = 172 \<and> b div 16 = 1" "a * 4 + b div 64 = 401 \<longleftrightarrow> a = 100 \<and> b div 64 = 1"
    using digits_eq [of "b div 16" 16 1 a 172] digits_eq [of "b div 64" 4 1 a 100] \<open>b < 256\<close> by simp_all
  show "x < 256 \<Longrightarrow> in_range (v4_word a b c d) (v4_word x 0 0 0, 8) \<longleftrightarrow> a = x"
    "x < 256 \<Longrightarrow> y < 256 \<Longrightarrow> in_range (v4_word a b c d) (v4_word x y 0 0, 16) \<longleftrightarrow> a = x \<and> b = y"
    using assms digits_eq [of b 256 y a x] by (simp_all add: in_range_div)
  show "in_range (v4_word a b c d) (v4_word 172 16 0 0, 12) \<longleftrightarrow> a = 172 \<and> 16 \<le> b \<and> b \<le> 31"
    "in_range (v4_word a b c d) (v4_word 100 64 0 0, 10) \<longleftrightarrow> a = 100 \<and> 64 \<le> b \<and> b \<le> 127"
    "in_range (v4_word a b c d) (v4_word 224 0 0 0, 3) \<longleftrightarrow> 224 \<le> a"
    using assms by (simp_all add: in_range_div div e bits bits [simplified])
qed

text \<open>
  the guard is exact on IPv4. The tests on the first two octets decide membership of
  the 32-bit address in the nine blocked prefixes, for every one of the \<open>2^32\<close> dotted addresses.
\<close>

theorem private_ipv4_exact:
  assumes "a < 256" "b < 256" "c < 256" "d < 256"
  shows "isPrivateIpLiteral (dotted a b c d) \<longleftrightarrow> (\<exists>r \<in> set blocked_ranges. in_range (v4_word a b c d) r)"
proof -
  have "(\<exists>r \<in> set blocked_ranges. in_range (v4_word a b c d) r) \<longleftrightarrow>
    a = 0 \<or> a = 10 \<or> a = 127 \<or> a = 169 \<and> b = 254 \<or> a = 172 \<and> 16 \<le> b \<and> b \<le> 31 \<or>
    a = 192 \<and> b = 168 \<or> a = 192 \<and> b = 0 \<or> a = 100 \<and> 64 \<le> b \<and> b \<le> 127 \<or> 224 \<le> a"
    using assms by (simp add: blocked_ranges_def in_blocked_range)
  then show ?thesis using private_dotted [OF assms] by (simp add: private_v4_def split_dotted read_show_nat)
qed

lemma metadata_address: "dotted 169 254 169 254 = ''169.254.169.254''"
  by (simp add: dotted_def show_nat.simps digit_char_def char_of_def bit_iff_odd)

theorem private_ipv4_exact_witness:
  "isPrivateIpLiteral ''169.254.169.254'' \<and> in_range (v4_word 169 254 169 254) (v4_word 169 254 0 0, 16)"
proof -
  have r: "in_range (v4_word 169 254 169 254) (v4_word 169 254 0 0, 16)" by (simp add: in_blocked_range)
  then show ?thesis using private_ipv4_exact [of 169 254 169 254] by (force simp: metadata_address blocked_ranges_def)
qed

section \<open>Mapped addresses\<close>

text \<open>Lower-case hexadecimal without leading zeros, as the URL parser prints a 16-bit group.\<close>

definition hex_char :: "nat \<Rightarrow> char" where
  "hex_char d = (if d < 10 then char_of (48 + d) else char_of (87 + d))"

fun show_hex :: "nat \<Rightarrow> string" where
  "show_hex n = (if n < 16 then [hex_char n] else show_hex (n div 16) @ [hex_char (n mod 16)])"

declare show_hex.simps [simp del]

lemma hex_char_value: "d < 16 \<Longrightarrow> hex_value (hex_char d) = Some d" "d < 16 \<Longrightarrow> tail_char (hex_char d)"
  "d < 16 \<Longrightarrow> hex_char d \<notin> {CHR ''.'', CHR '':'', CHR ''%''}"
proof -
  assume "d < 16"
  then have n: "(of_char (hex_char d) :: nat) = (if d < 10 then 48 + d else 87 + d)" by (simp add: hex_char_def)
  with \<open>d < 16\<close> show "hex_value (hex_char d) = Some d" "tail_char (hex_char d)"
    by (auto simp: hex_value_def tail_char_def Let_def)
  show "hex_char d \<notin> {CHR ''.'', CHR '':'', CHR ''%''}" using n \<open>d < 16\<close> by (auto split: if_splits)
qed

lemma show_hex_chars: "c \<in> set (show_hex n) \<Longrightarrow> \<exists>d < 16. c = hex_char d"
proof (induction n rule: show_hex.induct)
  case (1 n)
  have "\<exists>d < 16. hex_char (n mod 16) = hex_char d" by (rule exI [of _ "n mod 16"]) simp
  with 1 show ?case by (cases "n < 16") (auto simp: show_hex.simps [of n])
qed

lemma show_hex_no_sep: "CHR ''.'' \<notin> set (show_hex n)" "CHR '':'' \<notin> set (show_hex n)" "CHR ''%'' \<notin> set (show_hex n)"
  using hex_char_value(3) by (force dest!: show_hex_chars)+

lemma read_hex_append: "list_all (\<lambda>c. hex_value c \<noteq> None) xs \<Longrightarrow> read_hex (xs @ ys) acc = read_hex ys (read_hex xs acc)"
  by (induction xs arbitrary: acc) auto

lemma show_hex_all: "list_all (\<lambda>c. hex_value c \<noteq> None) (show_hex n)" "list_all tail_char (show_hex n)"
  by (auto simp: list_all_iff hex_char_value dest!: show_hex_chars)

lemma show_hex_nonempty [simp]: "show_hex n \<noteq> []"
  by (simp add: show_hex.simps [of n])

lemma read_show_hex: "read_hex (show_hex n) 0 = n"
proof (induction n rule: show_hex.induct)
  case (1 n)
  then show ?case
    by (cases "n < 16") (simp_all add: show_hex.simps [of n] read_hex_append [OF show_hex_all(1)] hex_char_value)
qed

lemma length_show_hex: "n < 16 ^ Suc k \<Longrightarrow> length (show_hex n) \<le> Suc k"
proof (induction k arbitrary: n)
  case (Suc k)
  then have "n div 16 < 16 ^ Suc k" by (simp add: less_mult_imp_div_less)
  from Suc.IH [OF this] show ?case by (simp add: show_hex.simps [of n])
qed (simp add: show_hex.simps)

lemma v6_segment_show_hex: "n < 65536 \<Longrightarrow> v6_segment (show_hex n)"
  using length_show_hex [of n 3] show_hex_all [of n] by (simp add: v6_segment_def)

lemma parseInt16_show_hex: "parseInt16 (show_hex n) = Some n"
  using show_hex_all(1) [of n] read_show_hex [of n] by (cases "show_hex n") (auto simp: parseInt16_def)

lemma no_dot_not_v4: "CHR ''.'' \<notin> set s \<Longrightarrow> \<not> isIPv4 s"
  by (simp add: isIPv4_def split_on_no)

definition mapped_literal :: "nat \<Rightarrow> nat \<Rightarrow> string" where
  "mapped_literal high low = ''::ffff:'' @ show_hex high @ '':'' @ show_hex low"

lemma mapped_is_v6:
  assumes "high < 65536" "low < 65536"
  shows "isIP (mapped_literal high low) = 6"
proof -
  have n4: "\<not> isIPv4 (mapped_literal high low)" by (rule no_dot_not_v4) (simp add: mapped_literal_def show_hex_no_sep)
  have "split_on CHR '':'' (''ffff:'' @ show_hex high @ '':'' @ show_hex low) = [''ffff'', show_hex high, show_hex low]"
    using split_on_step [of "CHR '':''" "''ffff''"] by (simp add: split_on_step split_on_no show_hex_no_sep)
  then have "v6_address (mapped_literal high low)"
    using assms by (simp add: v6_address_def mapped_literal_def colon_parts_def v6_segment_show_hex)
      (simp add: v6_segment_def hex_value_def)
  moreover have "split_on CHR ''%'' (mapped_literal high low) = [mapped_literal high low]"
    by (rule split_on_no) (simp add: mapped_literal_def show_hex_no_sep)
  ultimately show ?thesis using n4 by (simp add: isIP_def isIPv6_def)
qed

text \<open>
  an IPv4 address cannot hide behind its mapped IPv6 form. The hexadecimal form that the URL parser
  prints for \<open>::ffff:a.b.c.d\<close> is judged exactly like the dotted address.
\<close>

theorem mapped_as_ipv4:
  assumes "a < 256" "b < 256" "c < 256" "d < 256"
  shows "isPrivateIpLiteral (mapped_literal (a * 256 + b) (c * 256 + d)) = isPrivateIpLiteral (dotted a b c d)"
proof -
  let ?h = "a * 256 + b" and ?l = "c * 256 + d"
  have b: "?h < 65536" "?l < 65536" using assms by linarith+
  let ?tail = "show_hex ?h @ '':'' @ show_hex ?l"
  have n4: "isIP ?tail \<noteq> 4" using no_dot_not_v4 [of ?tail] by (simp add: isIP_def show_hex_no_sep)
  have "split_on CHR '':'' ?tail = [show_hex ?h, show_hex ?l]" by (simp add: split_on_step split_on_no show_hex_no_sep)
  with n4 assms have e: "embeddedIpv4 ?tail = Some (dotted a b c d)" by (simp add: embeddedIpv4_def parseInt16_show_hex)
  have t: "mapped_tail (mapped_literal ?h ?l) = Some ?tail"
    using show_hex_all(2) by (simp add: mapped_tail_def mapped_literal_def is_prefix_def Let_def tail_char_def)
  have p: "isIP (dotted a b c d) = 4" using isIPv4_dotted [OF assms] by (simp add: isIP_def)
  have "isPrivateIpLiteral (mapped_literal ?h ?l) = private_v4 (dotted a b c d)"
    using mapped_is_v6 [OF b] t e p by (simp add: isPrivateIpLiteral_def) (simp add: mapped_literal_def is_prefix_def)
  then show ?thesis using private_dotted [OF assms] by simp
qed

lemma mapped_loopback: "mapped_literal 32512 1 = ''::ffff:7f00:1''"
  by (simp add: mapped_literal_def show_hex.simps hex_char_def char_of_def bit_iff_odd)

theorem mapped_as_ipv4_witness: "isPrivateIpLiteral ''::ffff:7f00:1''"
proof -
  have "isPrivateIpLiteral (dotted 127 0 0 1)"
    using private_dotted [of 127 0 0 1] by (simp add: private_v4_def split_dotted read_show_nat)
  with mapped_as_ipv4 [of 127 0 0 1] show ?thesis using mapped_loopback by simp
qed

text \<open>
  a zone identifier defeats the guard. \<open>net.isIP\<close> accepts \<open>::1%lo\<close> as an IPv6 address, but the test for the
  loopback address compares the whole text and the pattern for embedded addresses excludes the percent sign, so the
  literal is neither private nor resolved again.
\<close>

theorem zone_escapes_guard:
  "isIpLiteral ''::1%lo'' \<and> isPrivateIpLiteral ''::1'' \<and> \<not> isPrivateIpLiteral ''::1%lo'' \<and>
   isIpLiteral ''::ffff:127.0.0.1%lo'' \<and> \<not> isPrivateIpLiteral ''::ffff:127.0.0.1%lo''"
  by code_simp

end
