(* ===== verification/Webhook_Verify.thy ===== *)
theory Webhook_Verify
  imports Webhook_Guard
begin

text \<open>
  Signing and verification of webhooks, \<^verbatim>\<open>packages/pulse-webhooks/src\<close>: \<^verbatim>\<open>signing.ts\<close>, the
  verifiers at the end of \<^verbatim>\<open>index.ts\<close> and those of \<^verbatim>\<open>edge.ts\<close>. Bytes are \<^typ>\<open>8 word\<close>. Arguments of the
  model are the keyed hash \<open>hmac\<close> (\<open>subtle_sign\<close> for the Web Crypto one, \<open>None\<close> where it
  rejects the key), \<open>JSON.parse\<close>, the schema hook and, for a streamed body, the UTF-8 codec. Times are integers;
  a timestamp beyond \<open>2^53\<close> is taken exactly, which compares with the clock as its rounded value does.
\<close>

unbundle bit_operations_syntax

type_synonym bytes = "8 word list"

definition DEFAULT_MAX_AGE_MS :: int where "DEFAULT_MAX_AGE_MS = 300000"
definition DEFAULT_CLOCK_SKEW_MS :: int where "DEFAULT_CLOCK_SKEW_MS = 30000"

section \<open>Signing\<close>

definition to_hex :: "bytes \<Rightarrow> string" where
  "to_hex bs = concat (map (\<lambda>b. [hex_char (unat b div 16), hex_char (unat b mod 16)]) bs)"

definition signWebhookPayload :: "(string \<Rightarrow> string \<Rightarrow> bytes) \<Rightarrow> string \<Rightarrow> string \<Rightarrow> string \<Rightarrow> string" where
  "signWebhookPayload hmac payload timestamp secret = to_hex (hmac secret (timestamp @ ''.'' @ payload))"

section \<open>verifyWebhook\<close>

text \<open>\<open>Buffer.from(s, 'hex')\<close> stops at the first pair that is not hexadecimal.\<close>

fun buffer_from_hex :: "string \<Rightarrow> bytes" where
  "buffer_from_hex (c # d # s) =
     (case (hex_value c, hex_value d) of
        (Some h, Some l) \<Rightarrow> of_nat (16 * h + l) # buffer_from_hex s
      | _ \<Rightarrow> [])"
| "buffer_from_hex _ = []"

definition utf8_length :: "string \<Rightarrow> nat" where
  "utf8_length s = sum_list (map (\<lambda>c. if (of_char c :: nat) < 128 then 1 else 2) s)"

text \<open>Decimal literals from \<open>2^1024 - 2^970\<close> on convert to \<open>Infinity\<close>.\<close>

definition finite_number :: "nat \<Rightarrow> bool" where
  "finite_number n \<longleftrightarrow> n < 2 ^ 1024 - 2 ^ 970"

record verify_options =
  vo_maxAgeMs :: "int option"
  vo_clockSkewMs :: "int option"
  vo_nowMs :: "int option"
  vo_maxBodyBytes :: "int option"

text \<open>The checks on the timestamp, the same in every verifier.\<close>

definition fresh_timestamp :: "int \<Rightarrow> verify_options \<Rightarrow> string \<Rightarrow> bool" where
  "fresh_timestamp clock opts timestamp \<longleftrightarrow>
     all_digits timestamp \<and> finite_number (read_nat timestamp 0) \<and>
     (let timestampMs = int (read_nat timestamp 0); maxAgeMs = or_default (vo_maxAgeMs opts) DEFAULT_MAX_AGE_MS;
          clockSkewMs = or_default (vo_clockSkewMs opts) DEFAULT_CLOCK_SKEW_MS; nowMs = or_default (vo_nowMs opts) clock
      in \<not> timestampMs > nowMs + clockSkewMs \<and> \<not> timestampMs < nowMs - maxAgeMs - clockSkewMs)"

definition verifyWebhookRaw ::
  "(string \<Rightarrow> string \<Rightarrow> bytes) \<Rightarrow> int \<Rightarrow> verify_options \<Rightarrow> string \<Rightarrow> string \<Rightarrow> string \<Rightarrow> string \<Rightarrow> bool"
where
  "verifyWebhookRaw hmac clock opts payload signature secret timestamp =
     (if int (utf8_length payload) > or_default (vo_maxBodyBytes opts) 100000 then False
      else if \<not> fresh_timestamp clock opts timestamp then False
      else let expectedBuffer = buffer_from_hex (signWebhookPayload hmac payload timestamp secret);
               signatureBuffer = buffer_from_hex signature
           in if length expectedBuffer \<noteq> length signatureBuffer then False else expectedBuffer = signatureBuffer)"

text \<open>The end of every verifier: parse the body and run the schema hook, where an exception counts as a rejection.\<close>

definition parse_event :: "(string \<Rightarrow> 'e option) \<Rightarrow> ('e \<Rightarrow> (unit, bool) result) option \<Rightarrow> string \<Rightarrow> 'e option" where
  "parse_event json_parse schema payload =
     (case json_parse payload of
        None \<Rightarrow> None
      | Some evt \<Rightarrow>
          (case schema of
             None \<Rightarrow> Some evt
           | Some f \<Rightarrow> (case f evt of Inl _ \<Rightarrow> None | Inr b \<Rightarrow> if b then Some evt else None)))"

definition verifyWebhook ::
  "(string \<Rightarrow> string \<Rightarrow> bytes) \<Rightarrow> (string \<Rightarrow> 'e option) \<Rightarrow> ('e \<Rightarrow> (unit, bool) result) option \<Rightarrow> int \<Rightarrow> verify_options \<Rightarrow>
   string \<Rightarrow> string \<Rightarrow> string \<Rightarrow> string \<Rightarrow> 'e option"
where
  "verifyWebhook hmac json_parse schema clock opts payload signature secret timestamp =
     (if int (utf8_length payload) > or_default (vo_maxBodyBytes opts) 100000 then None
      else if \<not> verifyWebhookRaw hmac clock opts payload signature secret timestamp then None
      else parse_event json_parse schema payload)"

section \<open>edge.ts\<close>

definition parseSignatureHex :: "string \<Rightarrow> bytes option" where
  "parseSignatureHex signature =
     (if length signature = 0 \<or> length signature mod 2 \<noteq> 0 \<or> \<not> list_all (\<lambda>c. hex_value c \<noteq> None) signature then None
      else Some (buffer_from_hex signature))"

text \<open>The comparison that does not stop early; the lengths agree when it runs.\<close>

definition same_bytes :: "bytes \<Rightarrow> bytes \<Rightarrow> bool" where
  "same_bytes expected given \<longleftrightarrow> fold (\<lambda>(x, y) result. result OR (x XOR y)) (zip expected given) 0 = 0"

definition verifyWebhookEdgeRaw ::
  "(string \<Rightarrow> string \<Rightarrow> bytes option) \<Rightarrow> int \<Rightarrow> verify_options \<Rightarrow> string \<Rightarrow> string \<Rightarrow> string \<Rightarrow> string \<Rightarrow> bool"
where
  "verifyWebhookEdgeRaw subtle_sign clock opts payload signature secret timestamp =
     (if int (utf8_length payload) > or_default (vo_maxBodyBytes opts) 100000 then False
      else if \<not> fresh_timestamp clock opts timestamp then False
      else case parseSignatureHex signature of
          None \<Rightarrow> False
        | Some signatureBytes \<Rightarrow>
            (case subtle_sign secret (timestamp @ ''.'' @ payload) of
               None \<Rightarrow> False
             | Some expectedBytes \<Rightarrow>
                 if length expectedBytes \<noteq> length signatureBytes then False else same_bytes expectedBytes signatureBytes))"

definition verifyWebhookEdge ::
  "(string \<Rightarrow> string \<Rightarrow> bytes option) \<Rightarrow> (string \<Rightarrow> 'e option) \<Rightarrow> ('e \<Rightarrow> (unit, bool) result) option \<Rightarrow> int \<Rightarrow> verify_options \<Rightarrow>
   string \<Rightarrow> string \<Rightarrow> string \<Rightarrow> string \<Rightarrow> 'e option"
where
  "verifyWebhookEdge subtle_sign json_parse schema clock opts payload signature secret timestamp =
     (if int (utf8_length payload) > or_default (vo_maxBodyBytes opts) 100000 then None
      else if \<not> verifyWebhookEdgeRaw subtle_sign clock opts payload signature secret timestamp then None
      else parse_event json_parse schema payload)"

text \<open>The loop that reads a stream: \<open>None\<close> once the chunks read so far exceed the limit.\<close>

fun read_chunks :: "int \<Rightarrow> bytes \<Rightarrow> bytes list \<Rightarrow> bytes option" where
  "read_chunks maxBodyBytes buf [] = Some buf"
| "read_chunks maxBodyBytes buf (value # rest) =
     (let buf = buf @ value
      in if int (length buf) > maxBodyBytes then None else read_chunks maxBodyBytes buf rest)"

definition verifyWebhookEdgeStream ::
  "(string \<Rightarrow> string \<Rightarrow> bytes option) \<Rightarrow> (bytes \<Rightarrow> string) \<Rightarrow> (string \<Rightarrow> 'e option) \<Rightarrow> ('e \<Rightarrow> (unit, bool) result) option \<Rightarrow> int \<Rightarrow>
   verify_options \<Rightarrow> bytes list \<Rightarrow> string \<Rightarrow> string \<Rightarrow> string \<Rightarrow> ('e \<times> string) option"
where
  "verifyWebhookEdgeStream subtle_sign decode json_parse schema clock opts stream signature secret timestamp =
     (if \<not> fresh_timestamp clock opts timestamp then None
      else case parseSignatureHex signature of
          None \<Rightarrow> None
        | Some signatureBytes \<Rightarrow>
            (case read_chunks (or_default (vo_maxBodyBytes opts) 100000) [] stream of
               None \<Rightarrow> None
             | Some bodyBytes \<Rightarrow>
                 let body = decode bodyBytes
                 in case subtle_sign secret (timestamp @ ''.'' @ body) of
                      None \<Rightarrow> None
                    | Some expectedBytes \<Rightarrow>
                        if length expectedBytes \<noteq> length signatureBytes then None
                        else if \<not> same_bytes expectedBytes signatureBytes then None
                        else map_option (\<lambda>evt. (evt, body)) (parse_event json_parse schema body)))"

section \<open>Hexadecimal text\<close>

lemma byte_hex: "of_nat (16 * (unat b div 16) + unat b mod 16) = (b :: 8 word)"
  by simp

lemma byte_bound: "unat (b :: 8 word) div 16 < 16"
proof -
  have "unat b < 2 ^ LENGTH(8)" by (rule unsigned_less)
  then show ?thesis by (simp add: less_mult_imp_div_less)
qed

lemma buffer_from_to_hex: "buffer_from_hex (to_hex bs @ s) = bs @ buffer_from_hex s"
proof (induction bs)
  case (Cons b bs)
  have "unat b mod 16 < 16" by simp
  with Cons show ?case by (simp add: to_hex_def hex_char_value byte_bound del: of_nat_add of_nat_mult)
qed (simp add: to_hex_def)

lemma buffer_to_hex: "buffer_from_hex (to_hex bs) = bs"
  using buffer_from_to_hex [of bs "[]"] by simp

lemma to_hex_signature: "bs \<noteq> [] \<Longrightarrow> parseSignatureHex (to_hex bs) = Some bs"
proof -
  assume "bs \<noteq> []"
  have all: "list_all (\<lambda>c. hex_value c \<noteq> None) (to_hex bs)"
    by (auto simp: to_hex_def list_all_iff hex_char_value byte_bound)
  have "length (to_hex bs) = 2 * length bs" by (induction bs) (auto simp: to_hex_def)
  with all \<open>bs \<noteq> []\<close> show ?thesis by (auto simp: parseSignatureHex_def buffer_to_hex)
qed

lemma or_xor_zero: "r OR (x XOR y) = 0 \<longleftrightarrow> r = 0 \<and> x = (y :: 8 word)"
proof -
  have "x XOR y = 0 \<longleftrightarrow> x = y"
    by (metis xor.assoc xor.left_neutral xor.right_neutral xor_self_eq)
  then show ?thesis by (simp add: or_eq_0_iff)
qed

lemma same_bytes_iff: "length xs = length ys \<Longrightarrow> same_bytes xs ys \<longleftrightarrow> xs = ys"
proof -
  assume len: "length xs = length ys"
  have "fold (\<lambda>(x, y) r. r OR (x XOR y)) ps r = 0 \<longleftrightarrow> r = 0 \<and> (\<forall>(x, y) \<in> set ps. x = y)" for ps :: "(8 word \<times> 8 word) list" and r
    by (induction ps arbitrary: r) (auto simp: or_xor_zero)
  moreover from len have "(\<forall>(x, y) \<in> set (zip xs ys). x = y) \<longleftrightarrow> xs = ys"
    by (induction xs ys rule: list_induct2) auto
  ultimately show ?thesis by (simp add: same_bytes_def)
qed

section \<open>What the verifiers accept\<close>

text \<open>Both verifiers in one line: limits, freshness, and the decoded signature against the digest.\<close>

lemma verifyWebhookRaw_iff:
  "verifyWebhookRaw hmac clock opts payload signature secret timestamp \<longleftrightarrow>
     int (utf8_length payload) \<le> or_default (vo_maxBodyBytes opts) 100000 \<and> fresh_timestamp clock opts timestamp \<and>
     buffer_from_hex signature = hmac secret (timestamp @ ''.'' @ payload)"
  by (auto simp: verifyWebhookRaw_def signWebhookPayload_def buffer_to_hex Let_def)

lemma verifyWebhookEdgeRaw_iff:
  "verifyWebhookEdgeRaw subtle_sign clock opts payload signature secret timestamp \<longleftrightarrow>
     int (utf8_length payload) \<le> or_default (vo_maxBodyBytes opts) 100000 \<and> fresh_timestamp clock opts timestamp \<and>
     (\<exists>bs. parseSignatureHex signature = Some bs \<and> subtle_sign secret (timestamp @ ''.'' @ payload) = Some bs)"
  by (auto simp: verifyWebhookEdgeRaw_def same_bytes_iff split: option.splits if_splits)

definition sample_options :: verify_options where
  "sample_options = \<lparr>vo_maxAgeMs = None, vo_clockSkewMs = None, vo_nowMs = Some 1000, vo_maxBodyBytes = None\<rparr>"

text \<open>A digest of the right length for evaluation.\<close>

definition sample_hmac :: "string \<Rightarrow> string \<Rightarrow> bytes" where
  "sample_hmac secret message = map (\<lambda>i. of_nat (length secret + i * length message)) [0..<32]"

text \<open>
  C21: what \<open>WebhookDelivery\<close> signs, both verifiers accept and decode. A payload signed at \<open>t\<close> is accepted at every
  moment from \<open>t - skew\<close> up to \<open>t + maxAge + skew\<close>, and returns the event the payload stands for.
\<close>

theorem signed_webhook_verifies:
  assumes len: "length (hmac secret (timestamp @ ''.'' @ payload)) = 32"
    and edge: "subtle_sign secret (timestamp @ ''.'' @ payload) = Some (hmac secret (timestamp @ ''.'' @ payload))"
    and size: "int (utf8_length payload) \<le> or_default (vo_maxBodyBytes opts) 100000" and fresh: "fresh_timestamp clock opts timestamp"
    and parse: "json_parse payload = Some evt"
  shows "verifyWebhook hmac json_parse None clock opts payload (signWebhookPayload hmac payload timestamp secret) secret timestamp = Some evt \<and>
    verifyWebhookEdge subtle_sign json_parse None clock opts payload (signWebhookPayload hmac payload timestamp secret) secret timestamp = Some evt"
proof -
  have "hmac secret (timestamp @ ''.'' @ payload) \<noteq> []" using len by auto
  then have "parseSignatureHex (signWebhookPayload hmac payload timestamp secret) = Some (hmac secret (timestamp @ ''.'' @ payload))"
    by (simp add: signWebhookPayload_def to_hex_signature)
  then show ?thesis
    using assms by (simp add: verifyWebhook_def verifyWebhookEdge_def verifyWebhookRaw_iff verifyWebhookEdgeRaw_iff
      parse_event_def signWebhookPayload_def buffer_to_hex)
qed

lemma sample_fresh: "fresh_timestamp c sample_options ''900''" "utf8_length ''{}'' = 2"
  by (simp_all add: fresh_timestamp_def sample_options_def all_digits_def is_digit_def finite_number_def or_default_def
      DEFAULT_MAX_AGE_MS_def DEFAULT_CLOCK_SKEW_MS_def Let_def utf8_length_def)

theorem signed_webhook_verifies_witness:
  "verifyWebhook sample_hmac Some None 0 sample_options ''{}'' (signWebhookPayload sample_hmac ''{}'' ''900'' ''key'') ''key'' ''900'' = Some ''{}''"
  using signed_webhook_verifies [of sample_hmac "''key''" "''900''" "''{}''" "\<lambda>k m. Some (sample_hmac k m)" sample_options 0 Some "''{}''"] sample_fresh
  by (simp add: sample_hmac_def sample_options_def or_default_def)

text \<open>
  the Node verifier accepts everything the edge verifier accepts. They agree on every signature of an even,
  positive number of hexadecimal digits, and the edge verifier accepts no other.
\<close>

theorem verifiers_agree:
  assumes "subtle_sign = (\<lambda>k m. Some (hmac k m))"
  shows "verifyWebhookEdgeRaw subtle_sign clock opts payload signature secret timestamp \<longleftrightarrow>
    parseSignatureHex signature \<noteq> None \<and> verifyWebhookRaw hmac clock opts payload signature secret timestamp"
  using assms by (auto simp: verifyWebhookEdgeRaw_iff verifyWebhookRaw_iff parseSignatureHex_def split: if_splits)

theorem verifiers_agree_witness:
  "verifyWebhookEdgeRaw (\<lambda>k m. Some (sample_hmac k m)) 0 sample_options ''{}'' ''zz'' ''key'' ''900'' \<longleftrightarrow>
   parseSignatureHex ''zz'' \<noteq> None \<and> verifyWebhookRaw sample_hmac 0 sample_options ''{}'' ''zz'' ''key'' ''900''"
  by (rule verifiers_agree) simp

text \<open>
  the Node verifier accepts signatures that are not signatures. \<open>Buffer.from\<close> drops everything from the first
  invalid pair on, so any text starting with a non-hexadecimal character may follow a valid signature; the edge verifier rejects it.
\<close>

theorem trailing_text_accepted:
  assumes "verifyWebhookRaw hmac clock opts payload (signWebhookPayload hmac payload timestamp secret) secret timestamp"
    and "hex_value c = None"
  shows "verifyWebhookRaw hmac clock opts payload (signWebhookPayload hmac payload timestamp secret @ c # junk) secret timestamp \<and>
    \<not> verifyWebhookEdgeRaw subtle_sign clock opts payload (signWebhookPayload hmac payload timestamp secret @ c # junk) secret timestamp"
proof -
  have "buffer_from_hex (c # junk) = []" using assms(2) by (cases junk) auto
  then show ?thesis
    using assms buffer_from_to_hex [of "hmac secret (timestamp @ ''.'' @ payload)" "c # junk"]
    by (simp add: verifyWebhookRaw_iff verifyWebhookEdgeRaw_iff signWebhookPayload_def parseSignatureHex_def)
qed

theorem trailing_text_accepted_witness:
  "verifyWebhookRaw sample_hmac 0 sample_options ''{}'' (signWebhookPayload sample_hmac ''{}'' ''900'' ''key'' @ ''zz'') ''key'' ''900''"
proof -
  have "verifyWebhookRaw sample_hmac 0 sample_options ''{}'' (signWebhookPayload sample_hmac ''{}'' ''900'' ''key'') ''key'' ''900''"
    using sample_fresh by (simp add: verifyWebhookRaw_iff signWebhookPayload_def buffer_to_hex) (simp add: sample_options_def or_default_def)
  then show ?thesis
    using trailing_text_accepted [of sample_hmac 0 sample_options "''{}''" "''900''" "''key''" "CHR ''z''" "''z''"] by (simp add: hex_value_def)
qed

section \<open>Streams\<close>

lemma read_chunks_concat:
  assumes "0 \<le> maxBodyBytes" "int (length buf) \<le> maxBodyBytes"
  shows "read_chunks maxBodyBytes buf cs =
    (if int (length (buf @ concat cs)) \<le> maxBodyBytes then Some (buf @ concat cs) else None)"
  using assms by (induction cs arbitrary: buf) (auto simp: Let_def)

text \<open>
  C22: how a body is cut into chunks is irrelevant. The streaming verifier accepts the UTF-8 bytes of a
  payload, in any chunks, exactly when the buffered one accepts the payload, and returns the same event with the body.
\<close>

theorem stream_is_buffered:
  assumes "concat stream = encode payload" "decode (encode payload) = payload" "length (encode payload) = utf8_length payload"
    and "0 \<le> or_default (vo_maxBodyBytes opts) 100000"
  shows "verifyWebhookEdgeStream subtle_sign decode json_parse schema clock opts stream signature secret timestamp =
    map_option (\<lambda>evt. (evt, payload)) (verifyWebhookEdge subtle_sign json_parse schema clock opts payload signature secret timestamp)"
proof -
  have "read_chunks (or_default (vo_maxBodyBytes opts) 100000) [] stream =
      (if int (utf8_length payload) \<le> or_default (vo_maxBodyBytes opts) 100000 then Some (encode payload) else None)"
    using read_chunks_concat [of "or_default (vo_maxBodyBytes opts) 100000" "[]" stream] assms by simp
  then show ?thesis
    using assms(2)
    by (auto simp: verifyWebhookEdgeStream_def verifyWebhookEdge_def verifyWebhookEdgeRaw_def Let_def split: option.splits)
qed

text \<open>An ASCII codec.\<close>

definition ascii_encode :: "string \<Rightarrow> bytes" where "ascii_encode s = map (\<lambda>c. of_nat (of_char c)) s"
definition ascii_decode :: "bytes \<Rightarrow> string" where "ascii_decode bs = map (\<lambda>b. char_of (unat b)) bs"

theorem stream_is_buffered_witness:
  "verifyWebhookEdgeStream (\<lambda>k m. Some (sample_hmac k m)) ascii_decode Some None 0 sample_options [[123], [], [125]]
     (signWebhookPayload sample_hmac ''{}'' ''900'' ''key'') ''key'' ''900'' =
   map_option (\<lambda>evt. (evt, ''{}'')) (verifyWebhookEdge (\<lambda>k m. Some (sample_hmac k m)) Some None 0 sample_options ''{}''
     (signWebhookPayload sample_hmac ''{}'' ''900'' ''key'') ''key'' ''900'')"
  by (rule stream_is_buffered [of _ ascii_encode])
    (simp_all add: ascii_encode_def ascii_decode_def utf8_length_def sample_options_def or_default_def char_of_def bit_iff_odd)

end
