(* ===== verification/Webhook_Delivery.thy ===== *)
theory Webhook_Delivery
  imports Webhook_Queues Webhook_Verify
begin

text \<open>
  The class \<open>WebhookDelivery\<close> of \<^verbatim>\<open>packages/pulse-webhooks/src/index.ts\<close> with its backoff strategies
  (\<^verbatim>\<open>backoff.ts\<close>), over the in-memory retry queue and dead-letter store.

  A call of \<open>deliverToUrl\<close> or \<open>processQueueRecord\<close> is pending from its start to the end of its attempt; a step of the
  machine is one event of the runtime: a watcher event, a stop, a timer, a poll, or the end of a pending attempt.
  What the attempt met on its way (the validator's verdict, the DNS answers, the response, when the watcher stopped)
  is the argument \<open>attempt_env\<close>. Between the end of an attempt and its bookkeeping the code awaits only the in-memory
  stores, and the model takes both in one step. An event is an object: \<open>eo_ref\<close> is its identity.
  The URL parser, \<open>JSON.stringify\<close> and the keyed hash are the fields of \<open>wd_host\<close>. Tracing spans are not modelled.
\<close>

section \<open>backoff.ts\<close>

definition exponentialJittered :: "nat \<Rightarrow> rat \<Rightarrow> rat" where
  "exponentialJittered attempt rng = (let exponentialDelay = 2 ^ (attempt - 1) * 1000 in of_int \<lfloor>rng * exponentialDelay\<rfloor>)"

definition linear_backoff :: "nat \<Rightarrow> rat \<Rightarrow> rat" where
  "linear_backoff attempt rng = of_nat attempt * 1000"

definition cappedExponential :: "nat \<Rightarrow> rat \<Rightarrow> rat" where
  "cappedExponential attempt rng = (let exponentialDelay = 2 ^ (attempt - 1) * 1000 in min exponentialDelay 30000)"

definition constant_backoff :: "nat \<Rightarrow> rat \<Rightarrow> rat" where
  "constant_backoff attempt rng = 1000"

section \<open>Configuration\<close>

datatype url_config = OneUrl string | UrlStrings "string list" | UrlEntries "(string \<times> int option) list"

record webhook_config =
  wo_url :: url_config
  wo_secret :: string
  wo_retries :: "int option"
  wo_deliveryTimeoutMs :: "int option"
  wo_maxConcurrentRetries :: "int option"
  wo_maxConcurrentDeliveries :: "int option"
  wo_backoff :: "(nat \<Rightarrow> rat \<Rightarrow> rat) option"
  wo_urlValidator :: bool
  wo_retryQueue :: bool

record resolved_config =
  wf_urls :: "string list"
  wf_urlTimeouts :: "(string, int) js_map"
  wf_secret :: string
  wf_retries :: int
  wf_deliveryTimeoutMs :: int
  wf_maxConcurrentRetries :: int
  wf_maxConcurrentDeliveries :: int
  wf_backoff :: "nat \<Rightarrow> rat \<Rightarrow> rat"
  wf_urlValidator :: bool
  wf_retryQueue :: bool

definition normalizeUrlConfig :: "url_config \<Rightarrow> string list \<times> (string, int) js_map" where
  "normalizeUrlConfig url =
     (case url of
        OneUrl u \<Rightarrow> ([u], [])
      | UrlStrings us \<Rightarrow> (us, [])
      | UrlEntries es \<Rightarrow>
          (map fst es, fold (\<lambda>(u, t) m. case t of Some ms \<Rightarrow> map_set u ms m | None \<Rightarrow> m) es []))"

text \<open>The options as the constructor resolves them.\<close>

definition resolve_config :: "webhook_config \<Rightarrow> resolved_config" where
  "resolve_config c =
     (let (urls, urlTimeouts) = normalizeUrlConfig (wo_url c)
      in \<lparr>wf_urls = urls, wf_urlTimeouts = urlTimeouts, wf_secret = wo_secret c, wf_retries = or_default (wo_retries c) 3,
          wf_deliveryTimeoutMs = or_default (wo_deliveryTimeoutMs c) 10000,
          wf_maxConcurrentRetries = max 1 (or_default (wo_maxConcurrentRetries c) 100),
          wf_maxConcurrentDeliveries = max 1 (or_default (wo_maxConcurrentDeliveries c) 100),
          wf_backoff = or_default (wo_backoff c) exponentialJittered,
          wf_urlValidator = wo_urlValidator c, wf_retryQueue = wo_retryQueue c\<rparr>)"

section \<open>One attempt\<close>

record 'p event_obj =
  eo_ref :: nat
  eo_data :: 'p

record 'p wd_host =
  ho_parse_url :: "string \<Rightarrow> url_parts option"
  ho_hmac :: "string \<Rightarrow> string \<Rightarrow> bytes"
  ho_stringify :: "'p \<Rightarrow> string"

datatype validator_outcome = ValidatorNull | ValidatorError string | ValidatorThrew "string option"
datatype dns_outcome = DnsAnswers "string list" | DnsThrew
datatype fetch_outcome = FetchStatus nat | FetchAborted | FetchThrew "string option"

text \<open>\<open>ae_stopAt\<close>: how many of the attempt's checks of \<open>watcher.stopped\<close> were passed before the watcher stopped.\<close>

record attempt_env =
  ae_validator :: validator_outcome
  ae_dns :: dns_outcome
  ae_fetch :: fetch_outcome
  ae_stopAt :: nat

datatype attempt_result = AttemptOk | AttemptFailed string bool

record request =
  rq_url :: string
  rq_address :: "string option"
  rq_ref :: nat
  rq_attempt :: nat
  rq_deliveryId :: string
  rq_timestamp :: string
  rq_body :: string
  rq_signature :: string

definition BLOCKED_ADDRESS_ERROR :: string where
  "BLOCKED_ADDRESS_ERROR = ''Webhook URL points to a blocked private address''"

definition validateUrl :: "(string \<Rightarrow> url_parts option) \<Rightarrow> string \<Rightarrow> string option" where
  "validateUrl parse_url url =
     (case parse_url url of
        None \<Rightarrow> Some ''Invalid webhook URL''
      | Some u \<Rightarrow>
          let hostname = normalizeHostname (url_hostname u)
          in if isLoopbackHostname hostname then Some BLOCKED_ADDRESS_ERROR
             else if isPrivateIpLiteral hostname then Some BLOCKED_ADDRESS_ERROR else None)"

text \<open>The error and the address to pin. The URL has been parsed before.\<close>

definition validateResolvedHostname ::
  "(string \<Rightarrow> url_parts option) \<Rightarrow> dns_outcome \<Rightarrow> string \<Rightarrow> string option \<times> string option"
where
  "validateResolvedHostname parse_url dns url =
     (case parse_url url of
        None \<Rightarrow> (Some ''Invalid URL'', None)
      | Some u \<Rightarrow>
          if isIpLiteral (normalizeHostname (url_hostname u)) then (None, None)
          else (case dns of
              DnsThrew \<Rightarrow> (Some ''Webhook hostname could not be resolved'', None)
            | DnsAnswers [] \<Rightarrow> (Some ''Webhook hostname did not resolve to an IP address'', None)
            | DnsAnswers (a # as) \<Rightarrow>
                if list_ex isPrivateIpLiteral (a # as) then (Some BLOCKED_ADDRESS_ERROR, None) else (None, Some a)))"

definition getErrorMessage :: "int \<Rightarrow> fetch_outcome \<Rightarrow> string" where
  "getErrorMessage timeoutMs err =
     (case err of
        FetchAborted \<Rightarrow> ''Delivery timed out after '' @ show_int timeoutMs @ ''ms''
      | FetchThrew (Some msg) \<Rightarrow> msg
      | FetchThrew None \<Rightarrow> ''Unknown error''
      | FetchStatus st \<Rightarrow> ''HTTP '' @ show_nat st)"

text \<open>The result, the request that was sent, and the outcome reported to the metrics.\<close>

definition doAttempt ::
  "'p wd_host \<Rightarrow> resolved_config \<Rightarrow> int \<Rightarrow> string \<Rightarrow> attempt_env \<Rightarrow> 'p event_obj \<Rightarrow> string \<Rightarrow> nat \<Rightarrow>
   attempt_result \<times> request option \<times> bool option"
where
  "doAttempt h cfg now deliveryId env event url attempt =
     (let stopped = (AttemptFailed ''stopped'' True, None, None); validator = (if wf_urlValidator cfg then ae_validator env else ValidatorNull)
      in if ae_stopAt env \<le> 0 then stopped
         else case validateUrl (ho_parse_url h) url of
             Some e \<Rightarrow> (AttemptFailed e True, None, None)
           | None \<Rightarrow>
               if ae_stopAt env \<le> 1 then stopped
               else (case validator of
                   ValidatorThrew msg \<Rightarrow> (AttemptFailed (or_default msg ''Unknown error'') True, None, None)
                 | ValidatorError (c # e) \<Rightarrow> (AttemptFailed (c # e) True, None, None)
                 | _ \<Rightarrow>
                     (case validateResolvedHostname (ho_parse_url h) (ae_dns env) url of (err, address) \<Rightarrow>
                        if ae_stopAt env \<le> 2 then stopped
                        else case err of
                            Some e \<Rightarrow> (AttemptFailed e (e = BLOCKED_ADDRESS_ERROR), None, None)
                          | None \<Rightarrow>
                              let payload = ho_stringify h (eo_data event); timestamp = show_int now;
                                  signature = signWebhookPayload (ho_hmac h) payload timestamp (wf_secret cfg);
                                  timeoutMs = or_default (map_get (wf_urlTimeouts cfg) url) (wf_deliveryTimeoutMs cfg);
                                  req = \<lparr>rq_url = url, rq_address = address, rq_ref = eo_ref event, rq_attempt = attempt, rq_deliveryId = deliveryId,
                                         rq_timestamp = timestamp, rq_body = payload, rq_signature = signature\<rparr>
                              in (case ae_fetch env of
                                  FetchStatus st \<Rightarrow>
                                    if 200 \<le> st \<and> st \<le> 299 then (AttemptOk, Some req, Some True)
                                    else if ae_stopAt env \<le> 3 then (AttemptFailed ''stopped'' False, Some req, None)
                                    else (AttemptFailed (getErrorMessage timeoutMs (FetchStatus st)) False, Some req, Some False)
                                | err \<Rightarrow>
                                    if ae_stopAt env \<le> 3 then (AttemptFailed ''stopped'' False, Some req, None)
                                    else (AttemptFailed (getErrorMessage timeoutMs err) False, Some req, Some False)))))"

section \<open>The delivery state\<close>

text \<open>Why a call is pending: a first delivery, a retry timer, a replay with the
  dead letter's id, the drain loop or the poller with the record's id.\<close>

datatype call_kind = KDispatch | KRetry | KReplay string | KDrain string rat | KPoll string

record 'p call =
  ca_event :: "'p event_obj"
  ca_url :: string
  ca_attempt :: nat
  ca_kind :: call_kind

datatype 'p notice =
    WebhookFailed "'p event_obj" string string nat string
  | WebhookDropped "'p event_obj" string int
  | WebhookBackpressure "'p event_obj" string int nat

datatype outcome = OSuccess | OFailure | ODropped

text \<open>\<open>wd_terminals\<close> lists the calls of \<open>metrics.recordTerminal\<close>, with the event each one is about, \<open>wd_requests\<close> the requests.\<close>

record 'p delivery =
  wd_stopped :: bool
  wd_watcherStopped :: bool
  wd_active :: nat
  wd_overflow :: "('p event_obj \<times> string) list"
  wd_calls :: "'p call list"
  wd_timers :: "('p event_obj \<times> string \<times> nat) list"
  wd_queue :: "'p event_obj webhook_queue"
  wd_retrySeq :: nat
  wd_drainTimers :: nat
  wd_pollerOn :: bool
  wd_deliveryIds :: "(nat, (string, string) js_map) js_map"
  wd_dlq :: "nat \<times> 'p event_obj dlq"
  wd_terminals :: "(outcome \<times> 'p event_obj \<times> string) list"
  wd_notices :: "'p notice list"
  wd_requests :: "request list"

text \<open>What the runtime supplies to a step: the clock, a random suffix, a fresh UUID and a random number.\<close>

record moment =
  mo_now :: int
  mo_rand :: string
  mo_uuid :: string
  mo_random :: rat

definition newDelivery :: "resolved_config \<Rightarrow> 'p event_obj webhook_queue \<Rightarrow> nat \<times> 'p event_obj dlq \<Rightarrow> 'p delivery" where
  "newDelivery cfg queue store =
     \<lparr>wd_stopped = False, wd_watcherStopped = False, wd_active = 0, wd_overflow = [], wd_calls = [], wd_timers = [],
      wd_queue = queue, wd_retrySeq = 0, wd_drainTimers = 0, wd_pollerOn = wf_retryQueue cfg, wd_deliveryIds = [],
      wd_dlq = store, wd_terminals = [], wd_notices = [], wd_requests = []\<rparr>"

definition notify_watcher :: "'p notice \<Rightarrow> 'p delivery \<Rightarrow> 'p delivery" where
  "notify_watcher n s = (if wd_watcherStopped s then s else s\<lparr>wd_notices := wd_notices s @ [n]\<rparr>)"

definition recordTerminal :: "outcome \<Rightarrow> 'p event_obj \<Rightarrow> string \<Rightarrow> 'p delivery \<Rightarrow> 'p delivery" where
  "recordTerminal oc event url s = s\<lparr>wd_terminals := wd_terminals s @ [(oc, event, url)]\<rparr>"

definition recordTerminalFailure ::
  "moment \<Rightarrow> string \<Rightarrow> 'p event_obj \<Rightarrow> string \<Rightarrow> nat \<Rightarrow> 'p delivery \<Rightarrow> string \<times> 'p delivery"
where
  "recordTerminalFailure m url event errorMessage attempt s =
     (case add_dlq (mo_rand m) (mo_now m) url event errorMessage (int attempt) (wd_dlq s) of
        (dlqId, store) \<Rightarrow> (dlqId, s\<lparr>wd_dlq := store\<rparr>))"

definition emitFailure :: "moment \<Rightarrow> 'p event_obj \<Rightarrow> string \<Rightarrow> string \<Rightarrow> nat \<Rightarrow> 'p delivery \<Rightarrow> 'p delivery" where
  "emitFailure m event url errorMessage attempt s =
     (case recordTerminalFailure m url event errorMessage attempt s of
        (dlqId, s) \<Rightarrow> notify_watcher (WebhookFailed event url errorMessage attempt dlqId) (recordTerminal OFailure event url s))"

definition emitDropped :: "moment \<Rightarrow> resolved_config \<Rightarrow> 'p event_obj \<Rightarrow> string \<Rightarrow> 'p delivery \<Rightarrow> 'p delivery" where
  "emitDropped m cfg event url s =
     (case recordTerminalFailure m url event ''retry_cap_exceeded'' 0 (recordTerminal ODropped event url s) of
        (_, s) \<Rightarrow> notify_watcher (WebhookDropped event url (wf_maxConcurrentRetries cfg)) s)"

definition start_call :: "call_kind \<Rightarrow> 'p event_obj \<Rightarrow> string \<Rightarrow> nat \<Rightarrow> 'p delivery \<Rightarrow> 'p delivery" where
  "start_call k event url attempt s =
     s\<lparr>wd_calls := wd_calls s @ [\<lparr>ca_event = event, ca_url = url, ca_attempt = attempt, ca_kind = k\<rparr>]\<rparr>"

definition dispatchDelivery :: "resolved_config \<Rightarrow> 'p event_obj \<Rightarrow> string \<Rightarrow> 'p delivery \<Rightarrow> 'p delivery" where
  "dispatchDelivery cfg event url s =
     (if wd_stopped s then s
      else if int (wd_active s) \<ge> wf_maxConcurrentDeliveries cfg
      then let s = s\<lparr>wd_overflow := wd_overflow s @ [(event, url)]\<rparr>
           in notify_watcher (WebhookBackpressure event url (wf_maxConcurrentDeliveries cfg) (length (wd_overflow s))) s
      else start_call KDispatch event url 1 (s\<lparr>wd_active := wd_active s + 1\<rparr>))"

definition handleWatcherEvent :: "resolved_config \<Rightarrow> 'p event_obj \<Rightarrow> 'p delivery \<Rightarrow> 'p delivery" where
  "handleWatcherEvent cfg event s =
     (if wd_stopped s then s else fold (dispatchDelivery cfg event) (wf_urls cfg) s)"

fun drain_overflow :: "resolved_config \<Rightarrow> ('p event_obj \<times> string) list \<Rightarrow> 'p delivery \<Rightarrow> 'p delivery" where
  "drain_overflow cfg [] s = s"
| "drain_overflow cfg ((event, url) # rest) s =
     (if int (wd_active s) < wf_maxConcurrentDeliveries cfg
      then drain_overflow cfg rest (start_call KDispatch event url 1 (s\<lparr>wd_overflow := rest, wd_active := wd_active s + 1\<rparr>))
      else s)"

definition drainOverflowQueue :: "resolved_config \<Rightarrow> 'p delivery \<Rightarrow> 'p delivery" where
  "drainOverflowQueue cfg s = drain_overflow cfg (wd_overflow s) s"

definition clearRetryTimers :: "'p delivery \<Rightarrow> 'p delivery" where
  "clearRetryTimers s = s\<lparr>wd_timers := [], wd_drainTimers := 0\<rparr>"

definition stop_delivery :: "'p delivery \<Rightarrow> 'p delivery" where
  "stop_delivery s =
     (if wd_stopped s then s else (clearRetryTimers (s\<lparr>wd_stopped := True\<rparr>))\<lparr>wd_pollerOn := False\<rparr>)"

definition healthCheck_delivery :: "string option \<Rightarrow> 'p delivery \<Rightarrow> bool \<times> string list" where
  "healthCheck_delivery ping_error s =
     (let reasons = (if wd_stopped s then [''webhook delivery is stopped''] else []) @
            (case ping_error of None \<Rightarrow> [] | Some msg \<Rightarrow> [''retryQueue: '' @ msg])
      in (reasons = [], reasons))"

definition persistRetry :: "moment \<Rightarrow> resolved_config \<Rightarrow> 'p event_obj \<Rightarrow> string \<Rightarrow> nat \<Rightarrow> string \<Rightarrow> 'p delivery \<Rightarrow> 'p delivery" where
  "persistRetry m cfg event url attempt lastError s =
     (let s = (if int (size_wq (wd_queue s)) \<ge> wf_maxConcurrentRetries cfg
               then (case evictNewest (wd_queue s) of
                   (None, q) \<Rightarrow> s\<lparr>wd_queue := q\<rparr>
                 | (Some evicted, q) \<Rightarrow> emitDropped m cfg (rr_event evicted) (rr_url evicted) (s\<lparr>wd_queue := q\<rparr>))
               else s);
          delay = wf_backoff cfg (attempt - 1) (mo_random m);
          r = \<lparr>rr_id = ''retry-'' @ show_int (mo_now m) @ ''-'' @ show_nat (wd_retrySeq s), rr_event = event, rr_url = url,
               rr_attempt = int attempt, rr_nextRetryAt = Finite (of_int (mo_now m) + delay), rr_lastError = Some lastError,
               rr_createdAt = Some (mo_now m)\<rparr>;
          s = s\<lparr>wd_retrySeq := Suc (wd_retrySeq s)\<rparr>
      in (case enqueue_wq r (wd_queue s) of
            Inl _ \<Rightarrow> s
          | Inr q \<Rightarrow> s\<lparr>wd_queue := q, wd_drainTimers := wd_drainTimers s + 1\<rparr>))"

text \<open>The branch of \<open>deliverToUrl\<close> that schedules a retry in memory; the newest timer is the last one.\<close>

definition schedule_retry :: "moment \<Rightarrow> resolved_config \<Rightarrow> 'p event_obj \<Rightarrow> string \<Rightarrow> nat \<Rightarrow> 'p delivery \<Rightarrow> 'p delivery" where
  "schedule_retry m cfg event url attempt s =
     (let s = (if int (length (wd_timers s)) \<ge> wf_maxConcurrentRetries cfg
               then (case last (wd_timers s) of (e, u, _) \<Rightarrow> emitDropped m cfg e u (s\<lparr>wd_timers := butlast (wd_timers s)\<rparr>))
               else s)
      in s\<lparr>wd_timers := wd_timers s @ [(event, url, attempt + 1)]\<rparr>)"

text \<open>\<open>deliverToUrl\<close> after its attempt.\<close>

definition deliver_rest :: "moment \<Rightarrow> resolved_config \<Rightarrow> 'p event_obj \<Rightarrow> string \<Rightarrow> nat \<Rightarrow> attempt_result \<Rightarrow> 'p delivery \<Rightarrow> 'p delivery" where
  "deliver_rest m cfg event url attempt res s =
     (case res of
        AttemptOk \<Rightarrow> s
      | AttemptFailed errorMessage terminal \<Rightarrow>
          if wd_watcherStopped s then s
          else if \<not> terminal \<and> int attempt < wf_retries cfg
          then (if wf_retryQueue cfg then persistRetry m cfg event url (attempt + 1) errorMessage s
                else schedule_retry m cfg event url attempt s)
          else emitFailure m event url errorMessage attempt s)"

text \<open>\<open>processQueueRecord\<close> after its attempt.\<close>

definition process_rest ::
  "moment \<Rightarrow> resolved_config \<Rightarrow> string \<Rightarrow> 'p event_obj \<Rightarrow> string \<Rightarrow> nat \<Rightarrow> attempt_result \<Rightarrow> 'p delivery \<Rightarrow> 'p delivery"
where
  "process_rest m cfg recordId event url attempt res s =
     (if wd_watcherStopped s then s
      else case res of
          AttemptOk \<Rightarrow> s\<lparr>wd_queue := ack_wq recordId (wd_queue s)\<rparr>
        | AttemptFailed errorMessage terminal \<Rightarrow>
            if \<not> terminal \<and> int attempt < wf_retries cfg
            then (case nack_wq (of_int (mo_now m)) recordId (Finite (wf_backoff cfg attempt (mo_random m))) (wd_queue s) of
                Inl _ \<Rightarrow> s
              | Inr q \<Rightarrow> s\<lparr>wd_queue := q\<rparr>)
            else emitFailure m event url errorMessage attempt (s\<lparr>wd_queue := ack_wq recordId (wd_queue s)\<rparr>))"

definition poll_tick :: "rat \<Rightarrow> 'p delivery \<Rightarrow> 'p delivery" where
  "poll_tick now s =
     (if \<not> wd_pollerOn s then s
      else case dequeue_wq now (wd_queue s) of
          (None, q) \<Rightarrow> s\<lparr>wd_queue := q\<rparr>
        | (Some r, q) \<Rightarrow>
            let s = s\<lparr>wd_queue := q\<rparr>
            in if wd_watcherStopped s then s else start_call (KPoll (rr_id r)) (rr_event r) (rr_url r) (nat (rr_attempt r)) s)"

text \<open>One turn of the loop of \<open>drainDueRetries\<close>.\<close>

definition drain_turn :: "resolved_config \<Rightarrow> rat \<Rightarrow> 'p delivery \<Rightarrow> 'p delivery" where
  "drain_turn cfg nowMs s =
     (if \<not> wf_retryQueue cfg \<or> wd_watcherStopped s then s
      else case dequeue_wq nowMs (wd_queue s) of
          (None, q) \<Rightarrow> s\<lparr>wd_queue := q\<rparr>
        | (Some r, q) \<Rightarrow> start_call (KDrain (rr_id r) nowMs) (rr_event r) (rr_url r) (nat (rr_attempt r)) (s\<lparr>wd_queue := q\<rparr>))"

text \<open>The delivery id of an event object and URL, made on first use.\<close>

definition delivery_id :: "string \<Rightarrow> nat \<Rightarrow> string \<Rightarrow> (nat, (string, string) js_map) js_map \<Rightarrow> string \<times> (nat, (string, string) js_map) js_map" where
  "delivery_id uuid ref url ids =
     (let urlDeliveryMap = or_default (map_get ids ref) []
      in case map_get urlDeliveryMap url of
           Some i \<Rightarrow> (i, ids)
         | None \<Rightarrow> (uuid, map_set ref (map_set url uuid urlDeliveryMap) ids))"

text \<open>What an attempt leaves in the state: the request with its delivery id, and the outcome in the metrics and the store.\<close>

definition log_attempt ::
  "moment \<Rightarrow> 'p event_obj \<Rightarrow> string \<Rightarrow> (nat, (string, string) js_map) js_map \<Rightarrow> request option \<Rightarrow> bool option \<Rightarrow> 'p delivery \<Rightarrow> 'p delivery"
where
  "log_attempt m event url ids req status s =
     (let s = (case req of None \<Rightarrow> s | Some r \<Rightarrow> s\<lparr>wd_deliveryIds := ids, wd_requests := wd_requests s @ [r]\<rparr>)
      in case status of
           None \<Rightarrow> s
         | Some True \<Rightarrow> (recordTerminal OSuccess event url s)\<lparr>wd_dlq := apsnd (recordSuccess_dlq (mo_now m) url (mo_now m)) (wd_dlq s)\<rparr>
         | Some False \<Rightarrow> s\<lparr>wd_dlq := apsnd (recordFailure_dlq (mo_now m) url (mo_now m)) (wd_dlq s)\<rparr>)"

text \<open>The two halves of \<open>replayFailure\<close>: the handler starts, and its end stamps the entry while it is still stored.\<close>

definition replayFailure :: "string \<Rightarrow> 'p delivery \<Rightarrow> (dlq_error, 'p delivery) result" where
  "replayFailure failureId s =
     (case map_get (dq_entries (snd (wd_dlq s))) failureId of
        None \<Rightarrow> Inl (UnknownFailure failureId)
      | Some entry \<Rightarrow> Inr (start_call (KReplay failureId) (de_event entry) (de_url entry) 1 s))"

definition mark_replayed :: "moment \<Rightarrow> string \<Rightarrow> 'p delivery \<Rightarrow> 'p delivery" where
  "mark_replayed m failureId s =
     (let d = snd (wd_dlq s)
      in case map_get (dq_entries d) failureId of
           None \<Rightarrow> s
         | Some entry \<Rightarrow>
             s\<lparr>wd_dlq := (fst (wd_dlq s), d\<lparr>dq_entries := map_set failureId (entry\<lparr>de_replayedAt := Some (mo_now m)\<rparr>) (dq_entries d)\<rparr>)\<rparr>)"

text \<open>The rest of a pending call once its attempt has a result, with what its caller does when it ends.\<close>

definition after_call :: "moment \<Rightarrow> resolved_config \<Rightarrow> 'p call \<Rightarrow> attempt_result \<Rightarrow> 'p delivery \<Rightarrow> 'p delivery" where
  "after_call m cfg c res s =
     (let delivered = deliver_rest m cfg (ca_event c) (ca_url c) (ca_attempt c) res s
      in case ca_kind c of
           KDispatch \<Rightarrow> drainOverflowQueue cfg (delivered\<lparr>wd_active := wd_active delivered - 1\<rparr>)
         | KRetry \<Rightarrow> delivered
         | KReplay failureId \<Rightarrow> mark_replayed m failureId delivered
         | KDrain recordId nowMs \<Rightarrow> drain_turn cfg nowMs (delivered\<lparr>wd_queue := ack_wq recordId (wd_queue delivered)\<rparr>)
         | KPoll recordId \<Rightarrow> process_rest m cfg recordId (ca_event c) (ca_url c) (ca_attempt c) res s)"

text \<open>The end of a pending attempt. Unless the watcher has stopped by now, none of the attempt's checks saw it stopped.\<close>

definition settle :: "'p wd_host \<Rightarrow> resolved_config \<Rightarrow> nat \<Rightarrow> attempt_env \<Rightarrow> moment \<Rightarrow> 'p delivery \<Rightarrow> 'p delivery" where
  "settle h cfg i env m s =
     (if length (wd_calls s) \<le> i then s
      else let c = wd_calls s ! i; event = ca_event c; url = ca_url c; attempt = ca_attempt c;
               s = s\<lparr>wd_calls := take i (wd_calls s) @ drop (Suc i) (wd_calls s)\<rparr>;
               (deliveryId, ids) = delivery_id (mo_uuid m) (eo_ref event) url (wd_deliveryIds s);
               env = (if wd_watcherStopped s then env else env\<lparr>ae_stopAt := 4\<rparr>);
               (res, req, status) = doAttempt h cfg (mo_now m) deliveryId env event url attempt;
               s = log_attempt m event url ids req status s
           in after_call m cfg c res s)"

definition fire_timer :: "nat \<Rightarrow> 'p delivery \<Rightarrow> 'p delivery" where
  "fire_timer i s =
     (if length (wd_timers s) \<le> i then s
      else case wd_timers s ! i of (event, url, attempt) \<Rightarrow>
        start_call KRetry event url attempt (s\<lparr>wd_timers := take i (wd_timers s) @ drop (Suc i) (wd_timers s)\<rparr>))"

datatype 'p wd_input =
    InEvent "'p event_obj"
  | InStop
  | InWatcherStop
  | InSettle nat attempt_env moment
  | InTimer nat
  | InPoll rat
  | InDrain rat
  | InDrainTimer rat
  | InReplay string

fun wd_step :: "'p wd_host \<Rightarrow> resolved_config \<Rightarrow> 'p wd_input \<Rightarrow> 'p delivery \<Rightarrow> 'p delivery" where
  "wd_step h cfg (InEvent e) s = (if wd_watcherStopped s then s else handleWatcherEvent cfg e s)"
| "wd_step h cfg InStop s = stop_delivery s"
| "wd_step h cfg InWatcherStop s = stop_delivery (s\<lparr>wd_watcherStopped := True\<rparr>)"
| "wd_step h cfg (InSettle i env m) s = settle h cfg i env m s"
| "wd_step h cfg (InTimer i) s = fire_timer i s"
| "wd_step h cfg (InPoll now) s = poll_tick now s"
| "wd_step h cfg (InDrain now) s = drain_turn cfg now s"
| "wd_step h cfg (InDrainTimer now) s =
     (if wd_drainTimers s = 0 then s else drain_turn cfg now (s\<lparr>wd_drainTimers := wd_drainTimers s - 1\<rparr>))"
| "wd_step h cfg (InReplay i) s = (case replayFailure i s of Inl _ \<Rightarrow> s | Inr s \<Rightarrow> s)"

section \<open>No request to a private address\<close>


lemma attempt_sent:
  assumes "doAttempt h cfg now i env event url attempt = (res, Some r, status)"
  shows "\<exists>address. validateUrl (ho_parse_url h) url = None \<and> validateResolvedHostname (ho_parse_url h) (ae_dns env) url = (None, address) \<and>
    r = \<lparr>rq_url = url, rq_address = address, rq_ref = eo_ref event, rq_attempt = attempt, rq_deliveryId = i, rq_timestamp = show_int now,
      rq_body = ho_stringify h (eo_data event),
      rq_signature = signWebhookPayload (ho_hmac h) (ho_stringify h (eo_data event)) (show_int now) (wf_secret cfg)\<rparr>"
  using assms
  by (cases "validateResolvedHostname (ho_parse_url h) (ae_dns env) url")
    (auto simp: doAttempt_def Let_def split: if_splits option.splits validator_outcome.splits list.splits fetch_outcome.splits)


definition sample_host :: "string wd_host" where
  "sample_host = \<lparr>ho_parse_url = (\<lambda>s. Some \<lparr>url_protocol = ''https:'', url_username = [], url_password = [], url_hostname = s\<rparr>),
     ho_hmac = (\<lambda>k s. replicate 32 0), ho_stringify = (\<lambda>s. s)\<rparr>"

definition sample_config :: resolved_config where
  "sample_config = resolve_config \<lparr>wo_url = OneUrl ''h'', wo_secret = ''k'', wo_retries = None, wo_deliveryTimeoutMs = None,
     wo_maxConcurrentRetries = Some 1, wo_maxConcurrentDeliveries = Some 1, wo_backoff = Some constant_backoff,
     wo_urlValidator = False, wo_retryQueue = False\<rparr>"

definition sample_env :: "fetch_outcome \<Rightarrow> attempt_env" where
  "sample_env f = \<lparr>ae_validator = ValidatorNull, ae_dns = DnsAnswers [''9.9.9.9''], ae_fetch = f, ae_stopAt = 4\<rparr>"

lemma sample_hosts: "\<not> isIpLiteral ''h''" "\<not> isPrivateIpLiteral ''h''" "\<not> isLoopbackHostname ''h''" "normalizeHostname ''h'' = ''h''"
  by code_simp+

lemma sample_public: "\<not> isPrivateIpLiteral ''9.9.9.9''"
  by code_simp



section \<open>Bounds on what is pending\<close>

text \<open>The part of the state the bounds are about, and the operations that leave it alone.\<close>

definition pending :: "'p delivery \<Rightarrow> bool \<times> bool \<times> nat \<times> ('p event_obj \<times> string) list \<times> 'p call list \<times> ('p event_obj \<times> string \<times> nat) list \<times> bool" where
  "pending s = (wd_stopped s, wd_watcherStopped s, wd_active s, wd_overflow s, wd_calls s, wd_timers s, wd_pollerOn s)"

named_theorems wd_frame

lemma pending_emit [wd_frame]:
  "pending (notify_watcher n s) = pending s" "pending (recordTerminal oc e u s) = pending s"
  "pending (emitFailure m e u msg a s) = pending s" "pending (emitDropped m cfg e u s) = pending s"
  by (auto simp: pending_def notify_watcher_def recordTerminal_def emitFailure_def emitDropped_def recordTerminalFailure_def split: prod.splits)

lemma pending_queue [wd_frame]: "pending (s\<lparr>wd_queue := q\<rparr>) = pending s" "pending (s\<lparr>wd_dlq := d\<rparr>) = pending s"
  "pending (s\<lparr>wd_retrySeq := n\<rparr>) = pending s" "pending (s\<lparr>wd_drainTimers := n\<rparr>) = pending s"
  by (simp_all add: pending_def)

lemma pending_persist [wd_frame]: "pending (persistRetry m cfg e u a msg s) = pending s"
  by (auto simp: persistRetry_def Let_def wd_frame split: option.splits prod.splits sum.splits)

lemma pending_process [wd_frame]: "pending (process_rest m cfg i e u a res s) = pending s"
  by (auto simp: process_rest_def wd_frame split: attempt_result.splits sum.splits)

lemma pending_log [wd_frame]: "pending (log_attempt m e u ids req st s) = pending s"
  by (auto simp: log_attempt_def Let_def wd_frame split: option.splits bool.splits) (simp_all add: pending_def recordTerminal_def)

lemma pending_replayed [wd_frame]: "pending (mark_replayed m i s) = pending s"
  by (simp add: mark_replayed_def Let_def wd_frame split: option.splits)

definition is_dispatch :: "'p call \<Rightarrow> bool" where
  "is_dispatch c \<longleftrightarrow> ca_kind c = KDispatch"

definition attempts_ok :: "resolved_config \<Rightarrow> 'p delivery \<Rightarrow> bool" where
  "attempts_ok cfg s \<longleftrightarrow> (\<forall>c \<in> set (wd_calls s). 1 \<le> ca_attempt c \<and> int (ca_attempt c) \<le> max 1 (wf_retries cfg)) \<and>
     (\<forall>(e, u, a) \<in> set (wd_timers s). 1 \<le> a \<and> int a \<le> max 1 (wf_retries cfg))"

definition wd_inv :: "resolved_config \<Rightarrow> 'p delivery \<Rightarrow> bool" where
  "wd_inv cfg s \<longleftrightarrow> wd_active s = length (filter is_dispatch (wd_calls s)) \<and> int (wd_active s) \<le> wf_maxConcurrentDeliveries cfg \<and>
     (wd_overflow s \<noteq> [] \<longrightarrow> int (wd_active s) = wf_maxConcurrentDeliveries cfg) \<and>
     int (length (wd_timers s)) \<le> wf_maxConcurrentRetries cfg \<and>
     (\<not> wf_retryQueue cfg \<longrightarrow> \<not> wd_pollerOn s \<and> attempts_ok cfg s)"

lemma wd_inv_cong: "pending s = pending s' \<Longrightarrow> wd_inv cfg s \<longleftrightarrow> wd_inv cfg s'"
  by (simp add: wd_inv_def pending_def attempts_ok_def)

lemma pending_view: "pending s = pending s' \<Longrightarrow> wd_calls s = wd_calls s' \<and> wd_timers s = wd_timers s' \<and> wd_overflow s = wd_overflow s' \<and>
    wd_active s = wd_active s' \<and> wd_stopped s = wd_stopped s' \<and> wd_watcherStopped s = wd_watcherStopped s' \<and> wd_pollerOn s = wd_pollerOn s'"
  by (simp add: pending_def)

lemma split_nth: "i < length xs \<Longrightarrow> xs = take i xs @ xs ! i # drop (Suc i) xs"
  by (rule id_take_nth_drop)

lemma filter_without: "i < length xs \<Longrightarrow> length (filter P xs) = length (filter P (take i xs @ drop (Suc i) xs)) + (if P (xs ! i) then 1 else 0)"
  by (subst split_nth [of i xs]) auto

lemma mset_without: "i < length xs \<Longrightarrow> mset xs = add_mset (xs ! i) (mset (take i xs @ drop (Suc i) xs))"
  by (subst split_nth [of i xs]) auto

lemma set_without: "x \<in> set (take i xs @ drop (Suc i) xs) \<Longrightarrow> x \<in> set xs"
  by (auto dest: in_set_takeD in_set_dropD)

lemma drain_inv:
  assumes "wd_overflow s = ov" "wd_active s = length (filter is_dispatch (wd_calls s))" "int (wd_active s) \<le> wf_maxConcurrentDeliveries cfg"
    "int (length (wd_timers s)) \<le> wf_maxConcurrentRetries cfg" "\<not> wf_retryQueue cfg \<longrightarrow> \<not> wd_pollerOn s \<and> attempts_ok cfg s"
  shows "wd_inv cfg (drain_overflow cfg ov s)"
  using assms
  by (induction cfg ov s rule: drain_overflow.induct)
    (auto simp: wd_inv_def start_call_def is_dispatch_def attempts_ok_def Let_def)

lemma start_retry_inv:
  assumes "wd_inv cfg s" "k \<noteq> KDispatch" "wf_retryQueue cfg \<or> 1 \<le> a \<and> int a \<le> max 1 (wf_retries cfg)"
  shows "wd_inv cfg (start_call k e u a s)"
  using assms by (auto simp: wd_inv_def start_call_def is_dispatch_def attempts_ok_def)

lemma dispatch_inv: "wd_inv cfg s \<Longrightarrow> wd_inv cfg (dispatchDelivery cfg e u s)"
  by (auto simp: dispatchDelivery_def wd_inv_def start_call_def is_dispatch_def attempts_ok_def notify_watcher_def Let_def)

lemma stop_inv: "wd_inv cfg s \<Longrightarrow> 0 \<le> wf_maxConcurrentRetries cfg \<Longrightarrow> wd_inv cfg (stop_delivery s)"
  by (auto simp: stop_delivery_def clearRetryTimers_def wd_inv_def attempts_ok_def)

lemma drain_turn_inv: "wd_inv cfg s \<Longrightarrow> wd_inv cfg (drain_turn cfg now s)"
  by (auto simp: drain_turn_def wd_inv_cong [OF pending_queue(1)] intro!: start_retry_inv split: option.splits prod.splits)

lemma poll_inv: "wd_inv cfg s \<Longrightarrow> wd_inv cfg (poll_tick now s)"
proof -
  assume inv: "wd_inv cfg s"
  then have "\<not> wf_retryQueue cfg \<Longrightarrow> \<not> wd_pollerOn s" by (simp add: wd_inv_def)
  with inv show ?thesis
    by (auto simp: poll_tick_def Let_def wd_inv_cong [OF pending_queue(1)] intro!: start_retry_inv split: option.splits prod.splits)
qed

lemma schedule_retry_view:
  fixes s :: "'p delivery"
  defines "s' \<equiv> \<lambda>m cfg e u a. schedule_retry m cfg e u a (s :: 'p delivery)"
  shows "wd_calls (s' m cfg e u a) = wd_calls s" "wd_overflow (s' m cfg e u a) = wd_overflow s" "wd_active (s' m cfg e u a) = wd_active s"
    "wd_pollerOn (s' m cfg e u a) = wd_pollerOn s" "wd_stopped (s' m cfg e u a) = wd_stopped s"
    "wd_timers (s' m cfg e u a) =
      (if int (length (wd_timers s)) \<ge> wf_maxConcurrentRetries cfg then butlast (wd_timers s) else wd_timers s) @ [(e, u, a + 1)]"
proof -
  obtain e0 u0 a0 where l: "last (wd_timers s) = (e0, u0, a0)" by (cases "last (wd_timers s)") auto
  note v = pending_view [OF pending_emit(4) [of m cfg e0 u0 "s\<lparr>wd_timers := butlast (wd_timers s)\<rparr>"]]
  show "wd_calls (s' m cfg e u a) = wd_calls s" "wd_overflow (s' m cfg e u a) = wd_overflow s" "wd_active (s' m cfg e u a) = wd_active s"
    "wd_pollerOn (s' m cfg e u a) = wd_pollerOn s" "wd_stopped (s' m cfg e u a) = wd_stopped s"
    "wd_timers (s' m cfg e u a) =
      (if int (length (wd_timers s)) \<ge> wf_maxConcurrentRetries cfg then butlast (wd_timers s) else wd_timers s) @ [(e, u, a + 1)]"
    using v by (simp_all add: s'_def schedule_retry_def l Let_def)
qed

lemma deliver_rest_view:
  fixes s :: "'p delivery"
  shows "wd_calls (deliver_rest m cfg e u a res s) = wd_calls s" "wd_overflow (deliver_rest m cfg e u a res s) = wd_overflow s"
    "wd_active (deliver_rest m cfg e u a res s) = wd_active s" "wd_pollerOn (deliver_rest m cfg e u a res s) = wd_pollerOn s"
    "wd_stopped (deliver_rest m cfg e u a res s) = wd_stopped s"
proof -
  note p = pending_view [OF pending_persist [of m cfg e u "a + 1" _ s]] and f = pending_view [OF pending_emit(3) [of m e u _ a s]]
  show "wd_calls (deliver_rest m cfg e u a res s) = wd_calls s" "wd_overflow (deliver_rest m cfg e u a res s) = wd_overflow s"
    "wd_active (deliver_rest m cfg e u a res s) = wd_active s" "wd_pollerOn (deliver_rest m cfg e u a res s) = wd_pollerOn s"
    "wd_stopped (deliver_rest m cfg e u a res s) = wd_stopped s"
    using p f by (simp_all add: deliver_rest_def schedule_retry_view split: attempt_result.splits)
qed

lemma deliver_rest_timers:
  assumes "int (length (wd_timers s)) \<le> wf_maxConcurrentRetries cfg" "1 \<le> wf_maxConcurrentRetries cfg"
  shows "int (length (wd_timers (deliver_rest m cfg e u a res s))) \<le> wf_maxConcurrentRetries cfg"
    "attempts_ok cfg s \<Longrightarrow> attempts_ok cfg (deliver_rest m cfg e u a res s)"
proof -
  note p = pending_view [OF pending_persist [of m cfg e u "a + 1" _ s]] and f = pending_view [OF pending_emit(3) [of m e u _ a s]]
  show "int (length (wd_timers (deliver_rest m cfg e u a res s))) \<le> wf_maxConcurrentRetries cfg"
    using p f assms by (auto simp: deliver_rest_def schedule_retry_view split: attempt_result.splits)
  have "wd_timers (deliver_rest m cfg e u a res s) = wd_timers s \<or> int (a + 1) \<le> wf_retries cfg \<and>
      set (wd_timers (deliver_rest m cfg e u a res s)) \<subseteq> insert (e, u, a + 1) (set (wd_timers s))"
    using p f by (auto simp: deliver_rest_def schedule_retry_view dest: in_set_butlastD split: attempt_result.splits)
  then show "attempts_ok cfg (deliver_rest m cfg e u a res s)" if "attempts_ok cfg s"
    using that unfolding attempts_ok_def deliver_rest_view by fastforce
qed

lemma terminals_emit [simp]:
  "wd_terminals (notify_watcher n s) = wd_terminals s" "wd_terminals (recordTerminal oc e u s) = wd_terminals s @ [(oc, e, u)]"
  "wd_terminals (emitFailure m e u msg a s) = wd_terminals s @ [(OFailure, e, u)]"
  "wd_terminals (emitDropped m cfg e u s) = wd_terminals s @ [(ODropped, e, u)]"
  by (auto simp: notify_watcher_def recordTerminal_def emitFailure_def emitDropped_def recordTerminalFailure_def split: prod.splits)

lemma terminals_log: "wd_terminals (log_attempt m e u ids req st s) = wd_terminals s @ (if st = Some True then [(OSuccess, e, u)] else [])"
  by (auto simp: log_attempt_def Let_def split: option.splits)

lemma attempt_status: "doAttempt h cfg now i env e u a = (res, req, st) \<Longrightarrow> st = Some True \<longleftrightarrow> res = AttemptOk"
proof -
  assume "doAttempt h cfg now i env e u a = (res, req, st)"
  moreover have "case doAttempt h cfg now i env e u a of (res, req, st) \<Rightarrow> (st = Some True \<longleftrightarrow> res = AttemptOk)"
    unfolding doAttempt_def Let_def
    by (simp split: if_split option.split validator_outcome.split list.split fetch_outcome.split prod.split)
  ultimately show ?thesis by simp
qed

text \<open>A step removes the call it settles; what then happens to the rest depends on the kind of the call only.\<close>

lemma settle_cases:
  assumes "i < length (wd_calls s)"
  obtains c s1 res where "c = wd_calls s ! i"
    "pending s1 = pending (s\<lparr>wd_calls := take i (wd_calls s) @ drop (Suc i) (wd_calls s)\<rparr>)"
    "wd_terminals s1 = wd_terminals s @ (if res = AttemptOk then [(OSuccess, ca_event c, ca_url c)] else [])"
    "settle h cfg i env m s = after_call m cfg c res s1"
proof -
  let ?c = "wd_calls s ! i" and ?s = "s\<lparr>wd_calls := take i (wd_calls s) @ drop (Suc i) (wd_calls s)\<rparr>"
  obtain k ids where d: "delivery_id (mo_uuid m) (eo_ref (ca_event ?c)) (ca_url ?c) (wd_deliveryIds s) = (k, ids)" by (cases "delivery_id (mo_uuid m) (eo_ref (ca_event ?c)) (ca_url ?c) (wd_deliveryIds s)")
  obtain res req st where a: "doAttempt h cfg (mo_now m) k (if wd_watcherStopped s then env else env\<lparr>ae_stopAt := 4\<rparr>) (ca_event ?c) (ca_url ?c) (ca_attempt ?c) = (res, req, st)"
    by (metis prod_cases3)
  show thesis
    by (rule that [OF refl pending_log [of m "ca_event ?c" "ca_url ?c" ids req st ?s], of res])
      (use assms attempt_status [OF a] in \<open>simp_all add: settle_def Let_def d a terminals_log\<close>)
qed

lemma settle_inv:
  assumes inv: "wd_inv cfg s" and cap: "1 \<le> wf_maxConcurrentRetries cfg"
  shows "wd_inv cfg (settle h cfg i env m s)"
proof (cases "i < length (wd_calls s)")
  case False
  with inv show ?thesis by (simp add: settle_def)
next
  case True
  let ?cs = "take i (wd_calls s) @ drop (Suc i) (wd_calls s)"
  obtain c s1 res where c: "c = wd_calls s ! i" and s1: "pending s1 = pending (s\<lparr>wd_calls := ?cs\<rparr>)"
    and "wd_terminals s1 = wd_terminals s @ (if res = AttemptOk then [(OSuccess, ca_event c, ca_url c)] else [])" and eq: "settle h cfg i env m s = after_call m cfg c res s1"
    by (rule settle_cases [OF True])
  from pending_view [OF s1] have v: "wd_calls s1 = ?cs" "wd_timers s1 = wd_timers s" "wd_overflow s1 = wd_overflow s" "wd_active s1 = wd_active s" "wd_pollerOn s1 = wd_pollerOn s"
    by simp_all
  have n: "length (filter is_dispatch (wd_calls s)) = length (filter is_dispatch ?cs) + (if is_dispatch c then 1 else 0)"
    unfolding c by (rule filter_without [OF True])
  have at: "attempts_ok cfg s1" if "\<not> wf_retryQueue cfg"
    using inv that set_without [of _ i "wd_calls s"] by (fastforce simp: wd_inv_def attempts_ok_def v)
  let ?s2 = "deliver_rest m cfg (ca_event c) (ca_url c) (ca_attempt c) res s1"
  have tm: "int (length (wd_timers ?s2)) \<le> wf_maxConcurrentRetries cfg" "\<not> wf_retryQueue cfg \<Longrightarrow> attempts_ok cfg ?s2"
    using deliver_rest_timers [of s1 cfg, OF _ cap] inv at by (auto simp: wd_inv_def v)
  note w = deliver_rest_view [of m cfg "ca_event c" "ca_url c" "ca_attempt c" res s1]
  have plain: "wd_inv cfg ?s2" if "\<not> is_dispatch c" using inv n tm that by (auto simp: wd_inv_def w v)
  show ?thesis
  proof (cases "ca_kind c")
    case KDispatch
    then have d: "is_dispatch c" by (simp add: is_dispatch_def)
    then show ?thesis using inv n tm unfolding eq after_call_def drainOverflowQueue_def
      by (simp add: KDispatch Let_def) (rule drain_inv, auto simp: wd_inv_def w v attempts_ok_def)
  next
    case KRetry
    then show ?thesis using plain by (simp add: eq after_call_def is_dispatch_def Let_def)
  next
    case (KReplay j)
    then show ?thesis using plain by (simp add: eq after_call_def is_dispatch_def wd_inv_cong [OF pending_replayed] Let_def)
  next
    case (KDrain j t)
    then show ?thesis using plain by (simp add: eq after_call_def is_dispatch_def Let_def drain_turn_inv wd_inv_cong [OF pending_queue(1)])
  next
    case (KPoll j)
    moreover have "wd_inv cfg s1" if "\<not> is_dispatch c" using inv n that at by (auto simp: wd_inv_def v)
    ultimately show ?thesis by (simp add: eq after_call_def is_dispatch_def Let_def wd_inv_cong [OF pending_process])
  qed
qed

lemma fire_inv:
  assumes "wd_inv cfg s"
  shows "wd_inv cfg (fire_timer i s)"
proof (cases "i < length (wd_timers s)")
  case True
  obtain e u a where t: "wd_timers s ! i = (e, u, a)" by (cases "wd_timers s ! i") auto
  let ?s = "s\<lparr>wd_timers := take i (wd_timers s) @ drop (Suc i) (wd_timers s)\<rparr>"
  have "(e, u, a) \<in> set (wd_timers s)" using nth_mem [OF True] t by simp
  then have a: "wf_retryQueue cfg \<or> 1 \<le> a \<and> int a \<le> max 1 (wf_retries cfg)" using assms by (auto simp: wd_inv_def attempts_ok_def)
  have "attempts_ok cfg ?s" if "attempts_ok cfg s"
    using that set_without [of _ i "wd_timers s"] unfolding attempts_ok_def by simp
  then have "wd_inv cfg ?s" using assms True by (auto simp: wd_inv_def)
  from start_retry_inv [OF this _ a] True t show ?thesis by (simp add: fire_timer_def)
qed (use assms in \<open>simp add: fire_timer_def\<close>)

lemma wd_step_inv:
  assumes "wd_inv cfg s" "1 \<le> wf_maxConcurrentRetries cfg"
  shows "wd_inv cfg (wd_step h cfg x s)"
proof -
  have fire: "wd_inv cfg (fire_timer i s)" for i by (rule fire_inv [OF assms(1)])
  have events: "wd_inv cfg (fold (dispatchDelivery cfg e) us s)" for e us
    using assms(1) by (induction us arbitrary: s) (simp_all add: dispatch_inv)
  have stop: "wd_inv cfg (stop_delivery (s\<lparr>wd_watcherStopped := b\<rparr>))" for b
    by (rule stop_inv) (use assms in \<open>auto simp: wd_inv_def attempts_ok_def\<close>)
  have replay: "wd_inv cfg s'" if "replayFailure j s = Inr s'" for j s'
    using that start_retry_inv [OF assms(1)] by (auto simp: replayFailure_def split: option.splits)
  show ?thesis
  proof (cases x)
    case (InSettle i env m)
    with settle_inv [OF assms, of h i env m] show ?thesis by simp
  next
    case (InDrainTimer t)
    have "wd_inv cfg (s\<lparr>wd_drainTimers := n\<rparr>)" for n using assms(1) by (simp add: wd_inv_cong [OF pending_queue(4)])
    with InDrainTimer assms(1) show ?thesis by (simp add: drain_turn_inv)
  next
    case (InReplay j)
    with assms(1) replay show ?thesis by (simp split: sum.split)
  qed (use assms in \<open>simp_all add: handleWatcherEvent_def poll_inv drain_turn_inv stop_inv events fire stop\<close>)
qed

lemma new_inv: "1 \<le> wf_maxConcurrentRetries cfg \<Longrightarrow> 1 \<le> wf_maxConcurrentDeliveries cfg \<Longrightarrow> wd_inv cfg (newDelivery cfg q d)"
  by (simp add: wd_inv_def newDelivery_def attempts_ok_def)

lemma wd_run_inv:
  assumes "1 \<le> wf_maxConcurrentRetries cfg" "1 \<le> wf_maxConcurrentDeliveries cfg"
  shows "wd_inv cfg (fold (wd_step h cfg) xs (newDelivery cfg q d))"
  by (induction xs rule: rev_induct) (simp_all add: assms new_inv wd_step_inv)

lemma resolve_caps: "1 \<le> wf_maxConcurrentRetries (resolve_config c)" "1 \<le> wf_maxConcurrentDeliveries (resolve_config c)"
  by (simp_all add: resolve_config_def split: prod.split)

text \<open>
  C23: whatever happens, in any order, and for any configured limits, the counter of active deliveries is exact and within
  its cap, an event waits in the overflow queue only while all slots are taken, the pending retries stay within their cap, and without a durable
  queue no attempt beyond the configured number is ever pending.
\<close>

theorem webhook_within_caps:
  fixes c :: webhook_config
  defines "cfg \<equiv> resolve_config c"
  shows "let s = fold (wd_step h cfg) xs (newDelivery cfg q d)
    in wd_active s = length (filter is_dispatch (wd_calls s)) \<and> int (wd_active s) \<le> wf_maxConcurrentDeliveries cfg \<and>
       (wd_overflow s = [] \<or> int (wd_active s) = wf_maxConcurrentDeliveries cfg) \<and>
       int (length (wd_timers s)) \<le> wf_maxConcurrentRetries cfg \<and>
       (wo_retryQueue c \<or> (list_all (\<lambda>k. int (ca_attempt k) \<le> max 1 (wf_retries cfg)) (wd_calls s)))"
proof -
  have "wf_retryQueue cfg = wo_retryQueue c" by (simp add: cfg_def resolve_config_def split: prod.split)
  with wd_run_inv [OF resolve_caps [of c], of h xs q d] show ?thesis
    by (auto simp: wd_inv_def attempts_ok_def Let_def cfg_def list_all_iff)
qed

section \<open>No event is lost\<close>

text \<open>What has been accepted, and where each accepted event and URL is.\<close>

definition accepted :: "resolved_config \<Rightarrow> 'p wd_input list \<Rightarrow> ('p event_obj \<times> string) list" where
  "accepted cfg xs = concat (map (\<lambda>x. case x of InEvent e \<Rightarrow> map (Pair e) (wf_urls cfg) | _ \<Rightarrow> []) xs)"

definition whereabouts :: "'p delivery \<Rightarrow> ('p event_obj \<times> string) multiset" where
  "whereabouts s = mset (wd_overflow s) + mset (map (\<lambda>c. (ca_event c, ca_url c)) (wd_calls s)) +
     mset (map (\<lambda>(e, u, a). (e, u)) (wd_timers s)) + mset (map (\<lambda>(oc, e, u). (e, u)) (wd_terminals s))"

definition running :: "'p delivery \<Rightarrow> bool" where
  "running s \<longleftrightarrow> \<not> wd_stopped s \<and> \<not> wd_watcherStopped s \<and> (\<forall>c \<in> set (wd_calls s). ca_kind c = KDispatch \<or> ca_kind c = KRetry)"

text \<open>The inputs of a delivery in memory that is not stopped.\<close>

fun live_input :: "'p wd_input \<Rightarrow> bool" where
  "live_input (InEvent e) = True"
| "live_input (InSettle i env m) = True"
| "live_input (InTimer i) = True"
| "live_input _ = False"

lemma mset_map_snoc: "xs = ys @ [x] \<Longrightarrow> mset (map f xs) = add_mset (f x) (mset (map f ys))"
  by simp

lemma schedule_where:
  assumes "1 \<le> wf_maxConcurrentRetries cfg"
  shows "whereabouts (schedule_retry m cfg e u a s) = add_mset (e, u) (whereabouts s)"
proof (cases "int (length (wd_timers s)) \<ge> wf_maxConcurrentRetries cfg")
  case True
  with assms have ne: "wd_timers s \<noteq> []" by auto
  obtain e0 u0 a0 where l: "last (wd_timers s) = (e0, u0, a0)" by (cases "last (wd_timers s)") auto
  have "wd_timers s = butlast (wd_timers s) @ [(e0, u0, a0)]" using append_butlast_last_id [OF ne] l by simp
  then have "mset (map (\<lambda>(e, u, a). (e, u)) (wd_timers s)) = add_mset (e0, u0) (mset (map (\<lambda>(e, u, a). (e, u)) (butlast (wd_timers s))))"
    using mset_map_snoc [of "wd_timers s" "butlast (wd_timers s)" "(e0, u0, a0)" "\<lambda>(e, u, a). (e, u)"] by simp
  moreover have "wd_terminals (schedule_retry m cfg e u a s) = wd_terminals s @ [(ODropped, e0, u0)]"
    using True by (simp add: schedule_retry_def l Let_def)
  ultimately show ?thesis using True by (simp add: whereabouts_def schedule_retry_view)
next
  case False
  then show ?thesis by (simp add: whereabouts_def schedule_retry_view) (simp add: schedule_retry_def)
qed

lemma deliver_where:
  assumes "1 \<le> wf_maxConcurrentRetries cfg" "\<not> wf_retryQueue cfg" "\<not> wd_watcherStopped s" "res \<noteq> AttemptOk"
  shows "whereabouts (deliver_rest m cfg e u a res s) = add_mset (e, u) (whereabouts s)"
proof -
  note f = pending_view [OF pending_emit(3) [of m e u _ a s]]
  have fail: "whereabouts (emitFailure m e u msg a s) = add_mset (e, u) (whereabouts s)" for msg
    using f by (simp add: whereabouts_def)
  then show ?thesis
    using assms schedule_where [OF assms(1)] by (auto simp: deliver_rest_def split: attempt_result.splits)
qed

lemma drain_where: "wd_overflow s = ov \<Longrightarrow> whereabouts (drain_overflow cfg ov s) = whereabouts s"
  by (induction cfg ov s rule: drain_overflow.induct) (auto simp: whereabouts_def start_call_def Let_def)

lemma drain_running: "running s \<Longrightarrow> running (drain_overflow cfg ov s)"
  by (induction cfg ov s rule: drain_overflow.induct) (auto simp: running_def start_call_def Let_def)

lemma settle_where:
  assumes run: "running s" and mem: "\<not> wf_retryQueue cfg" and cap: "1 \<le> wf_maxConcurrentRetries cfg"
  shows "whereabouts (settle h cfg i env m s) = whereabouts s \<and> running (settle h cfg i env m s)"
proof (cases "i < length (wd_calls s)")
  case False
  with run show ?thesis by (simp add: settle_def)
next
  case True
  let ?cs = "take i (wd_calls s) @ drop (Suc i) (wd_calls s)"
  obtain c s1 res where c: "c = wd_calls s ! i" and s1: "pending s1 = pending (s\<lparr>wd_calls := ?cs\<rparr>)"
    and t1: "wd_terminals s1 = wd_terminals s @ (if res = AttemptOk then [(OSuccess, ca_event c, ca_url c)] else [])"
    and eq: "settle h cfg i env m s = after_call m cfg c res s1"
    by (rule settle_cases [OF True])
  from pending_view [OF s1] have v: "wd_calls s1 = ?cs" "wd_timers s1 = wd_timers s" "wd_overflow s1 = wd_overflow s"
    "wd_stopped s1 = wd_stopped s" "wd_watcherStopped s1 = wd_watcherStopped s" by simp_all
  have kind: "ca_kind c = KDispatch \<or> ca_kind c = KRetry" using run True c by (simp add: running_def)
  have lost: "whereabouts s = add_mset (ca_event c, ca_url c) (whereabouts (s\<lparr>wd_calls := ?cs\<rparr>))"
    using mset_without [OF True, folded c] by (simp add: whereabouts_def image_mset_union)
  let ?s2 = "deliver_rest m cfg (ca_event c) (ca_url c) (ca_attempt c) res s1"
  have live: "\<not> wd_watcherStopped s1" using run v by (simp add: running_def)
  have "whereabouts ?s2 = whereabouts s"
  proof (cases "res = AttemptOk")
    case ok: True
    then show ?thesis unfolding lost by (simp add: deliver_rest_def whereabouts_def v t1)
  next
    case bad: False
    have "whereabouts s1 = whereabouts (s\<lparr>wd_calls := ?cs\<rparr>)" using bad by (simp add: whereabouts_def v t1)
    with deliver_where [OF cap mem live bad] lost show ?thesis by simp
  qed
  moreover have "wd_watcherStopped ?s2 = wd_watcherStopped s1"
    using live pending_view [OF pending_emit(3) [of m "ca_event c" "ca_url c" _ "ca_attempt c" s1]] mem
    by (auto simp: deliver_rest_def schedule_retry_def Let_def wd_frame pending_view [OF pending_emit(4)] split: attempt_result.splits prod.splits)
  then have "running ?s2" using run set_without [of _ i "wd_calls s"] by (auto simp: running_def deliver_rest_view v)
  moreover have "whereabouts (?s2\<lparr>wd_active := n\<rparr>) = whereabouts ?s2" "running (?s2\<lparr>wd_active := n\<rparr>) = running ?s2" for n
    by (simp_all add: whereabouts_def running_def)
  ultimately show ?thesis
    using kind by (auto simp: eq after_call_def Let_def drainOverflowQueue_def drain_where drain_running)
qed

lemma live_step_where:
  assumes run: "running s" and mem: "\<not> wf_retryQueue cfg" and cap: "1 \<le> wf_maxConcurrentRetries cfg" and x: "live_input x"
  shows "whereabouts (wd_step h cfg x s) = mset (accepted cfg [x]) + whereabouts s \<and> running (wd_step h cfg x s)"
proof -
  have dispatch: "whereabouts (dispatchDelivery cfg e u s) = add_mset (e, u) (whereabouts s) \<and> running (dispatchDelivery cfg e u s)" if "running s" for e u s
    using that by (auto simp: dispatchDelivery_def whereabouts_def running_def start_call_def notify_watcher_def Let_def)
  have events: "whereabouts (fold (dispatchDelivery cfg e) us s) = mset (map (Pair e) us) + whereabouts s \<and> running (fold (dispatchDelivery cfg e) us s)" for e us
    using run by (induction us arbitrary: s) (simp_all add: dispatch)
  have fire: "whereabouts (fire_timer i s) = whereabouts s \<and> running (fire_timer i s)" for i
    using mset_without [of i "wd_timers s"] run
    by (auto simp: fire_timer_def whereabouts_def running_def start_call_def image_mset_union split: prod.splits)
  show ?thesis
    by (cases x) (use x run settle_where [OF run mem cap] events fire in \<open>auto simp: accepted_def handleWatcherEvent_def running_def\<close>)
qed

text \<open>
  C8: without a durable queue and until it is stopped, the delivery loses nothing: in any order of events, timers and
  answers, every accepted event and URL is exactly once either waiting for a slot, being attempted, waiting for its retry,
  or reported to the metrics as delivered, failed or dropped.
\<close>

theorem webhook_conservation:
  assumes mem: "wo_retryQueue c = False" and live: "list_all live_input xs"
  shows "whereabouts (fold (wd_step h (resolve_config c)) xs (newDelivery (resolve_config c) q d)) = mset (accepted (resolve_config c) xs)"
proof -
  let ?cfg = "resolve_config c" and ?s = "\<lambda>xs. fold (wd_step h (resolve_config c)) xs (newDelivery (resolve_config c) q d)"
  have m: "\<not> wf_retryQueue ?cfg" using mem by (simp add: resolve_config_def split: prod.split)
  have "whereabouts (?s xs) = mset (accepted ?cfg xs) \<and> running (?s xs)"
    using live
  proof (induction xs rule: rev_induct)
    case (snoc x xs)
    then have "running (?s xs)" "live_input x" by simp_all
    from live_step_where [OF this(1) m resolve_caps(1) this(2), of h] snoc show ?case by (simp add: accepted_def)
  qed (simp add: whereabouts_def accepted_def newDelivery_def running_def)
  then show ?thesis by simp
qed

theorem webhook_conservation_witness:
  "\<exists>d :: nat \<times> string event_obj dlq. whereabouts (fold (wd_step sample_host sample_config)
     [InEvent \<lparr>eo_ref = 0, eo_data = ''x''\<rparr>, InEvent \<lparr>eo_ref = 1, eo_data = ''y''\<rparr>,
      InSettle 0 (sample_env (FetchStatus 500)) \<lparr>mo_now = 5, mo_rand = ''r'', mo_uuid = ''i'', mo_random = 0\<rparr>, InTimer 0]
     (newDelivery sample_config (newWebhookQueue None) d)) =
   {#(\<lparr>eo_ref = 0, eo_data = ''x''\<rparr>, ''h''), (\<lparr>eo_ref = 1, eo_data = ''y''\<rparr>, ''h'')#}"
  using webhook_conservation [of "\<lparr>wo_url = OneUrl ''h'', wo_secret = ''k'', wo_retries = None, wo_deliveryTimeoutMs = None,
     wo_maxConcurrentRetries = Some 1, wo_maxConcurrentDeliveries = Some 1, wo_backoff = Some constant_backoff,
     wo_urlValidator = False, wo_retryQueue = False\<rparr>"
     "[InEvent \<lparr>eo_ref = 0, eo_data = ''x''\<rparr>, InEvent \<lparr>eo_ref = 1, eo_data = ''y''\<rparr>,
      InSettle 0 (sample_env (FetchStatus 500)) \<lparr>mo_now = 5, mo_rand = ''r'', mo_uuid = ''i'', mo_random = 0\<rparr>, InTimer 0]"]
  by (simp add: sample_config_def accepted_def) (simp add: resolve_config_def normalizeUrlConfig_def)

section \<open>One delivery id per event and URL\<close>

definition sent_log :: "'p delivery \<Rightarrow> (nat, (string, string) js_map) js_map \<times> request list" where
  "sent_log s = (wd_deliveryIds s, wd_requests s)"

named_theorems sent_frame

lemma sent_emit [sent_frame]:
  "sent_log (notify_watcher n s) = sent_log s" "sent_log (recordTerminal oc e u s) = sent_log s"
  "sent_log (emitFailure m e u msg a s) = sent_log s" "sent_log (emitDropped m cfg e u s) = sent_log s"
  by (auto simp: sent_log_def notify_watcher_def recordTerminal_def emitFailure_def emitDropped_def recordTerminalFailure_def split: prod.splits)

lemma sent_fields [sent_frame]: "sent_log (s\<lparr>wd_queue := q\<rparr>) = sent_log s" "sent_log (s\<lparr>wd_dlq := d\<rparr>) = sent_log s"
  "sent_log (s\<lparr>wd_retrySeq := n\<rparr>) = sent_log s" "sent_log (s\<lparr>wd_drainTimers := n\<rparr>) = sent_log s" "sent_log (s\<lparr>wd_timers := ts\<rparr>) = sent_log s"
  "sent_log (s\<lparr>wd_active := n\<rparr>) = sent_log s" "sent_log (s\<lparr>wd_calls := cs\<rparr>) = sent_log s" "sent_log (s\<lparr>wd_overflow := ov\<rparr>) = sent_log s"
  "sent_log (s\<lparr>wd_stopped := b\<rparr>) = sent_log s" "sent_log (s\<lparr>wd_watcherStopped := b\<rparr>) = sent_log s" "sent_log (s\<lparr>wd_pollerOn := b\<rparr>) = sent_log s"
  by (simp_all add: sent_log_def)

lemma sent_start [sent_frame]: "sent_log (start_call k e u a s) = sent_log s"
  by (simp add: start_call_def sent_frame)

lemma sent_persist [sent_frame]: "sent_log (persistRetry m cfg e u a msg s) = sent_log s"
  by (auto simp: persistRetry_def Let_def sent_frame split: option.splits prod.splits sum.splits)

lemma sent_deliver [sent_frame]: "sent_log (deliver_rest m cfg e u a res s) = sent_log s"
  by (auto simp: deliver_rest_def schedule_retry_def Let_def sent_frame split: attempt_result.splits prod.splits)

lemma sent_process [sent_frame]: "sent_log (process_rest m cfg i e u a res s) = sent_log s"
  by (auto simp: process_rest_def sent_frame split: attempt_result.splits sum.splits)

lemma sent_drain [sent_frame]: "sent_log (drain_overflow cfg ov s) = sent_log s" "sent_log (drain_turn cfg t s) = sent_log s"
  "sent_log (mark_replayed m j s) = sent_log s"
  by (induction cfg ov s rule: drain_overflow.induct)
    (auto simp: Let_def drain_turn_def mark_replayed_def sent_frame split: option.splits prod.splits)

lemma sent_dispatch [sent_frame]: "sent_log (dispatchDelivery cfg e u s) = sent_log s"
  by (simp add: dispatchDelivery_def Let_def sent_frame)

lemma sent_dispatches [sent_frame]: "sent_log (fold (dispatchDelivery cfg e) us s) = sent_log s"
  by (induction us arbitrary: s) (simp_all add: sent_frame)

lemma sent_other:
  assumes "\<nexists>i env m. x = InSettle i env m"
  shows "sent_log (wd_step h cfg x s) = sent_log s"
  using assms
  by (cases x) (auto simp: handleWatcherEvent_def stop_delivery_def clearRetryTimers_def fire_timer_def poll_tick_def replayFailure_def Let_def sent_frame
      split: option.splits prod.splits)

definition known_id :: "(nat, (string, string) js_map) js_map \<Rightarrow> nat \<Rightarrow> string \<Rightarrow> string option" where
  "known_id ids ref url = Option.bind (map_get ids ref) (\<lambda>m. map_get m url)"

lemma delivery_id_known:
  assumes "delivery_id uuid ref url ids = (i, ids')"
  shows "known_id ids' ref url = Some i" "known_id ids r u = Some j \<Longrightarrow> known_id ids' r u = Some j"
  using assms by (auto simp: delivery_id_def known_id_def or_default_def Let_def bind_eq_Some_conv split: option.splits if_splits)

definition ids_ok :: "(nat, (string, string) js_map) js_map \<times> request list \<Rightarrow> bool" where
  "ids_ok l \<longleftrightarrow> (\<forall>r \<in> set (snd l). known_id (fst l) (rq_ref r) (rq_url r) = Some (rq_deliveryId r))"

lemma settle_ids:
  assumes "ids_ok (sent_log s)"
  shows "ids_ok (sent_log (settle h cfg i env m s))"
proof (cases "i < length (wd_calls s)")
  case False
  with assms show ?thesis by (simp add: settle_def)
next
  case True
  let ?c = "wd_calls s ! i" and ?s = "s\<lparr>wd_calls := take i (wd_calls s) @ drop (Suc i) (wd_calls s)\<rparr>"
  obtain k ids where d: "delivery_id (mo_uuid m) (eo_ref (ca_event ?c)) (ca_url ?c) (wd_deliveryIds s) = (k, ids)"
    by (cases "delivery_id (mo_uuid m) (eo_ref (ca_event ?c)) (ca_url ?c) (wd_deliveryIds s)")
  obtain res req st where a: "doAttempt h cfg (mo_now m) k (if wd_watcherStopped s then env else env\<lparr>ae_stopAt := 4\<rparr>) (ca_event ?c) (ca_url ?c) (ca_attempt ?c) = (res, req, st)"
    by (metis prod_cases3)
  have req: "rq_ref r = eo_ref (ca_event ?c) \<and> rq_url r = ca_url ?c \<and> rq_deliveryId r = k" if "req = Some r" for r
    using attempt_sent [OF a [unfolded that]] by auto
  have "sent_log (log_attempt m (ca_event ?c) (ca_url ?c) ids req st ?s) = (case req of None \<Rightarrow> sent_log s | Some r \<Rightarrow> (ids, wd_requests s @ [r]))"
    by (auto simp: log_attempt_def Let_def sent_frame split: option.splits bool.splits) (simp_all add: sent_log_def)
  moreover have "sent_log (settle h cfg i env m s) = sent_log (log_attempt m (ca_event ?c) (ca_url ?c) ids req st ?s)"
    using True by (simp add: settle_def after_call_def Let_def d a drainOverflowQueue_def sent_frame split: call_kind.splits)
  ultimately show ?thesis
    using assms req delivery_id_known [OF d] by (auto simp: ids_ok_def sent_log_def split: option.splits)
qed

text \<open>
  C24: every retry of a delivery carries the same id. Over any run the id of a request is a function of its event object and URL, so two requests for the same
  event and URL have the same \<open>x-orbital-delivery-id\<close>, whichever path (first attempt, timer, drain, poller, replay) sent them.
\<close>

theorem delivery_id_stable:
  "\<exists>f. map rq_deliveryId (wd_requests (fold (wd_step h cfg) xs (newDelivery cfg q d))) =
     map (\<lambda>r. f (rq_ref r) (rq_url r)) (wd_requests (fold (wd_step h cfg) xs (newDelivery cfg q d)))"
proof -
  let ?s = "fold (wd_step h cfg) xs (newDelivery cfg q d)"
  have "ids_ok (sent_log ?s)"
  proof (induction xs rule: rev_induct)
    case (snoc x xs)
    then show ?case by (cases x) (use sent_other [of x h cfg] in \<open>auto simp: settle_ids\<close>)
  qed (simp add: ids_ok_def sent_log_def newDelivery_def)
  then have "map rq_deliveryId (wd_requests ?s) = map (\<lambda>r. the (known_id (wd_deliveryIds ?s) (rq_ref r) (rq_url r))) (wd_requests ?s)"
    by (simp add: ids_ok_def sent_log_def)
  then show ?thesis by (intro exI)
qed

section \<open>The poller never gives up\<close>

text \<open>A tick of the poller whose attempt has ended before the next tick.\<close>

definition poll_round :: "'p wd_host \<Rightarrow> resolved_config \<Rightarrow> rat \<times> attempt_env \<times> moment \<Rightarrow> 'p delivery \<Rightarrow> 'p delivery" where
  "poll_round h cfg x s = (case x of (now, env, m) \<Rightarrow> settle h cfg 0 env m (poll_tick now s))"

text \<open>What the poller leaves alone, and its reports.\<close>

definition poller_idle :: "'p delivery \<Rightarrow> bool" where
  "poller_idle s \<longleftrightarrow> wd_calls s = [] \<and> wd_pollerOn s \<and> \<not> wd_watcherStopped s \<and> wq_ok (wd_queue s)"

definition reports :: "'p delivery \<Rightarrow> (outcome \<times> 'p event_obj \<times> string) list \<times> 'p notice list" where
  "reports s = (wd_terminals s, wd_notices s)"

text \<open>The attempt for a record would fail without being terminal, e.g. with a server error, on a record below the attempt limit.\<close>

definition transient :: "'p wd_host \<Rightarrow> resolved_config \<Rightarrow> attempt_env \<times> moment \<Rightarrow> 'p event_obj webhook_retry \<Rightarrow> bool" where
  "transient h cfg x r \<longleftrightarrow> 0 \<le> rr_attempt r \<and> rr_attempt r < wf_retries cfg \<and>
     (\<forall>i. \<exists>msg. fst (doAttempt h cfg (mo_now (snd x)) i ((fst x)\<lparr>ae_stopAt := 4\<rparr>) (rr_event r) (rr_url r) (nat (rr_attempt r))) = AttemptFailed msg False)"

lemma same_job_event: "same_job a b \<Longrightarrow> rr_event b = rr_event a"
  by (simp add: same_job_def) (metis webhook_retry.select_convs(2) webhook_retry.surjective webhook_retry.update_convs(5))

lemma transient_job: "same_job r0 r \<Longrightarrow> transient h cfg x r \<longleftrightarrow> transient h cfg x r0"
  using same_job_attempt [of r0 r] same_job_event [of r0 r] by (simp add: transient_def)

lemma poll_round_fails:
  assumes idle: "poller_idle s" and fails: "\<And>k r. r \<in> wq_jobs (wd_queue s) k \<Longrightarrow> transient h cfg (env, m) r"
  shows "reports (poll_round h cfg (now, env, m) s) = reports s \<and> poller_idle (poll_round h cfg (now, env, m) s) \<and>
    (\<exists>x. wd_queue (poll_round h cfg (now, env, m) s) = nack_round dequeue_wq nack_wq x (wd_queue s))"
proof -
  have ok: "wq_ok (wd_queue s)" using idle by (simp add: poller_idle_def)
  obtain b q1 where d: "dequeue_wq now (wd_queue s) = (b, q1)" by (cases "dequeue_wq now (wd_queue s)")
  show ?thesis
  proof (cases b)
    case None
    then have "poll_round h cfg (now, env, m) s = s\<lparr>wd_queue := nack_round dequeue_wq nack_wq (now, 0, NotFinite) (wd_queue s)\<rparr>"
      using idle by (simp add: poll_round_def poll_tick_def d settle_def poller_idle_def)
    with idle ok show ?thesis
      using webhook_queue.nack_round_keeps(1) [OF ok, of "(now, 0, NotFinite)"] by (auto simp: reports_def poller_idle_def)
  next
    case (Some r)
    let ?a = "nat (rr_attempt r)" and ?d = "Finite (wf_backoff cfg (nat (rr_attempt r)) (mo_random m))"
    obtain r0 where "r0 \<in> wq_jobs (wd_queue s) (rr_id r)" "same_job r0 r"
      using webhook_queue.dequeue_old [OF ok] d Some by blast
    with fails have tr: "transient h cfg (env, m) r" using transient_job by blast
    obtain k ids where i: "delivery_id (mo_uuid m) (eo_ref (rr_event r)) (rr_url r) (wd_deliveryIds s) = (k, ids)"
      by (cases "delivery_id (mo_uuid m) (eo_ref (rr_event r)) (rr_url r) (wd_deliveryIds s)")
    obtain res req st where a: "doAttempt h cfg (mo_now m) k (env\<lparr>ae_stopAt := 4\<rparr>) (rr_event r) (rr_url r) ?a = (res, req, st)"
      by (metis prod_cases3)
    with tr obtain msg where res: "res = AttemptFailed msg False" unfolding transient_def by (metis fst_conv snd_conv)
    have st: "st \<noteq> Some True" using attempt_status [OF a] res by simp
    let ?s = "log_attempt m (rr_event r) (rr_url r) ids req st (s\<lparr>wd_queue := q1\<rparr>)"
    have log: "wd_queue ?s = q1 \<and> reports ?s = reports s \<and> wd_calls ?s = wd_calls s \<and> wd_pollerOn ?s = wd_pollerOn s \<and> \<not> wd_watcherStopped ?s"
      using st idle by (auto simp: log_attempt_def reports_def poller_idle_def Let_def split: option.splits bool.splits)
    have "in_flight q1 (rr_id r) = Some r" using webhook_queue.dequeue_taken [OF ok] d Some by blast
    moreover have ok1: "wq_ok q1" using webhook_queue.dequeue_ok [OF ok, of now] d by simp
    ultimately obtain q2 where q2: "nack_wq (of_int (mo_now m)) (rr_id r) ?d q1 = Inr q2" "wq_ok q2"
      using webhook_queue.nack_waits by blast
    have lt: "int ?a < wf_retries cfg" using tr by (simp add: transient_def)
    have same: "s\<lparr>wd_queue := q1, wd_calls := []\<rparr> = s\<lparr>wd_queue := q1\<rparr>" using idle by (cases s) (simp add: poller_idle_def)
    have "poll_round h cfg (now, env, m) s = process_rest m cfg (rr_id r) (rr_event r) (rr_url r) ?a (AttemptFailed msg False) ?s"
      using idle by (simp add: poll_round_def poll_tick_def d Some start_call_def settle_def after_call_def poller_idle_def i a res same Let_def)
    also have "\<dots> = ?s\<lparr>wd_queue := q2\<rparr>" using log lt q2 by (simp add: process_rest_def)
    finally have eq: "poll_round h cfg (now, env, m) s = ?s\<lparr>wd_queue := q2\<rparr>" .
    have "nack_round dequeue_wq nack_wq (now, of_int (mo_now m), ?d) (wd_queue s) = q2" by (simp add: d Some q2)
    then show ?thesis using log idle q2 unfolding eq by (auto simp: reports_def poller_idle_def)
  qed
qed

text \<open>
  C25: with a durable queue, a webhook that keeps failing is retried by the poller for ever. A poller that gives a record
  back keeps its attempt number, so after any number of failing ticks nothing has been reported, no record has left the
  queue, and every record still carries the attempt number it started with, below the configured limit.
\<close>

theorem poller_never_gives_up:
  assumes idle: "poller_idle s"
    and fails: "\<forall>(now, x) \<in> set rounds. \<forall>k. \<forall>r \<in> wq_jobs (wd_queue s) k. transient h cfg x r"
  shows "let s' = fold (poll_round h cfg) rounds s
    in reports s' = reports s \<and>
       (\<forall>k. wq_jobs (wd_queue s) k \<noteq> {} \<longrightarrow> wq_jobs (wd_queue s') k \<noteq> {}) \<and>
       (\<forall>k. \<forall>r \<in> wq_jobs (wd_queue s') k. \<exists>r0 \<in> wq_jobs (wd_queue s) k. rr_attempt r = rr_attempt r0 \<and> rr_url r = rr_url r0)"
proof -
  have "poller_idle (fold (poll_round h cfg) rounds s) \<and> reports (fold (poll_round h cfg) rounds s) = reports s \<and>
      (\<forall>k. wq_jobs (wd_queue s) k \<noteq> {} \<longrightarrow> wq_jobs (wd_queue (fold (poll_round h cfg) rounds s)) k \<noteq> {}) \<and>
      (\<forall>k. \<forall>r \<in> wq_jobs (wd_queue (fold (poll_round h cfg) rounds s)) k. \<exists>r0 \<in> wq_jobs (wd_queue s) k. same_job r0 r)"
    using fails
  proof (induction rounds rule: rev_induct)
    case Nil
    show ?case using idle by (simp, blast intro: same_job_refl)
  next
    case (snoc x rounds)
    let ?s = "fold (poll_round h cfg) rounds s"
    obtain now env m where x: "x = (now, env, m)" by (cases x) auto
    from snoc have IH: "poller_idle ?s" "reports ?s = reports s" "\<And>k. wq_jobs (wd_queue s) k \<noteq> {} \<Longrightarrow> wq_jobs (wd_queue ?s) k \<noteq> {}"
      "\<And>k r. r \<in> wq_jobs (wd_queue ?s) k \<Longrightarrow> \<exists>r0 \<in> wq_jobs (wd_queue s) k. same_job r0 r" by auto
    have ok: "wq_ok (wd_queue ?s)" using IH(1) by (simp add: poller_idle_def)
    have "transient h cfg (env, m) r" if "r \<in> wq_jobs (wd_queue ?s) k" for k r
      using IH(4) [OF that] snoc.prems transient_job by (fastforce simp: x)
    with poll_round_fails [OF IH(1), of h cfg env m now] obtain y where new: "reports (poll_round h cfg x ?s) = reports ?s" "poller_idle (poll_round h cfg x ?s)"
      and q: "wd_queue (poll_round h cfg x ?s) = nack_round dequeue_wq nack_wq y (wd_queue ?s)" unfolding x by auto
    have "\<exists>r0 \<in> wq_jobs (wd_queue s) k. same_job r0 r" if r: "r \<in> wq_jobs (nack_round dequeue_wq nack_wq y (wd_queue ?s)) k" for k r
    proof -
      from webhook_queue.nack_round_keeps(3) [OF ok r] obtain r1 where "r1 \<in> wq_jobs (wd_queue ?s) k" "same_job r1 r" by blast
      with IH(4) same_job_trans show ?thesis by blast
    qed
    with new IH webhook_queue.nack_round_keeps(2) [OF ok, of _ y] show ?case by (simp add: q)
  qed
  then show ?thesis using same_job_attempt by (simp add: Let_def) blast
qed

definition durable_config :: resolved_config where
  "durable_config = sample_config\<lparr>wf_retryQueue := True\<rparr>"

definition sample_record :: "string event_obj webhook_retry" where
  "sample_record = \<lparr>rr_id = ''r'', rr_event = \<lparr>eo_ref = 0, eo_data = ''x''\<rparr>, rr_url = ''h'', rr_attempt = 2, rr_nextRetryAt = Finite 5,
     rr_lastError = None, rr_createdAt = None\<rparr>"

definition sample_moment :: moment where
  "sample_moment = \<lparr>mo_now = 7, mo_rand = ''r'', mo_uuid = ''i'', mo_random = 0\<rparr>"

lemma sample_config_values [simp]: "wf_urls sample_config = [''h'']" "wf_retries sample_config = 3" "wf_urlValidator sample_config = False"
  "wf_maxConcurrentRetries sample_config = 1" "wf_maxConcurrentDeliveries sample_config = 1" "wf_retryQueue sample_config = False"
  by (simp_all add: sample_config_def resolve_config_def normalizeUrlConfig_def or_default_def)

lemma sample_failure:
  "fst (doAttempt sample_host cfg now i ((sample_env (FetchStatus 500))\<lparr>ae_stopAt := 4\<rparr>) event ''h'' attempt) = AttemptFailed (''HTTP '' @ show_nat 500) False"
  by (simp add: doAttempt_def sample_env_def sample_host_def validateUrl_def validateResolvedHostname_def sample_hosts sample_public getErrorMessage_def Let_def
    del: show_nat.simps)

theorem poller_never_gives_up_witness:
  "\<exists>s :: string delivery. wq_jobs (wd_queue s) ''r'' \<noteq> {} \<and> (\<forall>n. let s' = fold (poll_round sample_host durable_config)
       (replicate n (5, sample_env (FetchStatus 500), sample_moment)) s
     in reports s' = reports s \<and> wq_jobs (wd_queue s') ''r'' \<noteq> {})"
proof -
  let ?q = "put_queued sample_record (newWebhookQueue None)"
  let ?s = "newDelivery durable_config ?q (0, newDlq None) :: string delivery"
  have "wq_ok ?q" by (rule put_queued_ok [OF newWebhookQueue_ok, of _ 5]) (simp_all add: sample_record_def)
  then have idle: "poller_idle ?s" by (simp add: poller_idle_def newDelivery_def durable_config_def)
  have jobs: "wq_jobs (wd_queue ?s) k = (if k = ''r'' then {sample_record} else {})" for k
    by (auto simp: wq_jobs_def waiting_def in_flight_def newDelivery_def put_queued_def newWebhookQueue_def sample_record_def)
  have t: "transient sample_host durable_config (sample_env (FetchStatus 500), sample_moment) sample_record"
    using sample_failure by (simp add: transient_def durable_config_def sample_record_def del: show_nat.simps)
  have "\<forall>(now, x) \<in> set (replicate n (5, sample_env (FetchStatus 500), sample_moment)). \<forall>k. \<forall>r \<in> wq_jobs (wd_queue ?s) k. transient sample_host durable_config x r" for n
    using t by (auto simp: jobs)
  from poller_never_gives_up [OF idle this] jobs [of "''r''"] show ?thesis by (intro exI [of _ ?s]) (auto simp: Let_def)
qed

section \<open>What stopping leaves running\<close>

text \<open>
  stopping the delivery does not stop it. After \<open>stop\<close> the overflow queue is still drained: when the
  attempt that held the only slot ends, the next waiting event is attempted, although \<open>stop\<close> promises no further attempts.
\<close>

theorem stop_keeps_draining:
  assumes "wd_calls s = [\<lparr>ca_event = e, ca_url = u, ca_attempt = a, ca_kind = KDispatch\<rparr>]" "wd_active s = 1"
    and "wd_overflow s = (e', u') # rest" "\<not> wd_watcherStopped s" "1 \<le> wf_maxConcurrentDeliveries cfg" "\<not> wf_retryQueue cfg"
  shows "let s' = wd_step h cfg (InSettle 0 env m) (wd_step h cfg InStop s)
    in wd_stopped s' \<and> \<lparr>ca_event = e', ca_url = u', ca_attempt = 1, ca_kind = KDispatch\<rparr> \<in> set (wd_calls s')"
proof -
  let ?s = "stop_delivery s"
  have v: "wd_calls ?s = wd_calls s" "wd_active ?s = 1" "wd_overflow ?s = wd_overflow s" "\<not> wd_watcherStopped ?s" "wd_stopped ?s"
    using assms by (auto simp: stop_delivery_def clearRetryTimers_def)
  have len: "0 < length (wd_calls ?s)" using assms(1) v by simp
  obtain c s1 res where c: "c = wd_calls ?s ! 0" and s1: "pending s1 = pending (?s\<lparr>wd_calls := take 0 (wd_calls ?s) @ drop (Suc 0) (wd_calls ?s)\<rparr>)"
    and "wd_terminals s1 = wd_terminals ?s @ (if res = AttemptOk then [(OSuccess, ca_event c, ca_url c)] else [])" and eq: "settle h cfg 0 env m ?s = after_call m cfg c res s1"
    by (rule settle_cases [OF len])
  let ?s2 = "deliver_rest m cfg (ca_event c) (ca_url c) (ca_attempt c) res s1"
  from pending_view [OF s1] v assms(3) have w: "wd_stopped ?s2" "wd_overflow ?s2 = (e', u') # rest" "wd_active ?s2 = 1"
    by (simp_all add: deliver_rest_view)
  have keep: "wd_stopped (drain_overflow cfg ov t) = wd_stopped t \<and> set (wd_calls t) \<subseteq> set (wd_calls (drain_overflow cfg ov t))" for ov and t
    by (induction cfg ov t rule: drain_overflow.induct) (auto simp: start_call_def Let_def)
  have "settle h cfg 0 env m ?s = drainOverflowQueue cfg (?s2\<lparr>wd_active := 0\<rparr>)" using assms(1) v w by (simp add: eq after_call_def c Let_def)
  then show ?thesis
    using w assms(5) keep [of rest "start_call KDispatch e' u' 1 (?s2\<lparr>wd_overflow := rest, wd_active := 1\<rparr>)"]
    by (auto simp: drainOverflowQueue_def start_call_def Let_def)
qed

theorem stop_keeps_draining_witness:
  "\<exists>s :: string delivery. wd_stopped s \<and> wd_calls s \<noteq> []"
proof -
  let ?e = "\<lparr>eo_ref = 0, eo_data = ''x''\<rparr>"
  let ?s = "fold (wd_step sample_host sample_config) [InEvent ?e, InEvent ?e] (newDelivery sample_config (newWebhookQueue None) (0, newDlq None)) :: string delivery"
  have s: "wd_calls ?s = [\<lparr>ca_event = ?e, ca_url = ''h'', ca_attempt = 1, ca_kind = KDispatch\<rparr>]" "wd_active ?s = 1" "wd_overflow ?s = [(?e, ''h'')]"
    "\<not> wd_watcherStopped ?s"
    by (simp_all add: handleWatcherEvent_def dispatchDelivery_def start_call_def newDelivery_def notify_watcher_def Let_def)
  from stop_keeps_draining [OF s, of sample_config sample_host "sample_env FetchAborted" sample_moment] show ?thesis
    by (auto simp: Let_def)
qed

lemma attempt_before_request: "ae_stopAt env \<le> 2 \<Longrightarrow> \<exists>msg b. doAttempt h cfg now i env e u a = (AttemptFailed msg b, None, None)"
proof -
  assume le: "ae_stopAt env \<le> 2"
  have "case doAttempt h cfg now i env e u a of (res, req, st) \<Rightarrow> res \<noteq> AttemptOk \<and> req = None \<and> st = None"
    unfolding doAttempt_def Let_def
    using le by (simp split: if_split option.split validator_outcome.split list.split prod.split)
  then show ?thesis by (cases "fst (doAttempt h cfg now i env e u a)") (auto split: prod.splits)
qed

text \<open>
  a retry in the durable queue does not survive a stop in the middle of a drain. When the watcher stops while the
  drain loop's attempt is still resolving the host name, nothing is sent and nothing is reported, and the loop then
  acknowledges the record: a retry persisted to outlive a restart is gone.
\<close>

theorem drain_loses_on_stop:
  assumes "wd_calls s = [\<lparr>ca_event = e, ca_url = u, ca_attempt = a, ca_kind = KDrain recordId t\<rparr>]" "ae_stopAt env \<le> 2"
    and "map_get (wq_queued (wd_queue s)) recordId = None"
  shows "let s' = wd_step h cfg (InSettle 0 env m) (wd_step h cfg InWatcherStop s)
    in wq_jobs (wd_queue s') recordId = {} \<and> wd_requests s' = wd_requests s \<and> reports s' = reports s \<and> wd_calls s' = []"
proof -
  let ?s = "wd_step h cfg InWatcherStop s"
  have v: "wd_calls ?s = wd_calls s" "wd_watcherStopped ?s" "wd_queue ?s = wd_queue s" "wd_requests ?s = wd_requests s" "reports ?s = reports s"
    by (simp_all add: stop_delivery_def clearRetryTimers_def reports_def)
  obtain k ids where i: "delivery_id (mo_uuid m) (eo_ref e) u (wd_deliveryIds ?s) = (k, ids)"
    by (cases "delivery_id (mo_uuid m) (eo_ref e) u (wd_deliveryIds ?s)")
  obtain msg b where r: "doAttempt h cfg (mo_now m) k env e u a = (AttemptFailed msg b, None, None)"
    using attempt_before_request [OF assms(2)] by blast
  have "wd_step h cfg (InSettle 0 env m) ?s = ?s\<lparr>wd_calls := [], wd_queue := ack_wq recordId (wd_queue ?s)\<rparr>"
    using assms(1) v i r
    by (simp add: settle_def after_call_def deliver_rest_def drain_turn_def log_attempt_def Let_def del: wd_step.simps(3))
  then show ?thesis
    using v assms(3) by (simp add: Let_def wq_jobs_empty ack_wq_def reports_def del: wd_step.simps)
qed

theorem drain_loses_on_stop_witness:
  "\<exists>(s :: string delivery) (s' :: string delivery). wq_jobs (wd_queue s) ''r'' \<noteq> {} \<and> wq_jobs (wd_queue s') ''r'' = {} \<and> wd_requests s' = []"
proof -
  let ?q = "put_queued sample_record (newWebhookQueue None)"
  let ?n = "newDelivery durable_config ?q (0, newDlq None) :: string delivery"
  let ?s = "wd_step sample_host durable_config (InDrain 9) ?n"
  have d: "fst (dequeue_wq 9 ?q) = Some sample_record" "map_get (wq_queued (snd (dequeue_wq 9 ?q))) ''r'' = None"
    by (simp_all add: put_queued_def newWebhookQueue_def dequeue_wq_def reclaimExpired_wq_def pick_def sample_record_def due_at_def)
  then obtain q' where q': "dequeue_wq 9 ?q = (Some sample_record, q')" by (cases "dequeue_wq 9 ?q") auto
  have s: "?s = start_call (KDrain ''r'' 9) (rr_event sample_record) ''h'' 2 (?n\<lparr>wd_queue := q'\<rparr>)"
    by (simp add: drain_turn_def newDelivery_def durable_config_def q') (simp add: sample_record_def)
  have c: "wd_calls ?s = [\<lparr>ca_event = rr_event sample_record, ca_url = ''h'', ca_attempt = 2, ca_kind = KDrain ''r'' 9\<rparr>]"
    "map_get (wq_queued (wd_queue ?s)) ''r'' = None" "wd_requests ?s = []"
    using d q' unfolding s by (simp_all add: start_call_def newDelivery_def)
  have "wq_jobs (wd_queue ?n) ''r'' \<noteq> {}" by (simp add: wq_jobs_empty newDelivery_def put_queued_def sample_record_def)
  moreover have stop: "ae_stopAt ((sample_env FetchAborted)\<lparr>ae_stopAt := 2\<rparr>) \<le> 2" by simp
  note drain_loses_on_stop [OF c(1) stop c(2), unfolded Let_def c(3), of sample_host durable_config sample_moment]
  then have "\<exists>s' :: string delivery. wq_jobs (wd_queue s') ''r'' = {} \<and> wd_requests s' = []" by blast
  ultimately show ?thesis by blast
qed

end
