(* ===== verification/Export_Reader.thy ===== *)
theory Export_Reader
  imports Stellar_Values Js_Json
begin

text \<open>
  Ledger exports of \<^verbatim>\<open>packages/worker-core/src/exports\<close>: the record types and the reader of \<^verbatim>\<open>types.ts\<close>, the two
  parsers of \<^verbatim>\<open>parsers.ts\<close> and the sources of \<^verbatim>\<open>sources.ts\<close>. The parsers cast without checking: a field that the
  type declares a string is whatever the record holds, so records are polymorphic in their texts \<open>'s\<close> and numbers \<open>'n\<close>, and a
  parsed record has the type at \<^typ>\<open>js_value\<close>. An asynchronous sequence is the list of what it yields. \<open>JSON.parse\<close>
  and the directory listing are arguments.
\<close>

section \<open>types.ts\<close>

record ledger_range =
  lr_startLedger :: int
  lr_endLedger :: int

datatype 's export_operation =
    OpPayment 's 's 's 's
  | OpMint 's 's 's
  | OpBurn 's 's 's
  | OpClawback 's 's 's
  | OpFee 's 's
  | OpSetAuthorized 's 's bool

record 's export_transaction =
  et_transactionId :: 's
  et_operations :: "'s export_operation list"

record ('s, 'n) export_ledger =
  el_ledgerSequence :: 'n
  el_closeTime :: 's
  el_network :: 's
  el_transactions :: "'s export_transaction list"

definition out_of_range :: "ledger_range \<Rightarrow> int \<Rightarrow> bool" where
  "out_of_range rng sq \<longleftrightarrow> sq < lr_startLedger rng \<or> sq \<ge> lr_endLedger rng"

text \<open>\<open>ExportReader.read\<close> over what its source yields, with the set of sequences seen so far.\<close>

fun reader_loop :: "ledger_range \<Rightarrow> int list \<Rightarrow> ('s, int) export_ledger list \<Rightarrow> ('s, int) export_ledger list" where
  "reader_loop rng seen [] = []"
| "reader_loop rng seen (ledger # rest) =
     (let sq = el_ledgerSequence ledger
      in if out_of_range rng sq then reader_loop rng seen rest
         else if sq \<in> set seen then reader_loop rng seen rest
         else ledger # reader_loop rng (seen @ [sq]) rest)"

definition reader_read :: "(ledger_range \<Rightarrow> ('s, int) export_ledger list) \<Rightarrow> ledger_range \<Rightarrow> ('s, int) export_ledger list" where
  "reader_read source rng = reader_loop rng [] (source rng)"

section \<open>sources.ts\<close>

definition newMemoryExportSource :: "('s, int) export_ledger list \<Rightarrow> ('s, int) export_ledger list" where
  "newMemoryExportSource ledgers = sort_key el_ledgerSequence ledgers"

definition memory_source_read :: "('s, int) export_ledger list \<Rightarrow> ledger_range \<Rightarrow> ('s, int) export_ledger list" where
  "memory_source_read ledgers rng = filter (\<lambda>l. \<not> out_of_range rng (el_ledgerSequence l)) ledgers"

section \<open>parsers.ts\<close>

text \<open>Reading a property of \<open>null\<close> or \<open>undefined\<close>, or iterating a value that is no array, throws.\<close>

datatype parse_error = ReadOfNullish | NotAnArray

definition get_prop :: "string \<Rightarrow> js_value \<Rightarrow> (parse_error, js_value) result" where
  "get_prop k v = (if nullish v then Inl ReadOfNullish else Inr (js_field k v))"

definition as_array :: "js_value \<Rightarrow> (parse_error, js_value list) result" where
  "as_array v = (case v of JArr vs \<Rightarrow> Inr vs | _ \<Rightarrow> Inl NotAnArray)"

fun map_result :: "('a \<Rightarrow> ('e, 'b) result) \<Rightarrow> 'a list \<Rightarrow> ('e, 'b list) result" where
  "map_result f [] = Inr []"
| "map_result f (x # xs) =
     (case f x of Inl e \<Rightarrow> Inl e | Inr y \<Rightarrow> (case map_result f xs of Inl e \<Rightarrow> Inl e | Inr ys \<Rightarrow> Inr (y # ys)))"

definition assetString :: "js_value \<Rightarrow> (parse_error, js_value) result" where
  "assetString asset =
     (case get_prop ''asset_type'' asset of
        Inl e \<Rightarrow> Inl e
      | Inr t \<Rightarrow>
          if t = JStr ''native'' \<or> t = JUndefined then Inr (JStr ''XLM'')
          else Inr (JStr (js_String (coalesce (js_field ''asset_code'' asset) (JStr ''UNKNOWN'')) @ '':'' @
                 js_String (coalesce (js_field ''asset_issuer'' asset) (JStr ''UNKNOWN'')))))"

text \<open>The field names and the default asset of a dialect; everything else is the same in both parsers.\<close>

record dialect =
  di_type :: string
  di_source :: string
  di_dest :: string
  di_asset :: "js_value \<Rightarrow> js_value"

definition galexie_dialect :: dialect where
  "galexie_dialect = \<lparr>di_type = ''type'', di_source = ''source_account'', di_dest = ''destination'', di_asset = js_field ''asset''\<rparr>"

definition cdp_dialect :: dialect where
  "cdp_dialect = \<lparr>di_type = ''op_type'', di_source = ''source'', di_dest = ''dest'',
     di_asset = (\<lambda>op. coalesce (js_field ''asset'' op) (JObj [(''asset_type'', JStr ''native'')]))\<rparr>"

definition amount_of :: "js_value \<Rightarrow> js_value" where
  "amount_of op = (case js_field ''amount'' op of JStr s \<Rightarrow> JStr s | _ \<Rightarrow> JStr ''0'')"

definition export_op :: "dialect \<Rightarrow> js_value \<Rightarrow> (parse_error, js_value export_operation option) result" where
  "export_op d op =
     (if nullish op then Inl ReadOfNullish
      else let t = js_field (di_type d) op; source = js_field (di_source d) op; dest = js_field (di_dest d) op;
               with_asset = (\<lambda>k. case assetString (di_asset d op) of Inl e \<Rightarrow> Inl e | Inr a \<Rightarrow> Inr (Some (k a)))
           in if t = JStr ''payment'' then with_asset (OpPayment source dest (amount_of op))
              else if t = JStr ''mint'' \<or> t = JStr ''create_asset'' then with_asset (OpMint dest (amount_of op))
              else if t = JStr ''burn'' then with_asset (OpBurn source (amount_of op))
              else if t = JStr ''clawback'' then with_asset (OpClawback source (amount_of op))
              else if t = JStr ''fee'' then Inr (Some (OpFee source (amount_of op)))
              else if t = JStr ''set_authorized'' \<or> t = JStr ''allow_trust'' \<or> t = JStr ''set_trust_line_flags''
              then with_asset (\<lambda>a. OpSetAuthorized (js_field ''trustor'' op) a (js_Boolean (js_field ''authorized'' op)))
              else Inr None)"

definition galexieOperation :: "js_value \<Rightarrow> (parse_error, js_value export_operation option) result" where
  "galexieOperation = export_op galexie_dialect"

definition cdpOperation :: "js_value \<Rightarrow> (parse_error, js_value export_operation option) result" where
  "cdpOperation = export_op cdp_dialect"

definition parse_ledger ::
  "(js_value \<Rightarrow> (parse_error, js_value export_operation option) result) \<Rightarrow> string \<Rightarrow> string \<Rightarrow> string \<Rightarrow> string \<Rightarrow> string \<Rightarrow> js_value \<Rightarrow>
   (parse_error, (js_value, js_value) export_ledger) result"
where
  "parse_ledger operation txs_key ops_key id_key seq_key time_key json =
     (if nullish json then Inl ReadOfNullish
      else bind_result (as_array (coalesce (js_field txs_key json) (JArr []))) (\<lambda>txs.
        bind_result (map_result (\<lambda>tx.
            if nullish tx then Inl ReadOfNullish
            else bind_result (as_array (coalesce (js_field ops_key tx) (JArr []))) (\<lambda>ops.
              bind_result (map_result operation ops) (\<lambda>mapped.
                Inr \<lparr>et_transactionId = js_field id_key tx, et_operations = List.map_filter (\<lambda>x. x) mapped\<rparr>))) txs) (\<lambda>transactions.
          Inr \<lparr>el_ledgerSequence = js_field seq_key json, el_closeTime = js_field time_key json,
               el_network = coalesce (js_field ''network'' json) (JStr ''mainnet''), el_transactions = transactions\<rparr>)))"

definition parseGalexieLedger :: "js_value \<Rightarrow> (parse_error, (js_value, js_value) export_ledger) result" where
  "parseGalexieLedger = parse_ledger galexieOperation ''transactions'' ''operations'' ''transaction_id'' ''ledger_sequence'' ''close_time''"

definition parseCdpLedger :: "js_value \<Rightarrow> (parse_error, (js_value, js_value) export_ledger) result" where
  "parseCdpLedger = parse_ledger cdpOperation ''txs'' ''ops'' ''hash'' ''ledger'' ''closed_at''"

section \<open>One ledger, one sequence\<close>

lemma reader_loop_set:
  "set (reader_loop rng seen ls) \<subseteq> {l \<in> set ls. \<not> out_of_range rng (el_ledgerSequence l) \<and> el_ledgerSequence l \<notin> set seen}"
  by (induction rng seen ls rule: reader_loop.induct) (auto simp: Let_def)

lemma reader_loop_distinct: "distinct (map el_ledgerSequence (reader_loop rng seen ls))"
  by (induction rng seen ls rule: reader_loop.induct) (use reader_loop_set in \<open>fastforce simp: Let_def\<close>)+

lemma reader_loop_all:
  "el_ledgerSequence ` set (reader_loop rng seen ls) =
    {n \<in> el_ledgerSequence ` set ls. \<not> out_of_range rng n} - set seen"
  by (induction rng seen ls rule: reader_loop.induct) (auto simp: Let_def)

lemma reader_loop_sorted: "sorted (map el_ledgerSequence ls) \<Longrightarrow> sorted (map el_ledgerSequence (reader_loop rng seen ls))"
  by (induction rng seen ls rule: reader_loop.induct) (use reader_loop_set in \<open>fastforce simp: Let_def\<close>)+

lemma reader_read_strict:
  assumes "sorted (map el_ledgerSequence (source rng))"
  shows "sorted_wrt (<) (map el_ledgerSequence (reader_read source rng))"
  using reader_loop_sorted [OF assms, of rng "[]"] reader_loop_distinct [of rng "[]" "source rng"]
  by (simp add: reader_read_def strict_sorted_iff)

lemma reader_loop_id: "distinct (map el_ledgerSequence ls) \<Longrightarrow> el_ledgerSequence ` set ls \<inter> set seen = {} \<Longrightarrow>
    reader_loop rng seen ls = filter (\<lambda>l. \<not> out_of_range rng (el_ledgerSequence l)) ls"
  by (induction rng seen ls rule: reader_loop.induct) (auto simp: Let_def)

end
