(* ===== verification/Verdict_Core.thy ===== *)
theory Verdict_Core
  imports Export_Reader "HOL-Library.Char_ord" "HOL-Library.List_Lexorder"
begin

text \<open>
  Verdicts over ledger windows, \<^verbatim>\<open>packages/worker-core/src/verification\<close>: the canonical events of \<^verbatim>\<open>canonical.ts\<close>, the scoring
  function of \<^verbatim>\<open>verdict.ts\<close>, the backfill of \<^verbatim>\<open>backfill.ts\<close>, the live path of \<^verbatim>\<open>liveVerifier.ts\<close> and the in-memory stores of
  \<^verbatim>\<open>stores.ts\<close>. SHA-256 (\<open>sha\<close>) and the collation of \<open>localeCompare\<close> (\<open>before a b\<close>: \<open>a\<close> does not sort after \<open>b\<close>) are
  arguments. \<open>None\<close> as a result is the \<open>SyntaxError\<close> of \<open>BigInt\<close> on a malformed amount. An object keyed by asset names keeps
  insertion order, which holds for names that are not array indices.
\<close>

section \<open>canonical.ts\<close>

datatype verification_kind =
    KPaymentSent | KPaymentReceived | KPaymentSelf | KMint | KBurn | KClawback | KFee | KSetAuthorized

record verification_event =
  ev_ledger :: int
  ev_closeTime :: string
  ev_kind :: verification_kind
  ev_subject :: string
  ev_counterparty :: "string option"
  ev_asset :: string
  ev_amount :: string
  ev_authorized :: "bool option"
  ev_txHash :: "string option"

definition nth_part :: "string list \<Rightarrow> nat \<Rightarrow> string option" where
  "nth_part parts i = (if i < length parts then Some (parts ! i) else None)"

definition canonicalAmount :: "string \<Rightarrow> string" where
  "canonicalAmount amount =
     (let s = trim amount; negative = is_prefix ''-'' s; abs_s = (if negative then drop 1 s else s);
          parts = split_on CHR ''.'' abs_s;
          whole = (if hd parts = [] then ''0'' else hd parts);
          frac0 = or_default (nth_part parts 1) [];
          frac = take 7 (frac0 @ replicate (7 - length frac0) CHR ''0'');
          num = whole @ ''.'' @ frac
      in if negative then ''-'' @ num else num)"

definition canonicalAsset :: "string \<Rightarrow> string" where
  "canonicalAsset asset = (let a = trim asset in if a = ''native'' \<or> a = ''XLM'' then ''XLM'' else a)"

definition canonicalAddress :: "string \<Rightarrow> string" where
  "canonicalAddress addr = toUpperCase (trim addr)"

datatype subject_type = SubjectAccount | SubjectContract

definition inferSubjectType :: "string \<Rightarrow> subject_type" where
  "inferSubjectType subject = (if is_prefix ''C'' (canonicalAddress subject) then SubjectContract else SubjectAccount)"

fun op_asset :: "string export_operation \<Rightarrow> string option" where
  "op_asset (OpPayment _ _ _ a) = Some a"
| "op_asset (OpMint _ _ a) = Some a"
| "op_asset (OpBurn _ _ a) = Some a"
| "op_asset (OpClawback _ _ a) = Some a"
| "op_asset (OpFee _ _) = None"
| "op_asset (OpSetAuthorized _ a _) = Some a"

fun op_amount :: "string export_operation \<Rightarrow> string option" where
  "op_amount (OpPayment _ _ m _) = Some m"
| "op_amount (OpMint _ m _) = Some m"
| "op_amount (OpBurn _ m _) = Some m"
| "op_amount (OpClawback _ m _) = Some m"
| "op_amount (OpFee _ m) = Some m"
| "op_amount (OpSetAuthorized _ _ _) = None"

definition mapOperationToVerificationEvents :: "string export_operation \<Rightarrow> int \<Rightarrow> string \<Rightarrow> string option \<Rightarrow> verification_event list" where
  "mapOperationToVerificationEvents op ledger closeTime txHash =
     (let asset = (case op_asset op of Some a \<Rightarrow> canonicalAsset a | None \<Rightarrow> canonicalAsset ''XLM'');
          amount = (case op_amount op of Some m \<Rightarrow> canonicalAmount m | None \<Rightarrow> ''0'');
          make = (\<lambda>subject kind counterparty authorized.
            \<lparr>ev_ledger = ledger, ev_closeTime = closeTime, ev_kind = kind, ev_subject = canonicalAddress subject,
             ev_counterparty = map_option canonicalAddress counterparty, ev_asset = asset, ev_amount = amount,
             ev_authorized = authorized, ev_txHash = txHash\<rparr>)
      in case op of
           OpPayment src dst _ _ \<Rightarrow>
             if canonicalAddress src = canonicalAddress dst then [make src KPaymentSelf None None]
             else [make src KPaymentSent (Some dst) None, make dst KPaymentReceived (Some src) None]
         | OpMint dst _ _ \<Rightarrow> [make dst KMint None None]
         | OpBurn src _ _ \<Rightarrow> [make src KBurn None None]
         | OpClawback src _ _ \<Rightarrow> [make src KClawback None None]
         | OpFee src _ \<Rightarrow> [make src KFee None None]
         | OpSetAuthorized trustor _ authorized \<Rightarrow> [make trustor KSetAuthorized None (Some authorized)])"

definition fromTransactions :: "string export_transaction list \<Rightarrow> int \<Rightarrow> string \<Rightarrow> verification_event list" where
  "fromTransactions transactions ledger closeTime =
     concat (map (\<lambda>tx. concat (map (\<lambda>op. mapOperationToVerificationEvents op ledger closeTime (Some (et_transactionId tx)))
       (et_operations tx))) transactions)"

definition fromExportLedger :: "(string, int) export_ledger \<Rightarrow> verification_event list" where
  "fromExportLedger ledger = fromTransactions (el_transactions ledger) (el_ledgerSequence ledger) (el_closeTime ledger)"

record live_ledger =
  ll_ledger :: int
  ll_closeTime :: string
  ll_transactions :: "string export_transaction list"

definition fromLiveLedger :: "live_ledger \<Rightarrow> verification_event list" where
  "fromLiveLedger live = fromTransactions (ll_transactions live) (ll_ledger live) (ll_closeTime live)"

section \<open>verdict.ts\<close>

definition VERDICT_SCHEMA_VERSION :: int where "VERDICT_SCHEMA_VERSION = 1"

record scored_window =
  vw_startLedger :: int
  vw_endLedger :: int
  vw_startCloseTime :: "string option"
  vw_endCloseTime :: "string option"

record verdict_metrics =
  vm_eventCount :: nat
  vm_firstLedger :: "int option"
  vm_lastLedger :: "int option"
  vm_counts :: "verification_kind \<Rightarrow> nat"
  vm_volumeByAsset :: "(string, string) js_map"
  vm_distinctCounterparties :: nat
  vm_setAuthorizedTrue :: nat
  vm_setAuthorizedFalse :: nat

datatype verdict_source = SourceLive | SourceBackfill

record ledger_verdict =
  lv_schemaVersion :: int
  lv_subject :: string
  lv_subjectType :: subject_type
  lv_window :: scored_window
  lv_metrics :: verdict_metrics
  lv_fingerprint :: string
  lv_source :: verdict_source
  lv_computedAt :: string

definition EMPTY_COUNTS :: "verification_kind \<Rightarrow> nat" where
  "EMPTY_COUNTS = (\<lambda>_. 0)"

definition signedStroops :: "verification_event \<Rightarrow> int option" where
  "signedStroops ev =
     (let negative = is_prefix ''-'' (ev_amount ev); abs_s = (if negative then drop 1 (ev_amount ev) else ev_amount ev);
          parts = split_on CHR ''.'' abs_s; frac = or_default (nth_part parts 1) []
      in case (parse_bigint (if hd parts = [] then ''0'' else hd parts), parse_bigint (if frac = [] then ''0'' else frac)) of
           (Some w, Some f) \<Rightarrow>
             let stroops = w * 10000000 + f; sign = (if negative then -1 else 1)
             in Some (if ev_kind ev \<in> {KPaymentSent, KBurn, KClawback, KFee} then - sign * stroops
                      else if ev_kind ev \<in> {KPaymentReceived, KMint} then sign * stroops else 0)
         | _ \<Rightarrow> None)"

definition formatStroops :: "int \<Rightarrow> string" where
  "formatStroops stroops =
     (let negative = stroops < 0; a = nat \<bar>stroops\<bar>;
          num = show_nat (a div 10000000) @ ''.'' @ padStart 7 CHR ''0'' (show_nat (a mod 10000000))
      in if negative then ''-'' @ num else num)"

text \<open>The variables of the loop of \<open>computeVerdict\<close>.\<close>

record tally =
  ta_counts :: "verification_kind \<Rightarrow> nat"
  ta_volume :: "(string, int) js_map"
  ta_counterparties :: "string list"
  ta_authTrue :: nat
  ta_authFalse :: nat
  ta_firstLedger :: "int option"
  ta_lastLedger :: "int option"
  ta_startCloseTime :: "string option"
  ta_endCloseTime :: "string option"

definition new_tally :: tally where
  "new_tally = \<lparr>ta_counts = EMPTY_COUNTS, ta_volume = [], ta_counterparties = [], ta_authTrue = 0, ta_authFalse = 0,
     ta_firstLedger = None, ta_lastLedger = None, ta_startCloseTime = None, ta_endCloseTime = None\<rparr>"

definition least :: "'a::linorder \<Rightarrow> 'a option \<Rightarrow> 'a option" where
  "least x m = (case m of None \<Rightarrow> Some x | Some y \<Rightarrow> if x < y then Some x else Some y)"

definition greatest :: "'a::linorder \<Rightarrow> 'a option \<Rightarrow> 'a option" where
  "greatest x m = (case m of None \<Rightarrow> Some x | Some y \<Rightarrow> if y < x then Some x else Some y)"

definition add_volume :: "string \<Rightarrow> int \<Rightarrow> (string, int) js_map \<Rightarrow> (string, int) js_map" where
  "add_volume asset s volume = (if s \<noteq> 0 then map_set asset (or_default (map_get volume asset) 0 + s) volume else volume)"

definition add_counterparty :: "string option \<Rightarrow> string list \<Rightarrow> string list" where
  "add_counterparty c cs =
     (case c of Some a \<Rightarrow> if a \<noteq> [] \<and> canonicalAddress a \<notin> set cs then cs @ [canonicalAddress a] else cs | None \<Rightarrow> cs)"

definition tally_event :: "verification_event \<Rightarrow> tally \<Rightarrow> tally option" where
  "tally_event ev t =
     (case signedStroops ev of
        None \<Rightarrow> None
      | Some s \<Rightarrow>
          Some (t\<lparr>ta_counts := (ta_counts t)(ev_kind ev := ta_counts t (ev_kind ev) + 1),
            ta_volume := add_volume (canonicalAsset (ev_asset ev)) s (ta_volume t),
            ta_counterparties := add_counterparty (ev_counterparty ev) (ta_counterparties t),
            ta_authTrue := ta_authTrue t + (if ev_kind ev = KSetAuthorized \<and> ev_authorized ev = Some True then 1 else 0),
            ta_authFalse := ta_authFalse t + (if ev_kind ev = KSetAuthorized \<and> ev_authorized ev \<noteq> Some True then 1 else 0),
            ta_firstLedger := least (ev_ledger ev) (ta_firstLedger t),
            ta_lastLedger := greatest (ev_ledger ev) (ta_lastLedger t),
            ta_startCloseTime := least (ev_closeTime ev) (ta_startCloseTime t),
            ta_endCloseTime := greatest (ev_closeTime ev) (ta_endCloseTime t)\<rparr>))"

fun tally_events :: "verification_event list \<Rightarrow> tally \<Rightarrow> tally option" where
  "tally_events [] t = Some t"
| "tally_events (ev # evs) t = (case tally_event ev t of None \<Rightarrow> None | Some t \<Rightarrow> tally_events evs t)"

text \<open>\<open>Array.prototype.sort\<close> with a comparison: stable insertion.\<close>

fun insert_before :: "('a \<Rightarrow> 'a \<Rightarrow> bool) \<Rightarrow> 'a \<Rightarrow> 'a list \<Rightarrow> 'a list" where
  "insert_before le x [] = [x]"
| "insert_before le x (y # ys) = (if le x y then x # y # ys else y # insert_before le x ys)"

definition sort_with :: "('a \<Rightarrow> 'a \<Rightarrow> bool) \<Rightarrow> 'a list \<Rightarrow> 'a list" where
  "sort_with le xs = foldr (insert_before le) xs []"

definition all_kinds :: "(string \<times> verification_kind) list" where
  "all_kinds = [(''payment_sent'', KPaymentSent), (''payment_received'', KPaymentReceived), (''payment_self'', KPaymentSelf),
     (''mint'', KMint), (''burn'', KBurn), (''clawback'', KClawback), (''fee'', KFee), (''set_authorized'', KSetAuthorized)]"

definition subject_name :: "subject_type \<Rightarrow> string" where
  "subject_name t = (case t of SubjectAccount \<Rightarrow> ''account'' | SubjectContract \<Rightarrow> ''contract'')"

definition json_opt :: "int option \<Rightarrow> js_value" where
  "json_opt v = (case v of None \<Rightarrow> JNull | Some n \<Rightarrow> JNum n)"

definition verdictCore :: "string \<Rightarrow> int \<Rightarrow> int \<Rightarrow> verdict_metrics \<Rightarrow> string" where
  "verdictCore subject startLedger endLedger metrics =
     json_stringify (JObj
       [(''v'', JNum VERDICT_SCHEMA_VERSION), (''subject'', JStr (canonicalAddress subject)),
        (''subjectType'', JStr (subject_name (inferSubjectType subject))),
        (''window'', JObj [(''startLedger'', JNum startLedger), (''endLedger'', JNum endLedger)]),
        (''metrics'', JObj
          [(''eventCount'', JNum (int (vm_eventCount metrics))), (''firstLedger'', json_opt (vm_firstLedger metrics)),
           (''lastLedger'', json_opt (vm_lastLedger metrics)),
           (''counts'', JObj (map (\<lambda>(n, k). (n, JNum (int (vm_counts metrics k)))) all_kinds)),
           (''volumeByAsset'', JObj (map (\<lambda>(a, v). (a, JStr v)) (vm_volumeByAsset metrics))),
           (''distinctCounterparties'', JNum (int (vm_distinctCounterparties metrics))),
           (''setAuthorizedTrue'', JNum (int (vm_setAuthorizedTrue metrics))),
           (''setAuthorizedFalse'', JNum (int (vm_setAuthorizedFalse metrics)))])])"

definition verdictCoreBytes :: "ledger_verdict \<Rightarrow> string" where
  "verdictCoreBytes v = verdictCore (lv_subject v) (vw_startLedger (lv_window v)) (vw_endLedger (lv_window v)) (lv_metrics v)"

definition computeVerdict ::
  "(string \<Rightarrow> string) \<Rightarrow> (string \<Rightarrow> string \<Rightarrow> bool) \<Rightarrow> string \<Rightarrow> int \<Rightarrow> int \<Rightarrow> verification_event list \<Rightarrow> verdict_source \<Rightarrow> string \<Rightarrow> ledger_verdict option"
where
  "computeVerdict sha before subject startLedger endLedger events source computedAt =
     (case tally_events events new_tally of
        None \<Rightarrow> None
      | Some t \<Rightarrow>
          let volumeByAsset = fold (\<lambda>(a, s) m. map_set a (formatStroops s) m) (sort_with (\<lambda>x y. before (fst x) (fst y)) (ta_volume t)) [];
              metrics = \<lparr>vm_eventCount = length events, vm_firstLedger = ta_firstLedger t, vm_lastLedger = ta_lastLedger t,
                vm_counts = ta_counts t, vm_volumeByAsset = volumeByAsset, vm_distinctCounterparties = length (ta_counterparties t),
                vm_setAuthorizedTrue = ta_authTrue t, vm_setAuthorizedFalse = ta_authFalse t\<rparr>;
              canonicalSubject = canonicalAddress subject
          in Some \<lparr>lv_schemaVersion = VERDICT_SCHEMA_VERSION, lv_subject = canonicalSubject, lv_subjectType = inferSubjectType subject,
               lv_window = \<lparr>vw_startLedger = startLedger, vw_endLedger = endLedger, vw_startCloseTime = ta_startCloseTime t,
                 vw_endCloseTime = ta_endCloseTime t\<rparr>,
               lv_metrics = metrics, lv_fingerprint = sha (verdictCore canonicalSubject startLedger endLedger metrics),
               lv_source = source, lv_computedAt = computedAt\<rparr>)"

section \<open>Sorting by a collation\<close>

text \<open>What \<open>localeCompare\<close> gives on the texts at hand: a total order in which different texts differ.\<close>

definition collates :: "(string \<Rightarrow> string \<Rightarrow> bool) \<Rightarrow> string set \<Rightarrow> bool" where
  "collates le A \<longleftrightarrow> (\<forall>a \<in> A. \<forall>b \<in> A. (le a b \<or> le b a) \<and> (le a b \<and> le b a \<longrightarrow> a = b) \<and> (\<forall>c \<in> A. le a b \<and> le b c \<longrightarrow> le a c))"

lemma mset_insert_before [simp]: "mset (insert_before le x ys) = add_mset x (mset ys)"
  by (induction ys) auto

lemma mset_sort_with [simp]: "mset (sort_with le xs) = mset xs"
  by (induction xs) (simp_all add: sort_with_def)

lemma set_sort_with [simp]: "set (sort_with le xs) = set xs"
  by (metis mset_sort_with set_mset_mset)

lemma set_insert_before [simp]: "set (insert_before le x ys) = insert x (set ys)"
  by (metis mset_insert_before set_mset_add_mset_insert set_mset_mset)

lemma insert_before_sorted:
  assumes "sorted_wrt le ys" "\<And>a b c. a \<in> insert x (set ys) \<Longrightarrow> b \<in> insert x (set ys) \<Longrightarrow> c \<in> insert x (set ys) \<Longrightarrow> le a b \<Longrightarrow> le b c \<Longrightarrow> le a c"
    "\<And>b. b \<in> set ys \<Longrightarrow> le x b \<or> le b x"
  shows "sorted_wrt le (insert_before le x ys)"
  using assms
proof (induction ys)
  case (Cons y ys)
  have "sorted_wrt le (insert_before le x ys)" by (rule Cons.IH) (use Cons.prems in auto)
  with Cons.prems show ?case by (auto simp: split: if_splits) blast+
qed simp

lemma sorted_unique:
  assumes "sorted_wrt le xs" "sorted_wrt le ys" "mset xs = mset ys" "\<And>a b. a \<in> set xs \<Longrightarrow> b \<in> set xs \<Longrightarrow> le a b \<Longrightarrow> le b a \<Longrightarrow> a = b"
  shows "xs = ys"
  using assms
proof (induction xs arbitrary: ys)
  case (Cons x xs)
  then obtain y ys' where ys: "ys = y # ys'" by (cases ys) auto
  have "x = y"
  proof (rule ccontr)
    assume ne: "x \<noteq> y"
    have "set (x # xs) = set (y # ys')" using mset_eq_setD [OF Cons.prems(3)] ys by simp
    with ne have "x \<in> set ys'" "y \<in> set xs" by auto
    then have "le x y" "le y x" "y \<in> set (x # xs)" using Cons.prems(1,2) unfolding ys by simp_all
    with Cons.prems(4) [of x y] ne show False by simp
  qed
  with Cons ys show ?case by auto
qed simp

section \<open>The score does not depend on the order of events\<close>

text \<open>The tally without the order in which assets and counterparties were first seen.\<close>

type_synonym tally_view = "(verification_kind \<Rightarrow> nat) \<times> (string \<Rightarrow> int option) \<times> string set \<times> nat \<times> nat \<times>
  int option \<times> int option \<times> string option \<times> string option"

definition tally_view :: "tally \<Rightarrow> tally_view" where
  "tally_view t = (ta_counts t, map_get (ta_volume t), set (ta_counterparties t), ta_authTrue t, ta_authFalse t,
     ta_firstLedger t, ta_lastLedger t, ta_startCloseTime t, ta_endCloseTime t)"

definition stroops_of :: "verification_event \<Rightarrow> int" where
  "stroops_of ev = (case signedStroops ev of Some s \<Rightarrow> s | None \<Rightarrow> 0)"

definition party_of :: "verification_event \<Rightarrow> string set" where
  "party_of ev = (case ev_counterparty ev of Some a \<Rightarrow> if a \<noteq> [] then {canonicalAddress a} else {} | None \<Rightarrow> {})"

fun view_step :: "verification_event \<Rightarrow> tally_view \<Rightarrow> tally_view" where
  "view_step ev (c, v, p, t, f, l1, l2, c1, c2) =
     (c(ev_kind ev := c (ev_kind ev) + 1),
      (let a = canonicalAsset (ev_asset ev) in if stroops_of ev \<noteq> 0 then v(a \<mapsto> or_default (v a) 0 + stroops_of ev) else v),
      p \<union> party_of ev,
      t + (if ev_kind ev = KSetAuthorized \<and> ev_authorized ev = Some True then 1 else 0),
      f + (if ev_kind ev = KSetAuthorized \<and> ev_authorized ev \<noteq> Some True then 1 else 0),
      least (ev_ledger ev) l1, greatest (ev_ledger ev) l2, least (ev_closeTime ev) c1, greatest (ev_closeTime ev) c2)"

lemma least_commute: "least x (least y m) = least y (least x m)"
  by (auto simp: least_def split: option.splits)

lemma greatest_commute: "greatest x (greatest y m) = greatest y (greatest x m)"
  by (auto simp: greatest_def split: option.splits)

lemma view_step_commute: "view_step x \<circ> view_step y = view_step y \<circ> view_step x"
proof
  fix v :: tally_view
  obtain c w p t f l1 l2 c1 c2 where v: "v = (c, w, p, t, f, l1, l2, c1, c2)" by (cases v) auto
  have "(let a = canonicalAsset (ev_asset x); w' = (let a = canonicalAsset (ev_asset y) in if stroops_of y \<noteq> 0 then w(a \<mapsto> or_default (w a) 0 + stroops_of y) else w)
      in if stroops_of x \<noteq> 0 then w'(a \<mapsto> or_default (w' a) 0 + stroops_of x) else w') =
    (let a = canonicalAsset (ev_asset y); w' = (let a = canonicalAsset (ev_asset x) in if stroops_of x \<noteq> 0 then w(a \<mapsto> or_default (w a) 0 + stroops_of x) else w)
      in if stroops_of y \<noteq> 0 then w'(a \<mapsto> or_default (w' a) 0 + stroops_of y) else w')"
    by (auto simp: Let_def fun_eq_iff)
  then show "(view_step x \<circ> view_step y) v = (view_step y \<circ> view_step x) v"
    by (simp add: v least_commute [of _ "ev_ledger y"] greatest_commute [of _ "ev_ledger y"] least_commute [of _ "ev_closeTime y"]
        greatest_commute [of _ "ev_closeTime y"] Un_ac Let_def fun_upd_twist del: view_step.simps) (auto simp: fun_eq_iff Let_def least_commute greatest_commute)
qed

lemma map_wf_add_volume: "map_wf m \<Longrightarrow> map_wf (add_volume a s m)"
  by (simp add: add_volume_def)

lemma keys_add_volume: "fst ` set (add_volume a s m) \<subseteq> insert a (fst ` set m)"
  unfolding add_volume_def by (cases "s = 0") (auto simp only: keys_set if_True if_False simp_thms subset_insertI order_refl)

lemma set_add_counterparty: "set (add_counterparty (ev_counterparty ev) cs) = set cs \<union> party_of ev"
  by (auto simp: add_counterparty_def party_of_def split: option.splits if_splits)

lemma tally_event_view:
  assumes "tally_event ev t = Some t'"
  shows "tally_view t' = view_step ev (tally_view t)" "map_wf (ta_volume t) \<Longrightarrow> map_wf (ta_volume t')"
    "distinct (ta_counterparties t) \<Longrightarrow> distinct (ta_counterparties t')"
    "fst ` set (ta_volume t') \<subseteq> insert (canonicalAsset (ev_asset ev)) (fst ` set (ta_volume t))"
proof -
  obtain s where s: "signedStroops ev = Some s" using assms by (auto simp: tally_event_def split: option.splits)
  have v: "map_get (ta_volume t') = (let a = canonicalAsset (ev_asset ev) in
      if s \<noteq> 0 then (map_get (ta_volume t))(a \<mapsto> or_default (map_get (ta_volume t) a) 0 + s) else map_get (ta_volume t))"
    using assms s by (auto simp: tally_event_def add_volume_def fun_eq_iff Let_def)
  have p: "set (ta_counterparties t') = set (ta_counterparties t) \<union> party_of ev"
    using assms s by (auto simp: tally_event_def set_add_counterparty)
  show "tally_view t' = view_step ev (tally_view t)"
  proof -
    have "stroops_of ev = s" using s by (simp add: stroops_of_def)
    with assms s v p show ?thesis by (auto simp: tally_view_def tally_event_def)
  qed
  show "map_wf (ta_volume t) \<Longrightarrow> map_wf (ta_volume t')" "distinct (ta_counterparties t) \<Longrightarrow> distinct (ta_counterparties t')"
    using assms s by (auto simp: tally_event_def map_wf_add_volume add_counterparty_def split: option.splits)
  show "fst ` set (ta_volume t') \<subseteq> insert (canonicalAsset (ev_asset ev)) (fst ` set (ta_volume t))"
  proof -
    have "ta_volume t' = add_volume (canonicalAsset (ev_asset ev)) s (ta_volume t)" using assms s by (auto simp: tally_event_def)
    then show ?thesis using keys_add_volume by simp
  qed
qed

lemma tally_events_view:
  assumes "tally_events evs t = Some t'" "map_wf (ta_volume t)" "distinct (ta_counterparties t)"
  shows "tally_view t' = fold view_step evs (tally_view t) \<and> map_wf (ta_volume t') \<and> distinct (ta_counterparties t') \<and>
    fst ` set (ta_volume t') \<subseteq> (\<lambda>ev. canonicalAsset (ev_asset ev)) ` set evs \<union> fst ` set (ta_volume t)"
  using assms
proof (induction evs arbitrary: t)
  case (Cons ev evs)
  then obtain t1 where t1: "tally_event ev t = Some t1" "tally_events evs t1 = Some t'" by (auto split: option.splits)
  note v = tally_event_view [OF t1(1)]
  from Cons.IH [OF t1(2) v(2) [OF Cons.prems(2)] v(3) [OF Cons.prems(3)]] v(1,4) show ?case by simp blast
qed simp

lemma tally_events_defined: "tally_events evs t \<noteq> None \<longleftrightarrow> (\<forall>ev \<in> set evs. signedStroops ev \<noteq> None)"
  by (induction evs arbitrary: t) (auto simp: tally_event_def split: option.splits)

lemma tally_perm:
  assumes "mset xs = mset ys" "tally_events xs new_tally = Some t"
  shows "\<exists>t'. tally_events ys new_tally = Some t' \<and> tally_view t' = tally_view t \<and> map_wf (ta_volume t) \<and> map_wf (ta_volume t') \<and>
    distinct (ta_counterparties t) \<and> distinct (ta_counterparties t') \<and>
    fst ` set (ta_volume t) \<subseteq> (\<lambda>ev. canonicalAsset (ev_asset ev)) ` set xs"
proof -
  have new: "map_wf (ta_volume new_tally)" "distinct (ta_counterparties new_tally)" "ta_volume new_tally = []" by (simp_all add: new_tally_def)
  have "set xs = set ys" using assms(1) by (rule mset_eq_setD)
  then obtain t' where t': "tally_events ys new_tally = Some t'" using assms(2) tally_events_defined [of xs new_tally] tally_events_defined [of ys new_tally] by auto
  have "fold view_step xs (tally_view new_tally) = fold view_step ys (tally_view new_tally)"
    by (rule fold_multiset_equiv [THEN fun_cong]) (use view_step_commute assms(1) in auto)
  with tally_events_view [OF assms(2) new(1,2)] tally_events_view [OF t' new(1,2)] t' new(3) show ?thesis by auto
qed

lemma volume_unique:
  fixes m m' :: "(string, int) js_map"
  assumes c: "collates before A" and m: "map_get m = map_get m'" "map_wf m" "map_wf m'" "fst ` set m \<subseteq> A"
  shows "sort_with (\<lambda>x y. before (fst x) (fst y)) m = sort_with (\<lambda>x y. before (fst x) (fst y)) m'"
proof -
  let ?le = "\<lambda>x y :: string \<times> int. before (fst x) (fst y)"
  have sets: "set m = set m'" using map_get_in_set [OF m(2)] map_get_in_set [OF m(3)] m(1) by auto
  have d: "distinct m" "distinct m'" using m(2,3) by (simp_all add: map_wf_def distinct_map)
  then have ms: "mset m = mset m'" using sets by (simp add: set_eq_iff_mset_eq_distinct)
  have sorted: "sorted_wrt ?le (sort_with ?le xs)" if "fst ` set xs \<subseteq> A" for xs
    using that
  proof (induction xs)
    case (Cons x xs)
    have IH: "sorted_wrt ?le (sort_with ?le xs)" "set (sort_with ?le xs) = set xs" using Cons by auto
    have "sorted_wrt ?le (insert_before ?le x (sort_with ?le xs))"
    proof (rule insert_before_sorted [OF IH(1)])
      show "?le u w" if "u \<in> insert x (set (sort_with ?le xs))" "v \<in> insert x (set (sort_with ?le xs))" "w \<in> insert x (set (sort_with ?le xs))"
        "?le u v" "?le v w" for u v w
      proof -
        have "fst u \<in> A" "fst v \<in> A" "fst w \<in> A" using that(1,2,3) Cons.prems IH(2) by auto
        with that(4,5) c show ?thesis unfolding collates_def by blast
      qed
      show "?le x b \<or> ?le b x" if "b \<in> set (sort_with ?le xs)" for b
      proof -
        have "fst x \<in> A" "fst b \<in> A" using that Cons.prems IH(2) by auto
        with c show ?thesis unfolding collates_def by blast
      qed
    qed
    then show ?case by (simp add: sort_with_def)
  qed (simp add: sort_with_def)
  have s1: "sorted_wrt ?le (sort_with ?le m)" by (rule sorted [OF m(4)])
  have s2: "sorted_wrt ?le (sort_with ?le m')" by (rule sorted) (use m(4) sets in simp)
  show ?thesis
  proof (rule sorted_unique [OF s1 s2])
    show "a = b" if "a \<in> set (sort_with ?le m)" "b \<in> set (sort_with ?le m)" "?le a b" "?le b a" for a b
    proof -
      have "fst a = fst b" using that c m(4) unfolding collates_def set_sort_with by blast
      with that m(2) show ?thesis unfolding map_wf_def set_sort_with by (metis eq_key_imp_eq_value prod.collapse)
    qed
  qed (use ms in simp)
qed

text \<open>
  C17: a verdict does not depend on the order in which its events arrive. Any two arrivals of the same events give the same
  verdict, fingerprint included, as long as \<open>localeCompare\<close> orders their assets totally.
\<close>

theorem verdict_order_independent:
  assumes "mset xs = mset ys" "collates before ((\<lambda>ev. canonicalAsset (ev_asset ev)) ` set xs)"
  shows "computeVerdict sha before subject a b xs src at = computeVerdict sha before subject a b ys src at"
proof (cases "tally_events xs new_tally")
  case None
  have "set xs = set ys" using assms(1) by (rule mset_eq_setD)
  then have "tally_events ys new_tally = None" using None tally_events_defined [of xs new_tally] tally_events_defined [of ys new_tally] by auto
  with None show ?thesis by (simp add: computeVerdict_def)
next
  case (Some t)
  from tally_perm [OF assms(1) Some] obtain t' where t': "tally_events ys new_tally = Some t'" "tally_view t' = tally_view t"
    and wf: "map_wf (ta_volume t)" "map_wf (ta_volume t')" "distinct (ta_counterparties t)" "distinct (ta_counterparties t')"
    and sub: "fst ` set (ta_volume t) \<subseteq> (\<lambda>ev. canonicalAsset (ev_asset ev)) ` set xs" by blast
  have "sort_with (\<lambda>x y. before (fst x) (fst y)) (ta_volume t) = sort_with (\<lambda>x y. before (fst x) (fst y)) (ta_volume t')"
    by (rule volume_unique [OF assms(2) _ wf(1,2) sub]) (use t'(2) in \<open>simp add: tally_view_def\<close>)
  moreover have "length (ta_counterparties t) = length (ta_counterparties t')"
  proof -
    have "set (ta_counterparties t) = set (ta_counterparties t')" using t'(2) by (simp add: tally_view_def)
    with wf(3,4) show ?thesis by (metis distinct_card)
  qed
  moreover have "length xs = length ys" using assms(1) by (rule mset_eq_length)
  ultimately show ?thesis using t' Some by (simp add: computeVerdict_def tally_view_def)
qed

theorem verdict_order_independent_witness:
  "computeVerdict (\<lambda>s. s) (\<lambda>a b. a \<le> b) ''GA'' 0 10
     [\<lparr>ev_ledger = 5, ev_closeTime = ''t5'', ev_kind = KMint, ev_subject = ''GA'', ev_counterparty = None, ev_asset = ''XLM'', ev_amount = ''1.0000000'',
        ev_authorized = None, ev_txHash = None\<rparr>,
      \<lparr>ev_ledger = 6, ev_closeTime = ''t6'', ev_kind = KBurn, ev_subject = ''GA'', ev_counterparty = None, ev_asset = ''USD'', ev_amount = ''2.0000000'',
        ev_authorized = None, ev_txHash = None\<rparr>] SourceLive ''now'' =
   computeVerdict (\<lambda>s. s) (\<lambda>a b. a \<le> b) ''GA'' 0 10
     [\<lparr>ev_ledger = 6, ev_closeTime = ''t6'', ev_kind = KBurn, ev_subject = ''GA'', ev_counterparty = None, ev_asset = ''USD'', ev_amount = ''2.0000000'',
        ev_authorized = None, ev_txHash = None\<rparr>,
      \<lparr>ev_ledger = 5, ev_closeTime = ''t5'', ev_kind = KMint, ev_subject = ''GA'', ev_counterparty = None, ev_asset = ''XLM'', ev_amount = ''1.0000000'',
        ev_authorized = None, ev_txHash = None\<rparr>] SourceLive ''now''"
  by (rule verdict_order_independent) (auto simp: collates_def)

end
