(* ===== verification/Verdict_Backfill.thy ===== *)
theory Verdict_Backfill
  imports Verdict_Core
begin

text \<open>
  The two ways to verdicts of \<^verbatim>\<open>packages/worker-core/src/verification\<close>: \<open>LiveVerifier\<close> (\<^verbatim>\<open>liveVerifier.ts\<close>) and
  \<open>BackfillRunner\<close> (\<^verbatim>\<open>backfill.ts\<close>), with the in-memory sink and checkpoint store (\<^verbatim>\<open>stores.ts\<close>). A run of the backfill
  yields the writes it issued, in order, so that a crash is a prefix of them; \<open>Inl\<close> is a run that ended with an exception. The bucket
  key \<open>ws-we\<close>, a text in the code, is the pair of its numbers. Timestamps of one run are one argument; the progress callback does not appear.
\<close>

section \<open>Windows and buckets\<close>

definition windowStartFor :: "int \<Rightarrow> int \<Rightarrow> int" where
  "windowStartFor ledger windowSize = ledger div windowSize * windowSize"

type_synonym window_buckets = "(int \<times> int, (string, verification_event list) js_map) js_map"

definition window_of :: "int \<Rightarrow> verification_event \<Rightarrow> int \<times> int" where
  "window_of windowSize ev = (let ws = windowStartFor (ev_ledger ev) windowSize in (ws, ws + windowSize))"

definition ingest :: "int \<Rightarrow> verification_event \<Rightarrow> window_buckets \<Rightarrow> window_buckets" where
  "ingest windowSize ev buckets =
     (let key = window_of windowSize ev; bySubject = or_default (map_get buckets key) []
      in map_set key (push_to ev_subject ev bySubject) buckets)"

definition ingestAll :: "int \<Rightarrow> verification_event list \<Rightarrow> window_buckets \<Rightarrow> window_buckets" where
  "ingestAll windowSize events buckets = fold (ingest windowSize) events buckets"

section \<open>LiveVerifier\<close>

text \<open>The verdicts and the buckets left: every one has been deleted.\<close>

definition flush_live ::
  "(string \<Rightarrow> string) \<Rightarrow> (string \<Rightarrow> string \<Rightarrow> bool) \<Rightarrow> string \<Rightarrow> window_buckets \<Rightarrow> (ledger_verdict list \<times> window_buckets) option"
where
  "flush_live sha before at buckets =
     map_option (\<lambda>out. (out, []))
       (those (concat (map (\<lambda>((ws, we), bySubject).
          map (\<lambda>(subject, events). computeVerdict sha before subject ws we events SourceLive at) bySubject) buckets)))"

section \<open>Sink and checkpoint\<close>

definition verdictKey :: "string \<Rightarrow> int \<Rightarrow> int \<Rightarrow> string" where
  "verdictKey subject windowStart windowEnd = subject @ ''|'' @ show_int windowStart @ ''-'' @ show_int windowEnd"

definition key_of :: "ledger_verdict \<Rightarrow> string" where
  "key_of v = verdictKey (lv_subject v) (vw_startLedger (lv_window v)) (vw_endLedger (lv_window v))"

definition sink_upsert :: "ledger_verdict \<Rightarrow> (string, ledger_verdict) js_map \<Rightarrow> (string, ledger_verdict) js_map" where
  "sink_upsert v m = map_set (key_of v) v m"

definition sink_get :: "string \<Rightarrow> int \<Rightarrow> int \<Rightarrow> (string, ledger_verdict) js_map \<Rightarrow> ledger_verdict option" where
  "sink_get subject windowStart windowEnd m = map_get m (verdictKey subject windowStart windowEnd)"

definition sink_all :: "(string, ledger_verdict) js_map \<Rightarrow> ledger_verdict list" where
  "sink_all m = map snd m"

datatype backfill_write = Upsert ledger_verdict | SaveCheckpoint int

record backfill_stores =
  bs_sink :: "(string, ledger_verdict) js_map"
  bs_checkpoint :: "int option"

fun apply_write :: "backfill_write \<Rightarrow> backfill_stores \<Rightarrow> backfill_stores" where
  "apply_write (Upsert v) s = s\<lparr>bs_sink := sink_upsert v (bs_sink s)\<rparr>"
| "apply_write (SaveCheckpoint l) s = s\<lparr>bs_checkpoint := Some l\<rparr>"

section \<open>BackfillRunner\<close>

record backfill_options =
  bo_windowSize :: int
  bo_subjects :: "string list option"
  bo_sha :: "string \<Rightarrow> string"
  bo_before :: "string \<Rightarrow> string \<Rightarrow> bool"
  bo_now :: string

record backfill_state =
  bf_buckets :: window_buckets
  bf_writes :: "backfill_write list"
  bf_ledgersRead :: nat
  bf_windowsEmitted :: nat
  bf_verdictsWritten :: nat

definition wanted :: "backfill_options \<Rightarrow> string \<Rightarrow> bool" where
  "wanted opts subject = (case bo_subjects opts of None \<Rightarrow> True | Some ss \<Rightarrow> subject \<in> set ss)"

fun flush_subjects ::
  "backfill_options \<Rightarrow> int \<times> int \<Rightarrow> (string \<times> verification_event list) list \<Rightarrow> backfill_state \<Rightarrow> (backfill_state, backfill_state) result"
where
  "flush_subjects opts key [] st = Inr st"
| "flush_subjects opts key ((subject, events) # rest) st =
     (if \<not> wanted opts subject then flush_subjects opts key rest st
      else case computeVerdict (bo_sha opts) (bo_before opts) subject (fst key) (snd key) events SourceBackfill (bo_now opts) of
          None \<Rightarrow> Inl st
        | Some v \<Rightarrow> flush_subjects opts key rest
            (st\<lparr>bf_writes := bf_writes st @ [Upsert v], bf_verdictsWritten := bf_verdictsWritten st + 1\<rparr>))"

definition flushWindow :: "backfill_options \<Rightarrow> int \<times> int \<Rightarrow> backfill_state \<Rightarrow> (backfill_state, backfill_state) result" where
  "flushWindow opts key st =
     (case map_get (bf_buckets st) key of
        None \<Rightarrow> Inr st
      | Some bySubject \<Rightarrow>
          bind_result (flush_subjects opts key bySubject st) (\<lambda>st.
            Inr (st\<lparr>bf_buckets := map_del key (bf_buckets st), bf_windowsEmitted := bf_windowsEmitted st + 1,
              bf_writes := bf_writes st @ [SaveCheckpoint (snd key - 1)]\<rparr>)))"

fun flush_windows :: "backfill_options \<Rightarrow> (int \<times> int) list \<Rightarrow> backfill_state \<Rightarrow> (backfill_state, backfill_state) result" where
  "flush_windows opts [] st = Inr st"
| "flush_windows opts (key # rest) st = bind_result (flushWindow opts key st) (flush_windows opts rest)"

definition backfill_ledger :: "backfill_options \<Rightarrow> (string, int) export_ledger \<Rightarrow> backfill_state \<Rightarrow> (backfill_state, backfill_state) result" where
  "backfill_ledger opts ledger st =
     (let st = st\<lparr>bf_ledgersRead := bf_ledgersRead st + 1,
            bf_buckets := fold (ingest (bo_windowSize opts)) (filter (\<lambda>ev. wanted opts (ev_subject ev)) (fromExportLedger ledger)) (bf_buckets st)\<rparr>
      in flush_windows opts (filter (\<lambda>(ws, we). el_ledgerSequence ledger \<ge> we) (map fst (bf_buckets st))) st)"

fun backfill_ledgers :: "backfill_options \<Rightarrow> (string, int) export_ledger list \<Rightarrow> backfill_state \<Rightarrow> (backfill_state, backfill_state) result" where
  "backfill_ledgers opts [] st = Inr st"
| "backfill_ledgers opts (l # ls) st = bind_result (backfill_ledger opts l st) (backfill_ledgers opts ls)"

definition effective_range :: "int \<Rightarrow> int option \<Rightarrow> ledger_range \<Rightarrow> ledger_range" where
  "effective_range windowSize prior rng =
     (let effectiveStart = (case prior of Some done_to \<Rightarrow> windowStartFor (done_to + 1) windowSize | None \<Rightarrow> lr_startLedger rng)
      in \<lparr>lr_startLedger = max effectiveStart (lr_startLedger rng), lr_endLedger = lr_endLedger rng\<rparr>)"

definition new_backfill :: backfill_state where
  "new_backfill = \<lparr>bf_buckets = [], bf_writes = [], bf_ledgersRead = 0, bf_windowsEmitted = 0, bf_verdictsWritten = 0\<rparr>"

text \<open>\<open>run\<close> with the checkpoint it loaded.\<close>

definition backfill_run ::
  "backfill_options \<Rightarrow> (ledger_range \<Rightarrow> (string, int) export_ledger list) \<Rightarrow> ledger_range \<Rightarrow> int option \<Rightarrow> (backfill_state, backfill_state) result"
where
  "backfill_run opts source rng prior =
     bind_result (backfill_ledgers opts (reader_read source (effective_range (bo_windowSize opts) prior rng)) new_backfill)
       (\<lambda>st. flush_windows opts (map fst (bf_buckets st)) st)"

section \<open>What a run writes\<close>

definition well_formed :: "verification_event list \<Rightarrow> bool" where
  "well_formed evs \<longleftrightarrow> list_all (\<lambda>ev. signedStroops ev \<noteq> None) evs"

definition verdict_for :: "backfill_options \<Rightarrow> int \<times> int \<Rightarrow> string \<times> verification_event list \<Rightarrow> ledger_verdict" where
  "verdict_for opts key g = the (computeVerdict (bo_sha opts) (bo_before opts) (fst g) (fst key) (snd key) (snd g) SourceBackfill (bo_now opts))"

definition window_writes :: "backfill_options \<Rightarrow> (int \<times> int) \<times> verification_event list \<Rightarrow> backfill_write list" where
  "window_writes opts w = map (\<lambda>g. Upsert (verdict_for opts (fst w) g)) (grouped ev_subject (snd w)) @ [SaveCheckpoint (snd (fst w) - 1)]"

definition all_writes :: "backfill_options \<Rightarrow> verification_event list \<Rightarrow> backfill_write list" where
  "all_writes opts evs = concat (map (window_writes opts) (grouped (window_of (bo_windowSize opts)) evs))"

lemma computeVerdict_defined: "well_formed evs \<Longrightarrow> \<exists>v. computeVerdict sha before subject a b evs src at = Some v"
  using tally_events_defined [of evs new_tally] by (auto simp: computeVerdict_def well_formed_def list_all_iff Let_def)

lemma flush_subjects_all:
  assumes "\<forall>(s, evs) \<in> set gs. well_formed evs \<and> wanted opts s"
  shows "\<exists>n. flush_subjects opts key gs st =
    Inr (st\<lparr>bf_writes := bf_writes st @ map (\<lambda>g. Upsert (verdict_for opts key g)) gs, bf_verdictsWritten := n\<rparr>)"
  using assms
proof (induction gs arbitrary: st)
  case Nil
  then show ?case by (intro exI [of _ "bf_verdictsWritten st"]) simp
next
  case (Cons g gs)
  obtain s evs where g: "g = (s, evs)" by (cases g)
  with Cons.prems obtain v where v: "computeVerdict (bo_sha opts) (bo_before opts) s (fst key) (snd key) evs SourceBackfill (bo_now opts) = Some v"
    using computeVerdict_defined by fastforce
  then have vf: "verdict_for opts key g = v" by (simp add: verdict_for_def g)
  let ?st = "st\<lparr>bf_writes := bf_writes st @ [Upsert v], bf_verdictsWritten := bf_verdictsWritten st + 1\<rparr>"
  from Cons.IH [of ?st] Cons.prems obtain n where "flush_subjects opts key gs ?st =
    Inr (?st\<lparr>bf_writes := bf_writes ?st @ map (\<lambda>g. Upsert (verdict_for opts key g)) gs, bf_verdictsWritten := n\<rparr>)" by auto
  then show ?case using Cons.prems v vf by (auto simp: g)
qed

text \<open>A bucket of one window, from the events it has received.\<close>

definition pending_bucket :: "int \<Rightarrow> verification_event list \<Rightarrow> window_buckets" where
  "pending_bucket n evs = (if evs = [] then [] else [(window_of n (hd evs), grouped ev_subject evs)])"

lemma grouped_snoc: "grouped key (xs @ [x]) = push_to key x (grouped key xs)"
  by (simp flip: fold_push_to)

lemma ingest_same:
  assumes "\<forall>e \<in> set new. window_of n e = k" "evs \<noteq> []" "window_of n (hd evs) = k" "k \<notin> fst ` set B"
  shows "fold (ingest n) new (B @ pending_bucket n evs) = B @ pending_bucket n (evs @ new)"
  using assms(1)
proof (induction new rule: rev_induct)
  case (snoc e new)
  have get: "map_get (B @ [(k, g)]) k = Some g" "map_set k h (B @ [(k, g)]) = B @ [(k, h)]" for g h
    using assms(4) by (induction B) auto
  have none: "map_get B k = None" using assms(4) by (simp add: map_of_eq_None_iff)
  from snoc assms show ?case
    by (simp add: ingest_def Let_def pending_bucket_def get none map_add_def or_default_simps grouped_snoc flip: append_assoc)
qed simp

lemma ingest_new:
  assumes "\<forall>e \<in> set new. window_of n e = k" "k \<notin> fst ` set B"
  shows "fold (ingest n) new B = B @ pending_bucket n new"
proof (cases new)
  case (Cons e rest)
  have none: "map_get B k = None" "map_set k g B = B @ [(k, g)]" for g using assms(2) by (induction B) auto
  have "ingest n e B = B @ pending_bucket n [e]"
    using assms(1) Cons none by (simp add: ingest_def pending_bucket_def grouped_def push_to_def or_default_simps)
  then show ?thesis using ingest_same [of rest n k "[e]" B] assms Cons by simp
qed (simp add: pending_bucket_def)

definition one_window :: "int \<Rightarrow> verification_event list \<Rightarrow> bool" where
  "one_window n evs \<longleftrightarrow> (\<forall>e \<in> set evs. window_of n e = window_of n (hd evs))"

definition fine :: "backfill_options \<Rightarrow> verification_event list \<Rightarrow> bool" where
  "fine opts evs \<longleftrightarrow> well_formed evs \<and> (\<forall>e \<in> set evs. wanted opts (ev_subject e))"

lemma fine_append [simp]: "fine opts (xs @ ys) \<longleftrightarrow> fine opts xs \<and> fine opts ys"
  by (auto simp: fine_def well_formed_def)

lemma uniq_run: "xs \<noteq> [] \<Longrightarrow> \<forall>x \<in> set xs. x = k \<Longrightarrow> k \<notin> set ys \<Longrightarrow> uniq (xs @ ys) = k # uniq ys"
proof (induction xs)
  case (Cons x xs)
  have "filter (\<lambda>y. y \<noteq> k) (uniq ys) = uniq ys" using Cons.prems(3) by (auto simp: filter_id_conv)
  with Cons show ?case by (cases "xs = []") auto
qed simp

lemma grouped_run:
  assumes "xs \<noteq> []" "\<forall>x \<in> set xs. key x = k" "k \<notin> key ` set ys"
  shows "grouped key (xs @ ys) = (k, xs) # grouped key ys"
proof -
  have u: "uniq (map key (xs @ ys)) = k # uniq (map key ys)"
    using uniq_run [of "map key xs" k "map key ys"] assms by auto
  have "filter (\<lambda>x. key x = k) xs = xs" "filter (\<lambda>x. key x = k) ys = []" using assms by (auto simp: filter_id_conv filter_empty_conv)
  moreover have "filter (\<lambda>x. key x = j) xs = []" if "j \<in> set (uniq (map key ys))" for j
    using that assms by (auto simp: filter_empty_conv)
  ultimately show ?thesis by (auto simp: grouped_def u simp del: set_uniq map_append)
qed

lemma all_writes_run:
  assumes "evs \<noteq> []" "one_window (bo_windowSize opts) evs" "window_of (bo_windowSize opts) (hd evs) \<notin> window_of (bo_windowSize opts) ` set rest"
  shows "all_writes opts (evs @ rest) = window_writes opts (window_of (bo_windowSize opts) (hd evs), evs) @ all_writes opts rest"
  using grouped_run [OF assms(1) _ assms(3)] assms(2) by (simp add: all_writes_def one_window_def)

lemma flush_pending:
  assumes b: "bf_buckets st = pending_bucket (bo_windowSize opts) evs @ B" and e: "evs \<noteq> []" "fine opts evs"
    and B: "window_of (bo_windowSize opts) (hd evs) \<notin> fst ` set B"
  shows "\<exists>st'. flushWindow opts (window_of (bo_windowSize opts) (hd evs)) st = Inr st' \<and> bf_buckets st' = B \<and>
    bf_writes st' = bf_writes st @ window_writes opts (window_of (bo_windowSize opts) (hd evs), evs)"
proof -
  let ?k = "window_of (bo_windowSize opts) (hd evs)"
  have get: "map_get (bf_buckets st) ?k = Some (grouped ev_subject evs)" using b e by (simp add: pending_bucket_def)
  have del: "map_del ?k (bf_buckets st) = B" using b e B by (simp add: pending_bucket_def)
  have "\<forall>(s, es) \<in> set (grouped ev_subject evs). well_formed es \<and> wanted opts s"
    using e(2) by (auto simp: grouped_def fine_def well_formed_def list_all_iff)
  from flush_subjects_all [OF this, of ?k st] obtain n where "flush_subjects opts ?k (grouped ev_subject evs) st =
      Inr (st\<lparr>bf_writes := bf_writes st @ map (\<lambda>g. Upsert (verdict_for opts ?k g)) (grouped ev_subject evs), bf_verdictsWritten := n\<rparr>)" by blast
  with get del show ?thesis by (simp add: flushWindow_def window_writes_def)
qed

lemma operation_ledger: "\<forall>e \<in> set (mapOperationToVerificationEvents op l c h). ev_ledger e = l"
  by (cases op) (simp_all add: mapOperationToVerificationEvents_def Let_def)

lemma ledger_events: "e \<in> set (fromExportLedger l) \<Longrightarrow> ev_ledger e = el_ledgerSequence l"
  using operation_ledger by (fastforce simp: fromExportLedger_def fromTransactions_def)

definition wanted_events :: "backfill_options \<Rightarrow> (string, int) export_ledger \<Rightarrow> verification_event list" where
  "wanted_events opts l = filter (\<lambda>ev. wanted opts (ev_subject ev)) (fromExportLedger l)"

lemma windowStart_le: "0 < n \<Longrightarrow> windowStartFor x n \<le> x \<and> x < windowStartFor x n + n"
  using div_mult_mod_eq [of x n] pos_mod_bound [of n x] pos_mod_sign [of n x] unfolding windowStartFor_def by linarith

lemma windowStart_mono: "0 < n \<Longrightarrow> x \<le> y \<Longrightarrow> windowStartFor x n \<le> windowStartFor y n"
  by (simp add: windowStartFor_def zdiv_mono1 mult_right_mono)

lemma windowStart_next: "0 < n \<Longrightarrow> windowStartFor x n < windowStartFor y n \<Longrightarrow> windowStartFor x n + n \<le> windowStartFor y n"
proof -
  assume n: "0 < n" and lt: "windowStartFor x n < windowStartFor y n"
  then have "x div n < y div n" by (simp add: windowStartFor_def)
  then have "(x div n + 1) * n \<le> y div n * n" using n by (intro mult_right_mono) auto
  then show ?thesis by (simp add: windowStartFor_def algebra_simps)
qed

lemma window_eq_iff: "window_of n e = window_of n e' \<longleftrightarrow> windowStartFor (ev_ledger e) n = windowStartFor (ev_ledger e') n"
  by (auto simp: window_of_def Let_def)

lemma backfill_ledger_step:
  assumes n: "0 < bo_windowSize opts" and b: "bf_buckets st = pending_bucket (bo_windowSize opts) evs"
    and evs: "one_window (bo_windowSize opts) evs" "fine opts evs" "\<forall>e \<in> set evs. ev_ledger e \<le> el_ledgerSequence l"
    and new: "fine opts (wanted_events opts l)"
  shows "\<exists>st' evs'. backfill_ledger opts l st = Inr st' \<and> bf_buckets st' = pending_bucket (bo_windowSize opts) evs' \<and>
    one_window (bo_windowSize opts) evs' \<and> fine opts evs' \<and> (\<forall>e \<in> set evs'. ev_ledger e \<le> el_ledgerSequence l) \<and>
    (\<forall>rest. (\<forall>e \<in> set rest. el_ledgerSequence l \<le> ev_ledger e) \<longrightarrow>
      bf_writes st' @ all_writes opts (evs' @ rest) = bf_writes st @ all_writes opts (evs @ wanted_events opts l @ rest))"
proof -
  let ?n = "bo_windowSize opts" and ?sq = "el_ledgerSequence l"
  let ?new = "wanted_events opts l" and ?w = "(windowStartFor ?sq ?n, windowStartFor ?sq ?n + ?n)"
  have nw: "\<forall>e \<in> set ?new. window_of ?n e = ?w" using ledger_events by (auto simp: wanted_events_def window_of_def Let_def)
  have nl: "\<forall>e \<in> set ?new. ev_ledger e = ?sq" using ledger_events by (auto simp: wanted_events_def)
  have w: "\<not> snd ?w \<le> ?sq" using windowStart_le [OF n, of ?sq] by auto
  let ?s1 = "st\<lparr>bf_ledgersRead := bf_ledgersRead st + 1, bf_buckets := fold (ingest ?n) ?new (bf_buckets st)\<rparr>"
  have run: "backfill_ledger opts l st = flush_windows opts (filter (\<lambda>(ws, we). ?sq \<ge> we) (map fst (bf_buckets ?s1))) ?s1"
    by (simp add: backfill_ledger_def wanted_events_def Let_def)
  show ?thesis
  proof (cases "evs = [] \<or> window_of ?n (hd evs) = ?w")
    case True
    have "bf_buckets ?s1 = pending_bucket ?n (evs @ ?new)"
      using True b ingest_new [OF nw, of "[]"] ingest_same [OF nw, of evs "[]"] by (cases "evs = []") (auto simp: pending_bucket_def)
    moreover have k: "one_window ?n (evs @ ?new)" using True evs(1) nw by (cases "evs = []"; cases ?new) (auto simp: one_window_def)
    moreover have "window_of ?n (hd (evs @ ?new)) = ?w" if "evs @ ?new \<noteq> []" using True that nw by (cases "evs = []") auto
    ultimately have "filter (\<lambda>(ws, we). ?sq \<ge> we) (map fst (bf_buckets ?s1)) = []" "bf_buckets ?s1 = pending_bucket ?n (evs @ ?new)"
      using w by (auto simp: pending_bucket_def)
    then show ?thesis using run k evs new nl by (intro exI [of _ ?s1] exI [of _ "evs @ ?new"]) auto
  next
    case False
    let ?k = "window_of ?n (hd evs)"
    have hd: "hd evs \<in> set evs" using False by simp
    have "fst ?k \<noteq> fst ?w" using False by (auto simp: window_of_def Let_def)
    then have "windowStartFor (ev_ledger (hd evs)) ?n < windowStartFor ?sq ?n"
      using windowStart_mono [OF n, of "ev_ledger (hd evs)" ?sq] evs(3) hd by (auto simp: window_of_def Let_def)
    then have old: "snd ?k \<le> windowStartFor ?sq ?n" using windowStart_next [OF n] by (simp add: window_of_def Let_def)
    have due: "snd ?k \<le> ?sq" using old windowStart_le [OF n, of ?sq] by linarith
    have kb: "?w \<notin> fst ` set (pending_bucket ?n evs)" using False by (auto simp: pending_bucket_def)
    have b1: "bf_buckets ?s1 = pending_bucket ?n evs @ pending_bucket ?n ?new" using ingest_new [OF nw kb] b by simp
    have ne: "?k \<notin> fst ` set (pending_bucket ?n ?new)" using False nw by (auto simp: pending_bucket_def)
    from flush_pending [OF b1 _ evs(2) ne] False obtain st' where st': "flushWindow opts ?k ?s1 = Inr st'" "bf_buckets st' = pending_bucket ?n ?new"
      "bf_writes st' = bf_writes st @ window_writes opts (?k, evs)" by auto
    have "filter (\<lambda>(ws, we). ?sq \<ge> we) (map fst (bf_buckets ?s1)) = [?k]"
      using False b1 due w nw by (auto simp: pending_bucket_def split: prod.splits)
    then have "backfill_ledger opts l st = Inr st'" using run st'(1) by simp
    moreover have "one_window ?n ?new" using nw by (cases ?new) (auto simp: one_window_def)
    moreover have "bf_writes st' @ all_writes opts (?new @ rest) = bf_writes st @ all_writes opts (evs @ ?new @ rest)"
      if r: "\<forall>e \<in> set rest. ?sq \<le> ev_ledger e" for rest
    proof -
      have "?k \<notin> window_of ?n ` set (?new @ rest)"
      proof
        assume "?k \<in> window_of ?n ` set (?new @ rest)"
        then obtain e where e: "e \<in> set (?new @ rest)" "window_of ?n e = ?k" by (metis imageE)
        with r nl have "?sq \<le> ev_ledger e" by auto
        then have "windowStartFor ?sq ?n \<le> windowStartFor (ev_ledger e) ?n" by (rule windowStart_mono [OF n])
        with e(2) old n show False by (auto simp: window_of_def Let_def)
      qed
      from all_writes_run [OF _ evs(1) this] False st'(3) show ?thesis by simp
    qed
    ultimately show ?thesis using st'(2) new nl by (intro exI [of _ st'] exI [of _ ?new]) auto
  qed
qed

lemma backfill_ledgers_writes:
  assumes "0 < bo_windowSize opts" "bf_buckets st = pending_bucket (bo_windowSize opts) evs" "one_window (bo_windowSize opts) evs" "fine opts evs"
    "\<forall>e \<in> set evs. \<forall>l \<in> set ls. ev_ledger e \<le> el_ledgerSequence l" "sorted (map el_ledgerSequence ls)" "\<forall>l \<in> set ls. fine opts (wanted_events opts l)"
  shows "\<exists>st' evs'. backfill_ledgers opts ls st = Inr st' \<and> bf_buckets st' = pending_bucket (bo_windowSize opts) evs' \<and> fine opts evs' \<and>
    one_window (bo_windowSize opts) evs' \<and>
    bf_writes st' @ all_writes opts evs' = bf_writes st @ all_writes opts (evs @ concat (map (wanted_events opts) ls))"
  using assms
proof (induction ls arbitrary: st evs)
  case (Cons l ls)
  from backfill_ledger_step [OF Cons.prems(1-4), of l] Cons.prems(5,7) obtain s1 e1 where
    s1: "backfill_ledger opts l st = Inr s1" "bf_buckets s1 = pending_bucket (bo_windowSize opts) e1" "one_window (bo_windowSize opts) e1"
    "fine opts e1" "\<forall>e \<in> set e1. ev_ledger e \<le> el_ledgerSequence l"
    and w: "\<forall>rest. (\<forall>e \<in> set rest. el_ledgerSequence l \<le> ev_ledger e) \<longrightarrow>
      bf_writes s1 @ all_writes opts (e1 @ rest) = bf_writes st @ all_writes opts (evs @ wanted_events opts l @ rest)" by auto
  have "\<forall>e \<in> set e1. \<forall>l \<in> set ls. ev_ledger e \<le> el_ledgerSequence l" using s1(5) Cons.prems(6) by fastforce
  with Cons.IH [OF Cons.prems(1) s1(2-4)] Cons.prems(6,7) obtain s2 e2 where s2: "backfill_ledgers opts ls s1 = Inr s2"
    "bf_buckets s2 = pending_bucket (bo_windowSize opts) e2" "fine opts e2" "one_window (bo_windowSize opts) e2"
    "bf_writes s2 @ all_writes opts e2 = bf_writes s1 @ all_writes opts (e1 @ concat (map (wanted_events opts) ls))" by auto
  have "\<forall>e \<in> set (concat (map (wanted_events opts) ls)). el_ledgerSequence l \<le> ev_ledger e"
    using Cons.prems(6) ledger_events by (fastforce simp: wanted_events_def)
  with w s1(1) s2 show ?case by (intro exI [of _ s2] exI [of _ e2]) simp
qed auto

lemma flush_rest:
  assumes "bf_buckets st = pending_bucket (bo_windowSize opts) evs" "fine opts evs" "one_window (bo_windowSize opts) evs"
  shows "\<exists>st'. flush_windows opts (map fst (bf_buckets st)) st = Inr st' \<and> bf_writes st' = bf_writes st @ all_writes opts evs"
proof (cases "evs = []")
  case True
  with assms show ?thesis by (simp add: pending_bucket_def all_writes_def grouped_def)
next
  case False
  have b: "bf_buckets st = pending_bucket (bo_windowSize opts) evs @ []" using assms(1) by simp
  from flush_pending [OF b False assms(2)] obtain st' where "flushWindow opts (window_of (bo_windowSize opts) (hd evs)) st = Inr st'"
    "bf_writes st' = bf_writes st @ window_writes opts (window_of (bo_windowSize opts) (hd evs), evs)" by auto
  moreover have "all_writes opts evs = window_writes opts (window_of (bo_windowSize opts) (hd evs), evs)"
    using all_writes_run [OF False assms(3), of "[]"] by (simp add: all_writes_def [of _ "[]"] grouped_def)
  ultimately show ?thesis using False assms(1) by (simp add: pending_bucket_def)
qed

definition events_read :: "backfill_options \<Rightarrow> (string, int) export_ledger list \<Rightarrow> verification_event list" where
  "events_read opts ls = concat (map (wanted_events opts) ls)"

lemma run_writes:
  assumes "0 < bo_windowSize opts" and ls: "ls = reader_read source (effective_range (bo_windowSize opts) prior rng)"
    and "sorted (map el_ledgerSequence ls)" "\<forall>l \<in> set ls. well_formed (fromExportLedger l)"
  shows "\<exists>st'. backfill_run opts source rng prior = Inr st' \<and> bf_writes st' = all_writes opts (events_read opts ls)"
proof -
  have fine: "\<forall>l \<in> set ls. fine opts (wanted_events opts l)"
    using assms(4) by (auto simp: fine_def wanted_events_def well_formed_def list_all_iff)
  have new: "bf_buckets new_backfill = pending_bucket (bo_windowSize opts) []" "bf_writes new_backfill = []"
    by (simp_all add: new_backfill_def pending_bucket_def)
  from backfill_ledgers_writes [OF assms(1) new(1), of ls] fine assms(3) new(2) obtain s1 e1 where
    s1: "backfill_ledgers opts ls new_backfill = Inr s1" "bf_buckets s1 = pending_bucket (bo_windowSize opts) e1" "fine opts e1"
    "one_window (bo_windowSize opts) e1" "bf_writes s1 @ all_writes opts e1 = all_writes opts (events_read opts ls)"
    by (auto simp: one_window_def fine_def well_formed_def events_read_def)
  from flush_rest [OF s1(2-4)] s1(1,5) show ?thesis by (auto simp: backfill_run_def ls)
qed

section \<open>Backfill and live verdicts\<close>

text \<open>The part of a verdict that does not tell where and when it was computed.\<close>

definition neutral :: "ledger_verdict \<Rightarrow> ledger_verdict" where
  "neutral v = v\<lparr>lv_source := SourceLive, lv_computedAt := []\<rparr>"

definition upserts :: "backfill_write list \<Rightarrow> ledger_verdict list" where
  "upserts ws = List.map_filter (\<lambda>w. case w of Upsert v \<Rightarrow> Some v | SaveCheckpoint _ \<Rightarrow> None) ws"

lemma upserts_simps [simp]:
  "upserts [] = []" "upserts (Upsert v # ws) = v # upserts ws" "upserts (SaveCheckpoint l # ws) = upserts ws"
  "upserts (map (\<lambda>g. Upsert (f g)) gs) = map f gs" "upserts (xs @ ys) = upserts xs @ upserts ys"
  by (simp_all add: upserts_def List.map_filter_def o_def)

lemma upserts_concat: "upserts (concat (map f xs)) = concat (map (\<lambda>x. upserts (f x)) xs)"
  by (induction xs) simp_all

lemma ingest_grouped:
  "fold (ingest n) evs [] = map (\<lambda>(k, es). (k, grouped ev_subject es)) (grouped (window_of n) evs)"
proof (induction evs rule: rev_induct)
  case (snoc e evs)
  let ?g = "\<lambda>k. filter (\<lambda>x. window_of n x = k) evs"
  have m: "map (\<lambda>(k, es). (k, grouped ev_subject es)) (grouped (window_of n) xs) =
    map (\<lambda>k. (k, grouped ev_subject (filter (\<lambda>x. window_of n x = k) xs))) (uniq (map (window_of n) xs))" for xs by (simp add: grouped_def)
  have upd: "map_set j v (map (\<lambda>k. (k, f k)) ks) = (if j \<in> set ks then map (\<lambda>k. (k, if k = j then v else f k)) ks else map (\<lambda>k. (k, f k)) ks @ [(j, v)])"
    if "distinct ks" for j :: "int \<times> int" and v ks and f :: "int \<times> int \<Rightarrow> (string, verification_event list) js_map"
    using that by (induction ks) (auto intro!: map_cong)
  have none: "?g (window_of n e) = []" if "window_of n e \<notin> window_of n ` set evs"
    using that by (auto simp: filter_empty_conv) (metis image_eqI)
  let ?k = "window_of n e"
  have grow: "filter (\<lambda>x. window_of n x = k) (evs @ [e]) = ?g k @ (if k = ?k then [e] else [])" for k by simp
  have get: "or_default (map_get (map (\<lambda>k. (k, grouped ev_subject (?g k))) (uniq (map (window_of n) evs))) ?k) [] = grouped ev_subject (?g ?k)"
    using none by (auto simp: map_get_tabulate or_default_simps) (simp add: grouped_def)
  have "ingest n e (map (\<lambda>k. (k, grouped ev_subject (?g k))) (uniq (map (window_of n) evs))) =
    map_set ?k (grouped ev_subject (?g ?k @ [e])) (map (\<lambda>k. (k, grouped ev_subject (?g k))) (uniq (map (window_of n) evs)))"
    by (simp add: ingest_def Let_def get grouped_snoc)
  also have "\<dots> = map (\<lambda>k. (k, grouped ev_subject (?g k @ (if k = ?k then [e] else [])))) (uniq (map (window_of n) (evs @ [e])))"
  proof (cases "window_of n e \<in> window_of n ` set evs")
    case True
    then show ?thesis by (subst upd) (auto simp: uniq_snoc)
  next
    case False
    then have "\<And>x. x \<in> set evs \<Longrightarrow> window_of n x \<noteq> ?k" by (metis image_eqI)
    with False show ?thesis by (subst upd) (auto simp: uniq_snoc)
  qed
  finally show ?case by (simp only: snoc [unfolded m] m grow fold_append fold_simps comp_apply)
qed (simp add: grouped_def)

lemma neutral_verdict:
  "map_option neutral (computeVerdict sha before subject a b evs src at) = map_option neutral (computeVerdict sha before subject a b evs src' at')"
  by (simp add: computeVerdict_def neutral_def Let_def split: option.splits)

lemma neutral_verdict_for:
  assumes "well_formed (snd g)"
  shows "computeVerdict (bo_sha opts) (bo_before opts) (fst g) (fst key) (snd key) (snd g) src at =
    Some (the (computeVerdict (bo_sha opts) (bo_before opts) (fst g) (fst key) (snd key) (snd g) src at))"
    "neutral (the (computeVerdict (bo_sha opts) (bo_before opts) (fst g) (fst key) (snd key) (snd g) src at)) = neutral (verdict_for opts key g)"
proof -
  from computeVerdict_defined [OF assms] obtain v where v: "computeVerdict (bo_sha opts) (bo_before opts) (fst g) (fst key) (snd key) (snd g) src at = Some v"
    by blast
  from computeVerdict_defined [OF assms] obtain v' where v': "computeVerdict (bo_sha opts) (bo_before opts) (fst g) (fst key) (snd key) (snd g) SourceBackfill (bo_now opts) = Some v'"
    by blast
  have "neutral v = neutral v'"
    using neutral_verdict [of "bo_sha opts" "bo_before opts" "fst g" "fst key" "snd key" "snd g" src at SourceBackfill "bo_now opts"] v v' by simp
  with v v' show "computeVerdict (bo_sha opts) (bo_before opts) (fst g) (fst key) (snd key) (snd g) src at =
      Some (the (computeVerdict (bo_sha opts) (bo_before opts) (fst g) (fst key) (snd key) (snd g) src at))"
    "neutral (the (computeVerdict (bo_sha opts) (bo_before opts) (fst g) (fst key) (snd key) (snd g) src at)) = neutral (verdict_for opts key g)"
    by (simp_all add: verdict_for_def)
qed

lemma those_map: "(\<And>x. x \<in> set xs \<Longrightarrow> f x = Some (g x)) \<Longrightarrow> those (map f xs) = Some (map g xs)"
  by (induction xs) auto

text \<open>All groups of a list of events, with the window of each.\<close>

definition all_groups :: "int \<Rightarrow> verification_event list \<Rightarrow> ((int \<times> int) \<times> string \<times> verification_event list) list" where
  "all_groups n evs = concat (map (\<lambda>(k, es). map (Pair k) (grouped ev_subject es)) (grouped (window_of n) evs))"

lemma all_groups_sub: "x \<in> set (all_groups n evs) \<Longrightarrow> set (snd (snd x)) \<subseteq> set evs"
  by (auto simp: all_groups_def grouped_def)

lemma flush_live_groups: "flush_live sha before at (ingestAll n evs []) =
  map_option (\<lambda>out. (out, [])) (those (map (\<lambda>(k, g). computeVerdict sha before (fst g) (fst k) (snd k) (snd g) SourceLive at) (all_groups n evs)))"
proof -
  have "concat (map (\<lambda>((ws, we), bySubject). map (\<lambda>(subject, events). computeVerdict sha before subject ws we events SourceLive at) bySubject)
      (map (\<lambda>(k, es). (k, grouped ev_subject es)) gs)) =
    map (\<lambda>(k, g). computeVerdict sha before (fst g) (fst k) (snd k) (snd g) SourceLive at)
      (concat (map (\<lambda>(k, es). map (Pair k) (grouped ev_subject es)) gs))" for gs
    by (induction gs) (auto simp: case_prod_beta)
  then show ?thesis by (simp add: flush_live_def ingestAll_def ingest_grouped all_groups_def)
qed

lemma upserts_groups: "upserts (all_writes opts evs) = map (\<lambda>(k, g). verdict_for opts k g) (all_groups (bo_windowSize opts) evs)"
proof -
  have "concat (map (\<lambda>x. upserts (window_writes opts x)) gs) =
    map (\<lambda>(k, g). verdict_for opts k g) (concat (map (\<lambda>(k, es). map (Pair k) (grouped ev_subject es)) gs))" for gs
    by (induction gs) (auto simp: window_writes_def)
  then show ?thesis by (simp add: all_writes_def all_groups_def upserts_concat)
qed

definition live_of :: "(string, int) export_ledger \<Rightarrow> live_ledger" where
  "live_of l = \<lparr>ll_ledger = el_ledgerSequence l, ll_closeTime = el_closeTime l, ll_transactions = el_transactions l\<rparr>"

lemma fromLiveLedger_live_of [simp]: "fromLiveLedger (live_of l) = fromExportLedger l"
  by (simp add: fromLiveLedger_def live_of_def fromExportLedger_def)

lemma verdicts_agree:
  assumes "well_formed evs"
  shows "\<exists>vs. flush_live (bo_sha opts) (bo_before opts) at (ingestAll (bo_windowSize opts) evs []) = Some (vs, []) \<and>
    map neutral vs = map neutral (upserts (all_writes opts evs))"
proof -
  let ?f = "\<lambda>(k, g). computeVerdict (bo_sha opts) (bo_before opts) (fst g) (fst k) (snd k) (snd g) SourceLive at"
  have wf: "well_formed (snd (snd x))" if "x \<in> set (all_groups (bo_windowSize opts) evs)" for x
    using all_groups_sub [OF that] assms by (auto simp: well_formed_def list_all_iff)
  have "those (map ?f (all_groups (bo_windowSize opts) evs)) = Some (map (\<lambda>x. the (?f x)) (all_groups (bo_windowSize opts) evs))"
    by (rule those_map) (use wf neutral_verdict_for(1) in \<open>simp add: case_prod_beta\<close>)
  moreover have "map neutral (map (\<lambda>x. the (?f x)) (all_groups (bo_windowSize opts) evs)) = map neutral (upserts (all_writes opts evs))"
    using wf neutral_verdict_for(2) by (simp add: upserts_groups case_prod_beta)
  ultimately show ?thesis by (simp add: flush_live_groups)
qed

lemma reader_loop_sub: "set (reader_loop rng seen L) \<subseteq> set L"
  using reader_loop_set by blast

lemma reader_loop_filter: "reader_loop rng seen (filter (\<lambda>l. \<not> out_of_range rng (el_ledgerSequence l)) L) = reader_loop rng seen L"
  by (induction L arbitrary: seen) (auto simp: Let_def)

definition memory_read :: "(string, int) export_ledger list \<Rightarrow> ledger_range \<Rightarrow> (string, int) export_ledger list" where
  "memory_read ledgers rng = reader_read (memory_source_read (newMemoryExportSource ledgers)) rng"

lemma memory_read_sorted: "sorted (map el_ledgerSequence (memory_read ledgers rng))"
  by (simp add: memory_read_def reader_read_def memory_source_read_def reader_loop_filter newMemoryExportSource_def reader_loop_sorted)

lemma memory_read_sub: "set (memory_read ledgers rng) \<subseteq> set ledgers"
  using reader_loop_sub [of rng "[]" "sort_key el_ledgerSequence ledgers"]
  by (simp add: memory_read_def reader_read_def memory_source_read_def reader_loop_filter newMemoryExportSource_def)

text \<open>
  C16: a backfill over a memory export and a live verifier fed the same ledgers give the same verdicts, in the same order, apart from the
  source and the time they carry; in particular the same fingerprints. The run ends without an exception.
\<close>

theorem backfill_equals_live:
  assumes "0 < bo_windowSize opts" "bo_subjects opts = None" "\<forall>l \<in> set ledgers. well_formed (fromExportLedger l)"
  shows "\<exists>st vs. backfill_run opts (memory_source_read (newMemoryExportSource ledgers)) rng None = Inr st \<and>
    flush_live (bo_sha opts) (bo_before opts) at
      (ingestAll (bo_windowSize opts) (concat (map (\<lambda>l. fromLiveLedger (live_of l)) (memory_read ledgers rng))) []) = Some (vs, []) \<and>
    map neutral (upserts (bf_writes st)) = map neutral vs"
proof -
  have rng: "effective_range (bo_windowSize opts) None rng = rng" by (simp add: effective_range_def)
  have wf: "\<forall>l \<in> set (memory_read ledgers rng). well_formed (fromExportLedger l)" using assms(3) memory_read_sub by blast
  from run_writes [OF assms(1) _ memory_read_sorted wf, of _ None rng] obtain st where
    st: "backfill_run opts (memory_source_read (newMemoryExportSource ledgers)) rng None = Inr st"
    "bf_writes st = all_writes opts (events_read opts (memory_read ledgers rng))" by (auto simp: rng memory_read_def)
  have ev: "events_read opts (memory_read ledgers rng) = concat (map (\<lambda>l. fromLiveLedger (live_of l)) (memory_read ledgers rng))"
    using assms(2) by (simp add: events_read_def wanted_events_def wanted_def cong: map_cong)
  have "well_formed (events_read opts (memory_read ledgers rng))"
    using wf by (auto simp: events_read_def wanted_events_def well_formed_def list_all_iff)
  from verdicts_agree [OF this, of opts at] obtain vs where "flush_live (bo_sha opts) (bo_before opts) at
      (ingestAll (bo_windowSize opts) (events_read opts (memory_read ledgers rng)) []) = Some (vs, [])"
    "map neutral vs = map neutral (upserts (bf_writes st))" by (auto simp: st(2))
  with st(1) ev show ?thesis by auto
qed

section \<open>Resuming\<close>

definition apply_writes :: "backfill_write list \<Rightarrow> backfill_stores \<Rightarrow> backfill_stores" where
  "apply_writes ws s = fold apply_write ws s"

lemma key_of_neutral [simp]: "key_of (neutral v) = key_of v"
  by (simp add: key_of_def neutral_def)

text \<open>What the sink answers, up to the source and time of a verdict.\<close>

definition sink_view :: "backfill_stores \<Rightarrow> string \<Rightarrow> ledger_verdict option" where
  "sink_view s k = map_option neutral (map_get (bs_sink s) k)"

definition write_view :: "backfill_write list \<Rightarrow> string \<Rightarrow> ledger_verdict option" where
  "write_view ws = map_of (rev (map (\<lambda>v. (key_of v, v)) (map neutral (upserts ws))))"

lemma sink_view_writes: "sink_view (apply_writes ws s) = sink_view s ++ write_view ws"
proof (induction ws arbitrary: s)
  case (Cons w ws)
  have "sink_view (apply_write (Upsert v) s) = (sink_view s)(key_of v \<mapsto> neutral v)" for v
    by (auto simp: sink_view_def sink_upsert_def)
  moreover have "sink_view (apply_write (SaveCheckpoint l) s) = sink_view s" for l by (auto simp: sink_view_def)
  ultimately show ?case using Cons [of "apply_write w s"]
    by (cases w) (simp_all add: apply_writes_def write_view_def fun_eq_iff map_add_def split: option.splits)
qed (simp add: apply_writes_def write_view_def)

lemma write_view_append: "write_view (xs @ ys) = write_view xs ++ write_view ys"
  by (simp add: write_view_def map_add_def fun_eq_iff flip: map_of_append) (simp add: map_add_def split: option.splits)

lemma write_view_neutral: "map neutral (upserts xs) = map neutral (upserts ys) \<Longrightarrow> write_view xs = write_view ys"
  by (simp only: write_view_def)

lemma dom_write_view: "dom (write_view xs) = (\<lambda>v. key_of v) ` set (upserts xs)"
  by (auto simp: write_view_def dom_map_of_conv_image_fst image_image)

text \<open>Writing a part of some writes first changes nothing.\<close>

lemma write_view_absorb: "write_view xs ++ write_view (xs @ ys) = write_view (xs @ ys)"
  by (auto simp: write_view_append map_add_def fun_eq_iff split: option.splits)

lemma checkpoint_writes:
  "bs_checkpoint (apply_writes (xs @ [SaveCheckpoint c]) s) = Some c"
  "bs_checkpoint (apply_writes (xs @ map (\<lambda>g. Upsert (f g)) gs) s) = bs_checkpoint (apply_writes xs s)"
proof -
  show "bs_checkpoint (apply_writes (xs @ [SaveCheckpoint c]) s) = Some c" by (simp add: apply_writes_def)
  have "bs_checkpoint (fold apply_write (map (\<lambda>g. Upsert (f g)) gs) s) = bs_checkpoint s" for s
    by (induction gs arbitrary: s) simp_all
  then show "bs_checkpoint (apply_writes (xs @ map (\<lambda>g. Upsert (f g)) gs) s) = bs_checkpoint (apply_writes xs s)"
    by (simp add: apply_writes_def)
qed

text \<open>A crash leaves whole windows and a part of the next one.\<close>

lemma take_blocks:
  "\<exists>g1 g2 p. gs = g1 @ g2 \<and> take k (concat (map f gs)) = concat (map f g1) @ p \<and>
    (p = [] \<or> (\<exists>g g2' r. g2 = g # g2' \<and> r \<noteq> [] \<and> f g = p @ r))"
proof (induction gs arbitrary: k)
  case (Cons g gs)
  show ?case
  proof (cases "k < length (f g)")
    case True
    then show ?thesis
      by (intro exI [of _ "[]"] exI [of _ "g # gs"] exI [of _ "take k (f g)"])
        (auto intro!: exI [of _ "drop k (f g)"])
  next
    case False
    from Cons [of "k - length (f g)"] obtain g1 g2 p where "gs = g1 @ g2" "take (k - length (f g)) (concat (map f gs)) = concat (map f g1) @ p"
      "p = [] \<or> (\<exists>g g2' r. g2 = g # g2' \<and> r \<noteq> [] \<and> f g = p @ r)" by blast
    with False show ?thesis by (intro exI [of _ "g # g1"] exI [of _ g2] exI [of _ p]) simp
  qed
qed simp

lemma grouped_filter:
  assumes "\<And>x. x \<in> set xs \<Longrightarrow> P x \<longleftrightarrow> Q (key x)"
  shows "grouped key (filter P xs) = filter (\<lambda>g. Q (fst g)) (grouped key xs)"
proof -
  have f: "filter P xs = filter (\<lambda>x. Q (key x)) xs" using assms by (auto cong: filter_cong)
  have u: "uniq (map key (filter (\<lambda>x. Q (key x)) xs)) = filter Q (uniq (map key xs))"
    by (induction xs) (auto simp: conj_commute intro!: filter_cong)
  have "filter (\<lambda>x. key x = k) (filter (\<lambda>x. Q (key x)) xs) = filter (\<lambda>x. key x = k) xs" if "Q k" for k
    using that by (auto simp: filter_filter intro!: filter_cong)
  then show ?thesis by (auto simp: grouped_def f u filter_map o_def intro!: map_cong)
qed

lemma uniq_sorted:
  fixes ks :: "(int \<times> int) list"
  shows "sorted (map fst ks) \<Longrightarrow> inj_on fst (set ks) \<Longrightarrow> sorted_wrt (\<lambda>a b. fst a < fst b) (uniq ks)"
proof (induction ks)
  case (Cons k ks)
  have "sorted_wrt (\<lambda>a b. fst a < fst b) (uniq ks)" using Cons by simp
  moreover have "fst k < fst x" if "x \<in> set ks" "x \<noteq> k" for x
    using Cons.prems that by (fastforce simp: inj_on_def order_less_le)
  ultimately show ?case by (auto intro: sorted_wrt_filter)
qed simp

lemma grouped_windows_sorted:
  assumes "0 < n" "sorted (map ev_ledger evs)"
  shows "sorted_wrt (\<lambda>a b. fst (fst a) < fst (fst b)) (grouped (window_of n) evs)"
proof -
  have "sorted (map fst (map (window_of n) evs))"
    using assms(2) windowStart_mono [OF assms(1)] by (auto simp: sorted_map window_of_def Let_def elim!: sorted_wrt_mono_rel [rotated])
  moreover have "inj_on fst (set (map (window_of n) evs))" by (auto simp: inj_on_def window_of_def Let_def)
  ultimately have "sorted_wrt (\<lambda>a b. fst a < fst b) (uniq (map (window_of n) evs))" by (rule uniq_sorted)
  then show ?thesis by (simp add: grouped_def sorted_wrt_map)
qed

lemma aligned_iff:
  assumes "0 < n"
  shows "windowStartFor x n + n \<le> y \<longleftrightarrow> windowStartFor x n + n \<le> windowStartFor y n"
proof
  have al: "windowStartFor (windowStartFor x n + n) n = windowStartFor x n + n"
    using assms by (simp add: windowStartFor_def distrib_right)
  assume "windowStartFor x n + n \<le> y"
  then show "windowStartFor x n + n \<le> windowStartFor y n" using windowStart_mono [OF assms] al by metis
qed (use windowStart_le [OF assms, of y] in linarith)

lemma events_from:
  "filter (\<lambda>e. a \<le> ev_ledger e) (events_read opts ls) = events_read opts (filter (\<lambda>l. a \<le> el_ledgerSequence l) ls)"
proof (induction ls)
  case (Cons l ls)
  have "filter (\<lambda>e. a \<le> ev_ledger e) (wanted_events opts l) = (if a \<le> el_ledgerSequence l then wanted_events opts l else [])"
    using ledger_events by (auto simp: wanted_events_def filter_empty_conv intro!: filter_cong)
  with Cons show ?case by (simp add: events_read_def)
qed (simp add: events_read_def)

lemma events_sorted: "sorted (map el_ledgerSequence ls) \<Longrightarrow> sorted (map ev_ledger (events_read opts ls))"
proof (induction ls)
  case (Cons l ls)
  have const: "sorted (map ev_ledger es)" if "\<forall>e \<in> set es. ev_ledger e = q" for es q using that by (induction es) auto
  have "sorted (map ev_ledger (wanted_events opts l))" by (rule const) (use ledger_events in \<open>auto simp: wanted_events_def\<close>)
  with Cons show ?case using ledger_events by (fastforce simp: events_read_def sorted_append wanted_events_def)
qed (simp add: events_read_def)

lemma reader_loop_from:
  assumes "lr_startLedger rng' = max a (lr_startLedger rng)" "lr_endLedger rng' = lr_endLedger rng" "set seen' = {s \<in> set seen. a \<le> s}"
  shows "reader_loop rng' seen' L = filter (\<lambda>l. a \<le> el_ledgerSequence l) (reader_loop rng seen L)"
  using assms(3)
proof (induction L arbitrary: seen seen')
  case (Cons l L)
  show ?case
  proof (cases "a \<le> el_ledgerSequence l")
    case True
    then have "out_of_range rng' (el_ledgerSequence l) \<longleftrightarrow> out_of_range rng (el_ledgerSequence l)"
      using assms(1,2) by (auto simp: out_of_range_def)
    moreover have "el_ledgerSequence l \<in> set seen' \<longleftrightarrow> el_ledgerSequence l \<in> set seen" using True Cons.prems by auto
    moreover have "reader_loop rng' (seen' @ [el_ledgerSequence l]) L =
      filter (\<lambda>l. a \<le> el_ledgerSequence l) (reader_loop rng (seen @ [el_ledgerSequence l]) L)"
      by (rule Cons.IH) (use True Cons.prems in auto)
    ultimately show ?thesis using True Cons.IH [OF Cons.prems] by (simp add: Let_def)
  next
    case False
    then have "out_of_range rng' (el_ledgerSequence l)" using assms(1,2) by (auto simp: out_of_range_def)
    moreover have "reader_loop rng' seen' L = filter (\<lambda>l. a \<le> el_ledgerSequence l) (reader_loop rng (seen @ [el_ledgerSequence l]) L)"
      by (rule Cons.IH) (use False Cons.prems in auto)
    ultimately show ?thesis using False Cons.IH [OF Cons.prems] by (simp add: Let_def)
  qed
qed simp

lemma memory_read_from:
  "memory_read ledgers \<lparr>lr_startLedger = max a (lr_startLedger rng), lr_endLedger = lr_endLedger rng\<rparr> =
    filter (\<lambda>l. a \<le> el_ledgerSequence l) (memory_read ledgers rng)"
  by (simp add: memory_read_def reader_read_def memory_source_read_def reader_loop_filter) (rule reader_loop_from; simp)


text \<open>The windows left by a resume are the groups from its start on.\<close>

lemma writes_from:
  assumes n: "0 < bo_windowSize opts" and s: "sorted (map ev_ledger evs)"
    and g: "grouped (window_of (bo_windowSize opts)) evs = g1 @ g2" "g1 \<noteq> []"
  shows "all_writes opts (filter (\<lambda>e. snd (fst (last g1)) \<le> ev_ledger e) evs) = concat (map (window_writes opts) g2)"
proof -
  let ?n = "bo_windowSize opts"
  obtain k es where l: "last g1 = (k, es)" by (cases "last g1")
  then have "(k, es) \<in> set (grouped (window_of ?n) evs)" using g last_in_set [OF g(2)] by simp
  then obtain e where "k = window_of ?n e" by (auto simp: grouped_def)
  then have k: "k = (windowStartFor (ev_ledger e) ?n, windowStartFor (ev_ledger e) ?n + ?n)" by (simp add: window_of_def Let_def)
  let ?Q = "\<lambda>w :: int \<times> int. snd k \<le> fst w"
  have "snd k \<le> ev_ledger x \<longleftrightarrow> ?Q (window_of ?n x)" for x
    using aligned_iff [OF n, of "ev_ledger e" "ev_ledger x"] by (simp add: k window_of_def Let_def)
  then have f: "grouped (window_of ?n) (filter (\<lambda>e. snd k \<le> ev_ledger e) evs) = filter (\<lambda>g. ?Q (fst g)) (g1 @ g2)"
    using grouped_filter [of evs "\<lambda>e. snd k \<le> ev_ledger e" ?Q "window_of ?n"] g(1) by simp
  have sorted: "sorted_wrt (\<lambda>a b. fst (fst a) < fst (fst b)) (butlast g1 @ [(k, es)] @ g2)"
    using grouped_windows_sorted [OF n s] g l append_butlast_last_id [OF g(2)] by (metis append_assoc)
  have "filter (\<lambda>g. ?Q (fst g)) g1 = []"
  proof -
    have "\<not> ?Q (fst g)" if "g \<in> set g1" for g
    proof -
      have "g \<in> set (butlast g1) \<or> g = (k, es)" using that l append_butlast_last_id [OF g(2)] by (metis Un_iff set_append list.set_intros(1) empty_iff empty_set list.set(2) insert_iff)
      then have "fst (fst g) \<le> fst k" using sorted by (auto simp: sorted_wrt_append)
      then show ?thesis using n k by simp
    qed
    then show ?thesis by (simp add: filter_empty_conv)
  qed
  moreover have "filter (\<lambda>g. ?Q (fst g)) g2 = g2"
  proof -
    have "?Q (fst g)" if "g \<in> set g2" for g
    proof -
      from that g(1) have "g \<in> set (grouped (window_of ?n) evs)" by simp
      then obtain x where x: "fst g = window_of ?n x" by (auto simp: grouped_def)
      have "fst k < fst (fst g)" using sorted that by (simp add: sorted_wrt_append)
      then show ?thesis using windowStart_next [OF n, of "ev_ledger e" "ev_ledger x"] x k by (simp add: window_of_def Let_def)
    qed
    then show ?thesis by (simp add: filter_id_conv)
  qed
  ultimately show ?thesis using l f by (simp add: all_writes_def)
qed

lemma window_writes_now:
  assumes "well_formed evs" "g \<in> set (grouped (window_of n) evs)"
  shows "map neutral (upserts (window_writes (opts\<lparr>bo_now := t\<rparr>) g)) = map neutral (upserts (window_writes opts g))"
proof -
  have "neutral (verdict_for (opts\<lparr>bo_now := t\<rparr>) k h) = neutral (verdict_for opts k h)" if "h \<in> set (grouped ev_subject (snd g))" for h k
  proof -
    have "well_formed (snd h)" using that assms by (fastforce simp: grouped_def well_formed_def list_all_iff)
    from neutral_verdict_for(2) [OF this, of opts k SourceBackfill t] show ?thesis by (simp add: verdict_for_def)
  qed
  then show ?thesis by (simp add: window_writes_def)
qed

lemma writes_now:
  assumes "well_formed evs"
  shows "map neutral (upserts (all_writes (opts\<lparr>bo_now := t\<rparr>) evs)) = map neutral (upserts (all_writes opts evs))"
proof -
  have "map neutral (upserts (concat (map (window_writes (opts\<lparr>bo_now := t\<rparr>)) gs))) = map neutral (upserts (concat (map (window_writes opts) gs)))"
    if "set gs \<subseteq> set (grouped (window_of (bo_windowSize opts)) evs)" for gs
    using that by (induction gs) (simp_all add: window_writes_now [OF assms, where n = "bo_windowSize opts"])
  then show ?thesis by (simp add: all_writes_def)
qed

lemma wanted_now [simp]: "wanted (opts\<lparr>bo_now := t\<rparr>) = wanted opts"
  by (simp add: wanted_def fun_eq_iff)

lemma events_read_now [simp]: "events_read (opts\<lparr>bo_now := t\<rparr>) = events_read opts"
proof -
  have "wanted_events (opts\<lparr>bo_now := t\<rparr>) = wanted_events opts" by (intro ext) (simp add: wanted_events_def)
  then show ?thesis by (intro ext) (simp add: events_read_def)
qed

text \<open>Where a crash leaves the stores, and what the next run then writes.\<close>

lemma crash_point:
  assumes n: "0 < bo_windowSize opts" and s: "sorted (map ev_ledger evs)" and c: "bs_checkpoint s = None"
  shows "\<exists>d p. write_view (take k (all_writes opts evs)) = write_view d ++ write_view p \<and>
    (bs_checkpoint (apply_writes (take k (all_writes opts evs)) s) = None \<longrightarrow> d = []) \<and>
    (\<forall>q. bs_checkpoint (apply_writes (take k (all_writes opts evs)) s) = Some q \<longrightarrow>
      (\<exists>e. q + 1 = windowStartFor e (bo_windowSize opts)) \<and>
      write_view (all_writes opts evs) = write_view d ++ write_view (all_writes opts (filter (\<lambda>e. q + 1 \<le> ev_ledger e) evs)) \<and>
      write_view p ++ write_view (all_writes opts (filter (\<lambda>e. q + 1 \<le> ev_ledger e) evs)) =
        write_view (all_writes opts (filter (\<lambda>e. q + 1 \<le> ev_ledger e) evs)))"
proof -
  let ?n = "bo_windowSize opts" and ?f = "window_writes opts"
  let ?gs = "grouped (window_of ?n) evs"
  obtain g1 g2 p where gs: "?gs = g1 @ g2" and t: "take k (concat (map ?f ?gs)) = concat (map ?f g1) @ p"
    and p: "p = [] \<or> (\<exists>g g2' r. g2 = g # g2' \<and> r \<noteq> [] \<and> ?f g = p @ r)" using take_blocks [of ?gs k ?f] by blast
  have up: "\<exists>hs (F :: string \<times> verification_event list \<Rightarrow> ledger_verdict). p = map (\<lambda>h. Upsert (F h)) hs"
  proof (cases "p = []")
    case False
    with p obtain g r where "r \<noteq> []" "map (\<lambda>h. Upsert (verdict_for opts (fst g) h)) (grouped ev_subject (snd g)) @ [SaveCheckpoint (snd (fst g) - 1)] = p @ r"
      by (auto simp: window_writes_def)
    then obtain r' where "map (\<lambda>h. Upsert (verdict_for opts (fst g) h)) (grouped ev_subject (snd g)) = p @ r'"
      by (cases r rule: rev_cases) auto
    then show ?thesis by (metis map_eq_append_conv)
  qed simp
  have cp: "bs_checkpoint (apply_writes (take k (all_writes opts evs)) s) = (if g1 = [] then None else Some (snd (fst (last g1)) - 1))"
  proof -
    have "bs_checkpoint (apply_writes (concat (map ?f g1)) s) = (if g1 = [] then None else Some (snd (fst (last g1)) - 1))"
    proof (cases g1 rule: rev_cases)
      case (snoc g1' g)
      have eq: "concat (map ?f g1) = (concat (map ?f g1') @ map (\<lambda>h. Upsert (verdict_for opts (fst g) h)) (grouped ev_subject (snd g))) @ [SaveCheckpoint (snd (fst g) - 1)]"
        by (simp add: snoc window_writes_def)
      show ?thesis unfolding eq checkpoint_writes(1) using snoc by simp
    qed (simp add: apply_writes_def c)
    moreover obtain F hs where "p = map (\<lambda>h. Upsert (F (h :: string \<times> verification_event list))) hs" using up by blast
    ultimately show ?thesis by (simp only: all_writes_def t checkpoint_writes(2))
  qed
  have rest: "write_view p ++ write_view (concat (map ?f g2)) = write_view (concat (map ?f g2))"
    using p write_view_absorb [of p] by (auto simp: write_view_append [of "[]"])
  have A: "write_view (take k (all_writes opts evs)) = write_view (concat (map ?f g1)) ++ write_view p"
      by (simp add: all_writes_def t write_view_append)
  have B: "concat (map ?f g1) = []" if "bs_checkpoint (apply_writes (take k (all_writes opts evs)) s) = None" using that cp by (simp split: if_splits)
  have C: "(\<exists>e. q + 1 = windowStartFor e ?n) \<and>
      write_view (all_writes opts evs) = write_view (concat (map ?f g1)) ++ write_view (all_writes opts (filter (\<lambda>e. q + 1 \<le> ev_ledger e) evs)) \<and>
      write_view p ++ write_view (all_writes opts (filter (\<lambda>e. q + 1 \<le> ev_ledger e) evs)) =
        write_view (all_writes opts (filter (\<lambda>e. q + 1 \<le> ev_ledger e) evs))"
    if some: "bs_checkpoint (apply_writes (take k (all_writes opts evs)) s) = Some q" for q
  proof -
    from some have g1: "g1 \<noteq> []" "q + 1 = snd (fst (last g1))" using cp by (auto split: if_splits)
    have r: "all_writes opts (filter (\<lambda>e. q + 1 \<le> ev_ledger e) evs) = concat (map ?f g2)"
      using writes_from [OF n s gs g1(1)] g1(2) by simp
    have "last g1 \<in> set ?gs" using gs g1(1) by simp
    then obtain e where "fst (last g1) = window_of ?n e" by (auto simp: grouped_def)
    then have "snd (fst (last g1)) = windowStartFor (ev_ledger e) ?n + ?n" by (simp add: window_of_def Let_def)
    then have al: "q + 1 = windowStartFor (ev_ledger e + ?n) ?n" using n g1(2) div_add_self2 [of ?n "ev_ledger e"] by (simp add: windowStartFor_def distrib_right)
    have "write_view (all_writes opts evs) = write_view (concat (map ?f g1)) ++ write_view (concat (map ?f g2))"
      by (simp add: all_writes_def gs write_view_append)
    with al r rest show ?thesis by auto
  qed
  show ?thesis by (rule exI [of _ "concat (map ?f g1)"], rule exI [of _ p], intro conjI allI impI A) (rule B, assumption, (use C in simp)+)
qed

text \<open>
  C15: a backfill that crashes after any of its writes and is started again, later, with the checkpoint it left, ends with a sink
  that answers every lookup with the verdict an uninterrupted run leaves there, apart from the time of the computation; a window that was cut
  by the crash is written whole again.
\<close>

theorem backfill_resumes:
  assumes "0 < bo_windowSize opts" "\<forall>l \<in> set ledgers. well_formed (fromExportLedger l)" "bs_checkpoint s = None"
    "backfill_run opts (memory_source_read (newMemoryExportSource ledgers)) rng None = Inr st"
    "crashed = apply_writes (take k (bf_writes st)) s"
  shows "\<exists>st'. backfill_run (opts\<lparr>bo_now := later\<rparr>) (memory_source_read (newMemoryExportSource ledgers)) rng (bs_checkpoint crashed) = Inr st' \<and>
    sink_view (apply_writes (bf_writes st') crashed) = sink_view (apply_writes (bf_writes st) s)"
proof -
  let ?n = "bo_windowSize opts" and ?later = "opts\<lparr>bo_now := later\<rparr>" and ?src = "memory_source_read (newMemoryExportSource ledgers)"
  let ?all = "events_read opts (memory_read ledgers rng)"
  have wf: "\<forall>l \<in> set (memory_read ledgers r). well_formed (fromExportLedger l)" for r using assms(2) memory_read_sub by blast
  have rng: "effective_range ?n None rng = rng" by (simp add: effective_range_def)
  from run_writes [OF assms(1), of "memory_read ledgers rng" ?src None rng] memory_read_sorted wf assms(4) have st: "bf_writes st = all_writes opts ?all"
    by (auto simp: rng memory_read_def)
  have wfe: "well_formed (events_read opts (memory_read ledgers r))" for r
    using wf [of r] by (auto simp: events_read_def wanted_events_def well_formed_def list_all_iff)
  have sorted: "sorted (map ev_ledger ?all)" by (rule events_sorted [OF memory_read_sorted])
  obtain d p where dp: "write_view (take k (all_writes opts ?all)) = write_view d ++ write_view p"
    and none: "bs_checkpoint (apply_writes (take k (all_writes opts ?all)) s) = None \<longrightarrow> d = []"
    and some: "\<forall>q. bs_checkpoint (apply_writes (take k (all_writes opts ?all)) s) = Some q \<longrightarrow>
      (\<exists>e. q + 1 = windowStartFor e ?n) \<and>
      write_view (all_writes opts ?all) = write_view d ++ write_view (all_writes opts (filter (\<lambda>e. q + 1 \<le> ev_ledger e) ?all)) \<and>
      write_view p ++ write_view (all_writes opts (filter (\<lambda>e. q + 1 \<le> ev_ledger e) ?all)) =
        write_view (all_writes opts (filter (\<lambda>e. q + 1 \<le> ev_ledger e) ?all))"
    using crash_point [OF assms(1) sorted assms(3), of k] by (elim exE conjE) (rule that)
  have sv: "sink_view crashed = sink_view s ++ (write_view d ++ write_view p)" by (simp add: assms(5) sink_view_writes st dp)
  have rerun: "\<exists>st'. backfill_run ?later ?src rng prior = Inr st' \<and>
      write_view (bf_writes st') = write_view (all_writes opts (events_read opts (memory_read ledgers r)))"
    if "r = effective_range ?n prior rng" for prior r
  proof -
    have "0 < bo_windowSize ?later" "r = effective_range (bo_windowSize ?later) prior rng" using assms(1) that by simp_all
    from run_writes [OF this(1), of "memory_read ledgers r" ?src prior rng] this(2) memory_read_sorted wf obtain st' where
      "backfill_run ?later ?src rng prior = Inr st'" "bf_writes st' = all_writes ?later (events_read ?later (memory_read ledgers r))"
      by (auto simp: memory_read_def)
    with write_view_neutral [OF writes_now [OF wfe [of r], where opts = opts and t = later]] show ?thesis by simp
  qed
  show ?thesis
  proof (cases "bs_checkpoint crashed")
    case None
    then have d: "d = []" using none by (simp add: assms(5) st)
    from rerun [OF rng [symmetric]] obtain st' where st': "backfill_run ?later ?src rng None = Inr st'"
      "write_view (bf_writes st') = write_view (all_writes opts ?all)" by blast
    have "sink_view crashed = sink_view s ++ write_view (take k (all_writes opts ?all))" by (simp add: assms(5) sink_view_writes st)
    moreover have "write_view (take k (all_writes opts ?all)) ++ write_view (all_writes opts ?all) = write_view (all_writes opts ?all)"
      using write_view_absorb [of "take k (all_writes opts ?all)" "drop k (all_writes opts ?all)"] by simp
    ultimately have "sink_view crashed ++ write_view (bf_writes st') = sink_view s ++ write_view (all_writes opts ?all)"
      by (simp only: st'(2) map_add_assoc [symmetric])
    with st'(1) None show ?thesis by (auto simp: sink_view_writes st)
  next
    case (Some q)
    then have cp: "bs_checkpoint (apply_writes (take k (all_writes opts ?all)) s) = Some q" by (simp add: assms(5) st)
    note f = some [rule_format, OF cp]
    have "windowStartFor (q + 1) ?n = q + 1" using f by (auto simp: windowStartFor_def)
    then have r: "effective_range ?n (Some q) rng = \<lparr>lr_startLedger = max (q + 1) (lr_startLedger rng), lr_endLedger = lr_endLedger rng\<rparr>"
      by (simp add: effective_range_def)
    from rerun [OF r [symmetric]] obtain st' where st': "backfill_run ?later ?src rng (Some q) = Inr st'"
      "write_view (bf_writes st') = write_view (all_writes opts (filter (\<lambda>e. q + 1 \<le> ev_ledger e) ?all))"
      by (auto simp: memory_read_from events_from)
    have "sink_view crashed ++ write_view (bf_writes st') = sink_view s ++ write_view (all_writes opts ?all)"
      using f by (simp only: sv st'(2) map_add_assoc [symmetric])
    with st'(1) Some show ?thesis by (auto simp: sink_view_writes st)
  qed
qed

lemma out_of_short_range: "lr_endLedger rng \<le> lr_startLedger rng \<Longrightarrow> reader_loop rng seen L = []"
  by (induction L arbitrary: seen) (auto simp: out_of_range_def Let_def)

text \<open>
  C18: a completed backfill that wrote anything leaves a checkpoint at the end of its last window, also when the requested range ends inside
  that window. Every later run with that checkpoint whose range ends in the window reads no ledger and writes nothing, so extending
  the range, for instance to follow the ledgers that have closed since, leaves the window's verdicts as they were.
\<close>

theorem backfill_extension_skips:
  assumes "0 < bo_windowSize opts" "\<forall>l \<in> set ledgers. well_formed (fromExportLedger l)"
    "backfill_run opts (memory_source_read (newMemoryExportSource ledgers)) rng None = Inr st" "bf_writes st \<noteq> []"
  shows "\<exists>e c. e \<in> set (events_read opts (memory_read ledgers rng)) \<and> c + 1 = snd (window_of (bo_windowSize opts) e) \<and>
    bs_checkpoint (apply_writes (bf_writes st) s) = Some c \<and>
    (\<forall>more rng'. lr_endLedger rng' \<le> c + 1 \<longrightarrow>
      backfill_run opts (memory_source_read (newMemoryExportSource more)) rng' (Some c) = Inr new_backfill)"
proof -
  let ?n = "bo_windowSize opts" and ?all = "events_read opts (memory_read ledgers rng)"
  have wf: "\<forall>l \<in> set (memory_read ledgers rng). well_formed (fromExportLedger l)" using assms(2) memory_read_sub by blast
  have rng: "effective_range ?n None rng = rng" by (simp add: effective_range_def)
  from run_writes [OF assms(1), of "memory_read ledgers rng" "memory_source_read (newMemoryExportSource ledgers)" None rng] memory_read_sorted wf assms(3)
  have st: "bf_writes st = all_writes opts ?all" by (auto simp: rng memory_read_def)
  obtain gs g where gs: "grouped (window_of ?n) ?all = gs @ [g]"
    using assms(4) st by (cases "grouped (window_of ?n) ?all" rule: rev_cases) (auto simp: all_writes_def)
  have eq: "bf_writes st = (concat (map (window_writes opts) gs) @ map (\<lambda>h. Upsert (verdict_for opts (fst g) h)) (grouped ev_subject (snd g))) @
      [SaveCheckpoint (snd (fst g) - 1)]" by (simp add: st all_writes_def gs window_writes_def)
  have cp: "bs_checkpoint (apply_writes (bf_writes st) s) = Some (snd (fst g) - 1)" unfolding eq by (rule checkpoint_writes)
  have "g \<in> set (grouped (window_of ?n) ?all)" using gs by simp
  then obtain e where e: "e \<in> set ?all" "fst g = window_of ?n e" by (auto simp: grouped_def)
  then have al: "windowStartFor (snd (fst g)) ?n = snd (fst g)"
    using assms(1) div_add_self2 [of ?n "ev_ledger e div ?n * ?n"] by (simp add: window_of_def windowStartFor_def Let_def distrib_right)
  have "backfill_run opts (memory_source_read (newMemoryExportSource more)) rng' (Some (snd (fst g) - 1)) = Inr new_backfill"
    if "lr_endLedger rng' \<le> snd (fst g)" for more rng'
  proof -
    have "reader_read (memory_source_read (newMemoryExportSource more)) (effective_range ?n (Some (snd (fst g) - 1)) rng') = []"
      unfolding reader_read_def by (rule out_of_short_range) (use that al in \<open>simp add: effective_range_def\<close>)
    then show ?thesis by (simp add: backfill_run_def) (simp add: new_backfill_def)
  qed
  with cp e show ?thesis by (intro exI [of _ e] exI [of _ "snd (fst g) - 1"]) simp
qed

text \<open>A ledger with one payment, and a run over it.\<close>

definition sample_ledger :: "(string, int) export_ledger" where
  "sample_ledger = \<lparr>el_ledgerSequence = 5, el_closeTime = ''t'', el_network = ''testnet'',
     el_transactions = [\<lparr>et_transactionId = ''tx'', et_operations = [OpPayment ''GA'' ''GB'' ''1'' ''native'']\<rparr>]\<rparr>"

definition sample_options :: backfill_options where
  "sample_options = \<lparr>bo_windowSize = 10, bo_subjects = None, bo_sha = (\<lambda>s. s), bo_before = (\<lambda>a b. a \<le> b), bo_now = ''now''\<rparr>"

lemma sample_well_formed: "well_formed (fromExportLedger sample_ledger)"
  by code_simp

theorem backfill_equals_live_witness:
  "\<exists>st vs. backfill_run sample_options (memory_source_read (newMemoryExportSource [sample_ledger])) \<lparr>lr_startLedger = 0, lr_endLedger = 8\<rparr> None = Inr st \<and>
    flush_live (bo_sha sample_options) (bo_before sample_options) ''at'' (ingestAll (bo_windowSize sample_options)
      (concat (map (\<lambda>l. fromLiveLedger (live_of l)) (memory_read [sample_ledger] \<lparr>lr_startLedger = 0, lr_endLedger = 8\<rparr>))) []) = Some (vs, []) \<and>
    map neutral (upserts (bf_writes st)) = map neutral vs"
  by (rule backfill_equals_live) (use sample_well_formed in \<open>simp_all add: sample_options_def\<close>)

lemma sample_run:
  obtains st where "backfill_run sample_options (memory_source_read (newMemoryExportSource [sample_ledger]))
    \<lparr>lr_startLedger = 0, lr_endLedger = 8\<rparr> None = Inr st" "bf_writes st \<noteq> []"
proof -
  let ?rng = "\<lparr>lr_startLedger = 0, lr_endLedger = 8\<rparr> :: ledger_range"
  have mem: "memory_read [sample_ledger] ?rng = [sample_ledger]"
    by (simp add: memory_read_def reader_read_def memory_source_read_def newMemoryExportSource_def out_of_range_def sample_ledger_def)
  have rng: "[sample_ledger] = reader_read (memory_source_read (newMemoryExportSource [sample_ledger])) (effective_range (bo_windowSize sample_options) None ?rng)"
    using mem by (simp add: effective_range_def memory_read_def)
  from run_writes [OF _ rng] sample_well_formed obtain st where st: "backfill_run sample_options (memory_source_read (newMemoryExportSource [sample_ledger])) ?rng None = Inr st"
    "bf_writes st = all_writes sample_options (events_read sample_options [sample_ledger])" by (auto simp: sample_options_def)
  have "events_read sample_options [sample_ledger] \<noteq> []"
    by (simp add: events_read_def wanted_events_def wanted_def sample_options_def sample_ledger_def fromExportLedger_def fromTransactions_def
        mapOperationToVerificationEvents_def Let_def)
  then have "bf_writes st \<noteq> []" by (simp add: st(2) all_writes_def grouped_def window_writes_def)
  with st(1) show thesis by (rule that)
qed

theorem backfill_resumes_witness:
  "\<exists>st crashed st'. backfill_run sample_options (memory_source_read (newMemoryExportSource [sample_ledger])) \<lparr>lr_startLedger = 0, lr_endLedger = 8\<rparr> None = Inr st \<and>
    crashed = apply_writes (take 1 (bf_writes st)) \<lparr>bs_sink = [], bs_checkpoint = None\<rparr> \<and>
    backfill_run (sample_options\<lparr>bo_now := ''later''\<rparr>) (memory_source_read (newMemoryExportSource [sample_ledger])) \<lparr>lr_startLedger = 0, lr_endLedger = 8\<rparr>
      (bs_checkpoint crashed) = Inr st' \<and>
    sink_view (apply_writes (bf_writes st') crashed) = sink_view (apply_writes (bf_writes st) \<lparr>bs_sink = [], bs_checkpoint = None\<rparr>)"
proof -
  obtain st where st: "backfill_run sample_options (memory_source_read (newMemoryExportSource [sample_ledger]))
    \<lparr>lr_startLedger = 0, lr_endLedger = 8\<rparr> None = Inr st" by (rule sample_run)
  have "0 < bo_windowSize sample_options" "\<forall>l \<in> set [sample_ledger]. well_formed (fromExportLedger l)"
    using sample_well_formed by (simp_all add: sample_options_def)
  from backfill_resumes [OF this _ st refl, of "\<lparr>bs_sink = [], bs_checkpoint = None\<rparr>" "''later''" 1] st show ?thesis by auto
qed

theorem backfill_extension_skips_witness:
  "\<exists>st e c. backfill_run sample_options (memory_source_read (newMemoryExportSource [sample_ledger])) \<lparr>lr_startLedger = 0, lr_endLedger = 8\<rparr> None = Inr st \<and>
    c + 1 = snd (window_of (bo_windowSize sample_options) e) \<and>
    bs_checkpoint (apply_writes (bf_writes st) \<lparr>bs_sink = [], bs_checkpoint = None\<rparr>) = Some c"
proof -
  obtain st where st: "backfill_run sample_options (memory_source_read (newMemoryExportSource [sample_ledger]))
    \<lparr>lr_startLedger = 0, lr_endLedger = 8\<rparr> None = Inr st" "bf_writes st \<noteq> []" by (rule sample_run)
  have "0 < bo_windowSize sample_options" "\<forall>l \<in> set [sample_ledger]. well_formed (fromExportLedger l)"
    using sample_well_formed by (simp_all add: sample_options_def)
  from backfill_extension_skips [OF this st, of "\<lparr>bs_sink = [], bs_checkpoint = None\<rparr>"] st(1) show ?thesis by blast
qed

end
