(* ===== verification/Fire_Verdicts.thy ===== *)
theory Fire_Verdicts
  imports Verification_Engine Verdict_Core
begin

text \<open>
  The store of worker verdicts and what reads it, below \<^verbatim>\<open>packages/worker-core/src\<close>: the shared write path of
  \<^verbatim>\<open>verification/WorkerFireVerdictStore.ts\<close>, the store of \<^verbatim>\<open>verification/MemoryWorkerVerdictStore.ts\<close>, its adapter
  \<^verbatim>\<open>verification/backstopVerdictStoreAdapter.ts\<close> and the objective monitor of \<^verbatim>\<open>backstop/slo.ts\<close> with the verdict
  store and alerts of \<^verbatim>\<open>packages/abi-registry/src\<close>. \<open>before\<close> is the collation of \<open>localeCompare\<close>. Ledgers and stroops
  are integers, so the tests for integers among them are met.
\<close>

section \<open>WorkerFireVerdictStore.ts\<close>

definition WORKER_VERDICT_SCHEMA_VERSION :: int where "WORKER_VERDICT_SCHEMA_VERSION = 1"

record stamped_verdict = worker_fire_verdict +
  vr_recordId :: string
  vr_operator :: string
  vr_engineVersion :: string
  vr_supersedes :: "string option"
  vr_correctionReason :: "string option"

record record_verdict_input = stamped_verdict +
  vi_recordedAt :: "string option"

record worker_verdict_record = stamped_verdict +
  vr_schemaVersion :: int
  vr_recordedAt :: string

record verdict_query =
  vq_fromLedger :: "int option"
  vq_toLedger :: "int option"
  vq_latestOnly :: "bool option"

datatype verdict_store_error = DuplicateVerdictRecord string | MissingCorrectionReason string

definition verdict_record :: "string \<Rightarrow> record_verdict_input \<Rightarrow> worker_verdict_record" where
  "verdict_record now input =
     stamped_verdict.extend (stamped_verdict.truncate input)
       (worker_verdict_record.fields WORKER_VERDICT_SCHEMA_VERSION (or_default (vi_recordedAt input) now))"

definition correction_missing :: "record_verdict_input \<Rightarrow> bool" where
  "correction_missing input \<longleftrightarrow> vr_supersedes input \<noteq> None \<and> or_default (vr_correctionReason input) [] = []"

definition record_with ::
  "(worker_verdict_record \<Rightarrow> 's \<Rightarrow> (verdict_store_error, 's) result) \<Rightarrow> string \<Rightarrow> record_verdict_input \<Rightarrow> 's \<Rightarrow>
   (verdict_store_error, worker_verdict_record \<times> 's) result"
where
  "record_with put_record now input s =
     (if correction_missing input then Inl (MissingCorrectionReason (vr_recordId input))
      else let r = verdict_record now input in bind_result (put_record r s) (\<lambda>s. Inr (r, s)))"

section \<open>MemoryWorkerVerdictStore.ts\<close>

record memory_verdict_store =
  mv_byRecordId :: "(string, worker_verdict_record) js_map"
  mv_byWindowId :: "(string, worker_verdict_record list) js_map"

definition new_verdict_store :: memory_verdict_store where
  "new_verdict_store = \<lparr>mv_byRecordId = [], mv_byWindowId = []\<rparr>"

definition write_verdict :: "worker_verdict_record \<Rightarrow> memory_verdict_store \<Rightarrow> (verdict_store_error, memory_verdict_store) result" where
  "write_verdict r st =
     (if map_get (mv_byRecordId st) (vr_recordId r) \<noteq> None then Inl (DuplicateVerdictRecord (vr_recordId r))
      else Inr \<lparr>mv_byRecordId = map_set (vr_recordId r) r (mv_byRecordId st), mv_byWindowId = push_to vw_windowId r (mv_byWindowId st)\<rparr>)"

definition not_superseded :: "worker_verdict_record list \<Rightarrow> worker_verdict_record list" where
  "not_superseded history =
     (let superseded = map vr_supersedes (filter (\<lambda>r. or_default (vr_supersedes r) [] \<noteq> []) history)
      in filter (\<lambda>r. Some (vr_recordId r) \<notin> set superseded) history)"

definition record_order :: "(string \<Rightarrow> string \<Rightarrow> bool) \<Rightarrow> worker_verdict_record \<Rightarrow> worker_verdict_record \<Rightarrow> bool" where
  "record_order before a b =
     (if before (vr_recordedAt a) (vr_recordedAt b) \<and> before (vr_recordedAt b) (vr_recordedAt a) then before (vr_recordId a) (vr_recordId b)
      else before (vr_recordedAt a) (vr_recordedAt b))"

definition latestOf :: "(string \<Rightarrow> string \<Rightarrow> bool) \<Rightarrow> worker_verdict_record list \<Rightarrow> worker_verdict_record option" where
  "latestOf before history =
     (let sorted = sort_with (record_order before) (not_superseded history) in if sorted = [] then None else Some (last sorted))"

definition getHistoryForWindow :: "string \<Rightarrow> memory_verdict_store \<Rightarrow> worker_verdict_record list" where
  "getHistoryForWindow windowId st = or_default (map_get (mv_byWindowId st) windowId) []"

definition getLatestForWindow :: "(string \<Rightarrow> string \<Rightarrow> bool) \<Rightarrow> string \<Rightarrow> memory_verdict_store \<Rightarrow> worker_verdict_record option" where
  "getLatestForWindow before windowId st = latestOf before (getHistoryForWindow windowId st)"

definition in_ledgers :: "verdict_query \<Rightarrow> worker_verdict_record \<Rightarrow> bool" where
  "in_ledgers options r \<longleftrightarrow>
     \<not> (case vq_fromLedger options of Some l \<Rightarrow> vw_deadlineLedger r < l | None \<Rightarrow> False) \<and>
     \<not> (case vq_toLedger options of Some l \<Rightarrow> vw_conditionLedger r > l | None \<Rightarrow> False)"

definition query_verdicts ::
  "(string \<Rightarrow> string \<Rightarrow> bool) \<Rightarrow> (worker_verdict_record \<Rightarrow> bool) \<Rightarrow> verdict_query \<Rightarrow> memory_verdict_store \<Rightarrow> worker_verdict_record list"
where
  "query_verdicts before matches options st =
     (let found = filter (\<lambda>r. matches r \<and> in_ledgers options r) (map snd (mv_byRecordId st))
      in if or_default (vq_latestOnly options) True
         then List.map_filter (\<lambda>w. case getLatestForWindow before w st of Some r \<Rightarrow> if matches r then Some r else None | None \<Rightarrow> None)
                (uniq (map vw_windowId found))
         else found)"

definition no_options :: verdict_query where
  "no_options = \<lparr>vq_fromLedger = None, vq_toLedger = None, vq_latestOnly = None\<rparr>"

definition queryByWorker where
  "queryByWorker before workerId options st = query_verdicts before (\<lambda>r. vw_workerId r = workerId) options st"

definition queryByOperator where
  "queryByOperator before operator options st = query_verdicts before (\<lambda>r. vr_operator r = operator) options st"

definition queryByLedgerRange where
  "queryByLedgerRange before fromLedger toLedger options st =
     query_verdicts before (\<lambda>r. vw_conditionLedger r \<le> toLedger \<and> vw_deadlineLedger r \<ge> fromLedger) options st"

section \<open>verdictStore.ts and alertManager.ts of the registry\<close>

datatype abi_status = AbiVerified | AbiMismatch | AbiUnverifiable

record abi_verdict =
  av_contractId :: string
  av_status :: abi_status
  av_verifiedAt :: string
  av_previousStatus :: "abi_status option"

type_synonym abi_store = "(string, abi_verdict list) js_map"

definition record_abi :: "abi_verdict \<Rightarrow> abi_store \<Rightarrow> abi_store" where
  "record_abi v records = push_to av_contractId v records"

definition getLatest_abi :: "string \<Rightarrow> abi_store \<Rightarrow> abi_verdict option" where
  "getLatest_abi contractId records =
     (case map_get records contractId of None \<Rightarrow> None | Some vs \<Rightarrow> if vs = [] then None else Some (last vs))"

definition getAll_abi :: "abi_store \<Rightarrow> abi_verdict list" where
  "getAll_abi records = List.map_filter (\<lambda>(_, vs). if vs = [] then None else Some (last vs)) records"

definition getHistory_abi :: "string \<Rightarrow> abi_store \<Rightarrow> abi_verdict list" where
  "getHistory_abi contractId records = or_default (map_get records contractId) []"

section \<open>slo.ts\<close>

definition ORBITAL_BACKSTOP_OPERATOR_ID :: string where "ORBITAL_BACKSTOP_OPERATOR_ID = ''orbital''"

definition MAX_LEDGER :: int where "MAX_LEDGER = 1000000"

definition MAX_STROOPS :: int where "MAX_STROOPS = 9223372036854775807"

text \<open>A status arrives as a text; the type admits four of them.\<close>

definition WINDOW_STATUSES :: "string list" where
  "WINDOW_STATUSES = [''fired'', ''missed'', ''late'', ''not-due'']"

record worker_window_verdict =
  ww_workerId :: string
  ww_operatorId :: string
  ww_windowId :: string
  ww_status :: string
  ww_ledgerStart :: int
  ww_ledgerEnd :: int

record slo_bounds =
  sb_latencyBoundLedgers :: int
  sb_gracePeriodLedgers :: int
  sb_xlmFloatMinStroops :: int
  sb_monitoringLagGraceLedgers :: int

datatype slo_status = SloMeeting | SloBreached | SloUnverifiable

record slo_score =
  os_operatorId :: string
  os_formulaVersion :: string
  os_kind :: string

datatype slo_error = MissingDependency string | InvalidOperator | LedgerOutOfRange string | StroopsOutOfRange | BoundsOutOfRange string | UnknownVerdict

text \<open>The stores and the alerts raised, and the input; \<open>None\<close> is a dependency that is absent.\<close>

record 's slo_world =
  sw_store :: 's
  sw_abi :: abi_store
  sw_alerts :: "(abi_verdict \<times> abi_verdict) list"

record ('s, 'e) slo_input =
  si_windows :: "worker_window_verdict list option"
  si_bounds :: "slo_bounds option"
  si_xlmFloatStroops :: int
  si_chainHeadLedger :: int
  si_lastProcessedLedger :: int
  si_record :: "(worker_window_verdict \<Rightarrow> 's \<Rightarrow> ('e, 's) result) option"
  si_getByOperator :: "string \<Rightarrow> 's \<Rightarrow> worker_window_verdict list"
  si_scorer :: "('s \<Rightarrow> string \<Rightarrow> slo_score) option"
  si_alertManager :: bool
  si_sloVerdictStore :: bool
  si_now :: string

record slo_result =
  sr_status :: slo_status
  sr_operatorScore :: slo_score
  sr_abiRecord :: abi_verdict

definition requireDep :: "'a option \<Rightarrow> string \<Rightarrow> (slo_error, 'a) result" where
  "requireDep v name = (case v of None \<Rightarrow> Inl (MissingDependency name) | Some x \<Rightarrow> Inr x)"

definition check_that :: "bool \<Rightarrow> slo_error \<Rightarrow> (slo_error, unit) result" where
  "check_that ok e = (if ok then Inr () else Inl e)"

definition assertLedger_slo :: "int \<Rightarrow> string \<Rightarrow> (slo_error, unit) result" where
  "assertLedger_slo v label = check_that (\<not> (v < 0 \<or> v > MAX_LEDGER)) (LedgerOutOfRange label)"

definition assertBoundLedger :: "int \<Rightarrow> string \<Rightarrow> (slo_error, unit) result" where
  "assertBoundLedger v label = check_that (\<not> (v < 1 \<or> v > MAX_LEDGER)) (BoundsOutOfRange label)"

definition sloToAbi :: "slo_status \<Rightarrow> abi_status" where
  "sloToAbi s = (case s of SloMeeting \<Rightarrow> AbiVerified | SloBreached \<Rightarrow> AbiMismatch | SloUnverifiable \<Rightarrow> AbiUnverifiable)"

definition assertOperatorId :: "string \<Rightarrow> (slo_error, unit) result" where
  "assertOperatorId i = check_that (\<not> (length i = 0 \<or> length i > 128)) InvalidOperator"

definition checkInput ::
  "('s, 'e) slo_input \<Rightarrow> (slo_error, (worker_window_verdict \<Rightarrow> 's \<Rightarrow> ('e, 's) result) \<times> ('s \<Rightarrow> string \<Rightarrow> slo_score) \<times> worker_window_verdict list \<times> slo_bounds) result"
where
  "checkInput i =
     bind_result (requireDep (si_record i) ''store'') (\<lambda>rec.
     bind_result (requireDep (si_scorer i) ''scorer'') (\<lambda>scorer.
     bind_result (requireDep (if si_alertManager i then Some () else None) ''alertManager'') (\<lambda>_.
     bind_result (requireDep (if si_sloVerdictStore i then Some () else None) ''sloVerdictStore'') (\<lambda>_.
     bind_result (requireDep (si_windows i) ''windows'') (\<lambda>windows.
     bind_result (requireDep (si_bounds i) ''bounds'') (\<lambda>bounds.
     bind_result (assertBoundLedger (sb_latencyBoundLedgers bounds) ''latencyBoundLedgers'') (\<lambda>_.
     bind_result (assertBoundLedger (sb_gracePeriodLedgers bounds) ''gracePeriodLedgers'') (\<lambda>_.
     bind_result (assertBoundLedger (sb_monitoringLagGraceLedgers bounds) ''monitoringLagGraceLedgers'') (\<lambda>_.
     bind_result (check_that (\<not> (sb_xlmFloatMinStroops bounds < 0 \<or> sb_xlmFloatMinStroops bounds > MAX_STROOPS)) (BoundsOutOfRange ''xlmFloatMinStroops'')) (\<lambda>_.
     bind_result (assertLedger_slo (si_chainHeadLedger i) ''chainHeadLedger'') (\<lambda>_.
     bind_result (assertLedger_slo (si_lastProcessedLedger i) ''lastProcessedLedger'') (\<lambda>_.
     bind_result (check_that (\<not> si_lastProcessedLedger i > si_chainHeadLedger i) (LedgerOutOfRange ''lastProcessedLedger'')) (\<lambda>_.
     bind_result (check_that (\<not> (si_xlmFloatStroops i < 0 \<or> si_xlmFloatStroops i > MAX_STROOPS)) StroopsOutOfRange) (\<lambda>_.
       Inr (rec, scorer, windows, bounds)))))))))))))))"

definition check_window :: "worker_window_verdict \<Rightarrow> (slo_error, unit) result" where
  "check_window w =
     bind_result (assertOperatorId (ww_operatorId w)) (\<lambda>_.
     bind_result (check_that (ww_operatorId w = ORBITAL_BACKSTOP_OPERATOR_ID) InvalidOperator) (\<lambda>_.
     bind_result (check_that (ww_status w \<in> set WINDOW_STATUSES) UnknownVerdict) (\<lambda>_.
     bind_result (assertLedger_slo (ww_ledgerStart w) ''ledgerStart'') (\<lambda>_. assertLedger_slo (ww_ledgerEnd w) ''ledgerEnd''))))"

fun record_windows ::
  "(worker_window_verdict \<Rightarrow> 's \<Rightarrow> ('e, 's) result) \<Rightarrow> worker_window_verdict list \<Rightarrow> 's \<Rightarrow> 's \<times> (slo_error + 'e) option"
where
  "record_windows rec [] s = (s, None)"
| "record_windows rec (w # ws) s =
     (case check_window w of
        Inl e \<Rightarrow> (s, Some (Inl e))
      | Inr _ \<Rightarrow> (case rec w s of Inl e \<Rightarrow> (s, Some (Inr e)) | Inr s \<Rightarrow> record_windows rec ws s))"

definition slo_status_of :: "('s, 'e) slo_input \<Rightarrow> worker_window_verdict list \<Rightarrow> slo_bounds \<Rightarrow> slo_status" where
  "slo_status_of i windows bounds =
     (let lag = si_chainHeadLedger i - si_lastProcessedLedger i; missed = (\<exists>w \<in> set windows. ww_status w = ''missed'');
          floatLow = si_xlmFloatStroops i < sb_xlmFloatMinStroops bounds; lagHigh = lag > sb_monitoringLagGraceLedgers bounds
      in if missed \<or> floatLow \<or> lagHigh then SloBreached else if windows = [] then SloUnverifiable else SloMeeting)"

definition slo_contract :: string where
  "slo_contract = ''backstop:'' @ ORBITAL_BACKSTOP_OPERATOR_ID"

definition publish_slo :: "string \<Rightarrow> abi_status \<Rightarrow> 's slo_world \<Rightarrow> 's slo_world \<times> abi_verdict" where
  "publish_slo now status w =
     (let previous = getLatest_abi slo_contract (sw_abi w);
          rec = \<lparr>av_contractId = slo_contract, av_status = status, av_verifiedAt = now, av_previousStatus = map_option av_status previous\<rparr>;
          isRepeat = (map_option av_status previous = Some status);
          isFirstNonBreach = (previous = None \<and> status \<noteq> AbiMismatch);
          prevRecord = or_default previous \<lparr>av_contractId = slo_contract, av_status = AbiVerified, av_verifiedAt = [], av_previousStatus = None\<rparr>
      in (w\<lparr>sw_abi := record_abi rec (sw_abi w),
            sw_alerts := sw_alerts w @ (if \<not> isRepeat \<and> \<not> isFirstNonBreach then [(prevRecord, rec)] else [])\<rparr>, rec))"

definition evaluateBackstopSlo :: "('s, 'e) slo_input \<Rightarrow> 's slo_world \<Rightarrow> 's slo_world \<times> (slo_error + 'e, slo_result) result" where
  "evaluateBackstopSlo i w =
     (case checkInput i of
        Inl e \<Rightarrow> (w, Inl (Inl e))
      | Inr (rec, scorer, windows, bounds) \<Rightarrow>
          (case record_windows rec windows (sw_store w) of
             (s, Some e) \<Rightarrow> (w\<lparr>sw_store := s\<rparr>, Inl e)
           | (s, None) \<Rightarrow>
               let score = scorer s ORBITAL_BACKSTOP_OPERATOR_ID;
                   operatorScore = (if si_getByOperator i ORBITAL_BACKSTOP_OPERATOR_ID s = []
                     then \<lparr>os_operatorId = ORBITAL_BACKSTOP_OPERATOR_ID, os_formulaVersion = os_formulaVersion score, os_kind = ''insufficient-data''\<rparr>
                     else score);
                   status = slo_status_of i windows bounds;
                   (w, rec) = publish_slo (si_now i) (sloToAbi status) (w\<lparr>sw_store := s\<rparr>)
               in (w, Inr \<lparr>sr_status = status, sr_operatorScore = operatorScore, sr_abiRecord = rec\<rparr>)))"

section \<open>backstopVerdictStoreAdapter.ts\<close>

definition isBackstopScoreable :: "worker_verdict_record \<Rightarrow> bool" where
  "isBackstopScoreable r \<longleftrightarrow> fv_status r = VFired \<or> fv_status r = VMissed \<or> fv_status r = VLate \<or> fv_status r = VNotDue"

definition status_text :: "fire_verdict_status \<Rightarrow> string" where
  "status_text s = (case s of VPending \<Rightarrow> ''pending'' | VNotDue \<Rightarrow> ''not-due'' | VFired \<Rightarrow> ''fired'' | VLate \<Rightarrow> ''late'' | VMissed \<Rightarrow> ''missed''
     | VUnverifiable \<Rightarrow> ''unverifiable'')"

definition text_status :: "string \<Rightarrow> fire_verdict_status" where
  "text_status t = (if t = ''fired'' then VFired else if t = ''missed'' then VMissed else if t = ''late'' then VLate else VNotDue)"

definition toWindowVerdict :: "worker_verdict_record \<Rightarrow> worker_window_verdict" where
  "toWindowVerdict r = \<lparr>ww_workerId = vw_workerId r, ww_operatorId = vr_operator r, ww_windowId = vw_windowId r, ww_status = status_text (fv_status r),
     ww_ledgerStart = vw_conditionLedger r, ww_ledgerEnd = vw_deadlineLedger r\<rparr>"

definition adapter_input :: "(worker_window_verdict \<Rightarrow> string \<times> string) \<Rightarrow> worker_window_verdict \<Rightarrow> record_verdict_input" where
  "adapter_input recordDefaults v =
     \<lparr>vw_windowId = ww_windowId v, vw_workerId = ww_workerId v, vw_conditionLedger = ww_ledgerStart v, vw_deadlineLedger = ww_ledgerEnd v,
      fv_status = text_status (ww_status v), fv_reason = None, fv_invocationLedger = None, fv_invocationTxHash = None, fv_latencyLedgers = None,
      vr_recordId = fst (recordDefaults v), vr_operator = ww_operatorId v, vr_engineVersion = snd (recordDefaults v),
      vr_supersedes = None, vr_correctionReason = None, vi_recordedAt = None\<rparr>"

definition adapter_record ::
  "(worker_window_verdict \<Rightarrow> string \<times> string) \<Rightarrow> string \<Rightarrow> worker_window_verdict \<Rightarrow> memory_verdict_store \<Rightarrow> (verdict_store_error, memory_verdict_store) result"
where
  "adapter_record recordDefaults now v st =
     bind_result (record_with write_verdict now (adapter_input recordDefaults v) st) (\<lambda>(_, st). Inr st)"

definition adapter_getByOperator :: "(string \<Rightarrow> string \<Rightarrow> bool) \<Rightarrow> string \<Rightarrow> memory_verdict_store \<Rightarrow> worker_window_verdict list" where
  "adapter_getByOperator before operatorId st =
     map toWindowVerdict (filter isBackstopScoreable (queryByOperator before operatorId no_options st))"

section \<open>Verdicts are kept\<close>

text \<open>What a store of verdicts promises: a write appends to a log in which no key occurs twice, or fails and changes nothing.\<close>

locale verdict_log =
  fixes put :: "'r \<Rightarrow> 's \<Rightarrow> ('e, 's) result" and entries :: "'s \<Rightarrow> 'r list" and key :: "'r \<Rightarrow> 'k" and ok :: "'s \<Rightarrow> bool"
  assumes write_appends: "ok s \<Longrightarrow> put r s = Inr s' \<Longrightarrow> ok s' \<and> entries s' = entries s @ [r]"
    and write_fails: "ok s \<Longrightarrow> (\<exists>e. put r s = Inl e) \<longleftrightarrow> key r \<in> key ` set (entries s)"
begin

fun write_all :: "'r list \<Rightarrow> 's \<Rightarrow> 's" where
  "write_all [] s = s"
| "write_all (r # rs) s = (case put r s of Inl e \<Rightarrow> write_all rs s | Inr s' \<Rightarrow> write_all rs s')"

lemma write_all_ok: "ok s \<Longrightarrow> ok (write_all rs s)"
proof (induction rs arbitrary: s)
  case (Cons r rs)
  then show ?case using write_appends [of s r] by (cases "put r s") simp_all
qed simp

lemma write_all_extends: "ok s \<Longrightarrow> \<exists>new. entries (write_all rs s) = entries s @ new \<and> set new \<subseteq> set rs"
proof (induction rs arbitrary: s)
  case (Cons r rs)
  show ?case
  proof (cases "put r s")
    case (Inl e)
    with Cons obtain new where "entries (write_all rs s) = entries s @ new" "set new \<subseteq> set rs" by blast
    with Inl show ?thesis by auto
  next
    case (Inr s')
    with Cons write_appends obtain new where "entries (write_all rs s') = entries s' @ new" "set new \<subseteq> set rs" "entries s' = entries s @ [r]" by blast
    with Inr show ?thesis by auto
  qed
qed simp

lemma write_all_distinct: "ok s \<Longrightarrow> distinct (map key (entries s)) \<Longrightarrow> distinct (map key (entries (write_all rs s)))"
proof (induction rs arbitrary: s)
  case (Cons r rs)
  show ?case
  proof (cases "put r s")
    case (Inr s')
    with Cons.prems write_fails [of s r] write_appends have "ok s'" "distinct (map key (entries s'))" by fastforce+
    with Cons.IH Inr show ?thesis by simp
  qed (use Cons in simp)
qed simp

end

text \<open>The two indices of the memory store agree with one log of records.\<close>

definition store_log :: "memory_verdict_store \<Rightarrow> worker_verdict_record list" where
  "store_log st = map snd (mv_byRecordId st)"

definition indices_ok :: "memory_verdict_store \<Rightarrow> bool" where
  "indices_ok st \<longleftrightarrow> mv_byRecordId st = map (\<lambda>r. (vr_recordId r, r)) (store_log st) \<and> mv_byWindowId st = grouped vw_windowId (store_log st)"

lemma map_set_at_end: "k \<notin> fst ` set m \<Longrightarrow> map_set k v m = m @ [(k, v)]"
  by (induction m) auto

lemma write_verdict_cases:
  assumes "indices_ok st"
  shows "write_verdict r st = (if vr_recordId r \<in> vr_recordId ` set (store_log st) then Inl (DuplicateVerdictRecord (vr_recordId r))
    else Inr \<lparr>mv_byRecordId = mv_byRecordId st @ [(vr_recordId r, r)], mv_byWindowId = grouped vw_windowId (store_log st @ [r])\<rparr>)"
proof -
  have "fst ` set (mv_byRecordId st) = vr_recordId ` set (store_log st)" using assms by (metis (no_types, lifting) fst_conv image_cong image_image indices_ok_def list.set_map)
  moreover from this have "map_get (mv_byRecordId st) (vr_recordId r) \<noteq> None \<longleftrightarrow> vr_recordId r \<in> vr_recordId ` set (store_log st)"
    by (metis map_of_eq_None_iff)
  moreover have "push_to vw_windowId r (mv_byWindowId st) = grouped vw_windowId (store_log st @ [r])"
    using assms by (simp add: indices_ok_def flip: fold_push_to)
  ultimately show ?thesis by (simp add: write_verdict_def map_set_at_end)
qed

interpretation vlog: verdict_log write_verdict store_log vr_recordId indices_ok
proof
  show "indices_ok s \<Longrightarrow> write_verdict r s = Inr s' \<Longrightarrow> indices_ok s' \<and> store_log s' = store_log s @ [r]" for s r s'
    by (auto simp: write_verdict_cases split: if_splits) (auto simp: indices_ok_def store_log_def)
  show "indices_ok s \<Longrightarrow> (\<exists>e. write_verdict r s = Inl e) \<longleftrightarrow> vr_recordId r \<in> vr_recordId ` set (store_log s)" for s r
    by (simp add: write_verdict_cases)
qed

text \<open>Attempts to record, each at its time; a failed one leaves the store as it was.\<close>

fun record_all :: "(string \<times> record_verdict_input) list \<Rightarrow> memory_verdict_store \<Rightarrow> memory_verdict_store" where
  "record_all [] st = st"
| "record_all ((now, i) # rest) st =
     (case record_with write_verdict now i st of Inl e \<Rightarrow> record_all rest st | Inr (r, st') \<Rightarrow> record_all rest st')"

lemma record_all_write_all:
  "record_all xs st = vlog.write_all (map (\<lambda>(now, i). verdict_record now i) (filter (\<lambda>(now, i). \<not> correction_missing i) xs)) st"
  by (induction xs st rule: record_all.induct) (auto simp: record_with_def Let_def split: sum.splits)

lemma record_all_append: "record_all (xs @ ys) st = record_all ys (record_all xs st)"
  by (induction xs st rule: record_all.induct) (auto split: sum.splits)

lemma new_store_ok: "indices_ok new_verdict_store" "store_log new_verdict_store = []"
  by (simp_all add: indices_ok_def new_verdict_store_def store_log_def grouped_def)

lemma history_filter: "indices_ok st \<Longrightarrow> getHistoryForWindow w st = filter (\<lambda>r. vw_windowId r = w) (store_log st)"
  by (auto simp: getHistoryForWindow_def indices_ok_def grouped_def map_get_tabulate or_default_simps)
    (metis (mono_tags, lifting) filter_False image_eqI)

text \<open>
  C35: the store of verdicts is append-only. Whatever is recorded after, the history of a window keeps every record it had, in its place; the
  history is what the log has for the window, and no record id occurs twice.
\<close>

theorem verdicts_immutable:
  "(\<exists>new. getHistoryForWindow w (record_all (xs @ ys) new_verdict_store) = getHistoryForWindow w (record_all xs new_verdict_store) @ new) \<and>
   getHistoryForWindow w (record_all xs new_verdict_store) = filter (\<lambda>r. vw_windowId r = w) (store_log (record_all xs new_verdict_store)) \<and>
   distinct (map vr_recordId (store_log (record_all xs new_verdict_store)))"
proof -
  have ok: "indices_ok (record_all zs new_verdict_store)" for zs
    by (simp add: record_all_write_all vlog.write_all_ok new_store_ok)
  obtain new where "store_log (record_all (xs @ ys) new_verdict_store) = store_log (record_all xs new_verdict_store) @ new"
    using vlog.write_all_extends [OF ok [of xs]] by (fastforce simp: record_all_append record_all_write_all [of ys])
  moreover have "distinct (map vr_recordId (store_log (record_all xs new_verdict_store)))"
    by (simp add: record_all_write_all vlog.write_all_distinct new_store_ok)
  ultimately show ?thesis by (simp add: history_filter [OF ok])
qed

text \<open>A record and its corrections, each naming the one before.\<close>

fun corrects :: "worker_verdict_record list \<Rightarrow> bool" where
  "corrects (r # r' # rs) \<longleftrightarrow> vr_supersedes r' = Some (vr_recordId r) \<and> corrects (r' # rs)"
| "corrects _ \<longleftrightarrow> True"

lemma corrects_supersedes: "corrects h \<Longrightarrow> map vr_supersedes (tl h) = map (\<lambda>r. Some (vr_recordId r)) (butlast h)"
  by (induction h rule: corrects.induct) auto

text \<open>
  the newest correction is the verdict of a window. When the history of a window is a record followed by corrections each of which
  names the one before, the store answers the last, whatever times the records carry and however the collation orders them.
\<close>

theorem latest_correction_answers:
  assumes "getHistoryForWindow w st = h" "h \<noteq> []" "corrects h" "vr_supersedes (hd h) = None" "distinct (map vr_recordId h)"
    "[] \<notin> vr_recordId ` set h"
  shows "getLatestForWindow before w st = Some (last h)"
proof -
  have "set (map vr_supersedes (filter (\<lambda>r. or_default (vr_supersedes r) [] \<noteq> []) h)) = Some ` vr_recordId ` set (butlast h)"
  proof -
    have tl: "vr_supersedes ` set (tl h) = (\<lambda>r. Some (vr_recordId r)) ` set (butlast h)"
      using arg_cong [OF corrects_supersedes [OF assms(3)], of set] by simp
    have "vr_supersedes ` {r \<in> set h. or_default (vr_supersedes r) [] \<noteq> []} = vr_supersedes ` set (tl h)"
    proof -
      have "or_default (vr_supersedes r) [] \<noteq> []" if "r \<in> set (tl h)" for r
      proof -
        from that tl obtain r' where r': "r' \<in> set (butlast h)" "vr_supersedes r = Some (vr_recordId r')" by auto
        then have "vr_recordId r' \<noteq> []" using assms(6) by (metis image_eqI in_set_butlastD)
        with r' show ?thesis by (simp add: or_default_simps)
      qed
      moreover have "set h = insert (hd h) (set (tl h))" using assms(2) by (cases h) auto
      ultimately show ?thesis using assms(4) by (auto simp: or_default_simps)
    qed
    with tl show ?thesis by (simp add: image_image)
  qed
  moreover have h: "h = butlast h @ [last h]" using assms(2) by simp
  moreover have "vr_recordId (last h) \<notin> vr_recordId ` set (butlast h)"
    using assms(5) by (subst (asm) h) simp
  ultimately have "not_superseded h = filter (\<lambda>r. vr_recordId r \<notin> vr_recordId ` set (butlast h)) (butlast h @ [last h])"
    by (simp add: not_superseded_def Let_def inj_image_mem_iff)
  also have "\<dots> = [last h]" using \<open>vr_recordId (last h) \<notin> _\<close> by (auto simp: filter_empty_conv)
  finally show ?thesis using assms(1) by (simp add: getLatestForWindow_def latestOf_def sort_with_def)
qed

text \<open>A record that names itself as the one it corrects is accepted and leaves its window without a verdict.\<close>

lemma self_correction_hides_window:
  assumes "vr_supersedes i = Some (vr_recordId i)" "vr_recordId i \<noteq> []" "\<not> correction_missing i"
  shows "\<exists>r st. record_with write_verdict now i new_verdict_store = Inr (r, st) \<and> getHistoryForWindow (vw_windowId i) st = [r] \<and>
    getLatestForWindow before (vw_windowId i) st = None"
  using assms
  by (auto simp: record_with_def write_verdict_def new_verdict_store_def Let_def getHistoryForWindow_def getLatestForWindow_def latestOf_def
      not_superseded_def verdict_record_def stamped_verdict.defs worker_verdict_record.defs push_to_def or_default_simps sort_with_def)

section \<open>Objectives\<close>

text \<open>
  the backstop monitor refuses every evaluation at a ledger above one million, a ledger number that the public network passed years before;
  nothing is recorded or published then.
\<close>

theorem slo_refuses_late_ledgers:
  assumes "1000000 < si_chainHeadLedger i"
  shows "\<exists>e. evaluateBackstopSlo i w = (w, Inl (Inl e))"
proof -
  have "\<exists>e. checkInput i = Inl e"
    using assms by (auto simp: checkInput_def requireDep_def assertLedger_slo_def assertBoundLedger_def check_that_def MAX_LEDGER_def split: option.splits)
  then show ?thesis by (auto simp: evaluateBackstopSlo_def)
qed

fun evaluate_all :: "('s, 'e) slo_input list \<Rightarrow> 's slo_world \<Rightarrow> 's slo_world" where
  "evaluate_all [] w = w"
| "evaluate_all (i # is) w = evaluate_all is (fst (evaluateBackstopSlo i w))"

text \<open>The changes of status in a history, from a presumed good one.\<close>

definition change :: "abi_verdict option \<Rightarrow> abi_verdict \<Rightarrow> (abi_verdict \<times> abi_verdict) list" where
  "change p r = (case p of
     None \<Rightarrow> if av_status r = AbiMismatch
       then [(\<lparr>av_contractId = slo_contract, av_status = AbiVerified, av_verifiedAt = [], av_previousStatus = None\<rparr>, r)] else []
   | Some q \<Rightarrow> if av_status q = av_status r then [] else [(q, r)])"

fun changes :: "abi_verdict option \<Rightarrow> abi_verdict list \<Rightarrow> (abi_verdict \<times> abi_verdict) list" where
  "changes p [] = []"
| "changes p (r # rs) = change p r @ changes (Some r) rs"

lemma changes_snoc: "changes p (rs @ [r]) = changes p rs @ change (if rs = [] then p else Some (last rs)) r"
  by (induction rs arbitrary: p) auto

lemma latest_history: "getLatest_abi c m = (if getHistory_abi c m = [] then None else Some (last (getHistory_abi c m)))"
  by (auto simp: getLatest_abi_def getHistory_abi_def or_default_simps split: option.splits)

lemma history_record: "getHistory_abi c (record_abi v m) = getHistory_abi c m @ (if av_contractId v = c then [v] else [])"
  by (auto simp: getHistory_abi_def record_abi_def push_to_def or_default_simps split: option.splits)

definition alerts_ok :: "'s slo_world \<Rightarrow> bool" where
  "alerts_ok w \<longleftrightarrow> sw_alerts w = changes None (getHistory_abi slo_contract (sw_abi w))"

lemma publish_alerts: "alerts_ok w \<Longrightarrow> alerts_ok (fst (publish_slo now status w))"
  by (auto simp: alerts_ok_def publish_slo_def Let_def history_record changes_snoc latest_history change_def or_default_simps split: if_splits)

lemma evaluate_alerts: "alerts_ok w \<Longrightarrow> alerts_ok (fst (evaluateBackstopSlo i w))"
proof -
  assume ok: "alerts_ok w"
  then have "alerts_ok (w\<lparr>sw_store := s\<rparr>)" for s by (simp add: alerts_ok_def)
  then have "alerts_ok w2" if "publish_slo n t (w\<lparr>sw_store := s\<rparr>) = (w2, r)" for n t s w2 r
    using publish_alerts [of "w\<lparr>sw_store := s\<rparr>" n t] that by simp
  with ok \<open>\<And>s. alerts_ok (w\<lparr>sw_store := s\<rparr>)\<close> show ?thesis
    by (auto simp: evaluateBackstopSlo_def Let_def split: sum.splits option.splits prod.splits)
qed

text \<open>
  C39: over any sequence of evaluations, failed ones included, the alerts raised are exactly the changes of the published status, in order,
  where the status before the first evaluation counts as good and a first status that is not a breach raises none.
\<close>

theorem alerts_are_changes:
  "sw_alerts (evaluate_all is \<lparr>sw_store = s, sw_abi = [], sw_alerts = []\<rparr>) =
   changes None (getHistory_abi slo_contract (sw_abi (evaluate_all is \<lparr>sw_store = s, sw_abi = [], sw_alerts = []\<rparr>)))"
proof -
  have "alerts_ok w \<Longrightarrow> alerts_ok (evaluate_all is w)" for w by (induction "is" arbitrary: w) (simp_all add: evaluate_alerts)
  moreover have "alerts_ok \<lparr>sw_store = s, sw_abi = [], sw_alerts = []\<rparr>" by (simp add: alerts_ok_def getHistory_abi_def or_default_simps)
  ultimately show ?thesis by (simp add: alerts_ok_def)
qed

lemma adapter_record_ok:
  assumes "adapter_record d now v st = Inr st'" "indices_ok st"
  shows "indices_ok st' \<and> fst (d v) \<in> vr_recordId ` set (store_log st') \<and> set (store_log st) \<subseteq> set (store_log st')"
proof -
  let ?r = "verdict_record now (adapter_input d v)"
  have "write_verdict ?r st = Inr st'" using assms(1) by (auto simp: adapter_record_def record_with_def Let_def split: if_splits)
  from vlog.write_appends [OF assms(2) this] have st': "indices_ok st'" "store_log st' = store_log st @ [?r]" by simp_all
  have "vr_recordId ?r = fst (d v)" by (simp add: verdict_record_def adapter_input_def stamped_verdict.defs worker_verdict_record.defs)
  with st' show ?thesis by auto
qed

lemma record_windows_adapter:
  assumes "record_windows (adapter_record d now) ws st = (st', None)" "indices_ok st"
  shows "indices_ok st' \<and> set (store_log st) \<subseteq> set (store_log st') \<and>
    (\<forall>v \<in> set ws. fst (d v) \<in> vr_recordId ` set (store_log st') \<and> check_window v = Inr ())"
  using assms
proof (induction ws arbitrary: st)
  case (Cons v ws)
  then obtain st1 where c: "check_window v = Inr ()" and a: "adapter_record d now v st = Inr st1" and r: "record_windows (adapter_record d now) ws st1 = (st', None)"
    by (auto split: sum.splits)
  from adapter_record_ok [OF a Cons.prems(2)] Cons.IH [OF r] c show ?case by auto
qed simp

lemma adapter_record_again:
  assumes "indices_ok st" "fst (d v) \<in> vr_recordId ` set (store_log st)"
  shows "adapter_record d now v st = Inl (DuplicateVerdictRecord (fst (d v)))"
proof -
  let ?r = "verdict_record now (adapter_input d v)"
  have i: "vr_recordId ?r = fst (d v)" by (simp add: verdict_record_def adapter_input_def stamped_verdict.defs worker_verdict_record.defs)
  have "\<not> correction_missing (adapter_input d v)" by (simp add: correction_missing_def adapter_input_def)
  with assms i show ?thesis by (simp add: adapter_record_def record_with_def write_verdict_cases [OF assms(1)] Let_def)
qed

text \<open>
  with the adapter over the store of verdicts, an evaluation whose first window an earlier evaluation has recorded fails and changes
  nothing: no status is published and no alert raised, whatever the float and the lag have become. A monitor that looks at overlapping windows
  goes silent.
\<close>

theorem overlapping_evaluation_fails:
  assumes "evaluateBackstopSlo i w = (w', Inr r)" "si_record i = Some (adapter_record d now)" "si_windows i = Some ws" "indices_ok (sw_store w)"
    "si_record j = Some (adapter_record d later)" "si_windows j = Some (v # vs)" "v \<in> set ws"
  shows "\<exists>e. evaluateBackstopSlo j w' = (w', Inl e)"
proof (cases "checkInput j")
  case (Inl e)
  then show ?thesis by (simp add: evaluateBackstopSlo_def)
next
  case (Inr q)
  then obtain sc b where q: "checkInput j = Inr (adapter_record d later, sc, v # vs, b)"
    using assms(5,6) by (auto simp: checkInput_def requireDep_def)
  from assms(1-3) obtain st where run: "record_windows (adapter_record d now) ws (sw_store w) = (st, None)" and st: "sw_store w' = st"
    by (auto simp: evaluateBackstopSlo_def checkInput_def requireDep_def publish_slo_def Let_def split: sum.splits option.splits prod.splits)
  from record_windows_adapter [OF run assms(4)] assms(7) have "indices_ok st" "fst (d v) \<in> vr_recordId ` set (store_log st)" "check_window v = Inr ()"
    by auto
  with q st show ?thesis by (simp add: evaluateBackstopSlo_def adapter_record_again)
qed

section \<open>Examples\<close>

definition sample_record :: "string \<Rightarrow> string option \<Rightarrow> worker_verdict_record" where
  "sample_record i corrected =
     \<lparr>vw_windowId = ''w'', vw_workerId = ''worker'', vw_conditionLedger = 1, vw_deadlineLedger = 9, fv_status = VMissed, fv_reason = None,
      fv_invocationLedger = None, fv_invocationTxHash = None, fv_latencyLedgers = None, vr_recordId = i, vr_operator = ''op'',
      vr_engineVersion = ''v1'', vr_supersedes = corrected, vr_correctionReason = Some ''engine'', vr_schemaVersion = 1, vr_recordedAt = ''t''\<rparr>"

theorem latest_correction_answers_witness:
  "getLatestForWindow (\<lambda>a b. a \<le> b) ''w''
     \<lparr>mv_byRecordId = [(''b'', sample_record ''b'' None), (''a'', sample_record ''a'' (Some ''b''))],
      mv_byWindowId = [(''w'', [sample_record ''b'' None, sample_record ''a'' (Some ''b'')])]\<rparr> = Some (sample_record ''a'' (Some ''b''))"
  using latest_correction_answers [of "''w''" "\<lparr>mv_byRecordId = [(''b'', sample_record ''b'' None), (''a'', sample_record ''a'' (Some ''b''))],
      mv_byWindowId = [(''w'', [sample_record ''b'' None, sample_record ''a'' (Some ''b'')])]\<rparr>"
      "[sample_record ''b'' None, sample_record ''a'' (Some ''b'')]" "\<lambda>a b. a \<le> b"]
  by (simp add: getHistoryForWindow_def sample_record_def or_default_simps)

definition sample_window :: worker_window_verdict where
  "sample_window = \<lparr>ww_workerId = ''worker'', ww_operatorId = ''orbital'', ww_windowId = ''w'', ww_status = ''fired'', ww_ledgerStart = 1, ww_ledgerEnd = 9\<rparr>"

definition sample_slo :: "int \<Rightarrow> (memory_verdict_store, verdict_store_error) slo_input" where
  "sample_slo head =
     \<lparr>si_windows = Some [sample_window],
      si_bounds = Some \<lparr>sb_latencyBoundLedgers = 5, sb_gracePeriodLedgers = 5, sb_xlmFloatMinStroops = 100, sb_monitoringLagGraceLedgers = 5\<rparr>,
      si_xlmFloatStroops = 100, si_chainHeadLedger = head, si_lastProcessedLedger = head,
      si_record = Some (adapter_record (\<lambda>v. (ww_windowId v, ''v1'')) ''t''), si_getByOperator = adapter_getByOperator (\<lambda>a b. a \<le> b),
      si_scorer = Some (\<lambda>_ i. \<lparr>os_operatorId = i, os_formulaVersion = ''1'', os_kind = ''scored''\<rparr>),
      si_alertManager = True, si_sloVerdictStore = True, si_now = ''t''\<rparr>"

definition new_world :: "memory_verdict_store slo_world" where
  "new_world = \<lparr>sw_store = new_verdict_store, sw_abi = [], sw_alerts = []\<rparr>"

theorem slo_refuses_late_ledgers_witness: "\<exists>e. evaluateBackstopSlo (sample_slo 55000000) new_world = (new_world, Inl (Inl e))"
  by (rule slo_refuses_late_ledgers) (simp add: sample_slo_def)

theorem overlapping_evaluation_fails_witness:
  "\<exists>w r e. evaluateBackstopSlo (sample_slo 10) new_world = (w, Inr r) \<and> evaluateBackstopSlo (sample_slo 20) w = (w, Inl e)"
proof -
  have check: "checkInput (sample_slo 10) = Inr (adapter_record (\<lambda>v. (ww_windowId v, ''v1'')) ''t'', the (si_scorer (sample_slo 10)), [sample_window], the (si_bounds (sample_slo 10)))"
    by (simp add: checkInput_def sample_slo_def requireDep_def assertLedger_slo_def assertBoundLedger_def check_that_def MAX_LEDGER_def MAX_STROOPS_def)
  have window: "check_window sample_window = Inr ()"
    by (simp add: check_window_def sample_window_def assertOperatorId_def assertLedger_slo_def check_that_def ORBITAL_BACKSTOP_OPERATOR_ID_def
        WINDOW_STATUSES_def MAX_LEDGER_def)
  obtain st where "adapter_record (\<lambda>v. (ww_windowId v, ''v1'')) ''t'' sample_window new_verdict_store = Inr st"
    by (simp add: adapter_record_def record_with_def correction_missing_def adapter_input_def write_verdict_def new_verdict_store_def Let_def)
  then obtain w r where run: "evaluateBackstopSlo (sample_slo 10) new_world = (w, Inr r)"
    using check window by (auto simp: evaluateBackstopSlo_def new_world_def publish_slo_def Let_def)
  have "\<exists>e. evaluateBackstopSlo (sample_slo 20) w = (w, Inl e)"
    by (rule overlapping_evaluation_fails [OF run, where ws = "[sample_window]" and v = sample_window and vs = "[]"])
      (simp_all add: sample_slo_def new_world_def new_store_ok)
  with run show ?thesis by blast
qed

end
