(* ===== verification/Worker_State.thy ===== *)
theory Worker_State
  imports Cursor_Stores Stellar_Values Js_Json
begin

text \<open>
  Worker state, below \<^verbatim>\<open>packages/worker-core/src\<close>: the records of \<^verbatim>\<open>WorkerStateStore.ts\<close>, the stores of
  \<^verbatim>\<open>MemoryWorkerStateStore.ts\<close> and \<^verbatim>\<open>FileWorkerStateStore.ts\<close>, and \<^verbatim>\<open>migrateWorkerState.ts\<close>. The two stores differ in how
  they read and write the state of one worker; the rest of their methods is the same text. A directory maps file
  names to states, \<open>None\<close> being a file that does not parse to one; the names are those of \<^theory_text>\<open>Cursor_Stores\<close>, which has the same naming.
  A write goes to a fresh temporary file and is renamed, so it takes place at once; failures of the file system are left out.
\<close>

section \<open>WorkerStateStore.ts\<close>

definition WORKER_STATE_SCHEMA_VERSION :: int where "WORKER_STATE_SCHEMA_VERSION = 1"

record worker_fire_record =
  wf_windowStart :: string
  wf_windowEnd :: string
  wf_firedAt :: string
  wf_payload :: "js_value option"

record worker_claim_record =
  wc_windowId :: string
  wc_workerId :: string
  wc_claimedAt :: string
  wc_expiresAt :: string

record stored_worker =
  ws_schemaVersion :: int
  ws_workerId :: string
  ws_registeredAt :: string
  ws_updatedAt :: string
  ws_lastFiredWindowStart :: "string option"
  ws_lastFiredWindowEnd :: "string option"
  ws_fireHistory :: "worker_fire_record list"
  ws_activeClaims :: "worker_claim_record list"
  ws_metadata :: "(string, js_value) js_map"

record register_input =
  ri_workerId :: string
  ri_registeredAt :: "string option"
  ri_metadata :: "(string, js_value) js_map option"

datatype state_error = NotRegistered string

datatype worker_op =
    RegisterWorker register_input
  | AppendFire string worker_fire_record
  | WriteClaim string worker_claim_record
  | ReleaseClaim string string

section \<open>The methods of both stores\<close>

definition registered :: "string \<Rightarrow> register_input \<Rightarrow> stored_worker" where
  "registered now input =
     \<lparr>ws_schemaVersion = WORKER_STATE_SCHEMA_VERSION, ws_workerId = ri_workerId input, ws_registeredAt = or_default (ri_registeredAt input) now,
      ws_updatedAt = now, ws_lastFiredWindowStart = None, ws_lastFiredWindowEnd = None, ws_fireHistory = [], ws_activeClaims = [],
      ws_metadata = or_default (ri_metadata input) []\<rparr>"

definition registerWorker ::
  "(string \<Rightarrow> 's \<Rightarrow> stored_worker option) \<Rightarrow> (string \<Rightarrow> stored_worker \<Rightarrow> 's \<Rightarrow> 's) \<Rightarrow> string \<Rightarrow> register_input \<Rightarrow> 's \<Rightarrow> stored_worker \<times> 's"
where
  "registerWorker get put now input st =
     (case get (ri_workerId input) st of
        Some existing \<Rightarrow> (existing, st)
      | None \<Rightarrow> let state = registered now input in (state, put (ri_workerId input) state st))"

definition with_fire :: "string \<Rightarrow> worker_fire_record \<Rightarrow> stored_worker \<Rightarrow> stored_worker" where
  "with_fire now r existing =
     existing\<lparr>ws_updatedAt := now, ws_lastFiredWindowStart := Some (wf_windowStart r), ws_lastFiredWindowEnd := Some (wf_windowEnd r),
       ws_fireHistory := ws_fireHistory existing @ [r]\<rparr>"

definition with_claim :: "string \<Rightarrow> worker_claim_record \<Rightarrow> stored_worker \<Rightarrow> stored_worker" where
  "with_claim now c existing =
     existing\<lparr>ws_updatedAt := now, ws_activeClaims := filter (\<lambda>d. wc_windowId d \<noteq> wc_windowId c) (ws_activeClaims existing) @ [c]\<rparr>"

definition without_claim :: "string \<Rightarrow> string \<Rightarrow> stored_worker \<Rightarrow> stored_worker" where
  "without_claim now windowId existing =
     existing\<lparr>ws_updatedAt := now, ws_activeClaims := filter (\<lambda>d. wc_windowId d \<noteq> windowId) (ws_activeClaims existing)\<rparr>"

definition update_existing ::
  "(string \<Rightarrow> 's \<Rightarrow> stored_worker option) \<Rightarrow> (string \<Rightarrow> stored_worker \<Rightarrow> 's \<Rightarrow> 's) \<Rightarrow> string \<Rightarrow> (stored_worker \<Rightarrow> stored_worker) \<Rightarrow> 's \<Rightarrow>
   (state_error, stored_worker \<times> 's) result"
where
  "update_existing get put workerId f st =
     (case get workerId st of None \<Rightarrow> Inl (NotRegistered workerId) | Some existing \<Rightarrow> Inr (f existing, put workerId (f existing) st))"

definition appendFireRecord where
  "appendFireRecord get put now workerId r st = update_existing get put workerId (with_fire now r) st"

definition writeClaim where
  "writeClaim get put now workerId c st = update_existing get put workerId (with_claim now c) st"

definition releaseClaim where
  "releaseClaim get put now workerId windowId st = update_existing get put workerId (without_claim now windowId) st"

section \<open>MemoryWorkerStateStore.ts\<close>

type_synonym memory_states = "(string, stored_worker) js_map"

definition mem_getWorker :: "string \<Rightarrow> memory_states \<Rightarrow> stored_worker option" where
  "mem_getWorker workerId st = map_get st workerId"

definition mem_putWorker :: "string \<Rightarrow> stored_worker \<Rightarrow> memory_states \<Rightarrow> memory_states" where
  "mem_putWorker workerId state st = map_set workerId state st"


section \<open>File names\<close>

text \<open>\<open>decodeURIComponent\<close>; \<open>None\<close> is the \<open>URIError\<close> of a malformed sequence, or a character from 256 on.\<close>

definition hex_byte :: "char \<Rightarrow> char \<Rightarrow> nat option" where
  "hex_byte a b = (case (hex_value a, hex_value b) of (Some x, Some y) \<Rightarrow> Some (16 * x + y) | _ \<Rightarrow> None)"

fun decodeURIComponent :: "string \<Rightarrow> string option" where
  "decodeURIComponent [] = Some []"
| "decodeURIComponent (c # s) =
     (if c \<noteq> CHR ''%'' then map_option (Cons c) (decodeURIComponent s)
      else case s of
        a # b # s1 \<Rightarrow>
          (case hex_byte a b of
             None \<Rightarrow> None
           | Some x \<Rightarrow>
               if x < 128 then map_option (Cons (char_of x)) (decodeURIComponent s1)
               else if x < 194 \<or> 195 < x then None
               else case s1 of
                 p # a2 # b2 # s2 \<Rightarrow>
                   (case hex_byte a2 b2 of
                      Some y \<Rightarrow> if p = CHR ''%'' \<and> 128 \<le> y \<and> y < 192 then map_option (Cons (char_of (64 * (x - 192) + (y - 128)))) (decodeURIComponent s2) else None
                    | None \<Rightarrow> None)
               | _ \<Rightarrow> None)
      | _ \<Rightarrow> None)"

lemma hex_value_upper: "d < 16 \<Longrightarrow> hex_value (hex_digit d) = Some d"
  by (simp add: hex_value_def hex_digit_def Let_def)

lemma hex_byte_percent: "b < 256 \<Longrightarrow> hex_byte (hex_digit (b div 16)) (hex_digit (b mod 16)) = Some b"
  by (simp add: hex_byte_def hex_value_upper)

lemma decode_encode_char: "decodeURIComponent (encode_char c @ s) = map_option (Cons c) (decodeURIComponent s)"
proof -
  let ?n = "(of_char c :: nat)"
  have n: "?n < 256" by (simp add: nat_of_char_less_256)
  consider "uri_unreserved c" | "\<not> uri_unreserved c" "?n < 128" | "\<not> uri_unreserved c" "128 \<le> ?n" by fastforce
  then show ?thesis
  proof cases
    case 1
    then have "c \<noteq> CHR ''%''" by (auto simp: uri_unreserved_def Let_def)
    with 1 show ?thesis by (simp add: encode_char_def)
  next
    case 2
    then show ?thesis using n by (simp add: encode_char_def Let_def percent_def hex_byte_percent)
  next
    case 3
    let ?x = "192 + ?n div 64" and ?y = "128 + ?n mod 64"
    have d: "?n div 64 < 4" "2 \<le> ?n div 64" using n 3 by (simp_all add: div_less_iff_less_mult less_eq_div_iff_mult_less_eq)
    then have x: "194 \<le> ?x" "?x \<le> 195" "?x < 256" "?y < 192" by auto
    have "64 * (?x - 192) + (?y - 128) = ?n" by simp
    with x 3 show ?thesis
      by (simp add: encode_char_def Let_def percent_def hex_byte_percent [of ?x, simplified] hex_byte_percent [of ?y, simplified])
  qed
qed

lemma decode_encode: "decodeURIComponent (encodeURIComponent s) = Some s"
  by (induction s) (simp_all add: encodeURIComponent_def decode_encode_char)

section \<open>FileWorkerStateStore.ts\<close>

type_synonym state_dir = "(string, stored_worker option) js_map"

definition readRaw :: "string \<Rightarrow> state_dir \<Rightarrow> stored_worker option" where
  "readRaw workerId d = (case map_get d (safeFilename workerId) of None \<Rightarrow> None | Some state \<Rightarrow> state)"

definition writeAtomic :: "string \<Rightarrow> stored_worker \<Rightarrow> state_dir \<Rightarrow> state_dir" where
  "writeAtomic workerId state d = map_set (safeFilename workerId) (Some state) d"

text \<open>\<open>None\<close> is the exception of a file name that is not well encoded.\<close>

fun file_getAllWorkers :: "string list \<Rightarrow> state_dir \<Rightarrow> stored_worker list option" where
  "file_getAllWorkers [] d = Some []"
| "file_getAllWorkers (name # names) d =
     (if \<not> is_prefix (rev ''.json'') (rev name) then file_getAllWorkers names d
      else case decodeURIComponent (take (length name - 5) name) of
        None \<Rightarrow> None
      | Some workerId \<Rightarrow> map_option (\<lambda>rest. case readRaw workerId d of None \<Rightarrow> rest | Some s \<Rightarrow> s # rest) (file_getAllWorkers names d))"

section \<open>migrateWorkerState.ts\<close>

fun do_all :: "('a \<Rightarrow> 's \<Rightarrow> (state_error, stored_worker \<times> 's) result) \<Rightarrow> 'a list \<Rightarrow> 's \<Rightarrow> (state_error, 's) result" where
  "do_all f [] st = Inr st"
| "do_all f (x # xs) st = bind_result (f x st) (\<lambda>(_, st). do_all f xs st)"

definition migrate_worker where
  "migrate_worker get put now worker st =
     (let (_, st) = registerWorker get put now
            \<lparr>ri_workerId = ws_workerId worker, ri_registeredAt = Some (ws_registeredAt worker), ri_metadata = Some (ws_metadata worker)\<rparr> st
      in bind_result (do_all (appendFireRecord get put now (ws_workerId worker)) (ws_fireHistory worker) st) (\<lambda>st.
           do_all (writeClaim get put now (ws_workerId worker)) (ws_activeClaims worker) st))"

fun migrateWorkerState ::
  "(string \<Rightarrow> 's \<Rightarrow> stored_worker option) \<Rightarrow> (string \<Rightarrow> stored_worker \<Rightarrow> 's \<Rightarrow> 's) \<Rightarrow> string \<Rightarrow> stored_worker list \<Rightarrow> 's \<Rightarrow> (state_error, 's) result"
where
  "migrateWorkerState get put now [] st = Inr st"
| "migrateWorkerState get put now (w # ws) st = bind_result (migrate_worker get put now w st) (migrateWorkerState get put now ws)"

section \<open>Operations in sequence\<close>

fun state_op ::
  "(string \<Rightarrow> 's \<Rightarrow> stored_worker option) \<Rightarrow> (string \<Rightarrow> stored_worker \<Rightarrow> 's \<Rightarrow> 's) \<Rightarrow> string \<Rightarrow> worker_op \<Rightarrow> 's \<Rightarrow> (state_error, stored_worker \<times> 's) result"
where
  "state_op get put now (RegisterWorker i) st = Inr (registerWorker get put now i st)"
| "state_op get put now (AppendFire w r) st = appendFireRecord get put now w r st"
| "state_op get put now (WriteClaim w c) st = writeClaim get put now w c st"
| "state_op get put now (ReleaseClaim w i) st = releaseClaim get put now w i st"

text \<open>The answers of a sequence of calls, and the store after it.\<close>

fun state_ops where
  "state_ops get put [] st = ([], st)"
| "state_ops get put ((now, op) # ops) st =
     (case state_op get put now op st of
        Inl e \<Rightarrow> (let (rs, st) = state_ops get put ops st in (Inl e # rs, st))
      | Inr (r, st) \<Rightarrow> (let (rs, st) = state_ops get put ops st in (Inr r # rs, st)))"

text \<open>A finite map of states.\<close>

definition view_get :: "string \<Rightarrow> (string \<Rightarrow> stored_worker option) \<Rightarrow> stored_worker option" where
  "view_get w m = m w"

definition view_put :: "string \<Rightarrow> stored_worker \<Rightarrow> (string \<Rightarrow> stored_worker option) \<Rightarrow> (string \<Rightarrow> stored_worker option)" where
  "view_put w s m = m(w \<mapsto> s)"

text \<open>What both stores promise.\<close>

locale worker_states =
  fixes get :: "string \<Rightarrow> 's \<Rightarrow> stored_worker option" and put :: "string \<Rightarrow> stored_worker \<Rightarrow> 's \<Rightarrow> 's"
  assumes get_put: "get w (put v s st) = (if w = v then Some s else get w st)"
begin

lemma view_of_put: "(\<lambda>w. get w (put v s st)) = view_put v s (\<lambda>w. get w st)"
  by (auto simp: get_put view_put_def)

text \<open>Every store that keeps the law computes what a finite map computes.\<close>

lemma op_view:
  "map_sum id (\<lambda>(r, st). (r, \<lambda>w. get w st)) (state_op get put now op st) = state_op view_get view_put now op (\<lambda>w. get w st)"
  by (cases op) (auto simp: registerWorker_def appendFireRecord_def writeClaim_def releaseClaim_def update_existing_def view_of_put view_get_def Let_def split: option.splits)

lemma ops_view:
  "map_prod id (\<lambda>st w. get w st) (state_ops get put ops st) = state_ops view_get view_put ops (\<lambda>w. get w st)"
proof (induction ops arbitrary: st)
  case (Cons p ops)
  obtain now op where p: "p = (now, op)" by (cases p)
  show ?case
  proof (cases "state_op get put now op st")
    case (Inl e)
    then have "state_op view_get view_put now op (\<lambda>w. get w st) = Inl e" using op_view [of now op st] by simp
    with Inl p show ?thesis by (simp add: Cons [symmetric] Let_def case_prod_beta)
  next
    case (Inr q)
    obtain r st' where q: "q = (r, st')" by (cases q)
    from Inr q have "state_op view_get view_put now op (\<lambda>w. get w st) = Inr (r, \<lambda>w. get w st')" using op_view [of now op st] by simp
    with Inr p q show ?thesis by (simp add: Cons [symmetric] Let_def case_prod_beta)
  qed
qed simp

end


interpretation file_states: worker_states readRaw writeAtomic
  by unfold_locales (auto simp: readRaw_def writeAtomic_def)

section \<open>Both stores are one\<close>


section \<open>History\<close>

text \<open>What every operation keeps of a worker that is registered.\<close>

definition keeps :: "stored_worker \<Rightarrow> stored_worker \<Rightarrow> bool" where
  "keeps s s' \<longleftrightarrow> (\<exists>new. ws_fireHistory s' = ws_fireHistory s @ new) \<and> ws_workerId s' = ws_workerId s \<and> ws_registeredAt s' = ws_registeredAt s \<and>
     ws_metadata s' = ws_metadata s"

lemma keeps_trans: "keeps a b \<Longrightarrow> keeps b c \<Longrightarrow> keeps a c"
  by (auto simp: keeps_def)

text \<open>The last fired window is that of the last record, claims name different windows, and a worker is stored under its id.\<close>

definition state_ok :: "string \<Rightarrow> stored_worker \<Rightarrow> bool" where
  "state_ok w s \<longleftrightarrow> ws_workerId s = w \<and> ws_schemaVersion s = WORKER_STATE_SCHEMA_VERSION \<and> distinct (map wc_windowId (ws_activeClaims s)) \<and>
     ws_lastFiredWindowStart s = (if ws_fireHistory s = [] then None else Some (wf_windowStart (last (ws_fireHistory s)))) \<and>
     ws_lastFiredWindowEnd s = (if ws_fireHistory s = [] then None else Some (wf_windowEnd (last (ws_fireHistory s))))"

lemma state_ok_steps:
  "ri_workerId i = w \<Longrightarrow> state_ok w (registered now i)" "state_ok w s \<Longrightarrow> state_ok w (with_fire now r s)"
  "state_ok w s \<Longrightarrow> state_ok w (with_claim now c s)" "state_ok w s \<Longrightarrow> state_ok w (without_claim now k s)"
  by (auto simp: state_ok_def registered_def with_fire_def with_claim_def without_claim_def distinct_map_filter)

text \<open>A copy of a state that differs in the time of its last update only.\<close>

definition copy_of :: "stored_worker \<Rightarrow> stored_worker \<Rightarrow> bool" where
  "copy_of s s' \<longleftrightarrow> s'\<lparr>ws_updatedAt := ws_updatedAt s\<rparr> = s"

lemma fold_fire: "rs \<noteq> [] \<Longrightarrow> fold (with_fire now) rs s = s\<lparr>ws_updatedAt := now, ws_lastFiredWindowStart := Some (wf_windowStart (last rs)),
    ws_lastFiredWindowEnd := Some (wf_windowEnd (last rs)), ws_fireHistory := ws_fireHistory s @ rs\<rparr>"
  by (induction rs arbitrary: s) (auto simp: with_fire_def)

lemma fold_claim: "distinct (map wc_windowId (ws_activeClaims s @ cs)) \<Longrightarrow>
    fold (with_claim now) cs s = (if cs = [] then s else s\<lparr>ws_updatedAt := now, ws_activeClaims := ws_activeClaims s @ cs\<rparr>)"
proof (induction cs arbitrary: s)
  case (Cons c cs)
  then have "wc_windowId c \<notin> wc_windowId ` set (ws_activeClaims s)" by simp
  then have "\<And>d. d \<in> set (ws_activeClaims s) \<Longrightarrow> wc_windowId d \<noteq> wc_windowId c" by (metis image_eqI)
  then have "filter (\<lambda>d. wc_windowId d \<noteq> wc_windowId c) (ws_activeClaims s) = ws_activeClaims s" by (simp add: filter_id_conv)
  then have "with_claim now c s = s\<lparr>ws_updatedAt := now, ws_activeClaims := ws_activeClaims s @ [c]\<rparr>" by (simp add: with_claim_def)
  with Cons show ?case by auto
qed simp

context worker_states
begin

lemma state_op_keeps:
  assumes "state_op get put now op st = Inr (r, st')" "get w st = Some s"
  shows "\<exists>s'. get w st' = Some s' \<and> keeps s s'"
  using assms
  by (cases op) (auto simp: registerWorker_def appendFireRecord_def writeClaim_def releaseClaim_def update_existing_def keeps_def with_fire_def with_claim_def
      without_claim_def get_put Let_def split: option.splits if_splits)

lemma state_ops_keeps: "get w st = Some s \<Longrightarrow> \<exists>s'. get w (snd (state_ops get put ops st)) = Some s' \<and> keeps s s'"
proof (induction ops arbitrary: st s)
  case Nil
  then show ?case by (auto simp: keeps_def)
next
  case (Cons p ops)
  obtain now op where p: "p = (now, op)" by (cases p)
  show ?case
  proof (cases "state_op get put now op st")
    case (Inl e)
    with Cons p show ?thesis by (simp add: case_prod_beta)
  next
    case (Inr q)
    obtain r st' where q: "q = (r, st')" by (cases q)
    from state_op_keeps [OF Inr [unfolded q] Cons.prems] obtain s' where s': "get w st' = Some s'" "keeps s s'" by blast
    from Cons.IH [OF s'(1)] s'(2) keeps_trans obtain s'' where "get w (snd (state_ops get put ops st')) = Some s''" "keeps s s''" by blast
    with Inr p q show ?thesis by (simp add: case_prod_beta)
  qed
qed

definition store_ok :: "'s \<Rightarrow> bool" where
  "store_ok st \<longleftrightarrow> (\<forall>w s. get w st = Some s \<longrightarrow> state_ok w s)"

lemma update_ok:
  assumes "store_ok st" "update_existing get put w f st = Inr (r, st')" "\<And>s. state_ok w s \<Longrightarrow> state_ok w (f s)"
  shows "store_ok st'"
  using assms by (auto simp: update_existing_def store_ok_def get_put split: option.splits if_splits)

lemma state_op_ok:
  assumes "store_ok st" "state_op get put now op st = Inr (r, st')"
  shows "store_ok st'"
proof (cases op)
  case (RegisterWorker i)
  with assms state_ok_steps(1) [of i _ now] show ?thesis
    by (auto simp: registerWorker_def store_ok_def get_put Let_def split: option.splits if_splits)
next
  case (AppendFire w f)
  with assms show ?thesis by (auto simp: appendFireRecord_def intro: update_ok state_ok_steps)
next
  case (WriteClaim w c)
  with assms show ?thesis by (auto simp: writeClaim_def intro: update_ok state_ok_steps)
next
  case (ReleaseClaim w k)
  with assms show ?thesis by (auto simp: releaseClaim_def intro: update_ok state_ok_steps)
qed

lemma state_ops_ok: "store_ok st \<Longrightarrow> store_ok (snd (state_ops get put ops st))"
proof (induction ops arbitrary: st)
  case (Cons p ops)
  obtain now op where p: "p = (now, op)" by (cases p)
  show ?case
  proof (cases "state_op get put now op st")
    case (Inr q)
    with Cons p state_op_ok show ?thesis by (cases q) (fastforce simp: case_prod_beta)
  qed (use Cons p in \<open>simp add: case_prod_beta\<close>)
qed simp

lemma do_all_update:
  assumes "\<And>x st s. get w st = Some s \<Longrightarrow> F x st = Inr (g x s, put w (g x s) st)" "get w st = Some s"
  shows "\<exists>st'. do_all F xs st = Inr st' \<and> (\<forall>v. v \<noteq> w \<longrightarrow> get v st' = get v st) \<and> get w st' = Some (fold g xs s)"
  using assms(2)
proof (induction xs arbitrary: st s)
  case (Cons x xs)
  from Cons.IH [of "put w (g x s) st" "g x s"] obtain st' where "do_all F xs (put w (g x s) st) = Inr st'"
    "\<forall>v. v \<noteq> w \<longrightarrow> get v st' = get v (put w (g x s) st)" "get w st' = Some (fold g xs (g x s))" by (auto simp: get_put)
  with assms(1) [OF Cons.prems] show ?case by (simp add: get_put)
qed simp

lemma do_all_fire:
  "get w st = Some s \<Longrightarrow> \<exists>st'. do_all (appendFireRecord get put now w) rs st = Inr st' \<and> (\<forall>v. v \<noteq> w \<longrightarrow> get v st' = get v st) \<and>
     get w st' = Some (fold (with_fire now) rs s)"
  by (rule do_all_update) (simp_all add: appendFireRecord_def update_existing_def)

lemma do_all_claim:
  "get w st = Some s \<Longrightarrow> \<exists>st'. do_all (writeClaim get put now w) cs st = Inr st' \<and> (\<forall>v. v \<noteq> w \<longrightarrow> get v st' = get v st) \<and>
     get w st' = Some (fold (with_claim now) cs s)"
  by (rule do_all_update) (simp_all add: writeClaim_def update_existing_def)

lemma migrate_worker_copies:
  assumes "state_ok w s" "get w st = None"
  shows "\<exists>st' s'. migrate_worker get put now s st = Inr st' \<and> get w st' = Some s' \<and> copy_of s s' \<and> (\<forall>v. v \<noteq> w \<longrightarrow> get v st' = get v st)"
proof -
  let ?i = "\<lparr>ri_workerId = ws_workerId s, ri_registeredAt = Some (ws_registeredAt s), ri_metadata = Some (ws_metadata s)\<rparr>"
  let ?s0 = "registered now ?i"
  have w: "ws_workerId s = w" using assms(1) by (simp add: state_ok_def)
  have reg: "registerWorker get put now ?i st = (?s0, put w ?s0 st)" using assms(2) w by (simp add: registerWorker_def Let_def)
  from do_all_fire [of w "put w ?s0 st" ?s0 now "ws_fireHistory s"] obtain st1 where st1: "do_all (appendFireRecord get put now w) (ws_fireHistory s) (put w ?s0 st) = Inr st1"
    "\<forall>v. v \<noteq> w \<longrightarrow> get v st1 = get v st" "get w st1 = Some (fold (with_fire now) (ws_fireHistory s) ?s0)" by (auto simp: get_put)
  from do_all_claim [OF st1(3), of now "ws_activeClaims s"] obtain st2 where st2: "do_all (writeClaim get put now w) (ws_activeClaims s) st1 = Inr st2"
    "\<forall>v. v \<noteq> w \<longrightarrow> get v st2 = get v st1" "get w st2 = Some (fold (with_claim now) (ws_activeClaims s) (fold (with_fire now) (ws_fireHistory s) ?s0))" by blast
  have run: "migrate_worker get put now s st = Inr st2" using reg st1(1) st2(1) by (simp add: migrate_worker_def w)
  have "ws_activeClaims (fold (with_fire now) (ws_fireHistory s) ?s0) = []"
    by (cases "ws_fireHistory s = []") (simp_all add: fold_fire registered_def)
  then have "copy_of s (fold (with_claim now) (ws_activeClaims s) (fold (with_fire now) (ws_fireHistory s) ?s0))"
    using assms(1) by (cases "ws_fireHistory s = []") (auto simp: fold_claim fold_fire copy_of_def state_ok_def registered_def or_default_simps)
  with run st1(2) st2(2,3) show ?thesis by auto
qed

lemma migrate_all_copies:
  assumes "distinct (map ws_workerId ss)" "\<forall>s \<in> set ss. state_ok (ws_workerId s) s \<and> get (ws_workerId s) st = None"
  shows "\<exists>st'. migrateWorkerState get put now ss st = Inr st' \<and> (\<forall>s \<in> set ss. \<exists>s'. get (ws_workerId s) st' = Some s' \<and> copy_of s s') \<and>
    (\<forall>v. v \<notin> ws_workerId ` set ss \<longrightarrow> get v st' = get v st)"
  using assms
proof (induction ss arbitrary: st)
  case (Cons s ss)
  from migrate_worker_copies [of "ws_workerId s" s st now] Cons.prems(2) obtain st1 s1 where
    st1: "migrate_worker get put now s st = Inr st1" "get (ws_workerId s) st1 = Some s1" "copy_of s s1" "\<forall>v. v \<noteq> ws_workerId s \<longrightarrow> get v st1 = get v st" by auto
  have "\<forall>t \<in> set ss. state_ok (ws_workerId t) t \<and> get (ws_workerId t) st1 = None" using Cons.prems st1(4) by (auto simp: image_iff)
  with Cons.IH [of st1] Cons.prems(1) obtain st2 where st2: "migrateWorkerState get put now ss st1 = Inr st2"
    "\<forall>t \<in> set ss. \<exists>s'. get (ws_workerId t) st2 = Some s' \<and> copy_of t s'" "\<forall>v. v \<notin> ws_workerId ` set ss \<longrightarrow> get v st2 = get v st1" by auto
  have "get (ws_workerId s) st2 = Some s1" using st2(3) st1(2) Cons.prems(1) by simp
  with st1 st2 show ?case by auto
qed simp

end

text \<open>
  fire history is append-only. Whatever calls follow, a worker of the file store stays registered with its id, registration time and
  metadata, and its history keeps every record in its place.
\<close>

theorem history_append_only:
  assumes "readRaw w d = Some s"
  shows "\<exists>s' new. readRaw w (snd (state_ops readRaw writeAtomic ops d)) = Some s' \<and> ws_fireHistory s' = ws_fireHistory s @ new \<and>
    ws_workerId s' = ws_workerId s \<and> ws_registeredAt s' = ws_registeredAt s \<and> ws_metadata s' = ws_metadata s"
  using file_states.state_ops_keeps [OF assms, of ops] by (auto simp: keeps_def)



section \<open>Calls of the file store that overlap\<close>

text \<open>A method of the file store reads, and writes what it computed from that; other calls can come in between.\<close>

datatype file_call = FileRead nat string worker_op | FileWrite nat

definition prepared :: "string \<Rightarrow> worker_op \<Rightarrow> state_dir \<Rightarrow> (string \<times> stored_worker) option" where
  "prepared now op d =
     (case op of
        RegisterWorker i \<Rightarrow> (case readRaw (ri_workerId i) d of Some _ \<Rightarrow> None | None \<Rightarrow> Some (ri_workerId i, registered now i))
      | AppendFire w r \<Rightarrow> map_option (\<lambda>s. (w, with_fire now r s)) (readRaw w d)
      | WriteClaim w c \<Rightarrow> map_option (\<lambda>s. (w, with_claim now c s)) (readRaw w d)
      | ReleaseClaim w k \<Rightarrow> map_option (\<lambda>s. (w, without_claim now k s)) (readRaw w d))"

fun file_call_step :: "file_call \<Rightarrow> state_dir \<times> (nat \<Rightarrow> (string \<times> stored_worker) option) \<Rightarrow> state_dir \<times> (nat \<Rightarrow> (string \<times> stored_worker) option)" where
  "file_call_step (FileRead i now op) (d, pending) = (d, pending(i := prepared now op d))"
| "file_call_step (FileWrite i) (d, pending) =
     (case pending i of None \<Rightarrow> (d, pending) | Some (w, s) \<Rightarrow> (writeAtomic w s d, pending(i := None)))"

definition file_calls :: "file_call list \<Rightarrow> state_dir \<Rightarrow> state_dir" where
  "file_calls cs d = fst (fold file_call_step cs (d, \<lambda>_. None))"

text \<open>A call that is not interrupted is the operation.\<close>

lemma file_call_alone:
  "file_calls [FileRead i now op, FileWrite i] d = (case state_op readRaw writeAtomic now op d of Inl _ \<Rightarrow> d | Inr (_, d') \<Rightarrow> d')"
  by (cases op) (auto simp: file_calls_def prepared_def registerWorker_def appendFireRecord_def writeClaim_def releaseClaim_def update_existing_def Let_def
      split: option.splits)


text \<open>No store checks a claim of one worker against those of another.\<close>

lemma two_workers_claim_one_window:
  assumes "mem_getWorker v m = Some s" "mem_getWorker w m = Some t" "v \<noteq> w"
  shows "\<exists>r1 m1 r2 m2. writeClaim mem_getWorker mem_putWorker now v c m = Inr (r1, m1) \<and> writeClaim mem_getWorker mem_putWorker now w c m1 = Inr (r2, m2) \<and>
    c \<in> set (ws_activeClaims r1) \<and> c \<in> set (ws_activeClaims r2) \<and> mem_getWorker v m2 = Some r1 \<and> mem_getWorker w m2 = Some r2"
  using assms by (simp add: writeClaim_def update_existing_def with_claim_def mem_getWorker_def mem_putWorker_def)

section \<open>Examples\<close>

definition sample_dir :: state_dir where
  "sample_dir = [(safeFilename ''a/b'', Some (registered ''t0'' \<lparr>ri_workerId = ''a/b'', ri_registeredAt = None, ri_metadata = None\<rparr>))]"

definition sample_fire :: "string \<Rightarrow> worker_fire_record" where
  "sample_fire t = \<lparr>wf_windowStart = t, wf_windowEnd = t, wf_firedAt = t, wf_payload = None\<rparr>"

lemma sample_dir_read: "readRaw ''a/b'' sample_dir = Some (registered ''t0'' \<lparr>ri_workerId = ''a/b'', ri_registeredAt = None, ri_metadata = None\<rparr>)"
  by (simp add: sample_dir_def readRaw_def)

theorem history_append_only_witness:
  "\<exists>s' new. readRaw ''a/b'' (snd (state_ops readRaw writeAtomic [(''t1'', AppendFire ''a/b'' (sample_fire ''f''))] sample_dir)) = Some s' \<and> ws_fireHistory s' = [] @ new"
  using history_append_only [OF sample_dir_read, of "[(''t1'', AppendFire ''a/b'' (sample_fire ''f''))]"] by (auto simp: registered_def)


end
