(* ===== verification/Spec2Isabelle.thy ===== *)
theory Spec2Isabelle
  imports Backstop_Watcher Subscription_Lifecycle Subscription_Service Guards Retry Cost_Meter Paymaster
    Verification_Engine Cursor_Stores Engine_Stream Reputation Webhook_Delivery Verdict_Backfill Fire_Verdicts Worker_State
begin

text \<open>
  Verification of the worker runtime, the event engine and the webhook delivery of orbital-stellar.

  \<^bold>\<open>The program.\<close> Orbital is a TypeScript monorepo around Stellar. Its worker layer
  (\<^verbatim>\<open>packages/worker-core\<close>) runs automation on behalf of subscribers: a trigger turns chain events into
  fire windows, an operator claims a window and submits a transaction, failed submissions are
  retried or dead-lettered, and a backstop watches the windows of registered workers and fires the
  ones that were missed. Subscriptions to that backstop have a lifecycle with an auditable coverage
  record, and guard rails (circuit breaker, price guard, fee cap) stand in front of submission. Below it,
  \<^verbatim>\<open>packages/pulse-core\<close> has the event engine: it reads the operations of a Horizon stream and the events of
  contracts, normalises them into typed events, queues them, drops what a second transport already
  delivered, and routes the rest to the watchers of the addresses and contracts involved. Cursors are
  persisted so that a stream resumes where it stopped. \<^verbatim>\<open>packages/pulse-webhooks\<close> delivers the events of a watcher to
  HTTP endpoints: it signs them, keeps them off private addresses, bounds concurrency, retries with backoff and keeps dead letters.

  \<^bold>\<open>Theories and sources\<close> (paths below \<^verbatim>\<open>packages/worker-core/src\<close> unless said otherwise).

  \<^item> \<open>Orbital_Prelude\<close>: \<open>Map\<close> as an association list in insertion order, results of fallible code,
    safe integers, decimal printing, string search, stable sorting, untyped values.
  \<^item> \<open>Js_Numbers\<close>: numbers that may be non-finite or fractional, string order.
  \<^item> \<open>Fire_Claims\<close>: \<^verbatim>\<open>idempotency.ts\<close> (fire keys, the in-memory claim store, the manager's
    claim-then-submit, and the same protocol as an interleaving of processes with crashes) and the
    fire-claim stores of \<^verbatim>\<open>triggers/eventTrigger.ts\<close>. Locales \<open>claim_store\<close>, \<open>fire_claim_store\<close> and
    \<open>claim_adapter\<close>.
  \<^item> \<open>Contract_Filters\<close>: \<^verbatim>\<open>pulse-core/src/contractFilters.ts\<close>.
  \<^item> \<open>Event_Trigger\<close>: \<^verbatim>\<open>triggers/predicate.ts\<close> and the planner, claiming and registration of
    \<^verbatim>\<open>triggers/eventTrigger.ts\<close>.
  \<^item> \<open>Tiers\<close>: \<^verbatim>\<open>backstop/tiers.ts\<close>.
  \<^item> \<open>Backstop_Watcher\<close>: \<^verbatim>\<open>backstop/windowVerdict.ts\<close>, \<^verbatim>\<open>backstop/intervention.ts\<close>,
    \<^verbatim>\<open>backstop/BackstopWatcher.ts\<close>, and the race of primaries and watchers on one claim store.
  \<^item> \<open>Coverage\<close>: \<^verbatim>\<open>subscription/coverage.ts\<close>. Locale \<open>coverage_ledger\<close>.
  \<^item> \<open>Subscription_Lifecycle\<close>: \<^verbatim>\<open>subscription/lifecycle.ts\<close> and \<^verbatim>\<open>subscription/billing.ts\<close>.
  \<^item> \<open>Subscription_Service\<close>: \<^verbatim>\<open>subscription/types.ts\<close>, \<^verbatim>\<open>errors.ts\<close>, \<^verbatim>\<open>store.ts\<close> and
    \<^verbatim>\<open>SubscriptionService.ts\<close>. Locale \<open>subscription_store\<close>.
  \<^item> \<open>Guards\<close>: \<^verbatim>\<open>guards/circuitBreaker.ts\<close>, \<^verbatim>\<open>guards/priceGuard.ts\<close>, \<^verbatim>\<open>fees.ts\<close>.
  \<^item> \<open>Retry\<close>: \<^verbatim>\<open>errors.ts\<close>, \<^verbatim>\<open>retry.ts\<close>, \<^verbatim>\<open>WorkerDeadLetterStore.ts\<close> and
    \<^verbatim>\<open>pulse-core/src/backoff.ts\<close>. Locale \<open>worker_retry_queue\<close>.
  \<^item> \<open>Schedule\<close>: \<^verbatim>\<open>schedule.ts\<close> and \<^verbatim>\<open>TriggerEvaluator.ts\<close>; the package \<open>cron-parser\<close> is an argument.
  \<^item> \<open>Verification_Engine\<close>: \<^verbatim>\<open>verification/workerFireVerdict.ts\<close> and
    \<^verbatim>\<open>verification/WorkerVerificationEngine.ts\<close> for time and event triggers.
  \<^item> \<open>Cost_Meter\<close>: \<^verbatim>\<open>backstop/costMeter.ts\<close>.
  \<^item> \<open>Paymaster\<close>: \<^verbatim>\<open>sponsorshipPolicy.ts\<close> and \<^verbatim>\<open>Paymaster.ts\<close>; the envelope parser and the fee-bump
    builder of the Stellar SDK are arguments.

  \<^item> \<open>Reputation\<close>: \<^verbatim>\<open>reputation/window.ts\<close> and \<^verbatim>\<open>reputation/score.ts\<close>, over the reals.

  \<^item> \<open>Export_Reader\<close>: \<^verbatim>\<open>exports/types.ts\<close>, \<^verbatim>\<open>exports/sources.ts\<close> and \<^verbatim>\<open>exports/parsers.ts\<close>.
  \<^item> \<open>Verdict_Core\<close>: \<^verbatim>\<open>verification/canonical.ts\<close> and \<^verbatim>\<open>verification/verdict.ts\<close>; the hash and the collation of
    asset names are arguments.
  \<^item> \<open>Verdict_Backfill\<close>: \<^verbatim>\<open>verification/backfill.ts\<close>, \<^verbatim>\<open>verification/liveVerifier.ts\<close> and the in-memory part of
    \<^verbatim>\<open>verification/stores.ts\<close>; a run is the list of its writes, a crash a prefix of them.

  \<^item> \<open>Fire_Verdicts\<close>: \<^verbatim>\<open>verification/WorkerFireVerdictStore.ts\<close>, \<^verbatim>\<open>verification/MemoryWorkerVerdictStore.ts\<close>,
    \<^verbatim>\<open>verification/backstopVerdictStoreAdapter.ts\<close>, \<^verbatim>\<open>backstop/slo.ts\<close> and the verdict store of
    \<^verbatim>\<open>packages/abi-registry/src\<close>. Locale \<open>verdict_log\<close>.
  \<^item> \<open>Worker_State\<close>: \<^verbatim>\<open>WorkerStateStore.ts\<close>, \<^verbatim>\<open>MemoryWorkerStateStore.ts\<close>, \<^verbatim>\<open>FileWorkerStateStore.ts\<close>,
    \<^verbatim>\<open>migrateWorkerState.ts\<close>. Locale \<open>worker_states\<close>; overlapping calls of the file store are sequences of reads and writes.

  Below \<^verbatim>\<open>packages/pulse-webhooks/src\<close>:

  \<^item> \<open>Webhook_Guard\<close>: \<^verbatim>\<open>private-ip.ts\<close> and \<^verbatim>\<open>url-validator.ts\<close>; the URL parser is an argument.
  \<^item> \<open>Webhook_Verify\<close>: \<^verbatim>\<open>signing.ts\<close>, \<^verbatim>\<open>edge.ts\<close> and the verifiers of \<^verbatim>\<open>index.ts\<close>; the keyed hash is an argument.
  \<^item> \<open>Webhook_Queues\<close>: \<^verbatim>\<open>MemoryRetryQueue.ts\<close>, \<^verbatim>\<open>MemoryDeadLetterStore.ts\<close>, \<^verbatim>\<open>dedup.ts\<close>. Locale \<open>webhook_retry_queue\<close>.
  \<^item> \<open>Webhook_Delivery\<close>: \<^verbatim>\<open>backoff.ts\<close> and the class \<open>WebhookDelivery\<close> of \<^verbatim>\<open>index.ts\<close>, as a machine whose inputs are
    watcher events, stops, timers, polls and the ends of attempts.

  Below \<^verbatim>\<open>packages/pulse-core/src\<close>:

  \<^item> \<open>Stellar_Values\<close>: \<^verbatim>\<open>amount.ts\<close> and \<^verbatim>\<open>claimPredicate.ts\<close>.
  \<^item> \<open>Cursor_Stores\<close>: \<^verbatim>\<open>CursorStore.ts\<close>, \<^verbatim>\<open>MemoryCursorStore.ts\<close>, \<^verbatim>\<open>FileCursorStore.ts\<close>,
    \<^verbatim>\<open>cacheCursorStore.ts\<close>, \<^verbatim>\<open>coalesceCursorStore.ts\<close> and \<^verbatim>\<open>migrateCursors.ts\<close>. Locale \<open>cursor_store\<close>.
  \<^item> \<open>Dedupe\<close>: \<^verbatim>\<open>dedupe.ts\<close>.
  \<^item> \<open>Event_Normalize\<close>: the normalisers of \<^verbatim>\<open>EventEngine.ts\<close>.
  \<^item> \<open>Event_Engine\<close>: \<^verbatim>\<open>Watcher.ts\<close> and the subscription registries of \<^verbatim>\<open>EventEngine.ts\<close> with their
    reference counts.
  \<^item> \<open>Event_Routing\<close>: \<open>route\<close>, contract dispatch, ABI decoding outcomes and the dedupe keys of both transports.
  \<^item> \<open>Event_Queue\<close>: the event queue, its three overflow policies and the pausing of sources.
  \<^item> \<open>Engine_Stream\<close>: start and stop, reconnection with backoff, cursor persistence, health, waiting for a
    poll, and the handler that composes all of the above.

  \<^bold>\<open>How state and operations correspond.\<close> A class is a record of its fields, a method a definition
  that takes and returns that record; a thrown error is \<open>Inl\<close>, and where code can throw after it has
  changed state (the subscription's hooks, the breaker's callback) the state comes back beside the
  error. The clock, random numbers, new ids and the answers of other services are arguments. An
  interface of the code is a locale: its operations are fixed, its documented laws assumed, the
  client's lemmas proved inside, and each locale is interpreted on the code's own in-memory
  implementation. Concurrency is a step relation: \<open>idem_step\<close> (operator processes), \<open>race_step\<close>
  (primaries and watchers), \<open>lc_step\<close> (a subscription and others on its ledger), \<open>service_step\<close>. Where asynchronous
  code interleaves at its awaits, the pieces between two awaits are operations of their own and a run is a
  list of them: \<open>co_run\<close> (coalesced writes), \<open>queue_step\<close> (arrivals during a drain), \<open>stream_step\<close> (errors,
  timers and late cursor reads), \<open>wd_step\<close> (webhook deliveries).

  \<^bold>\<open>What the theorems show.\<close> No window is submitted twice (claims, the race with the backstop); plans
  are disjoint, insensitive to re-delivery and to delivery order across ledgers; the backstop acts
  only on an established miss and records every act; the coverage audit of a stretch agrees with the
  audit of its ledgers, is complete up to the open ledger and is never rewritten; a lapse is always
  announced a window ahead; subscription records replay from their audit trail; retries never leave
  their window; queues are earliest-due first; guards and fees respect their bounds; verdicts refine their
  definition and do not depend on delivery; schedules neither skip nor repeat a due time under
  \<open>fire-all\<close>; attributed costs sum to the spend; sponsorship keeps its per-user limit on every sliding window. In the event engine, normalised events
  have the fields of their type, routing reaches exactly the recipients of a reference table and each
  once, subscriptions implement an abstract count of holders, the queue is bounded, at most one stream is
  open, retries end, an operation seen on both transports is delivered once, amounts and claim predicates
  round-trip, and the wrapped cursor stores implement the plain one. A webhook never reaches a private address, no accepted
  event is lost or counted twice in any order of answers and timers, the caps hold, every retry has the same delivery id, and signed payloads are
  accepted by every verifier. A reputation score depends only on the multiset of verdicts, and a verdict on that of its
  events; a backfill agrees with the live verifier and, restarted after a crash, with an uninterrupted run. Stored
  verdicts and fire histories are append-only, the file and the memory store of worker state are one, and the alerts of the backstop monitor are the changes
  of its status. Some theorems
  state where the code differs from its comments: same-ledger delivery order, the announcement kept
  by \<open>reactivate\<close>, the evidence an open breaker drops, two classifications, the two ways a retry
  record is lost or set back, verdicts that are revised, windows that depend on the range asked
  about, an enumeration that does not end, the marginal cost after an empty window, and the daily ceiling that the
  last fee can pass; in the event engine: configuration subscriptions that are never served, a restart without
  retries, a backlog discarded by backpressure, a user's pause that is overridden, a cursor that moves back,
  contract watchers that survive \<open>stop\<close>, and cached or coalesced cursors that are lost or stale; in the
  webhook delivery: a poller that never gives up, deliveries after \<open>stop\<close>, a persisted retry lost in a shutdown, text accepted after a signature, a
  failure rate that forgets; in the backfill: a range that cannot be extended inside its last window;
  in the stores and the monitor: ledgers the monitor refuses, overlapping windows that silence it, overlapping appends that lose a record.

  \<^bold>\<open>Bounds.\<close> Ledger numbers and times are integers; where the code checks \<open>Number.isSafeInteger\<close> the
  model has the bound \<open>2^53 - 1\<close>. Every definition is total, except that
  the enumeration of due times is an option where \<open>None\<close> is a loop that does not return; \<open>drain\<close> takes a number of steps, and one
  more than the number of visible records is enough. Fractional numbers are exact rationals, so
  floating-point rounding is not modelled; reputation scores are real numbers for the same reason.

  \<^bold>\<open>Not modelled.\<close> Stores that only send SQL or Redis commands, the file system below the retry
  queue, network and user-interface code, and the Stellar SDK. Of the event engine: the construction of its clients, several
  networks behind one engine, the unified token events and replay. Of the webhooks: the adapters to Postgres, Redis and SQS, the metrics
  exporters and the command line tool.
\<close>

end
